(* ===== verification/Prelude.thy ===== *)
theory Prelude
  imports Main "HOL-Library.Product_Lexorder" "HOL-Library.Char_ord" "HOL-Library.List_Lexorder"
begin

section \<open>Shared vocabulary: results, errors, folds, binary search\<close>

text \<open>
  What every component of the model uses. A Python exception is a value: the
  scheduler's own errors carry a class, a code and the identifier of the row at
  fault, exactly the fields \<open>NetworkError\<close> and \<open>CalendarCompileError\<close> keep (the
  free-text detail is not modelled). A function that can raise returns \<open>exc + 'a\<close>.
  A loop over a list that can raise is \<open>rfold\<close>. Dictionaries are association lists
  where their insertion order is visible and partial functions otherwise.
  \<open>bisect_left\<close> and \<open>bisect_right\<close> are the standard library's binary searches.
\<close>

named_theorems result_simps \<open>unfolding of the error monad\<close>

type_synonym uuid = nat

datatype error_class =
    CalendarCompileError
  | ForwardPassError
  | BackwardPassError
  | ProgressError
  | CriticalityError
  | PlanError
  | ExecutionError
  | CodecError
  | CanonicalHashError

datatype exc =
    ValueError
  | KeyError
  | OverflowError
  | AttributeError
  | Coded error_class string "uuid option"

type_synonym 'a result = "exc + 'a"

fun rbind :: "'a result \<Rightarrow> ('a \<Rightarrow> 'b result) \<Rightarrow> 'b result" where
  "rbind (Inl e) f = Inl e"
| "rbind (Inr x) f = f x"

fun rfold :: "('a \<Rightarrow> 's \<Rightarrow> 's result) \<Rightarrow> 'a list \<Rightarrow> 's \<Rightarrow> 's result" where
  "rfold f [] s = Inr s"
| "rfold f (x # xs) s = rbind (f x s) (rfold f xs)"

text \<open>A check that raises: the rest runs only when nothing was raised.\<close>

definition raise_if :: "bool \<Rightarrow> exc \<Rightarrow> 'a result \<Rightarrow> 'a result" where
  "raise_if c e k = (if c then Inl e else k)"

lemma rbind_Inr_iff [result_simps]: "rbind m f = Inr y \<longleftrightarrow> (\<exists>x. m = Inr x \<and> f x = Inr y)"
  by (cases m) auto

lemma rbind_Inl_iff: "rbind m f = Inl e \<longleftrightarrow> m = Inl e \<or> (\<exists>x. m = Inr x \<and> f x = Inl e)"
  by (cases m) auto

lemma raise_if_Inr_iff [result_simps]: "raise_if c e k = Inr y \<longleftrightarrow> \<not> c \<and> k = Inr y"
  by (simp add: raise_if_def)

lemma rfold_append: "rfold f (xs @ ys) s = rbind (rfold f xs s) (rfold f ys)"
proof (induction xs arbitrary: s)
  case Nil
  show ?case by simp
next
  case (Cons x xs)
  then show ?case by (cases "f x s") simp_all
qed

text \<open>
  The invariant rule for a loop that did not raise: \<open>P\<close> relates the elements already
  consumed to the state.
\<close>

lemma rfold_invariant:
  assumes "rfold f xs s = Inr t"
    and "P [] s"
    and "\<And>done x rest s s'. xs = done @ x # rest \<Longrightarrow> P done s \<Longrightarrow> f x s = Inr s' \<Longrightarrow> P (done @ [x]) s'"
  shows "P xs t"
proof -
  have "P (done @ rest) t"
    if "xs = done @ rest" "P done u" "rfold f rest u = Inr t" for "done" rest u
    using that
  proof (induction rest arbitrary: "done" u)
    case Nil
    then show ?case by simp
  next
    case (Cons x rest)
    from Cons.prems(3) obtain u' where u': "f x u = Inr u'" "rfold f rest u' = Inr t"
      by (auto simp: result_simps)
    have "P (done @ [x]) u'"
      using assms(3) [OF Cons.prems(1,2) u'(1)] .
    with Cons.IH [of "done @ [x]" u'] Cons.prems(1) u'(2) show ?case by simp
  qed
  from this [of "[]" xs s] assms(1,2) show ?thesis by simp
qed

text \<open>The progress rule: under the invariant no step raises, so the loop does not.\<close>

lemma rfold_total:
  assumes "P [] s"
    and "\<And>done x rest s. xs = done @ x # rest \<Longrightarrow> P done s \<Longrightarrow> \<exists>s'. f x s = Inr s' \<and> P (done @ [x]) s'"
  shows "\<exists>t. rfold f xs s = Inr t \<and> P xs t"
proof -
  have "\<exists>t. rfold f rest u = Inr t \<and> P (done @ rest) t" if "xs = done @ rest" "P done u" for "done" rest u
    using that
  proof (induction rest arbitrary: "done" u)
    case Nil
    then show ?case by simp
  next
    case (Cons x rest)
    from assms(2) [OF Cons.prems(1,2)] obtain u' where u': "f x u = Inr u'" "P (done @ [x]) u'" by blast
    with Cons.IH [of "done @ [x]" u'] Cons.prems(1) show ?case by simp
  qed
  from this [of "[]" xs s] assms(1) show ?thesis by simp
qed

lemma rfold_no_error: "(\<And>x s. x \<in> set xs \<Longrightarrow> \<exists>s'. f x s = Inr s') \<Longrightarrow> \<exists>t. rfold f xs s = Inr t"
proof (induction xs arbitrary: s)
  case (Cons x xs)
  obtain s' where "f x s = Inr s'" using Cons.prems [of x s] by auto
  moreover have "\<exists>t. rfold f xs s' = Inr t" using Cons.prems by (intro Cons.IH) auto
  ultimately show ?case by simp
qed simp

lemma rfold_cong [fundef_cong]:
  "xs = ys \<Longrightarrow> s = t \<Longrightarrow> (\<And>x u. x \<in> set ys \<Longrightarrow> f x u = g x u) \<Longrightarrow> rfold f xs s = rfold g ys t"
proof (induction xs arbitrary: ys s t)
  case (Cons x xs)
  have "rfold f xs = rfold g xs"
  proof
    fix u
    show "rfold f xs u = rfold g xs u" using Cons.prems by (intro Cons.IH) auto
  qed
  with Cons.prems show ?case by auto
qed simp

text \<open>A comprehension whose elements can raise, and \<open>max(..., default=d)\<close>.\<close>

fun rmap :: "('a \<Rightarrow> 'b result) \<Rightarrow> 'a list \<Rightarrow> 'b list result" where
  "rmap f [] = Inr []"
| "rmap f (x # xs) = rbind (f x) (\<lambda>y. rbind (rmap f xs) (\<lambda>ys. Inr (y # ys)))"

definition max_of :: "int \<Rightarrow> int list \<Rightarrow> int" where
  "max_of d xs = (case xs of [] \<Rightarrow> d | y # ys \<Rightarrow> fold max ys y)"

definition min_of :: "int \<Rightarrow> int list \<Rightarrow> int" where
  "min_of d xs = (case xs of [] \<Rightarrow> d | y # ys \<Rightarrow> fold min ys y)"

lemma rmap_Inr_iff: "rmap f xs = Inr ys \<longleftrightarrow> list_all2 (\<lambda>x y. f x = Inr y) xs ys"
proof (induction xs arbitrary: ys)
  case Nil
  show ?case by auto
next
  case (Cons x xs)
  then show ?case by (cases ys) (auto simp: rbind_Inr_iff)
qed

lemma rmap_mem: "rmap f xs = Inr ys \<Longrightarrow> y \<in> set ys \<Longrightarrow> \<exists>x \<in> set xs. f x = Inr y"
  by (induction xs arbitrary: ys) (auto simp: rbind_Inr_iff)

lemma rmap_covers: "rmap f xs = Inr ys \<Longrightarrow> x \<in> set xs \<Longrightarrow> \<exists>y \<in> set ys. f x = Inr y"
  unfolding rmap_Inr_iff by (induction rule: list_all2_induct) auto

lemma rmap_cong [fundef_cong]: "xs = ys \<Longrightarrow> (\<And>x. x \<in> set ys \<Longrightarrow> f x = g x) \<Longrightarrow> rmap f xs = rmap g ys"
  by (induction xs arbitrary: ys) auto

lemma rmap_total: "(\<And>x. x \<in> set xs \<Longrightarrow> \<exists>y. f x = Inr y) \<Longrightarrow> \<exists>ys. rmap f xs = Inr ys"
  by (induction xs) fastforce+

lemma rmap_total_rel:
  assumes "\<And>x. x \<in> set xs \<Longrightarrow> \<exists>y. f x = Inr y \<and> Q x y"
  shows "\<exists>ys. rmap f xs = Inr ys \<and> list_all2 Q xs ys"
  using assms
proof (induction xs)
  case (Cons x xs)
  then obtain y ys where "f x = Inr y" "Q x y" "rmap f xs = Inr ys" "list_all2 Q xs ys" by fastforce
  then show ?case by simp
qed simp

lemma rmap_Inl: "rmap f xs = Inl e \<Longrightarrow> \<exists>x \<in> set xs. f x = Inl e"
  by (induction xs) (auto simp: rbind_Inl_iff)

lemma rfold_Inl: "rfold f xs s = Inl e \<Longrightarrow> \<exists>x \<in> set xs. \<exists>s. f x s = Inl e"
  by (induction xs arbitrary: s) (auto simp: rbind_Inl_iff)

lemma raise_if_Inl_iff: "raise_if c e k = Inl e' \<longleftrightarrow> (c \<and> e' = e \<or> \<not> c \<and> k = Inl e')"
  by (auto simp: raise_if_def)

lemma max_of_eq: "xs \<noteq> [] \<Longrightarrow> max_of d xs = Max (set xs)"
  by (cases xs) (auto simp: max_of_def Max.set_eq_fold simp del: list.set)

lemma min_of_eq: "xs \<noteq> [] \<Longrightarrow> min_of d xs = Min (set xs)"
  by (cases xs) (auto simp: min_of_def Min.set_eq_fold simp del: list.set)

lemma max_of_ge: "x \<in> set xs \<Longrightarrow> x \<le> max_of d xs"
  using max_of_eq [of xs d] by (cases "xs = []") auto

lemma min_of_le: "x \<in> set xs \<Longrightarrow> min_of d xs \<le> x"
  using min_of_eq [of xs d] by (cases "xs = []") auto

lemma max_of_mem: "xs \<noteq> [] \<Longrightarrow> max_of d xs \<in> set xs"
  using max_of_eq [of xs d] Max_in [of "set xs"] by simp

lemma min_of_mem: "xs \<noteq> [] \<Longrightarrow> min_of d xs \<in> set xs"
  using min_of_eq [of xs d] Min_in [of "set xs"] by simp

lemma min_of_image: "xs \<noteq> [] \<Longrightarrow> min_of d (map f xs) = Min (f ` set xs) \<and> min_of d (map f xs) \<in> f ` set xs"
  using min_of_eq [of "map f xs" d] min_of_mem [of "map f xs" d] by simp

lemma max_of_image: "xs \<noteq> [] \<Longrightarrow> max_of d (map f xs) = Max (f ` set xs) \<and> max_of d (map f xs) \<in> f ` set xs"
  using max_of_eq [of "map f xs" d] max_of_mem [of "map f xs" d] by simp

section \<open>Binary search (\<open>bisect\<close>)\<close>

function bisect_right_loop :: "int list \<Rightarrow> int \<Rightarrow> nat \<Rightarrow> nat \<Rightarrow> nat" where
  "bisect_right_loop a x lo hi =
     (if lo < hi
      then let mid = (lo + hi) div 2
           in if x < a ! mid then bisect_right_loop a x lo mid
              else bisect_right_loop a x (Suc mid) hi
      else lo)"
  by pat_completeness auto
termination
  by (relation "measure (\<lambda>(a, x, lo, hi). hi - lo)") auto

function bisect_left_loop :: "int list \<Rightarrow> int \<Rightarrow> nat \<Rightarrow> nat \<Rightarrow> nat" where
  "bisect_left_loop a x lo hi =
     (if lo < hi
      then let mid = (lo + hi) div 2
           in if a ! mid < x then bisect_left_loop a x (Suc mid) hi
              else bisect_left_loop a x lo mid
      else lo)"
  by pat_completeness auto
termination
  by (relation "measure (\<lambda>(a, x, lo, hi). hi - lo)") auto

declare bisect_right_loop.simps [simp del] bisect_left_loop.simps [simp del]

definition bisect_right :: "int list \<Rightarrow> int \<Rightarrow> nat" where
  "bisect_right a x = bisect_right_loop a x 0 (length a)"

definition bisect_left :: "int list \<Rightarrow> int \<Rightarrow> nat" where
  "bisect_left a x = bisect_left_loop a x 0 (length a)"

text \<open>On a sorted list the searches answer the partition point of the list.\<close>

lemma bisect_right_loop_spec:
  assumes "sorted a" and "hi \<le> length a" and "lo \<le> hi"
    and "\<forall>i<lo. a ! i \<le> x" and "\<forall>i<length a. hi \<le> i \<longrightarrow> x < a ! i"
  shows "bisect_right_loop a x lo hi \<le> length a
    \<and> (\<forall>i<bisect_right_loop a x lo hi. a ! i \<le> x)
    \<and> (\<forall>i<length a. bisect_right_loop a x lo hi \<le> i \<longrightarrow> x < a ! i)"
  using assms
proof (induction a x lo hi rule: bisect_right_loop.induct)
  case (1 a x lo hi)
  let ?mid = "(lo + hi) div 2"
  show ?case
  proof (cases "lo < hi")
    case False
    then have "bisect_right_loop a x lo hi = lo" by (simp add: bisect_right_loop.simps)
    with False "1.prems" show ?thesis by simp
  next
    case lt: True
    then have mid: "lo \<le> ?mid" "?mid < hi" by auto
    show ?thesis
    proof (cases "x < a ! ?mid")
      case True
      have "\<forall>i<length a. ?mid \<le> i \<longrightarrow> x < a ! i"
        using True \<open>sorted a\<close> by (meson order.strict_trans2 sorted_nth_mono)
      with "1.IH"(1) [OF lt refl True] "1.prems" mid True lt show ?thesis
        by (simp add: bisect_right_loop.simps [of a x lo hi])
    next
      case False
      have "\<forall>i<Suc ?mid. a ! i \<le> x"
        using False \<open>sorted a\<close> mid "1.prems"(2)
        by (meson less_Suc_eq_le linorder_not_less order.strict_trans1 order.trans sorted_nth_mono)
      with "1.IH"(2) [OF lt refl False] "1.prems" mid False lt show ?thesis
        by (simp add: bisect_right_loop.simps [of a x lo hi])
    qed
  qed
qed

lemma bisect_left_loop_spec:
  assumes "sorted a" and "hi \<le> length a" and "lo \<le> hi"
    and "\<forall>i<lo. a ! i < x" and "\<forall>i<length a. hi \<le> i \<longrightarrow> x \<le> a ! i"
  shows "bisect_left_loop a x lo hi \<le> length a
    \<and> (\<forall>i<bisect_left_loop a x lo hi. a ! i < x)
    \<and> (\<forall>i<length a. bisect_left_loop a x lo hi \<le> i \<longrightarrow> x \<le> a ! i)"
  using assms
proof (induction a x lo hi rule: bisect_left_loop.induct)
  case (1 a x lo hi)
  let ?mid = "(lo + hi) div 2"
  show ?case
  proof (cases "lo < hi")
    case False
    then have "bisect_left_loop a x lo hi = lo" by (simp add: bisect_left_loop.simps)
    with False "1.prems" show ?thesis by simp
  next
    case lt: True
    then have mid: "lo \<le> ?mid" "?mid < hi" by auto
    show ?thesis
    proof (cases "a ! ?mid < x")
      case True
      have "\<forall>i<Suc ?mid. a ! i < x"
        using True \<open>sorted a\<close> mid "1.prems"(2)
        by (meson less_Suc_eq_le order.strict_trans2 order.strict_trans1 sorted_nth_mono)
      with "1.IH"(1) [OF lt refl True] "1.prems" mid True lt show ?thesis
        by (simp add: bisect_left_loop.simps [of a x lo hi])
    next
      case False
      have "\<forall>i<length a. ?mid \<le> i \<longrightarrow> x \<le> a ! i"
        using False \<open>sorted a\<close> by (meson linorder_not_less order.trans sorted_nth_mono)
      with "1.IH"(2) [OF lt refl False] "1.prems" mid False lt show ?thesis
        by (simp add: bisect_left_loop.simps [of a x lo hi])
    qed
  qed
qed

lemma bisect_right_spec:
  assumes "sorted a"
  shows "bisect_right a x \<le> length a"
    and "i < bisect_right a x \<Longrightarrow> a ! i \<le> x"
    and "i < length a \<Longrightarrow> bisect_right a x \<le> i \<Longrightarrow> x < a ! i"
  using bisect_right_loop_spec [of a "length a" 0 x] assms unfolding bisect_right_def by auto

lemma bisect_left_spec:
  assumes "sorted a"
  shows "bisect_left a x \<le> length a"
    and "i < bisect_left a x \<Longrightarrow> a ! i < x"
    and "i < length a \<Longrightarrow> bisect_left a x \<le> i \<Longrightarrow> x \<le> a ! i"
  using bisect_left_loop_spec [of a "length a" 0 x] assms unfolding bisect_left_def by auto

subsection \<open>Dictionary order\<close>

text \<open>The keys of a dict filled from a list: first occurrences, in order.\<close>

definition dict_keys :: "'a list \<Rightarrow> 'a list" where
  "dict_keys us = rev (remdups (rev us))"

lemma set_dict_keys [simp]: "set (dict_keys us) = set us"
  by (simp add: dict_keys_def)

lemma distinct_dict_keys [simp]: "distinct (dict_keys us)"
  by (simp add: dict_keys_def)

text \<open>\<open>all(...)\<close> over a test that can raise: it stops at the first failure.\<close>

fun rall :: "('a \<Rightarrow> bool result) \<Rightarrow> 'a list \<Rightarrow> bool result" where
  "rall f [] = Inr True"
| "rall f (x # xs) = rbind (f x) (\<lambda>b. if b then rall f xs else Inr False)"

text \<open>A loop that breaks at the first row without an answer.\<close>

fun rtake :: "('a \<Rightarrow> 'b option result) \<Rightarrow> 'a list \<Rightarrow> 'b list result" where
  "rtake f [] = Inr []"
| "rtake f (x # xs) = rbind (f x) (\<lambda>y. case y of None \<Rightarrow> Inr [] | Some y \<Rightarrow> rbind (rtake f xs) (\<lambda>ys. Inr (y # ys)))"

end
