(* ===== verification/Calendar_Arithmetic.thy ===== *)
theory Calendar_Arithmetic
  imports Prelude
begin

section \<open>Working-time arithmetic (\<open>core/calendar/arithmetic.py\<close>)\<close>

text \<open>
  Coordinates are integers; an interval \<open>(s, f)\<close> is half open. The first group is the
  reference implementation (scans over the interval list), the second the indexed layer
  the engine calls (\<open>CompiledIntervals\<close> and its bisects). A tuple that grows at its end
  while the loop looks at its last element is modelled by the reversed list, reversed once
  at the end.
\<close>

type_synonym interval = "int \<times> int"

subsection \<open>Reference implementation\<close>

fun intersect_intervals :: "interval list \<Rightarrow> interval list \<Rightarrow> interval list" where
  "intersect_intervals ((a, b) # ls) ((c, d) # rs) =
     (let start = max a c; finish = min b d;
          rest = (if b \<le> d then intersect_intervals ls ((c, d) # rs)
                  else intersect_intervals ((a, b) # ls) rs)
      in if start < finish then (start, finish) # rest else rest)"
| "intersect_intervals [] rs = []"
| "intersect_intervals ls [] = []"

definition contains_coordinate :: "int \<Rightarrow> interval list \<Rightarrow> bool" where
  "contains_coordinate x ivs = list_ex (\<lambda>(start, finish). start \<le> x \<and> x < finish) ivs"

fun consume_loop :: "int \<Rightarrow> int \<Rightarrow> interval list \<Rightarrow> int option" where
  "consume_loop remaining cursor [] = None"
| "consume_loop remaining cursor ((s, f) # ivs) =
     (if f \<le> cursor then consume_loop remaining cursor ivs
      else let cursor' = (if cursor < s then s else cursor);
               available = f - cursor'
           in if remaining \<le> available then Some (cursor' + remaining)
              else consume_loop (remaining - available) f ivs)"

definition consume_duration :: "int \<Rightarrow> int \<Rightarrow> interval list \<Rightarrow> int option" where
  "consume_duration start duration ivs =
     (if duration < 0 then None
      else if duration = 0 then (if contains_coordinate start ivs then Some start else None)
      else if \<not> contains_coordinate start ivs then None
      else consume_loop duration start ivs)"

fun shift_forward_loop :: "int \<Rightarrow> int \<Rightarrow> interval list \<Rightarrow> int option" where
  "shift_forward_loop remaining cursor [] = None"
| "shift_forward_loop remaining cursor ((s, f) # ivs) =
     (if f \<le> cursor then shift_forward_loop remaining cursor ivs
      else let position = max cursor s; available = f - position
           in if remaining \<le> available then Some (position + remaining)
              else shift_forward_loop (remaining - available) f ivs)"

fun shift_backward_loop :: "int \<Rightarrow> int \<Rightarrow> interval list \<Rightarrow> int option" where
  "shift_backward_loop remaining cursor [] = None"
| "shift_backward_loop remaining cursor ((s, f) # ivs) =
     (if s \<ge> cursor then shift_backward_loop remaining cursor ivs
      else let position = min cursor f; available = position - s
           in if remaining \<le> available then Some (position - remaining)
              else shift_backward_loop (remaining - available) s ivs)"

definition shift_working_time :: "int \<Rightarrow> int \<Rightarrow> interval list \<Rightarrow> int option" where
  "shift_working_time anchor lag ivs =
     (if lag = 0 then Some anchor
      else if lag > 0 then shift_forward_loop lag anchor ivs
      else shift_backward_loop (- lag) anchor (rev ivs))"

fun productive_segments :: "int \<Rightarrow> int \<Rightarrow> interval list \<Rightarrow> interval list" where
  "productive_segments start finish [] = []"
| "productive_segments start finish ((s, f) # ivs) =
     (let a = max start s; b = min finish f
      in if a < b then (a, b) # productive_segments start finish ivs
         else productive_segments start finish ivs)"

subsection \<open>The indexed layer\<close>

fun merge_step :: "interval \<Rightarrow> interval list \<Rightarrow> interval list" where
  "merge_step (start, finish) merged =
     (if finish \<le> start then merged
      else case merged of
        [] \<Rightarrow> [(start, finish)]
      | (ps, pf) # ms \<Rightarrow> (if start \<le> pf then (ps, max pf finish) # ms
                        else (start, finish) # merged))"

definition normalise :: "interval list \<Rightarrow> interval list" where
  "normalise ivs = rev (fold merge_step (sort ivs) [])"

record compiled_intervals =
  intervals :: "interval list"
  starts :: "int list"
  finishes :: "int list"
  work_before :: "int list"

fun before_loop :: "int \<Rightarrow> interval list \<Rightarrow> int list" where
  "before_loop acc [] = []"
| "before_loop acc ((start, finish) # ivs) = acc # before_loop (acc + (finish - start)) ivs"

definition ci_of :: "interval list \<Rightarrow> compiled_intervals" where
  "ci_of ivs =
     (let clean = normalise ivs
      in \<lparr> intervals = clean, starts = map fst clean, finishes = map snd clean,
           work_before = before_loop 0 clean \<rparr>)"

definition total_work :: "compiled_intervals \<Rightarrow> int" where
  "total_work c =
     (if intervals c = [] then 0
      else last (work_before c) + (last (finishes c) - last (starts c)))"

definition ci_first :: "compiled_intervals \<Rightarrow> int option" where
  "ci_first c = (case starts c of [] \<Rightarrow> None | s # _ \<Rightarrow> Some s)"

definition ci_last :: "compiled_intervals \<Rightarrow> int option" where
  "ci_last c = (if finishes c = [] then None else Some (last (finishes c)))"

definition index_at :: "compiled_intervals \<Rightarrow> int \<Rightarrow> int" where
  "index_at c x =
     (let i = int (bisect_right (starts c) x) - 1
      in if i \<ge> 0 \<and> x < finishes c ! nat i then i else - 1)"

definition work_until :: "compiled_intervals \<Rightarrow> int \<Rightarrow> int" where
  "work_until c x =
     (let i = int (bisect_right (starts c) x) - 1
      in if i < 0 then 0
         else work_before c ! nat i + min x (finishes c ! nat i) - starts c ! nat i)"

definition next_working :: "compiled_intervals \<Rightarrow> int \<Rightarrow> int option" where
  "next_working c x =
     (if index_at c x \<ge> 0 then Some x
      else let j = bisect_right (starts c) x
           in if j < length (starts c) then Some (starts c ! j) else None)"

text \<open>The \<open>while i >= 0\<close> loop of \<open>prev_working\<close>; its argument is \<open>i + 1\<close>.\<close>

fun prev_working_loop :: "compiled_intervals \<Rightarrow> int \<Rightarrow> nat \<Rightarrow> int option" where
  "prev_working_loop c x 0 = None"
| "prev_working_loop c x (Suc i) =
     (if x > starts c ! i then Some (min x (finishes c ! i)) else prev_working_loop c x i)"

definition prev_working :: "compiled_intervals \<Rightarrow> int \<Rightarrow> int option" where
  "prev_working c x = prev_working_loop c x (bisect_right (starts c) x)"

definition prev_working_start :: "compiled_intervals \<Rightarrow> int \<Rightarrow> int option" where
  "prev_working_start c bound =
     (if index_at c bound \<ge> 0 then Some bound
      else let i = int (bisect_right (starts c) bound) - 1
           in if i < 0 then None else Some (finishes c ! nat i - 1))"

text \<open>
  The bodies of \<open>add_working\<close> and \<open>sub_working\<close> after their guards, and the functions
  themselves, whose first statement raises on a negative duration.
\<close>

definition add_positive :: "compiled_intervals \<Rightarrow> int \<Rightarrow> int \<Rightarrow> int option" where
  "add_positive c x duration =
     (case next_working c x of
        None \<Rightarrow> None
      | Some origin \<Rightarrow>
          (let target = work_until c origin + duration
           in if target > total_work c then None
              else let i = int (bisect_left (work_before c) target) - 1;
                       i' = (if i < 0 then 0 else i)
                   in Some (starts c ! nat i' + (target - work_before c ! nat i'))))"

definition add_working :: "compiled_intervals \<Rightarrow> int \<Rightarrow> int \<Rightarrow> int option result" where
  "add_working c x duration =
     raise_if (duration < 0) ValueError
       (Inr (if duration = 0 then Some x else add_positive c x duration))"

definition sub_positive :: "compiled_intervals \<Rightarrow> int \<Rightarrow> int \<Rightarrow> int option" where
  "sub_positive c x duration =
     (case prev_working c x of
        None \<Rightarrow> None
      | Some origin \<Rightarrow>
          (let target = work_until c origin - duration
           in if target < 0 then None
              else let i = int (bisect_right (work_before c) target) - 1
                   in if i < 0 then None
                      else Some (starts c ! nat i + (target - work_before c ! nat i))))"

definition sub_working :: "compiled_intervals \<Rightarrow> int \<Rightarrow> int \<Rightarrow> int option result" where
  "sub_working c x duration =
     raise_if (duration < 0) ValueError
       (Inr (if duration = 0 then Some x else sub_positive c x duration))"

definition working_between :: "compiled_intervals \<Rightarrow> int \<Rightarrow> int \<Rightarrow> int" where
  "working_between c start finish =
     (if finish \<le> start then 0 else work_until c finish - work_until c start)"

subsection \<open>Spans\<close>

text \<open>
  The branch of \<open>earliest_span\<close> taken when the plain earliest finish falls short of the
  finish bound: the reachable finish, the start behind it, and the span measured again.
\<close>

definition earliest_reach :: "compiled_intervals \<Rightarrow> int \<Rightarrow> int option" where
  "earliest_reach c bound =
     (let i = int (bisect_right (starts c) bound) - 1
      in if i \<ge> 0 \<and> starts c ! nat i < bound \<and> bound \<le> finishes c ! nat i then Some bound
         else let j = bisect_left (starts c) bound
              in if j \<ge> length (starts c) then None else Some (starts c ! j + 1))"

definition earliest_pushed ::
    "compiled_intervals \<Rightarrow> int \<Rightarrow> int \<Rightarrow> int \<Rightarrow> (int \<times> int) option result" where
  "earliest_pushed c lower finish_lower_bound duration =
     (case earliest_reach c finish_lower_bound of
        None \<Rightarrow> Inr None
      | Some reach \<Rightarrow>
          rbind (sub_working c reach duration) (\<lambda>back.
            case back of
              None \<Rightarrow> Inr None
            | Some start \<Rightarrow>
                if start < lower then Inr None
                else case next_working c start of
                       None \<Rightarrow> Inr None
                     | Some start' \<Rightarrow>
                         rbind (add_working c start' duration) (\<lambda>r.
                           Inr (map_option (Pair start') r))))"

definition earliest_span ::
    "compiled_intervals \<Rightarrow> int \<Rightarrow> int \<Rightarrow> int \<Rightarrow> int \<Rightarrow> (int \<times> int) option result" where
  "earliest_span c start_lower_bound finish_lower_bound duration horizon =
     (if duration < 0 then Inr None
      else let lower = max 0 start_lower_bound in
      if duration = 0 then
        (case next_working c (max lower finish_lower_bound) of
           None \<Rightarrow> Inr None
         | Some start \<Rightarrow> Inr (if start > horizon then None else Some (start, start)))
      else case next_working c lower of
        None \<Rightarrow> Inr None
      | Some start \<Rightarrow>
          rbind (add_working c start duration) (\<lambda>r.
            case r of
              None \<Rightarrow> Inr None
            | Some finish \<Rightarrow>
                rbind (if finish < finish_lower_bound
                       then earliest_pushed c lower finish_lower_bound duration
                       else Inr (Some (start, finish)))
                  (\<lambda>span. case span of
                      None \<Rightarrow> Inr None
                    | Some (s, f) \<Rightarrow> Inr (if f > horizon then None else Some (s, f)))))"

definition latest_span ::
    "compiled_intervals \<Rightarrow> int \<Rightarrow> int \<Rightarrow> int \<Rightarrow> int \<Rightarrow> (int \<times> int) option result" where
  "latest_span c start_upper_bound finish_upper_bound duration floor =
     (if duration < 0 then Inr None
      else if duration = 0 then
        (case prev_working_start c (min start_upper_bound finish_upper_bound) of
           None \<Rightarrow> Inr None
         | Some moment \<Rightarrow> Inr (if moment < floor then None else Some (moment, moment)))
      else case prev_working c finish_upper_bound of
        None \<Rightarrow> Inr None
      | Some finish \<Rightarrow>
          rbind (sub_working c finish duration) (\<lambda>r.
            case r of
              None \<Rightarrow> Inr None
            | Some start \<Rightarrow>
                rbind (if start > start_upper_bound
                       then (case prev_working_start c start_upper_bound of
                               None \<Rightarrow> Inr None
                             | Some reach \<Rightarrow>
                                 rbind (add_working c reach duration) (\<lambda>moved.
                                   Inr (map_option (Pair reach) moved)))
                       else Inr (Some (start, finish)))
                  (\<lambda>span. case span of
                      None \<Rightarrow> Inr None
                    | Some (s, f) \<Rightarrow> Inr (if s < floor then None else Some (s, f)))))"

end
