(* ===== verification/Working_Time.thy ===== *)
theory Working_Time
  imports Prelude
begin

section \<open>The interface of a working calendar\<close>

text \<open>
  What the engine relies on when it places work. A calendar counts: \<open>W c x\<close> units of work lie
  before \<open>x\<close>, out of \<open>T c\<close> altogether, and \<open>working c x\<close> says whether the unit that starts
  at \<open>x\<close> is one of them. The three snaps and the two shifts are specified by the count alone.
  Everything the passes need about lags and spans is proved once from these laws.
\<close>

locale Working_Calendar =
  fixes inv :: "'c \<Rightarrow> bool"
    and W :: "'c \<Rightarrow> int \<Rightarrow> int"
    and T :: "'c \<Rightarrow> int"
    and working :: "'c \<Rightarrow> int \<Rightarrow> bool"
    and nxt :: "'c \<Rightarrow> int \<Rightarrow> int option"
    and prv :: "'c \<Rightarrow> int \<Rightarrow> int option"
    and prvs :: "'c \<Rightarrow> int \<Rightarrow> int option"
    and add :: "'c \<Rightarrow> int \<Rightarrow> int \<Rightarrow> int option"
    and sub :: "'c \<Rightarrow> int \<Rightarrow> int \<Rightarrow> int option"
  assumes W_step: "inv c \<Longrightarrow> W c (x + 1) = W c x + (if working c x then 1 else 0)"
    and W_bounds: "inv c \<Longrightarrow> 0 \<le> W c x \<and> W c x \<le> T c"
    and nxt_Some: "inv c \<Longrightarrow> nxt c x = Some y \<Longrightarrow> x \<le> y \<and> working c y \<and> W c y = W c x"
    and nxt_None: "inv c \<Longrightarrow> nxt c x = None \<Longrightarrow> W c x = T c"
    and prv_Some: "inv c \<Longrightarrow> prv c x = Some y \<Longrightarrow> y \<le> x \<and> working c (y - 1) \<and> W c y = W c x"
    and prv_None: "inv c \<Longrightarrow> prv c x = None \<Longrightarrow> W c x = 0"
    and prvs_Some: "inv c \<Longrightarrow> prvs c x = Some y \<Longrightarrow> y \<le> x \<and> working c y \<and> W c (y + 1) = W c (x + 1)"
    and prvs_None: "inv c \<Longrightarrow> prvs c x = None \<Longrightarrow> W c (x + 1) = 0"
    and add_Some: "inv c \<Longrightarrow> 0 < d \<Longrightarrow> add c x d = Some y \<Longrightarrow> W c y = W c x + d \<and> working c (y - 1)"
    and add_None: "inv c \<Longrightarrow> 0 < d \<Longrightarrow> add c x d = None \<Longrightarrow> T c < W c x + d"
    and sub_Some: "inv c \<Longrightarrow> 0 < d \<Longrightarrow> sub c x d = Some y \<Longrightarrow> W c y = W c x - d \<and> working c y"
    and sub_None: "inv c \<Longrightarrow> 0 < d \<Longrightarrow> sub c x d = None \<Longrightarrow> W c x < d"
begin

lemma W_mono:
  assumes "inv c" and "x \<le> y"
  shows "W c x \<le> W c y"
  using assms(2)
proof (induction y rule: int_ge_induct)
  case base
  show ?case by simp
next
  case (step y)
  then show ?case using W_step [OF assms(1), of y] by auto
qed

lemma working_above: "inv c \<Longrightarrow> working c y \<Longrightarrow> z \<le> y \<longleftrightarrow> W c z \<le> W c y"
  using W_mono [of c "y + 1" z] W_mono [of c z y] W_step [of c y] by fastforce

lemma working_below: "inv c \<Longrightarrow> working c (y - 1) \<Longrightarrow> y \<le> z \<longleftrightarrow> W c y \<le> W c z"
  using W_mono [of c y z] W_mono [of c z "y - 1"] W_step [of c "y - 1"] by fastforce

lemma working_end: "inv c \<Longrightarrow> working c y \<Longrightarrow> W c (y + 1) = W c y + 1 \<and> W c y < T c"
  using W_step [of c y] W_bounds [of c "y + 1"] by simp

lemma working_start: "inv c \<Longrightarrow> working c (y - 1) \<Longrightarrow> W c (y - 1) = W c y - 1 \<and> 0 < W c y"
  using W_step [of c "y - 1"] W_bounds [of c "y - 1"] by simp

text \<open>The snaps and shifts are determined by their laws.\<close>

lemma nxt_iff: "inv c \<Longrightarrow> nxt c x = Some y \<longleftrightarrow> x \<le> y \<and> working c y \<and> W c y = W c x"
proof
  assume c: "inv c" and y: "x \<le> y \<and> working c y \<and> W c y = W c x"
  then obtain z where z: "nxt c x = Some z"
    using nxt_None [of c x] working_end [of c y] by (cases "nxt c x") auto
  with c y nxt_Some [of c x z] working_above [of c z y] working_above [of c y z] show "nxt c x = Some y"
    by auto
qed (use nxt_Some in blast)

lemma prv_iff: "inv c \<Longrightarrow> prv c x = Some y \<longleftrightarrow> y \<le> x \<and> working c (y - 1) \<and> W c y = W c x"
proof
  assume c: "inv c" and y: "y \<le> x \<and> working c (y - 1) \<and> W c y = W c x"
  then obtain z where z: "prv c x = Some z"
    using prv_None [of c x] working_start [of c y] by (cases "prv c x") auto
  with c y prv_Some [of c x z] working_below [of c z y] working_below [of c y z] show "prv c x = Some y"
    by auto
qed (use prv_Some in blast)

lemma prvs_iff: "inv c \<Longrightarrow> prvs c x = Some y \<longleftrightarrow> y \<le> x \<and> working c y \<and> W c (y + 1) = W c (x + 1)"
proof
  assume c: "inv c" and y: "y \<le> x \<and> working c y \<and> W c (y + 1) = W c (x + 1)"
  have Wy: "W c y = W c (x + 1) - 1" "0 \<le> W c y"
    using c y working_end [of c y] W_bounds [of c y] by simp_all
  then obtain z where z: "prvs c x = Some z"
    using prvs_None [OF c, of x] by (cases "prvs c x") auto
  note pz = prvs_Some [OF c z]
  have "W c z = W c (x + 1) - 1" using pz working_end [of c z] c by simp
  then have "y = z"
    using pz c y Wy working_above [of c z y] working_above [of c y z] by simp
  with z show "prvs c x = Some y" by simp
qed (use prvs_Some in blast)

lemma add_iff: "inv c \<Longrightarrow> 0 < d \<Longrightarrow> add c x d = Some y \<longleftrightarrow> W c y = W c x + d \<and> working c (y - 1)"
proof
  assume c: "inv c" "0 < d" and y: "W c y = W c x + d \<and> working c (y - 1)"
  then obtain z where z: "add c x d = Some z"
    using add_None [of c d x] W_bounds [of c y] by (cases "add c x d") auto
  with c y add_Some [of c d x z] working_below [of c z y] working_below [of c y z]
  show "add c x d = Some y" by auto
qed (use add_Some in blast)

lemma sub_iff: "inv c \<Longrightarrow> 0 < d \<Longrightarrow> sub c x d = Some y \<longleftrightarrow> W c y = W c x - d \<and> working c y"
proof
  assume c: "inv c" "0 < d" and y: "W c y = W c x - d \<and> working c y"
  then obtain z where z: "sub c x d = Some z"
    using sub_None [of c d x] W_bounds [of c y] by (cases "sub c x d") auto
  with c y sub_Some [of c d x z] working_above [of c z y] working_above [of c y z]
  show "sub c x d = Some y" by auto
qed (use sub_Some in blast)

lemma add_None_iff:
  assumes "inv c" and "0 < d"
  shows "add c x d = None \<longleftrightarrow> T c < W c x + d"
proof (cases "add c x d")
  case None
  with add_None [OF assms] show ?thesis by simp
next
  case (Some y)
  with add_Some [OF assms Some] W_bounds [OF assms(1), of y] show ?thesis by simp
qed

lemma sub_None_iff:
  assumes "inv c" and "0 < d"
  shows "sub c x d = None \<longleftrightarrow> W c x < d"
proof (cases "sub c x d")
  case None
  with sub_None [OF assms] show ?thesis by simp
next
  case (Some y)
  with sub_Some [OF assms Some] W_bounds [OF assms(1), of y] show ?thesis by simp
qed

text \<open>Adding is the least coordinate with enough work, subtracting the greatest with little enough.\<close>

lemma add_le_iff: "inv c \<Longrightarrow> 0 < d \<Longrightarrow> add c x d = Some y \<Longrightarrow> y \<le> z \<longleftrightarrow> W c x + d \<le> W c z"
  using add_Some working_below by metis

lemma le_sub_iff: "inv c \<Longrightarrow> 0 < d \<Longrightarrow> sub c x d = Some y \<Longrightarrow> z \<le> y \<longleftrightarrow> W c z \<le> W c x - d"
  using sub_Some working_above by metis

lemma add_sub_adjoint:
  assumes "inv c" and "0 < d" and "add c x d = Some y"
  shows "y \<le> z \<longleftrightarrow> (\<exists>w. sub c z d = Some w \<and> x \<le> w)"
proof (cases "sub c z d")
  case None
  with assms show ?thesis
    using sub_None [of c d z] add_le_iff [of c d x y z] W_bounds [of c x] by auto
next
  case (Some w)
  with assms show ?thesis
    using le_sub_iff [of c d z w x] add_le_iff [of c d x y z] by auto
qed

text \<open>A working span is the same object measured from either of its ends.\<close>

lemma span_sides:
  assumes "inv c" and "0 < d"
  shows "working c s \<and> add c s d = Some f \<longleftrightarrow> working c (f - 1) \<and> sub c f d = Some s"
  using add_iff [OF assms, of s f] sub_iff [OF assms, of f s] by auto

lemma span_mono:
  assumes "inv c" and "0 < d" and "add c s d = Some f" and "add c s' d = Some f'" and "s \<le> s'"
  shows "f \<le> f'"
  using add_le_iff [OF assms(1-3), of f'] add_Some [OF assms(1,2,4)] W_mono [OF assms(1,5)] by simp

lemma add_later:
  assumes "inv c" and "0 < d" and "working c s"
  shows "add c s d = Some f \<Longrightarrow> s < f"
  using add_Some [OF assms(1,2), of s f] working_above [OF assms(1,3), of f] assms(2) by auto

end

end
