(* ===== verification/Calendar_Work.thy ===== *)
theory Calendar_Work
  imports Calendar_Arithmetic Working_Time
begin

section \<open>The meaning of a compiled calendar\<close>

text \<open>
  A calendar is, abstractly, a counting function: \<open>work ivs x\<close> is the number of working
  units before coordinate \<open>x\<close>. The well-formedness of a compiled calendar is what
  \<open>CompiledIntervals\<close> promises: intervals non-empty, sorted, disjoint and non-adjacent, and
  the parallel arrays computed from them. Everything the indexed layer answers is
  characterised by the counting function; these characterisations are the laws of the
  locale \<open>Working_Calendar\<close>, whose interpretation on the model closes this theory.
\<close>

subsection \<open>Counting work\<close>

fun work :: "interval list \<Rightarrow> int \<Rightarrow> int" where
  "work [] x = 0"
| "work ((s, f) # ivs) x = max 0 (min x f - s) + work ivs x"

fun tot :: "interval list \<Rightarrow> int" where
  "tot [] = 0"
| "tot ((s, f) # ivs) = (f - s) + tot ivs"

fun wf_intervals :: "interval list \<Rightarrow> bool" where
  "wf_intervals [] = True"
| "wf_intervals ((s, f) # ivs) = (s < f \<and> (\<forall>(s', f') \<in> set ivs. f < s') \<and> wf_intervals ivs)"

definition wf_calendar :: "compiled_intervals \<Rightarrow> bool" where
  "wf_calendar c \<longleftrightarrow> wf_intervals (intervals c)
     \<and> starts c = map fst (intervals c) \<and> finishes c = map snd (intervals c)
     \<and> work_before c = before_loop 0 (intervals c)"

lemma contains_Nil [simp]: "\<not> contains_coordinate x []"
  by (simp add: contains_coordinate_def)

lemma contains_Cons [simp]:
  "contains_coordinate x ((s, f) # ivs) \<longleftrightarrow> (s \<le> x \<and> x < f) \<or> contains_coordinate x ivs"
  by (simp add: contains_coordinate_def)

lemma contains_append [simp]:
  "contains_coordinate x (xs @ ys) \<longleftrightarrow> contains_coordinate x xs \<or> contains_coordinate x ys"
  by (simp add: contains_coordinate_def)

lemma contains_iff: "contains_coordinate x ivs \<longleftrightarrow> (\<exists>(s, f) \<in> set ivs. s \<le> x \<and> x < f)"
  by (induction ivs) auto

lemma work_append [simp]: "work (xs @ ys) x = work xs x + work ys x"
  by (induction xs rule: tot.induct) auto

lemma tot_append [simp]: "tot (xs @ ys) = tot xs + tot ys"
  by (induction xs rule: tot.induct) auto

lemma wf_append:
  "wf_intervals (xs @ ys) \<longleftrightarrow> wf_intervals xs \<and> wf_intervals ys
     \<and> (\<forall>(s, f) \<in> set xs. \<forall>(s', f') \<in> set ys. f < s')"
  by (induction xs rule: wf_intervals.induct) auto

lemma wf_mem: "wf_intervals ivs \<Longrightarrow> (s, f) \<in> set ivs \<Longrightarrow> s < f"
  by (induction ivs rule: wf_intervals.induct) auto

lemma work_nonneg: "0 \<le> work ivs x"
  by (induction ivs rule: tot.induct) auto

lemma tot_nonneg: "wf_intervals ivs \<Longrightarrow> 0 \<le> tot ivs"
  by (induction ivs rule: wf_intervals.induct) auto

lemma work_le_tot: "wf_intervals ivs \<Longrightarrow> work ivs x \<le> tot ivs"
  by (induction ivs rule: wf_intervals.induct) auto

lemma work_mono: "x \<le> y \<Longrightarrow> work ivs x \<le> work ivs y"
  by (induction ivs rule: tot.induct) (auto simp: max_def min_def)

lemma work_before_all: "\<forall>(s, f) \<in> set ivs. x \<le> s \<Longrightarrow> work ivs x = 0"
  by (induction ivs rule: tot.induct) auto

lemma work_after_all: "wf_intervals ivs \<Longrightarrow> \<forall>(s, f) \<in> set ivs. f \<le> x \<Longrightarrow> work ivs x = tot ivs"
  by (induction ivs rule: wf_intervals.induct) auto

lemma not_contains_before: "\<forall>(s, f) \<in> set ivs. x < s \<Longrightarrow> \<not> contains_coordinate x ivs"
  by (auto simp: contains_iff)

lemma not_contains_after: "\<forall>(s, f) \<in> set ivs. f \<le> x \<Longrightarrow> \<not> contains_coordinate x ivs"
  by (auto simp: contains_iff)

lemma work_step:
  "wf_intervals ivs \<Longrightarrow> work ivs (x + 1) = work ivs x + (if contains_coordinate x ivs then 1 else 0)"
proof (induction ivs rule: wf_intervals.induct)
  case 1
  show ?case by simp
next
  case (2 s f ivs)
  have "\<not> contains_coordinate x ivs" if "x < f"
    using that "2.prems" by (intro not_contains_before) auto
  with 2 show ?case by (auto simp: max_def min_def)
qed

lemma finishes_bounded: "\<exists>b. \<forall>(s, f) \<in> set ivs. f \<le> (b :: int)"
proof (induction ivs)
  case Nil
  show ?case by simp
next
  case (Cons p ivs)
  then obtain b where "\<forall>(s, f) \<in> set ivs. f \<le> b" by blast
  then have "\<forall>(s, f) \<in> set (p # ivs). f \<le> max b (snd p)" by force
  then show ?case by blast
qed

lemma starts_bounded: "\<exists>b. \<forall>(s, f) \<in> set ivs. (b :: int) \<le> s"
proof (induction ivs)
  case Nil
  show ?case by simp
next
  case (Cons p ivs)
  then obtain b where "\<forall>(s, f) \<in> set ivs. b \<le> s" by blast
  then have "\<forall>(s, f) \<in> set (p # ivs). min b (fst p) \<le> s" by force
  then show ?case by blast
qed

lemma work_exhausts: "wf_intervals ivs \<Longrightarrow> \<exists>x. work ivs x = tot ivs"
  using finishes_bounded [of ivs] work_after_all by blast

lemma work_starts: "\<exists>x. work ivs x = 0"
  using starts_bounded [of ivs] work_before_all by blast

subsection \<open>The arrays of a compiled calendar\<close>

lemma sorted_starts: "wf_intervals ivs \<Longrightarrow> sorted (map fst ivs)"
  by (induction ivs rule: wf_intervals.induct) force+

lemma length_before_loop [simp]: "length (before_loop a ivs) = length ivs"
  by (induction a ivs rule: before_loop.induct) auto

lemma before_loop_nth: "i < length ivs \<Longrightarrow> before_loop a ivs ! i = a + tot (take i ivs)"
  by (induction a ivs arbitrary: i rule: before_loop.induct) (auto simp: nth_Cons split: nat.splits)

lemma before_loop_ge: "wf_intervals ivs \<Longrightarrow> x \<in> set (before_loop a ivs) \<Longrightarrow> a \<le> x"
  by (induction a ivs rule: before_loop.induct) fastforce+

lemma sorted_before_loop: "wf_intervals ivs \<Longrightarrow> sorted (before_loop a ivs)"
  by (induction a ivs rule: before_loop.induct) (auto dest: before_loop_ge)

lemma starts_split:
  assumes "wf_intervals ivs" and "bisect_right (map fst ivs) x = Suc i"
  shows "\<exists>pre s f post. ivs = pre @ (s, f) # post \<and> length pre = i \<and> s \<le> x
    \<and> (\<forall>(s', f') \<in> set pre. f' < s) \<and> s < f \<and> (\<forall>(s', f') \<in> set post. x < s' \<and> f < s')"
proof -
  note spec = bisect_right_spec [OF sorted_starts [OF assms(1)], where x = x]
  have i: "i < length ivs" using spec(1) assms(2) by simp
  obtain s f where sf: "ivs ! i = (s, f)" by force
  have split: "ivs = take i ivs @ (s, f) # drop (Suc i) ivs"
    using i sf id_take_nth_drop by metis
  have "s \<le> x" using spec(2) [of i] assms(2) i sf by simp
  moreover have "\<forall>(s', f') \<in> set (drop (Suc i) ivs). x < s'"
  proof (clarify)
    fix a b
    assume "(a, b) \<in> set (drop (Suc i) ivs)"
    then obtain k where "k < length ivs - Suc i" "ivs ! (Suc i + k) = (a, b)"
      by (metis in_set_conv_nth length_drop nth_drop add.commute i less_imp_le_nat Suc_leI)
    with spec(3) [of "Suc i + k"] assms(2) show "x < a" by simp
  qed
  moreover from assms(1) split
  have "wf_intervals (take i ivs @ (s, f) # drop (Suc i) ivs)" by metis
  ultimately show ?thesis
    using split i unfolding wf_append
    by (intro exI [of _ "take i ivs"] exI [of _ s] exI [of _ f] exI [of _ "drop (Suc i) ivs"]) auto
qed

lemma starts_none:
  assumes "wf_intervals ivs" and "bisect_right (map fst ivs) x = 0" and "(s, f) \<in> set ivs"
  shows "x < s"
proof -
  from assms(3) obtain i where "i < length ivs" "ivs ! i = (s, f)"
    by (auto simp: in_set_conv_nth)
  with bisect_right_spec(3) [OF sorted_starts [OF assms(1)], where i = i and x = x] assms(2) show ?thesis by simp
qed

subsection \<open>Every query, characterised by the counting function\<close>

lemma wf_calendarD:
  assumes "wf_calendar c"
  shows "wf_intervals (intervals c)" and "starts c = map fst (intervals c)"
    and "finishes c = map snd (intervals c)" and "work_before c = before_loop 0 (intervals c)"
  using assms by (auto simp: wf_calendar_def)

lemma work_split:
  assumes "wf_intervals (pre @ (s, f) # post)" and "s \<le> x" and "\<forall>(s', f') \<in> set post. x < s'"
  shows "work (pre @ (s, f) # post) x = tot pre + (min x f - s)"
    and "contains_coordinate x (pre @ (s, f) # post) \<longleftrightarrow> x < f"
proof -
  have "\<forall>(s', f') \<in> set pre. f' \<le> x" and "wf_intervals pre" and "s < f"
    using assms(1,2) by (auto simp: wf_append)
  moreover have "\<forall>(s', f') \<in> set post. x \<le> s'" using assms(3) by auto
  ultimately show "work (pre @ (s, f) # post) x = tot pre + (min x f - s)"
    using assms(2) by (simp add: work_after_all work_before_all)
  show "contains_coordinate x (pre @ (s, f) # post) \<longleftrightarrow> x < f"
    using \<open>\<forall>(s', f') \<in> set pre. f' \<le> x\<close> assms(2,3)
    by (simp add: not_contains_after not_contains_before)
qed

lemma work_inside:
  assumes "wf_intervals (pre @ (s, f) # post)" and "s \<le> y" and "y \<le> f"
  shows "work (pre @ (s, f) # post) y = tot pre + (y - s)"
proof -
  have "\<forall>(s', f') \<in> set post. y < s'" using assms by (auto simp: wf_append)
  from work_split(1) [OF assms(1,2) this] assms(3) show ?thesis by simp
qed

lemma bisect_cases:
  assumes "wf_calendar c"
  obtains (before) "bisect_right (starts c) x = 0" "\<forall>(s, f) \<in> set (intervals c). x < s"
      "work (intervals c) x = 0" "\<not> contains_coordinate x (intervals c)"
  | (at) pre s f post where "bisect_right (starts c) x = Suc (length pre)"
      "intervals c = pre @ (s, f) # post" "s \<le> x" "s < f" "\<forall>(s', f') \<in> set pre. f' < s"
      "\<forall>(s', f') \<in> set post. x < s' \<and> f < s'"
      "starts c ! length pre = s" "finishes c ! length pre = f" "work_before c ! length pre = tot pre"
      "work (intervals c) x = tot pre + (min x f - s)"
      "contains_coordinate x (intervals c) \<longleftrightarrow> x < f"
proof (cases "bisect_right (starts c) x")
  case 0
  with starts_none [of "intervals c" x] wf_calendarD [OF assms]
  have none: "\<forall>(s, f) \<in> set (intervals c). x < s" by auto
  then have "\<forall>(s, f) \<in> set (intervals c). x \<le> s" by auto
  with none 0 show thesis
    by (intro before) (simp_all add: work_before_all not_contains_before)
next
  case (Suc i)
  obtain pre s f post where split: "intervals c = pre @ (s, f) # post" "length pre = i" "s \<le> x" "s < f"
      "\<forall>(s', f') \<in> set pre. f' < s" "\<forall>(s', f') \<in> set post. x < s' \<and> f < s'"
    using starts_split [of "intervals c" x i] wf_calendarD [OF assms] Suc by auto
  have "\<forall>(s', f') \<in> set post. x < s'" using split(6) by auto
  note counts = work_split [OF wf_calendarD(1) [OF assms, unfolded split(1)] split(3) this]
  show thesis
  proof (rule at)
    show "bisect_right (starts c) x = Suc (length pre)" using Suc split(2) by simp
    show "starts c ! length pre = s" "finishes c ! length pre = f" "work_before c ! length pre = tot pre"
      by (simp_all add: wf_calendarD [OF assms] split(1) nth_append before_loop_nth)
    show "work (intervals c) x = tot pre + (min x f - s)"
      "contains_coordinate x (intervals c) \<longleftrightarrow> x < f"
      using counts split(1) by simp_all
  qed (use split in simp_all)
qed

lemma work_until_eq: "wf_calendar c \<Longrightarrow> work_until c x = work (intervals c) x"
  by (erule bisect_cases [of c x]) (simp_all add: work_until_def)

lemma index_at_iff: "wf_calendar c \<Longrightarrow> 0 \<le> index_at c x \<longleftrightarrow> contains_coordinate x (intervals c)"
  by (erule bisect_cases [of c x]) (simp_all add: index_at_def)

lemma next_working_Some:
  assumes wf: "wf_calendar c" and y: "next_working c x = Some y"
  shows "x \<le> y \<and> contains_coordinate y (intervals c) \<and> work (intervals c) y = work (intervals c) x"
proof (cases "contains_coordinate x (intervals c)")
  case True
  with y wf show ?thesis by (simp add: next_working_def index_at_iff)
next
  case False
  let ?j = "bisect_right (starts c) x" and ?ivs = "intervals c"
  have j: "?j < length ?ivs" and yj: "y = fst (?ivs ! ?j)"
    using y False wf by (auto simp: next_working_def index_at_iff Let_def wf_calendarD split: if_splits)
  obtain g where g: "?ivs ! ?j = (y, g)" using yj by (metis prod.collapse)
  have split: "?ivs = take ?j ?ivs @ (y, g) # drop (Suc ?j) ?ivs"
    using j g id_take_nth_drop by metis
  have wf': "wf_intervals (take ?j ?ivs @ (y, g) # drop (Suc ?j) ?ivs)"
    using wf_calendarD(1) [OF wf] split by metis
  have "x < y"
    using bisect_right_spec(3) [OF sorted_starts [OF wf_calendarD(1) [OF wf]], where i = ?j and x = x]
      j yj by (simp add: wf_calendarD(2) [OF wf])
  moreover have "work ?ivs x = tot (take ?j ?ivs)"
    using wf
  proof (cases rule: bisect_cases [of c x])
    case before
    then show ?thesis by simp
  next
    case (at pre s f post)
    then have "take ?j ?ivs = pre @ [(s, f)]" by simp
    with at False show ?thesis by simp
  qed
  moreover have "work ?ivs y = tot (take ?j ?ivs)"
  proof -
    have "y < g" using wf' by (simp add: wf_append)
    with work_inside [OF wf', of y] split show ?thesis by simp
  qed
  moreover have "contains_coordinate y ?ivs"
    using g j wf_mem [OF wf_calendarD(1) [OF wf], of y g] by (force simp: contains_iff in_set_conv_nth)
  ultimately show ?thesis by simp
qed

lemma next_working_None:
  assumes wf: "wf_calendar c" and none: "next_working c x = None"
  shows "work (intervals c) x = tot (intervals c)"
  using wf
proof (cases rule: bisect_cases [of c x])
  case before
  with none show ?thesis
    by (auto simp: next_working_def Let_def wf_calendarD [OF wf] split: if_splits)
next
  case (at pre s f post)
  have "\<not> contains_coordinate x (intervals c)"
    using none index_at_iff [OF wf] by (auto simp: next_working_def split: if_splits)
  moreover have "post = []"
    using none at by (auto simp: next_working_def Let_def wf_calendarD [OF wf] split: if_splits)
  ultimately show ?thesis using at by simp
qed

lemma prev_working_Some:
  assumes wf: "wf_calendar c" and y: "prev_working c x = Some y"
  shows "y \<le> x \<and> contains_coordinate (y - 1) (intervals c) \<and> work (intervals c) y = work (intervals c) x"
  using wf
proof (cases rule: bisect_cases [of c x])
  case before
  with y show ?thesis by (simp add: prev_working_def)
next
  case (at pre s f post)
  have wf': "wf_intervals (pre @ (s, f) # post)" using wf_calendarD(1) [OF wf] at(2) by simp
  show ?thesis
  proof (cases "s < x")
    case True
    with at y have "y = min x f" by (simp add: prev_working_def)
    with at True work_inside [OF wf', of y] show ?thesis by (auto simp: min_def)
  next
    case False
    with at have sx: "x = s" by simp
    show ?thesis
    proof (cases pre rule: rev_cases)
      case Nil
      with at y sx show ?thesis by (simp add: prev_working_def)
    next
      case (snoc pre' p)
      obtain a b where p: "p = (a, b)" by force
      have ab: "a < b" "b < s" using wf' snoc p by (auto simp: wf_append)
      have arrays: "starts c ! length pre' = a" "finishes c ! length pre' = b"
        by (simp_all add: wf_calendarD [OF wf] at(2) snoc p nth_append)
      with at y sx snoc ab have "y = b" by (simp add: prev_working_def)
      with at snoc p ab sx wf' work_inside [of pre' a b "(s, f) # post" b] show ?thesis by simp
    qed
  qed
qed

lemma prev_working_None:
  assumes wf: "wf_calendar c" and none: "prev_working c x = None"
  shows "work (intervals c) x = 0"
  using wf
proof (cases rule: bisect_cases [of c x])
  case before
  then show ?thesis by simp
next
  case (at pre s f post)
  have wf': "wf_intervals (pre @ (s, f) # post)" using wf_calendarD(1) [OF wf] at(2) by simp
  have "x = s" using at none by (cases "s < x") (simp_all add: prev_working_def)
  moreover have "pre = []"
  proof (rule ccontr)
    assume "pre \<noteq> []"
    then obtain pre' a b where snoc: "pre = pre' @ [(a, b)]" by (metis rev_exhaust surj_pair)
    have "a < b" "b < s" using wf' snoc by (auto simp: wf_append)
    moreover have "starts c ! length pre' = a"
      by (simp add: wf_calendarD [OF wf] at(2) snoc nth_append)
    ultimately show False using none at snoc \<open>x = s\<close> by (simp add: prev_working_def)
  qed
  ultimately show ?thesis using at by simp
qed

lemma prev_working_start_Some:
  assumes wf: "wf_calendar c" and y: "prev_working_start c x = Some y"
  shows "y \<le> x \<and> contains_coordinate y (intervals c)
    \<and> work (intervals c) (y + 1) = work (intervals c) (x + 1)"
  using wf
proof (cases rule: bisect_cases [of c x])
  case before
  with y show ?thesis by (simp add: prev_working_start_def index_at_iff [OF wf])
next
  case (at pre s f post)
  have wf': "wf_intervals (pre @ (s, f) # post)" using wf_calendarD(1) [OF wf] at(2) by simp
  show ?thesis
  proof (cases "x < f")
    case True
    with at y show ?thesis by (simp add: prev_working_start_def index_at_iff [OF wf])
  next
    case False
    with at y have y: "y = f - 1" by (simp add: prev_working_start_def index_at_iff [OF wf])
    have "\<forall>(s', f') \<in> set post. x + 1 \<le> s'" using at by auto
    then have "work (intervals c) (x + 1) = work (intervals c) x"
      using work_step [OF wf_calendarD(1) [OF wf], of x] at False by simp
    with y at False work_inside [OF wf', of f] show ?thesis by simp
  qed
qed

lemma prev_working_start_None:
  assumes wf: "wf_calendar c" and none: "prev_working_start c x = None"
  shows "work (intervals c) (x + 1) = 0"
  using wf
proof (cases rule: bisect_cases [of c x])
  case before
  then have "\<forall>(s, f) \<in> set (intervals c). x + 1 \<le> s" by auto
  then show ?thesis by (rule work_before_all)
next
  case (at pre s f post)
  with none show ?thesis by (cases "x < f") (simp_all add: prev_working_start_def index_at_iff [OF wf])
qed

lemma total_work_eq: "wf_calendar c \<Longrightarrow> total_work c = tot (intervals c)"
proof -
  assume wf: "wf_calendar c"
  show ?thesis
  proof (cases "intervals c" rule: rev_cases)
    case Nil
    then show ?thesis by (simp add: total_work_def)
  next
    case (snoc pre p)
    obtain s f where p: "p = (s, f)" by force
    have "last (before_loop 0 (intervals c)) = before_loop 0 (intervals c) ! length pre"
      using snoc by (subst last_conv_nth) (auto simp flip: length_0_conv)
    with snoc p show ?thesis
      by (simp add: total_work_def wf_calendarD [OF wf] before_loop_nth)
  qed
qed

text \<open>Where cumulative work reaches, and where it passes, a target.\<close>

lemma tot_take_Suc:
  assumes "ivs = pre @ (s, f) # post"
  shows "before_loop 0 ivs ! length pre = tot pre"
    and "post \<noteq> [] \<Longrightarrow> before_loop 0 ivs ! Suc (length pre) = tot pre + (f - s)"
  using assms by (auto simp: before_loop_nth neq_Nil_conv)

lemma arrays_nth:
  assumes "wf_calendar c" and "intervals c = pre @ (s, f) # post"
  shows "starts c ! length pre = s" and "finishes c ! length pre = f"
    and "work_before c ! length pre = tot pre"
  using tot_take_Suc(1) [OF assms(2)] by (simp_all add: wf_calendarD [OF assms(1)] assms(2) nth_append)

lemma split_nth:
  assumes "i < length ivs"
  obtains pre s f post where "ivs = pre @ (s, f) # post" "length pre = i"
proof -
  obtain s f where "ivs ! i = (s, f)" by force
  then have "ivs = take i ivs @ (s, f) # drop (Suc i) ivs" "length (take i ivs) = i"
    using assms id_take_nth_drop [of i ivs] by auto
  then show thesis by (rule that)
qed

lemma bisect_left_work:
  assumes wf: "wf_calendar c" and "0 < target" and "target \<le> tot (intervals c)"
  obtains pre s f post where "bisect_left (work_before c) target = Suc (length pre)"
    "intervals c = pre @ (s, f) # post" "tot pre < target" "target \<le> tot pre + (f - s)"
proof -
  let ?b = "before_loop 0 (intervals c)"
  have wfi: "wf_intervals (intervals c)" by (rule wf_calendarD(1) [OF wf])
  note spec = bisect_left_spec [OF sorted_before_loop [OF wfi], where x = target and a1 = 0]
  have ne: "intervals c \<noteq> []" using assms by auto
  then have "?b ! 0 = 0" by (cases "intervals c") auto
  then obtain i where i: "bisect_left ?b target = Suc i"
    using spec(3) [of 0] assms(2) ne by (cases "bisect_left ?b target") auto
  have il: "i < length (intervals c)" using spec(1) i by simp
  obtain pre s f post where split: "intervals c = pre @ (s, f) # post" "length pre = i"
    using il by (rule split_nth)
  have "tot pre < target" using spec(2) [of i] i tot_take_Suc(1) [OF split(1)] split(2) by simp
  moreover have "target \<le> tot pre + (f - s)"
  proof (cases "post = []")
    case True
    with assms(3) split show ?thesis by simp
  next
    case False
    with spec(3) [of "Suc i"] i tot_take_Suc(2) [OF split(1)] split show ?thesis by simp
  qed
  ultimately show thesis using i split by (intro that) (simp_all add: wf_calendarD [OF wf])
qed

lemma bisect_right_work:
  assumes wf: "wf_calendar c" and "0 \<le> target" and "target < tot (intervals c)"
  obtains pre s f post where "bisect_right (work_before c) target = Suc (length pre)"
    "intervals c = pre @ (s, f) # post" "tot pre \<le> target" "target < tot pre + (f - s)"
proof -
  let ?b = "before_loop 0 (intervals c)"
  have wfi: "wf_intervals (intervals c)" by (rule wf_calendarD(1) [OF wf])
  note spec = bisect_right_spec [OF sorted_before_loop [OF wfi], where x = target and a1 = 0]
  have ne: "intervals c \<noteq> []" using assms by auto
  then have "?b ! 0 = 0" by (cases "intervals c") auto
  then obtain i where i: "bisect_right ?b target = Suc i"
    using spec(3) [of 0] assms(2) ne by (cases "bisect_right ?b target") auto
  have il: "i < length (intervals c)" using spec(1) i by simp
  obtain pre s f post where split: "intervals c = pre @ (s, f) # post" "length pre = i"
    using il by (rule split_nth)
  have "tot pre \<le> target" using spec(2) [of i] i tot_take_Suc(1) [OF split(1)] split(2) by simp
  moreover have "target < tot pre + (f - s)"
  proof (cases "post = []")
    case True
    with assms(3) split show ?thesis by simp
  next
    case False
    with spec(3) [of "Suc i"] i tot_take_Suc(2) [OF split(1)] split show ?thesis by simp
  qed
  ultimately show thesis using i split by (intro that) (simp_all add: wf_calendarD [OF wf])
qed

lemma add_positive_Some:
  assumes wf: "wf_calendar c" and d: "0 < d" and y: "add_positive c x d = Some y"
  shows "work (intervals c) y = work (intervals c) x + d \<and> contains_coordinate (y - 1) (intervals c)"
proof -
  let ?W = "work (intervals c)"
  obtain origin where o: "next_working c x = Some origin" and "?W x + d \<le> tot (intervals c)"
    using y next_working_Some [OF wf]
    by (fastforce simp: add_positive_def Let_def work_until_eq [OF wf] total_work_eq [OF wf]
        split: option.splits if_splits)
  moreover have "0 < ?W x + d" using d work_nonneg [of "intervals c" x] by simp
  ultimately obtain pre s f post where at: "bisect_left (work_before c) (?W x + d) = Suc (length pre)"
      "intervals c = pre @ (s, f) # post" "tot pre < ?W x + d" "?W x + d \<le> tot pre + (f - s)"
    using bisect_left_work [OF wf] by metis
  have wf': "wf_intervals (pre @ (s, f) # post)" using wf_calendarD(1) [OF wf] at(2) by simp
  have "work_until c origin = ?W x" using next_working_Some [OF wf o] by (simp add: work_until_eq [OF wf])
  then have "y = s + (?W x + d - tot pre)"
    using y o at(1) by (simp add: add_positive_def Let_def arrays_nth [OF wf at(2)] split: if_splits)
  then have "tot pre + (y - s) = ?W x + d" and inside: "s \<le> y" "y \<le> f" "s \<le> y - 1" "y - 1 < f"
    using at(3,4) by linarith+
  with work_inside [OF wf', of y] have "?W y = ?W x + d" by (simp only: at(2))
  moreover have "contains_coordinate (y - 1) (intervals c)" using inside by (simp add: at(2))
  ultimately show ?thesis by simp
qed

lemma add_positive_None:
  assumes wf: "wf_calendar c" and d: "0 < d" and none: "add_positive c x d = None"
  shows "tot (intervals c) < work (intervals c) x + d"
proof (cases "next_working c x")
  case None
  with next_working_None [OF wf] d show ?thesis by simp
next
  case (Some origin)
  with none next_working_Some [OF wf Some] show ?thesis
    by (auto simp: add_positive_def Let_def work_until_eq [OF wf] total_work_eq [OF wf] split: if_splits)
qed

lemma sub_positive_Some:
  assumes wf: "wf_calendar c" and d: "0 < d" and y: "sub_positive c x d = Some y"
  shows "work (intervals c) y = work (intervals c) x - d \<and> contains_coordinate y (intervals c)"
proof -
  let ?W = "work (intervals c)"
  obtain origin where o: "prev_working c x = Some origin" and ge: "0 \<le> ?W x - d"
    using y prev_working_Some [OF wf]
    by (fastforce simp: sub_positive_def Let_def work_until_eq [OF wf]
        split: option.splits if_splits)
  moreover have "?W x - d < tot (intervals c)"
    using d work_le_tot [OF wf_calendarD(1) [OF wf], of x] by simp
  ultimately obtain pre s f post where at: "bisect_right (work_before c) (?W x - d) = Suc (length pre)"
      "intervals c = pre @ (s, f) # post" "tot pre \<le> ?W x - d" "?W x - d < tot pre + (f - s)"
    using bisect_right_work [OF wf] by metis
  have wf': "wf_intervals (pre @ (s, f) # post)" using wf_calendarD(1) [OF wf] at(2) by simp
  have "work_until c origin = ?W x" using prev_working_Some [OF wf o] by (simp add: work_until_eq [OF wf])
  then have "y = s + (?W x - d - tot pre)"
    using y o at(1) by (simp add: sub_positive_def Let_def arrays_nth [OF wf at(2)] split: if_splits)
  then have "tot pre + (y - s) = ?W x - d" and inside: "s \<le> y" "y \<le> f" "y < f"
    using at(3,4) by linarith+
  with work_inside [OF wf', of y] have "?W y = ?W x - d" by (simp only: at(2))
  moreover have "contains_coordinate y (intervals c)" using inside by (simp add: at(2))
  ultimately show ?thesis by simp
qed

lemma sub_positive_None:
  assumes wf: "wf_calendar c" and d: "0 < d" and none: "sub_positive c x d = None"
  shows "work (intervals c) x < d"
proof (cases "prev_working c x")
  case None
  with prev_working_None [OF wf] d show ?thesis by simp
next
  case (Some origin)
  let ?W = "work (intervals c)"
  note p = prev_working_Some [OF wf Some]
  show ?thesis
  proof (rule ccontr)
    assume less: "\<not> ?thesis"
    then have "0 \<le> ?W x - d" by simp
    moreover have "?W x - d < tot (intervals c)"
      using d work_le_tot [OF wf_calendarD(1) [OF wf], of x] by simp
    ultimately show False
    proof (rule bisect_right_work [OF wf])
      fix pre s f post
      assume "bisect_right (work_before c) (?W x - d) = Suc (length pre)"
      with none Some p less show False
        by (simp add: sub_positive_def Let_def work_until_eq [OF wf] split: if_splits)
    qed
  qed
qed

subsection \<open>The compiled calendar implements the interface\<close>

interpretation cal: Working_Calendar wf_calendar "\<lambda>c. work (intervals c)" "\<lambda>c. tot (intervals c)"
  "\<lambda>c x. contains_coordinate x (intervals c)" next_working prev_working prev_working_start
  add_positive sub_positive
proof
  show "0 \<le> work (intervals c) x \<and> work (intervals c) x \<le> tot (intervals c)" if "wf_calendar c" for c x
    using work_nonneg work_le_tot [OF wf_calendarD(1) [OF that]] by blast
  show "work (intervals c) (x + 1) = work (intervals c) x + (if contains_coordinate x (intervals c) then 1 else 0)"
    if "wf_calendar c" for c x
    by (rule work_step [OF wf_calendarD(1) [OF that]])
qed (fact next_working_Some next_working_None prev_working_Some prev_working_None
    prev_working_start_Some prev_working_start_None add_positive_Some add_positive_None
    sub_positive_Some sub_positive_None)+

end
