(* ===== verification/Calendar_Spans.thy ===== *)
theory Calendar_Spans
  imports Calendar_Work
begin

section \<open>What the calendar arithmetic guarantees\<close>

text \<open>
  Normalisation, intersection and segment cutting as operations on sets of coordinates; the
  indexed shifts against the reference scan; and the two placements, \<open>earliest_span\<close> and
  \<open>latest_span\<close>, as optima over all spans of a given length.
\<close>

lemma add_working_simps [simp]:
  "0 < d \<Longrightarrow> add_working c x d = Inr (add_positive c x d)"
  "add_working c x 0 = Inr (Some x)"
  "0 < d \<Longrightarrow> sub_working c x d = Inr (sub_positive c x d)"
  "sub_working c x 0 = Inr (Some x)"
  by (simp_all add: add_working_def sub_working_def raise_if_def)

subsection \<open>Normalisation\<close>

text \<open>
  The reversed accumulator: the list so far, reversed, is well formed and everything still to
  come starts at or after its last start.
\<close>

fun wf_merged :: "interval list \<Rightarrow> bool" where
  "wf_merged [] = True"
| "wf_merged ((s, f) # ms) = (s < f \<and> (\<forall>(s', f') \<in> set ms. f' < s) \<and> wf_merged ms)"

lemma wf_merged_rev: "wf_intervals (rev ms) \<longleftrightarrow> wf_merged ms"
  by (induction ms rule: wf_merged.induct) (auto simp: wf_append)

lemma contains_rev: "contains_coordinate x (rev ivs) \<longleftrightarrow> contains_coordinate x ivs"
  by (auto simp: contains_iff)

lemma merge_step_wf:
  assumes "wf_merged ms" and "\<forall>(s', f') \<in> set ms. s' \<le> s"
  shows "wf_merged (merge_step (s, f) ms) \<and> (\<forall>(s', f') \<in> set (merge_step (s, f) ms). s' \<le> s)"
  using assms by (cases ms) (fastforce split: if_splits)+

lemma merge_step_contains:
  assumes "wf_merged ms" and "\<forall>(s', f') \<in> set ms. s' \<le> s"
  shows "contains_coordinate x (merge_step (s, f) ms)
    \<longleftrightarrow> (s \<le> x \<and> x < f) \<or> contains_coordinate x ms"
  using assms by (cases ms) (auto split: if_splits)

lemma fold_merge:
  assumes "sorted ivs" and "wf_merged ms" and "\<forall>(s, f) \<in> set ivs. \<forall>(s', f') \<in> set ms. s' \<le> s"
  shows "wf_merged (fold merge_step ivs ms) \<and>
    (contains_coordinate x (fold merge_step ivs ms) \<longleftrightarrow> contains_coordinate x ivs \<or> contains_coordinate x ms)"
  using assms
proof (induction ivs arbitrary: ms)
  case Nil
  then show ?case by simp
next
  case (Cons p ivs)
  obtain s f where p: "p = (s, f)" by force
  have le: "\<forall>(s', f') \<in> set ms. s' \<le> s" using Cons.prems(3) p by auto
  note step = merge_step_wf [OF Cons.prems(2) le, of f]
  have "\<forall>(a, b) \<in> set ivs. s \<le> a"
    using Cons.prems(1) p by (auto simp: less_eq_prod_def)
  with step have "\<forall>(a, b) \<in> set ivs. \<forall>(s', f') \<in> set (merge_step (s, f) ms). s' \<le> a"
    by fastforce
  from Cons.IH [OF _ _ this] step Cons.prems(1) p merge_step_contains [OF Cons.prems(2) le, of x f]
  show ?case by auto
qed

lemma normalise_wf: "wf_intervals (normalise ivs)"
  using fold_merge [of "sort ivs" "[]"] by (simp add: normalise_def wf_merged_rev)

lemma normalise_contains: "contains_coordinate x (normalise ivs) \<longleftrightarrow> contains_coordinate x ivs"
  using fold_merge [of "sort ivs" "[]" x]
  by (simp add: normalise_def contains_rev) (simp add: contains_iff)

lemma ci_of_wf: "wf_calendar (ci_of ivs)"
  by (simp add: wf_calendar_def ci_of_def Let_def normalise_wf)

lemma ci_of_contains: "contains_coordinate x (intervals (ci_of ivs)) \<longleftrightarrow> contains_coordinate x ivs"
  by (simp add: ci_of_def Let_def normalise_contains)

subsection \<open>Intersection and segments\<close>

lemma wf_starts_after: "wf_intervals ((s, f) # ivs) \<Longrightarrow> contains_coordinate x ivs \<Longrightarrow> f < x"
  by (fastforce simp: contains_iff)

lemma intersect_contains:
  assumes "wf_intervals ls" and "wf_intervals rs"
  shows "contains_coordinate x (intersect_intervals ls rs)
    \<longleftrightarrow> contains_coordinate x ls \<and> contains_coordinate x rs"
  using assms
proof (induction ls rs rule: intersect_intervals.induct)
  case (1 a b ls c d rs)
  have "\<not> contains_coordinate x ls" if "x < b"
    using wf_starts_after [OF "1.prems"(1), of x] that by auto
  moreover have "\<not> contains_coordinate x rs" if "x < d"
    using wf_starts_after [OF "1.prems"(2), of x] that by auto
  ultimately show ?case
    using 1 by (cases "b \<le> d") (auto simp: Let_def)
qed simp_all

lemma segments_contains:
  "contains_coordinate x (productive_segments start finish ivs)
    \<longleftrightarrow> start \<le> x \<and> x < finish \<and> contains_coordinate x ivs"
  by (induction start finish ivs rule: productive_segments.induct) (auto simp: Let_def)

lemma segments_total:
  assumes "start \<le> finish"
  shows "tot (productive_segments start finish ivs) = work ivs finish - work ivs start"
  using assms
  by (induction start finish ivs rule: productive_segments.induct) (auto simp: Let_def max_def min_def)

lemma working_between_count:
  "wf_calendar c \<Longrightarrow> working_between c start finish
     = (if finish \<le> start then 0 else work (intervals c) finish - work (intervals c) start)"
  by (simp add: working_between_def work_until_eq)

subsection \<open>The reference scans, characterised like the indexed shifts\<close>

lemma shift_forward_spec:
  assumes "wf_intervals ivs" and "0 < r"
  shows "(case shift_forward_loop r cursor ivs of
      Some y \<Rightarrow> work ivs y = work ivs cursor + r \<and> contains_coordinate (y - 1) ivs
    | None \<Rightarrow> tot ivs < work ivs cursor + r)"
  using assms
proof (induction r cursor ivs rule: shift_forward_loop.induct)
  case (1 r cursor)
  then show ?case by simp
next
  case (2 r cursor s f ivs)
  have before: "work ivs y = 0" if "y \<le> f" for y
    using "2.prems"(1) that by (intro work_before_all) auto
  have after: "f < y" if "contains_coordinate (y - 1) ivs" for y
    using wf_starts_after [OF "2.prems"(1) that] by simp
  consider (skip) "f \<le> cursor" | (here) "\<not> f \<le> cursor" "r \<le> f - max cursor s"
    | (on) "\<not> f \<le> cursor" "\<not> r \<le> f - max cursor s" by blast
  then show ?case
  proof cases
    case skip
    with "2.IH"(1) "2.prems" after show ?thesis
      by (fastforce split: option.splits)
  next
    case here
    then have "max cursor s + r \<le> f" by simp
    with here before "2.prems" show ?thesis by (auto simp: max_def min_def)
  next
    case on
    with "2.IH"(2) [OF on(1) refl refl on(2)] "2.prems" after before [of cursor] before [of f]
    show ?thesis by (fastforce simp: max_def min_def split: option.splits)
  qed
qed

lemma shift_backward_spec:
  assumes "wf_intervals ivs" and "0 < r"
  shows "(case shift_backward_loop r cursor (rev ivs) of
      Some y \<Rightarrow> work ivs y = work ivs cursor - r \<and> contains_coordinate y ivs
    | None \<Rightarrow> work ivs cursor < r)"
  using assms
proof (induction ivs arbitrary: r cursor rule: rev_induct)
  case Nil
  then show ?case by simp
next
  case (snoc p ivs)
  obtain s f where p: "p = (s, f)" by force
  have wf: "wf_intervals ivs" "s < f" "\<forall>(s', f') \<in> set ivs. f' < s"
    using snoc.prems(1) p by (auto simp: wf_append)
  have full: "work ivs y = tot ivs" if "s \<le> y" for y
    using wf that by (intro work_after_all) auto
  have early: "y < s" if "contains_coordinate y ivs" for y
    using that wf(3) by (fastforce simp: contains_iff)
  consider (skip) "cursor \<le> s" | (here) "\<not> cursor \<le> s" "r \<le> min cursor f - s"
    | (on) "\<not> cursor \<le> s" "\<not> r \<le> min cursor f - s" by blast
  then show ?case
  proof cases
    case skip
    with snoc.IH [OF wf(1) snoc.prems(2), of cursor] p early show ?thesis
      by (fastforce split: option.splits)
  next
    case here
    with p full [of cursor] full [of "min cursor f - r"] snoc.prems(2) show ?thesis by auto
  next
    case on
    let ?a = "min cursor f - s"
    have W: "work (ivs @ [p]) cursor = tot ivs + ?a" using p full [of cursor] on wf(2) by simp
    have "0 < r - ?a" using on by simp
    note ih = snoc.IH [OF wf(1) this, of s]
    have eq: "shift_backward_loop r cursor (rev (ivs @ [p])) = shift_backward_loop (r - ?a) s (rev ivs)"
      using on p by simp
    show ?thesis
    proof (cases "shift_backward_loop (r - ?a) s (rev ivs)")
      case None
      with ih W full [of s] show ?thesis unfolding eq by simp
    next
      case (Some y)
      with ih W full [of s] early [of y] p show ?thesis unfolding eq by simp
    qed
  qed
qed

lemma shift_forward_eq:
  assumes "wf_calendar c" and "0 < d"
  shows "shift_forward_loop d x (intervals c) = add_positive c x d"
proof (cases "shift_forward_loop d x (intervals c)")
  case None
  with shift_forward_spec [OF wf_calendarD(1) [OF assms(1)] assms(2), of x]
    cal.add_None_iff [OF assms, of x] show ?thesis by simp
next
  case (Some y)
  with shift_forward_spec [OF wf_calendarD(1) [OF assms(1)] assms(2), of x]
    cal.add_iff [OF assms, of x y] show ?thesis by simp
qed

lemma shift_backward_eq:
  assumes "wf_calendar c" and "0 < d"
  shows "shift_backward_loop d x (rev (intervals c)) = sub_positive c x d"
proof (cases "shift_backward_loop d x (rev (intervals c))")
  case None
  with shift_backward_spec [OF wf_calendarD(1) [OF assms(1)] assms(2), of x]
    cal.sub_None_iff [OF assms, of x] show ?thesis by simp
next
  case (Some y)
  with shift_backward_spec [OF wf_calendarD(1) [OF assms(1)] assms(2), of x]
    cal.sub_iff [OF assms, of x y] show ?thesis by simp
qed

lemma consume_loop_eq: "consume_loop r x ivs = shift_forward_loop r x ivs"
  by (induction r x ivs rule: consume_loop.induct) (auto simp: Let_def max_def)

subsection \<open>Spans: what placing work means\<close>

text \<open>
  A span of length \<open>d\<close> starts on a working unit and, unless it is empty, ends just after one,
  with exactly \<open>d\<close> units of work in between. The definition mentions no algorithm.
\<close>

definition is_span :: "compiled_intervals \<Rightarrow> int \<Rightarrow> int \<Rightarrow> int \<Rightarrow> bool" where
  "is_span c d s f \<longleftrightarrow> contains_coordinate s (intervals c)
     \<and> (if d = 0 then f = s
        else contains_coordinate (f - 1) (intervals c)
          \<and> work (intervals c) f = work (intervals c) s + d)"

definition earliest_feasible :: "compiled_intervals \<Rightarrow> int \<Rightarrow> int \<Rightarrow> int \<Rightarrow> int \<Rightarrow> int \<Rightarrow> int \<Rightarrow> bool" where
  "earliest_feasible c slb flb d horizon s f \<longleftrightarrow>
     is_span c d s f \<and> 0 \<le> s \<and> slb \<le> s \<and> flb \<le> f \<and> f \<le> horizon"

definition latest_feasible :: "compiled_intervals \<Rightarrow> int \<Rightarrow> int \<Rightarrow> int \<Rightarrow> int \<Rightarrow> int \<Rightarrow> int \<Rightarrow> bool" where
  "latest_feasible c sub fub d floor s f \<longleftrightarrow>
     is_span c d s f \<and> s \<le> sub \<and> f \<le> fub \<and> floor \<le> s"

lemma is_span_pos:
  assumes "wf_calendar c" and "0 < d"
  shows "is_span c d s f \<longleftrightarrow> contains_coordinate s (intervals c) \<and> add_positive c s d = Some f"
  using cal.add_iff [OF assms, of s f] assms(2) by (auto simp: is_span_def)

lemma is_span_pos_sub:
  assumes "wf_calendar c" and "0 < d"
  shows "is_span c d s f \<longleftrightarrow> contains_coordinate (f - 1) (intervals c) \<and> sub_positive c f d = Some s"
  using is_span_pos [OF assms] cal.span_sides [OF assms] by simp

lemma is_span_mono:
  assumes "wf_calendar c" and "0 \<le> d" and "is_span c d s f" and "is_span c d s' f'" and "s \<le> s'"
  shows "f \<le> f'"
proof (cases "d = 0")
  case True
  with assms show ?thesis by (simp add: is_span_def)
next
  case False
  with assms cal.span_mono [of c d s f s' f'] show ?thesis by (simp add: is_span_pos)
qed

lemma is_span_mono_finish:
  assumes "wf_calendar c" and "0 \<le> d" and "is_span c d s f" and "is_span c d s' f'" and "f \<le> f'"
  shows "s \<le> s'"
proof (cases "d = 0")
  case True
  with assms show ?thesis by (simp add: is_span_def)
next
  case False
  then have d: "0 < d" using assms(2) by simp
  have "work (intervals c) s \<le> work (intervals c) s'"
    using assms(3,4) d cal.W_mono [OF assms(1,5)] by (simp add: is_span_def)
  then show ?thesis using cal.working_above [OF assms(1), of s' s] assms(4) by (simp add: is_span_def)
qed

lemma is_span_ordered: "wf_calendar c \<Longrightarrow> 0 < d \<Longrightarrow> is_span c d s f \<Longrightarrow> s < f"
  using cal.add_later [of c d s f] by (simp add: is_span_pos)

text \<open>The least finish at or beyond a bound.\<close>

lemma earliest_reach_eq:
  assumes wf: "wf_calendar c"
  shows "earliest_reach c b = map_option (\<lambda>y. y + 1) (next_working c (b - 1))"
proof -
  let ?ivs = "intervals c" and ?i = "bisect_right (starts c) b" and ?j = "bisect_left (starts c) b"
  have sorted: "sorted (starts c)" using sorted_starts [OF wf_calendarD(1) [OF wf]] wf by (simp add: wf_calendarD)
  show ?thesis
  proof (cases "contains_coordinate (b - 1) ?ivs")
    case True
    then have "next_working c (b - 1) = Some (b - 1)" using cal.nxt_iff [OF wf] by simp
    moreover from True obtain s f where sf: "(s, f) \<in> set ?ivs" "s < b" "b \<le> f" by (auto simp: contains_iff)
    have "earliest_reach c b = Some b"
      using wf
    proof (cases rule: bisect_cases [of c b])
      case before
      with sf show ?thesis by fastforce
    next
      case (at pre s' f' post)
      from sf at(2) consider "(s, f) \<in> set pre" | "s = s'" "f = f'" | "(s, f) \<in> set post" by auto
      then have "s = s' \<and> f = f'" using at sf by cases fastforce+
      with at sf show ?thesis by (simp add: earliest_reach_def)
    qed
    ultimately show ?thesis by simp
  next
    case False
    have nothit: "earliest_reach c b = (if ?j \<ge> length (starts c) then None else Some (starts c ! ?j + 1))"
      using wf
    proof (cases rule: bisect_cases [of c b])
      case before
      then show ?thesis by (simp add: earliest_reach_def Let_def)
    next
      case (at pre s' f' post)
      then have "\<not> (s' \<le> b - 1 \<and> b - 1 < f')" using False by simp
      then have "\<not> (s' < b \<and> b \<le> f')" by linarith
      with at show ?thesis by (auto simp: earliest_reach_def Let_def)
    qed
    have "bisect_right (starts c) (b - 1) = ?j"
    proof -
      note l = bisect_left_spec [OF sorted, where x = b]
      note r = bisect_right_spec [OF sorted, where x = "b - 1"]
      have "\<not> bisect_right (starts c) (b - 1) < ?j"
        using l(1) l(2) [of "bisect_right (starts c) (b - 1)"] r(3) [of "bisect_right (starts c) (b - 1)"]
        by fastforce
      moreover have "\<not> ?j < bisect_right (starts c) (b - 1)"
        using r(1) r(2) [of ?j] l(3) [of ?j] by fastforce
      ultimately show ?thesis by simp
    qed
    with nothit False show ?thesis
      by (simp add: next_working_def index_at_iff [OF wf] Let_def)
  qed
qed

text \<open>\<open>next_working\<close> is the first working unit at or after a coordinate.\<close>

lemma next_working_least:
  assumes wf: "wf_calendar c" and "next_working c x = Some y" and "x \<le> z" and "contains_coordinate z (intervals c)"
  shows "y \<le> z"
  using cal.nxt_Some [OF wf assms(2)] cal.W_mono [OF wf assms(3)] cal.working_above [OF wf assms(4), of y]
  by simp

lemma next_working_none:
  assumes wf: "wf_calendar c" and "next_working c x = None" and "x \<le> z"
  shows "\<not> contains_coordinate z (intervals c)"
  using cal.nxt_None [OF wf assms(2)] cal.W_mono [OF wf assms(3)] cal.working_end [OF wf, of z] by auto

lemma prev_working_start_greatest:
  assumes wf: "wf_calendar c" and "prev_working_start c x = Some y" and "z \<le> x" and "contains_coordinate z (intervals c)"
  shows "z \<le> y"
  using cal.prvs_Some [OF wf assms(2)] cal.W_mono [OF wf, of "z + 1" "x + 1"] assms(3)
    cal.working_end [OF wf assms(4)] cal.working_end [OF wf, of y] cal.working_above [OF wf, of y z]
  by simp

lemma prev_working_start_none:
  assumes wf: "wf_calendar c" and "prev_working_start c x = None" and "z \<le> x"
  shows "\<not> contains_coordinate z (intervals c)"
  using cal.prvs_None [OF wf assms(2)] cal.W_mono [OF wf, of "z + 1" "x + 1"] assms(3)
    cal.working_end [OF wf, of z] cal.W_bounds [OF wf, of z] by auto

lemma prev_working_greatest:
  assumes wf: "wf_calendar c" and "prev_working c x = Some y" and "z \<le> x"
    and "contains_coordinate (z - 1) (intervals c)"
  shows "z \<le> y"
  using cal.prv_Some [OF wf assms(2)] cal.W_mono [OF wf assms(3)] cal.working_below [OF wf assms(4), of y]
  by simp

lemma prev_working_none:
  assumes wf: "wf_calendar c" and "prev_working c x = None" and "z \<le> x"
  shows "\<not> contains_coordinate (z - 1) (intervals c)"
  using cal.prv_None [OF wf assms(2)] cal.W_mono [OF wf assms(3)] cal.working_start [OF wf, of z]
    cal.W_bounds [OF wf, of z] by auto

lemma earliest_reach_Some:
  assumes wf: "wf_calendar c" and "earliest_reach c b = Some r"
  shows "b \<le> r" and "contains_coordinate (r - 1) (intervals c)"
    and "b \<le> f \<Longrightarrow> contains_coordinate (f - 1) (intervals c) \<Longrightarrow> r \<le> f"
  using assms(2) cal.nxt_Some [OF wf, of "b - 1" "r - 1"] next_working_least [OF wf, of "b - 1" "r - 1" "f - 1"]
  by (auto simp: earliest_reach_eq [OF wf])

lemma earliest_reach_None:
  assumes wf: "wf_calendar c" and "earliest_reach c b = None" and "b \<le> f"
  shows "\<not> contains_coordinate (f - 1) (intervals c)"
  using assms(2,3) next_working_none [OF wf, of "b - 1" "f - 1"] by (simp add: earliest_reach_eq [OF wf])

text \<open>
  The pushed branch: it answers the span whose finish is the least reachable one at or beyond
  the finish bound, provided that finish lies past the plain earliest one.
\<close>

lemma earliest_pushed_spec:
  assumes wf: "wf_calendar c" and d: "0 < d" and s0: "next_working c lower = Some s0"
    and f0: "add_positive c s0 d = Some f0" and short: "f0 < flb"
  obtains (none) "earliest_pushed c lower flb d = Inr None" "\<forall>s f. is_span c d s f \<longrightarrow> flb \<le> f \<longrightarrow> False"
  | (some) s f where "earliest_pushed c lower flb d = Inr (Some (s, f))" "is_span c d s f"
      "lower \<le> s" "flb \<le> f" "\<forall>s' f'. is_span c d s' f' \<longrightarrow> flb \<le> f' \<longrightarrow> f \<le> f'"
proof (cases "earliest_reach c flb")
  case None
  then show thesis
    using earliest_reach_None [OF wf None] d by (intro none) (auto simp: earliest_pushed_def is_span_def)
next
  case (Some r)
  note reach = earliest_reach_Some [OF wf Some]
  have base: "is_span c d s0 f0" "lower \<le> s0"
    using s0 f0 cal.nxt_Some [OF wf s0] by (simp_all add: is_span_pos [OF wf d])
  have "work (intervals c) f0 \<le> work (intervals c) r"
    using cal.W_mono [OF wf, of f0 r] reach(1) short by simp
  then have "d \<le> work (intervals c) r"
    using cal.add_Some [OF wf d f0] cal.W_bounds [OF wf, of s0] by simp
  then obtain s where s: "sub_positive c r d = Some s"
    using cal.sub_None_iff [OF wf d, of r] by (cases "sub_positive c r d") auto
  have span: "is_span c d s r" using reach(2) s by (simp add: is_span_pos_sub [OF wf d])
  have "s0 \<le> s"
    using is_span_mono_finish [OF wf _ base(1) span] d reach(1) short by simp
  then have "lower \<le> s" using base(2) by simp
  moreover have "next_working c s = Some s" "add_positive c s d = Some r"
    using span cal.nxt_iff [OF wf, of s s] by (simp_all add: is_span_pos [OF wf d])
  ultimately show thesis
    using Some s span d reach
    by (intro some [of s r]) (auto simp: earliest_pushed_def is_span_def)
qed

text \<open>
  The answer of \<open>earliest_span\<close>: the least feasible span, or none when there is none.
  The three lemmas follow the three ways the function can end.
\<close>

definition earliest_answer ::
    "compiled_intervals \<Rightarrow> int \<Rightarrow> int \<Rightarrow> int \<Rightarrow> int \<Rightarrow> (int \<times> int) option result \<Rightarrow> bool" where
  "earliest_answer c slb flb d horizon r \<longleftrightarrow>
     (r = Inr None \<and> (\<forall>s f. \<not> earliest_feasible c slb flb d horizon s f))
   \<or> (\<exists>s f. r = Inr (Some (s, f)) \<and> earliest_feasible c slb flb d horizon s f
        \<and> (\<forall>s' f'. earliest_feasible c slb flb d horizon s' f' \<longrightarrow> s \<le> s' \<and> f \<le> f'))"

lemma earliest_answer_least:
  assumes "is_span c d s f" and "0 \<le> s" and "slb \<le> s" and "flb \<le> f"
    and "\<And>s' f'. is_span c d s' f' \<Longrightarrow> 0 \<le> s' \<Longrightarrow> slb \<le> s' \<Longrightarrow> flb \<le> f' \<Longrightarrow> s \<le> s' \<and> f \<le> f'"
  shows "earliest_answer c slb flb d horizon (Inr (if f > horizon then None else Some (s, f)))"
  using assms unfolding earliest_answer_def earliest_feasible_def by (auto, fastforce)

lemma earliest_answer_none:
  assumes "\<And>s f. is_span c d s f \<Longrightarrow> 0 \<le> s \<Longrightarrow> slb \<le> s \<Longrightarrow> flb \<le> f \<Longrightarrow> False"
  shows "earliest_answer c slb flb d horizon (Inr None)"
  using assms unfolding earliest_answer_def earliest_feasible_def by blast

lemma earliest_span_zero:
  assumes wf: "wf_calendar c"
  shows "earliest_answer c slb flb 0 horizon (earliest_span c slb flb 0 horizon)"
proof (cases "next_working c (max (max 0 slb) flb)")
  case None
  then have eq: "earliest_span c slb flb 0 horizon = Inr None" by (simp add: earliest_span_def)
  show ?thesis unfolding eq
    using next_working_none [OF wf None] by (intro earliest_answer_none) (auto simp: is_span_def)
next
  case (Some s)
  then have eq: "earliest_span c slb flb 0 horizon = Inr (if s > horizon then None else Some (s, s))"
    by (simp add: earliest_span_def)
  show ?thesis unfolding eq
    using cal.nxt_Some [OF wf Some] next_working_least [OF wf Some]
    by (intro earliest_answer_least) (auto simp: is_span_def)
qed

lemma no_span_after:
  assumes wf: "wf_calendar c" and d: "0 < d" and s0: "next_working c lower = Some s0"
    and "add_positive c s0 d = None" and "is_span c d s f" and "lower \<le> s"
  shows False
proof -
  have "work (intervals c) s0 \<le> work (intervals c) s"
    using next_working_least [OF wf s0 assms(6)] cal.W_mono [OF wf, of s0 s] assms(5) by (simp add: is_span_def)
  with assms(5) d cal.W_bounds [OF wf, of f] cal.add_None [OF wf d assms(4)] show False
    by (simp add: is_span_def)
qed

lemma earliest_span_pos:
  assumes wf: "wf_calendar c" and d: "0 < d"
  shows "earliest_answer c slb flb d horizon (earliest_span c slb flb d horizon)"
proof (cases "next_working c (max 0 slb)")
  case None
  then have eq: "earliest_span c slb flb d horizon = Inr None" using d by (simp add: earliest_span_def)
  show ?thesis unfolding eq
    using next_working_none [OF wf None] by (intro earliest_answer_none) (auto simp: is_span_def)
next
  case s0: (Some s0)
  show ?thesis
  proof (cases "add_positive c s0 d")
    case None
    then have eq: "earliest_span c slb flb d horizon = Inr None" using d s0 by (simp add: earliest_span_def)
    show ?thesis unfolding eq
      using no_span_after [OF wf d s0 None] by (intro earliest_answer_none) auto
  next
    case f0: (Some f0)
    note low = cal.nxt_Some [OF wf s0] next_working_least [OF wf s0]
    have base: "is_span c d s0 f0" using f0 low(1) by (simp add: is_span_pos [OF wf d])
    show ?thesis
    proof (cases "f0 < flb")
      case False
      then have eq: "earliest_span c slb flb d horizon = Inr (if f0 > horizon then None else Some (s0, f0))"
        using d s0 f0 by (simp add: earliest_span_def)
      show ?thesis unfolding eq
        using base low False d is_span_mono [OF wf _ base]
        by (intro earliest_answer_least) (auto simp: is_span_def)
    next
      case True
      then have step: "earliest_span c slb flb d horizon =
          rbind (earliest_pushed c (max 0 slb) flb d) (\<lambda>span. case span of None \<Rightarrow> Inr None
            | Some (s, f) \<Rightarrow> Inr (if f > horizon then None else Some (s, f)))"
        using d s0 f0 by (simp add: earliest_span_def)
      show ?thesis
      proof (cases rule: earliest_pushed_spec [OF wf d s0 f0 True])
        case 1
        then show ?thesis unfolding step by (auto intro!: earliest_answer_none)
      next
        case (2 s f)
        then have eq: "earliest_span c slb flb d horizon = Inr (if f > horizon then None else Some (s, f))"
          by (simp add: step)
        show ?thesis unfolding eq
          using 2 is_span_mono_finish [OF wf _ 2(2)] d by (intro earliest_answer_least) auto
      qed
    qed
  qed
qed

definition latest_answer ::
    "compiled_intervals \<Rightarrow> int \<Rightarrow> int \<Rightarrow> int \<Rightarrow> int \<Rightarrow> (int \<times> int) option result \<Rightarrow> bool" where
  "latest_answer c sub fub d floor r \<longleftrightarrow>
     (r = Inr None \<and> (\<forall>s f. \<not> latest_feasible c sub fub d floor s f))
   \<or> (\<exists>s f. r = Inr (Some (s, f)) \<and> latest_feasible c sub fub d floor s f
        \<and> (\<forall>s' f'. latest_feasible c sub fub d floor s' f' \<longrightarrow> s' \<le> s \<and> f' \<le> f))"

lemma latest_answer_greatest:
  assumes "is_span c d s f" and "s \<le> sub" and "f \<le> fub"
    and "\<And>s' f'. is_span c d s' f' \<Longrightarrow> s' \<le> sub \<Longrightarrow> f' \<le> fub \<Longrightarrow> s' \<le> s \<and> f' \<le> f"
  shows "latest_answer c sub fub d floor (Inr (if s < floor then None else Some (s, f)))"
  using assms unfolding latest_answer_def latest_feasible_def by (auto, fastforce)

lemma latest_answer_none:
  assumes "\<And>s f. is_span c d s f \<Longrightarrow> s \<le> sub \<Longrightarrow> f \<le> fub \<Longrightarrow> False"
  shows "latest_answer c sub fub d floor (Inr None)"
  using assms unfolding latest_answer_def latest_feasible_def by blast

lemma latest_span_zero:
  assumes wf: "wf_calendar c"
  shows "latest_answer c sub fub 0 floor (latest_span c sub fub 0 floor)"
proof (cases "prev_working_start c (min sub fub)")
  case None
  then have eq: "latest_span c sub fub 0 floor = Inr None" by (simp add: latest_span_def)
  show ?thesis unfolding eq
    using prev_working_start_none [OF wf None] by (intro latest_answer_none) (auto simp: is_span_def)
next
  case (Some s)
  then have eq: "latest_span c sub fub 0 floor = Inr (if s < floor then None else Some (s, s))"
    by (simp add: latest_span_def)
  show ?thesis unfolding eq
    using cal.prvs_Some [OF wf Some] prev_working_start_greatest [OF wf Some]
    by (intro latest_answer_greatest) (auto simp: is_span_def)
qed

lemma latest_span_pos:
  assumes wf: "wf_calendar c" and d: "0 < d"
  shows "latest_answer c sub fub d floor (latest_span c sub fub d floor)"
proof (cases "prev_working c fub")
  case None
  then have eq: "latest_span c sub fub d floor = Inr None" using d by (simp add: latest_span_def)
  show ?thesis unfolding eq
    using prev_working_none [OF wf None] d by (intro latest_answer_none) (auto simp: is_span_def)
next
  case f0: (Some f0)
  note high = cal.prv_Some [OF wf f0] prev_working_greatest [OF wf f0]
  show ?thesis
  proof (cases "sub_positive c f0 d")
    case None
    then have eq: "latest_span c sub fub d floor = Inr None" using d f0 by (simp add: latest_span_def)
    have "\<not> is_span c d s f" if "f \<le> fub" for s f
      using high(1) cal.W_mono [OF wf that] cal.W_bounds [OF wf, of s] cal.sub_None [OF wf d None] d
      by (auto simp: is_span_def)
    then show ?thesis unfolding eq by (intro latest_answer_none) auto
  next
    case s0: (Some s0)
    have base: "is_span c d s0 f0" using s0 high(1) by (simp add: is_span_pos_sub [OF wf d])
    show ?thesis
    proof (cases "s0 > sub")
      case False
      then have eq: "latest_span c sub fub d floor = Inr (if s0 < floor then None else Some (s0, f0))"
        using d f0 s0 by (simp add: latest_span_def)
      show ?thesis unfolding eq
        using base high False d is_span_mono_finish [OF wf _ _ base]
        by (intro latest_answer_greatest) (auto simp: is_span_def)
    next
      case True
      show ?thesis
      proof (cases "prev_working_start c sub")
        case None
        then have eq: "latest_span c sub fub d floor = Inr None" using d f0 s0 True by (simp add: latest_span_def)
        show ?thesis unfolding eq
          using prev_working_start_none [OF wf None] by (intro latest_answer_none) (auto simp: is_span_def)
      next
        case s: (Some s)
        note at = cal.prvs_Some [OF wf s] prev_working_start_greatest [OF wf s]
        have "work (intervals c) s \<le> work (intervals c) s0"
          using at(1) True cal.W_mono [OF wf, of s s0] by simp
        then obtain f where f: "add_positive c s d = Some f"
          using cal.add_None [OF wf d, of s] cal.W_bounds [OF wf, of f0] base d
          by (cases "add_positive c s d") (auto simp: is_span_def)
        have span: "is_span c d s f" using at(1) f by (simp add: is_span_pos [OF wf d])
        have "f \<le> fub" using is_span_mono [OF wf _ span base] at(1) True d high(1) by simp
        moreover have eq: "latest_span c sub fub d floor = Inr (if s < floor then None else Some (s, f))"
          using d f0 s0 True s f by (simp add: latest_span_def)
        ultimately show ?thesis unfolding eq
          using span at is_span_mono [OF wf _ _ span] d
          by (intro latest_answer_greatest) (auto simp: is_span_def)
      qed
    qed
  qed
qed

lemma intersect_bounded_left:
  assumes "\<forall>(s, f) \<in> set ls. b < s" and "p \<in> set (intersect_intervals ls rs)"
  shows "b < fst p"
  using assms
proof (induction ls rs rule: intersect_intervals.induct)
  case (1 x y ls c d rs)
  then show ?case by (auto simp: Let_def split: if_splits)
qed simp_all

lemma intersect_bounded_right:
  assumes "\<forall>(s, f) \<in> set rs. b < s" and "p \<in> set (intersect_intervals ls rs)"
  shows "b < fst p"
  using assms
proof (induction ls rs rule: intersect_intervals.induct)
  case (1 x y ls c d rs)
  then show ?case by (auto simp: Let_def split: if_splits)
qed simp_all

lemma intersect_wf:
  assumes "wf_intervals ls" and "wf_intervals rs"
  shows "wf_intervals (intersect_intervals ls rs)"
  using assms
proof (induction ls rs rule: intersect_intervals.induct)
  case (1 a b ls c d rs)
  have rest: "wf_intervals (if b \<le> d then intersect_intervals ls ((c, d) # rs) else intersect_intervals ((a, b) # ls) rs)"
    using 1 by simp
  have "min b d < fst p"
    if "p \<in> set (if b \<le> d then intersect_intervals ls ((c, d) # rs) else intersect_intervals ((a, b) # ls) rs)" for p
    using that intersect_bounded_left [of ls b p "(c, d) # rs"] intersect_bounded_right [of rs d p "(a, b) # ls"]
      "1.prems" by (auto split: if_splits)
  with rest show ?case by (fastforce simp: Let_def)
qed simp_all

subsection \<open>Properties\<close>

text \<open>
  (C14) Placing forward is optimal: for every well-formed calendar and every non-negative duration
  \<open>earliest_span\<close> never raises; when it answers a span, the span is feasible (it starts on a working
  unit at or after the start bound and after the epoch, holds exactly the duration, finishes at or
  after the finish bound and within the horizon) and is the least of all feasible spans at both
  ends; when it answers nothing, no feasible span exists.
\<close>

theorem earliest_span_optimal:
  assumes "wf_calendar c" and "0 \<le> duration"
  shows "\<exists>r. earliest_span c slb flb duration horizon = Inr r \<and>
    (case r of
       None \<Rightarrow> \<forall>s f. \<not> earliest_feasible c slb flb duration horizon s f
     | Some (s, f) \<Rightarrow> earliest_feasible c slb flb duration horizon s f
         \<and> (\<forall>s' f'. earliest_feasible c slb flb duration horizon s' f' \<longrightarrow> s \<le> s' \<and> f \<le> f'))"
  using earliest_span_zero [OF assms(1), of slb flb horizon] earliest_span_pos [OF assms(1), of duration slb flb horizon]
    assms(2) unfolding earliest_answer_def by (cases "duration = 0") auto

theorem earliest_span_optimal_witness:
  "earliest_span (ci_of [(0, 5), (10, 100)]) 0 7 3 100 = Inr (Some (3, 11))
   \<and> {(s, f). earliest_feasible (ci_of [(0, 5), (10, 100)]) 0 7 3 100 s f} \<subseteq> {3..} \<times> {11..}"
proof -
  have v: "earliest_span (ci_of [(0, 5), (10, 100)]) 0 7 3 100 = Inr (Some (3, 11))" by code_simp
  show ?thesis using earliest_span_optimal [OF ci_of_wf, of 3 "[(0, 5), (10, 100)]" 0 7 100] v by auto
qed

text \<open>
  (C15) Placing backward is optimal: \<open>latest_span\<close> never raises on a non-negative duration; its
  answer starts at or before the start bound, finishes at or before the finish bound, starts at or
  after the floor, holds exactly the duration, and is the greatest such span at both ends; it
  answers nothing only when no such span exists.
\<close>

theorem latest_span_optimal:
  assumes "wf_calendar c" and "0 \<le> duration"
  shows "\<exists>r. latest_span c sub fub duration floor = Inr r \<and>
    (case r of
       None \<Rightarrow> \<forall>s f. \<not> latest_feasible c sub fub duration floor s f
     | Some (s, f) \<Rightarrow> latest_feasible c sub fub duration floor s f
         \<and> (\<forall>s' f'. latest_feasible c sub fub duration floor s' f' \<longrightarrow> s' \<le> s \<and> f' \<le> f))"
  using latest_span_zero [OF assms(1), of sub fub floor] latest_span_pos [OF assms(1), of duration sub fub floor]
    assms(2) unfolding latest_answer_def by (cases "duration = 0") auto

theorem latest_span_optimal_witness:
  "latest_span (ci_of [(0, 5), (10, 100)]) 7 50 3 0 = Inr (Some (4, 12))
   \<and> {(s, f). latest_feasible (ci_of [(0, 5), (10, 100)]) 7 50 3 0 s f} \<subseteq> {..4} \<times> {..12}"
proof -
  have v: "latest_span (ci_of [(0, 5), (10, 100)]) 7 50 3 0 = Inr (Some (4, 12))" by code_simp
  show ?thesis using latest_span_optimal [OF ci_of_wf, of 3 "[(0, 5), (10, 100)]" 7 50 0] v by auto
qed

text \<open>
  (C18) The indexed layer agrees with the reference scans on every input: on a well-formed calendar
  \<open>add_working\<close> and \<open>sub_working\<close> compute \<open>shift_working_time\<close> of the signed lag and
  \<open>working_between\<close> measures the reference's \<open>productive_segments\<close>.
\<close>

theorem indexed_layer_agrees:
  assumes "wf_calendar c" and "0 \<le> d"
  shows "add_working c x d = Inr (shift_working_time x d (intervals c))
    \<and> sub_working c x d = Inr (shift_working_time x (- d) (intervals c))
    \<and> working_between c x y = sum_list (map (\<lambda>(s, f). f - s) (productive_segments x y (intervals c)))"
proof -
  have tot: "sum_list (map (\<lambda>(s, f). f - s) ivs) = tot ivs" for ivs :: "interval list"
    by (induction ivs) auto
  have empty: "y \<le> x \<Longrightarrow> productive_segments x y ivs = []" for ivs
    by (induction ivs) auto
  show ?thesis
    using assms shift_forward_eq [OF assms(1), of d x] shift_backward_eq [OF assms(1), of d x]
      segments_total [of x y "intervals c"] empty
    by (auto simp: shift_working_time_def add_working_def sub_working_def raise_if_def tot
        working_between_count [OF assms(1)])
qed

theorem indexed_layer_agrees_witness:
  "add_working (ci_of [(0, 5), (10, 100)]) 3 4 = Inr (shift_working_time 3 4 (intervals (ci_of [(0, 5), (10, 100)])))
   \<and> shift_working_time 3 4 (intervals (ci_of [(0, 5), (10, 100)])) = Some 12"
  using indexed_layer_agrees [OF ci_of_wf, of 4 "[(0, 5), (10, 100)]" 3] by (simp) code_simp

text \<open>
  Compiling an interval list loses and invents nothing: whatever list it is given,
  \<open>CompiledIntervals.of\<close> produces a well-formed calendar (sorted, disjoint, non-adjacent, arrays
  computed from the intervals) that contains exactly the coordinates of the list.
\<close>

theorem compile_intervals_faithful:
  "wf_calendar (ci_of ivs)
   \<and> (\<forall>x. contains_coordinate x (intervals (ci_of ivs)) = contains_coordinate x ivs)"
  using ci_of_wf ci_of_contains by blast

text \<open>
  Intersecting two normalised interval lists is set intersection, and the result is
  normalised again.
\<close>

theorem intersect_intervals_correct:
  assumes "wf_intervals ls" and "wf_intervals rs"
  shows "wf_intervals (intersect_intervals ls rs)
    \<and> (\<forall>x. contains_coordinate x (intersect_intervals ls rs)
         = (contains_coordinate x ls \<and> contains_coordinate x rs))"
  using intersect_wf [OF assms] intersect_contains [OF assms] by blast

theorem intersect_intervals_correct_witness:
  "intersect_intervals [(0, 5), (10, 20)] [(3, 12), (15, 30)] = [(3, 5), (10, 12), (15, 20)]
   \<and> wf_intervals (intersect_intervals [(0, 5), (10, 20)] [(3, 12), (15, 30)])"
  using intersect_intervals_correct [of "[(0, 5), (10, 20)]" "[(3, 12), (15, 30)]"] by simp

text \<open>
  The three snaps answer extrema: \<open>next_working\<close> the first working unit at or after a
  coordinate, \<open>prev_working\<close> the last coordinate at or before it at which work can finish, and
  \<open>prev_working_start\<close> the last one at which work can start; each answers nothing only when there
  is none.
\<close>

theorem snaps_are_extrema:
  assumes "wf_calendar c"
  shows "(case next_working c x of
       None \<Rightarrow> \<forall>z. x \<le> z \<longrightarrow> \<not> contains_coordinate z (intervals c)
     | Some y \<Rightarrow> x \<le> y \<and> contains_coordinate y (intervals c)
         \<and> (\<forall>z. x \<le> z \<longrightarrow> contains_coordinate z (intervals c) \<longrightarrow> y \<le> z))
   \<and> (case prev_working c x of
       None \<Rightarrow> \<forall>z. z \<le> x \<longrightarrow> \<not> contains_coordinate (z - 1) (intervals c)
     | Some y \<Rightarrow> y \<le> x \<and> contains_coordinate (y - 1) (intervals c)
         \<and> (\<forall>z. z \<le> x \<longrightarrow> contains_coordinate (z - 1) (intervals c) \<longrightarrow> z \<le> y))
   \<and> (case prev_working_start c x of
       None \<Rightarrow> \<forall>z. z \<le> x \<longrightarrow> \<not> contains_coordinate z (intervals c)
     | Some y \<Rightarrow> y \<le> x \<and> contains_coordinate y (intervals c)
         \<and> (\<forall>z. z \<le> x \<longrightarrow> contains_coordinate z (intervals c) \<longrightarrow> z \<le> y))"
proof (intro conjI)
  show "case next_working c x of None \<Rightarrow> \<forall>z. x \<le> z \<longrightarrow> \<not> contains_coordinate z (intervals c)
     | Some y \<Rightarrow> x \<le> y \<and> contains_coordinate y (intervals c)
         \<and> (\<forall>z. x \<le> z \<longrightarrow> contains_coordinate z (intervals c) \<longrightarrow> y \<le> z)"
    using cal.nxt_Some [OF assms, of x] next_working_least [OF assms, of x] next_working_none [OF assms, of x]
    by (simp split: option.split)
  show "case prev_working c x of None \<Rightarrow> \<forall>z. z \<le> x \<longrightarrow> \<not> contains_coordinate (z - 1) (intervals c)
     | Some y \<Rightarrow> y \<le> x \<and> contains_coordinate (y - 1) (intervals c)
         \<and> (\<forall>z. z \<le> x \<longrightarrow> contains_coordinate (z - 1) (intervals c) \<longrightarrow> z \<le> y)"
    using cal.prv_Some [OF assms, of x] prev_working_greatest [OF assms, of x] prev_working_none [OF assms, of x]
    by (simp split: option.split)
  show "case prev_working_start c x of None \<Rightarrow> \<forall>z. z \<le> x \<longrightarrow> \<not> contains_coordinate z (intervals c)
     | Some y \<Rightarrow> y \<le> x \<and> contains_coordinate y (intervals c)
         \<and> (\<forall>z. z \<le> x \<longrightarrow> contains_coordinate z (intervals c) \<longrightarrow> z \<le> y)"
    using cal.prvs_Some [OF assms, of x] prev_working_start_greatest [OF assms, of x]
      prev_working_start_none [OF assms, of x]
    by (simp split: option.split)
qed

theorem snaps_are_extrema_witness:
  "prev_working (ci_of [(0, 5), (10, 100)]) 7 = Some 5
   \<and> prev_working_start (ci_of [(0, 5), (10, 100)]) 7 = Some 4
   \<and> {z. z \<le> 7 \<and> contains_coordinate z (intervals (ci_of [(0, 5), (10, 100)]))} \<subseteq> {..4}"
proof -
  have v: "prev_working (ci_of [(0, 5), (10, 100)]) 7 = Some 5"
    "prev_working_start (ci_of [(0, 5), (10, 100)]) 7 = Some 4" by code_simp+
  show ?thesis using snaps_are_extrema [OF ci_of_wf [of "[(0, 5), (10, 100)]"], of 7] v by auto
qed

end
