(* ===== verification/Network.thy ===== *)
theory Network
  imports Calendar_Spans
begin

section \<open>The network a pass consumes (\<open>core/engine/network.py\<close>)\<close>

text \<open>
  Activities, precedence edges and the window they are scheduled in; the refusals of
  \<open>Network.validate\<close>; the canonical payload that \<open>Network.fingerprint\<close> hashes; and the lag of an
  edge in both directions. The digest itself (JSON text through SHA-256) is a parameter of the
  definitions that use it. A UUID is the integer it stands for; \<open>uuid_text\<close> is its text form.
\<close>

subsection \<open>Vocabulary\<close>

datatype constraint_type = ASAP | ALAP | SNET | SNLT | FNET | FNLT | MSO | MFO

datatype relationship_type = FS | SS | FF | SF

datatype progress_policy = NONE | RETAINED_LOGIC | PROGRESS_OVERRIDE | ACTUAL_DATES

definition constraint_value :: "constraint_type \<Rightarrow> string" where
  "constraint_value t = (case t of
      ASAP \<Rightarrow> ''asap'' | ALAP \<Rightarrow> ''alap''
    | SNET \<Rightarrow> ''start_no_earlier_than'' | SNLT \<Rightarrow> ''start_no_later_than''
    | FNET \<Rightarrow> ''finish_no_earlier_than'' | FNLT \<Rightarrow> ''finish_no_later_than''
    | MSO \<Rightarrow> ''must_start_on'' | MFO \<Rightarrow> ''must_finish_on'')"

definition relationship_value :: "relationship_type \<Rightarrow> string" where
  "relationship_value t = (case t of FS \<Rightarrow> ''FS'' | SS \<Rightarrow> ''SS'' | FF \<Rightarrow> ''FF'' | SF \<Rightarrow> ''SF'')"

definition FORWARD_CONSTRAINTS :: "constraint_type list" where
  "FORWARD_CONSTRAINTS = [SNET, FNET, MSO, MFO]"

definition DEFERRED_CONSTRAINTS :: "constraint_type list" where
  "DEFERRED_CONSTRAINTS = [ALAP, SNLT, FNLT]"

definition DATED_CONSTRAINTS :: "constraint_type list" where
  "DATED_CONSTRAINTS = FORWARD_CONSTRAINTS @ [SNLT, FNLT]"

record assignment_placement =
  ap_uid :: uuid
  ap_resource_uid :: uuid
  ap_calendar :: compiled_intervals
  ap_work_duration :: int

record planned_activity =
  pa_uid :: uuid
  pa_duration :: int
  pa_calendar :: compiled_intervals
  pa_constraint_type :: constraint_type
  pa_constraint_coordinate :: "int option"
  pa_actual_start :: "int option"
  pa_actual_finish :: "int option"
  pa_remaining_duration :: "int option"
  pa_measure_calendar :: "compiled_intervals option"
  pa_float_basis :: string
  pa_assignment_envelope :: "assignment_placement list option"

definition float_calendar :: "planned_activity \<Rightarrow> compiled_intervals" where
  "float_calendar a = (case pa_measure_calendar a of None \<Rightarrow> pa_calendar a | Some c \<Rightarrow> c)"

definition is_milestone :: "planned_activity \<Rightarrow> bool" where
  "is_milestone a \<longleftrightarrow> pa_duration a = 0"

definition has_started :: "planned_activity \<Rightarrow> bool" where
  "has_started a \<longleftrightarrow> pa_actual_start a \<noteq> None"

definition is_complete :: "planned_activity \<Rightarrow> bool" where
  "is_complete a \<longleftrightarrow> pa_actual_finish a \<noteq> None"

definition remaining :: "planned_activity \<Rightarrow> int" where
  "remaining a =
     (if is_complete a then 0
      else case pa_remaining_duration a of None \<Rightarrow> pa_duration a | Some r \<Rightarrow> r)"

record planned_relationship =
  pr_uid :: uuid
  pr_predecessor_uid :: uuid
  pr_successor_uid :: uuid
  pr_type :: relationship_type
  pr_lag :: int
  pr_lag_calendar :: "compiled_intervals option"
  pr_inactive_boundary_uid :: "uuid option"

definition anchors_predecessor_finish :: "planned_relationship \<Rightarrow> bool" where
  "anchors_predecessor_finish r \<longleftrightarrow> pr_type r = FS \<or> pr_type r = FF"

definition bounds_successor_start :: "planned_relationship \<Rightarrow> bool" where
  "bounds_successor_start r \<longleftrightarrow> pr_type r = FS \<or> pr_type r = SS"

record network =
  activities :: "planned_activity list"
  relationships :: "planned_relationship list"
  project_start :: int
  horizon :: int
  status_time :: "int option"

definition is_progressed :: "network \<Rightarrow> bool" where
  "is_progressed n = list_ex (\<lambda>a. has_started a \<or> is_complete a) (activities n)"

text \<open>A dict comprehension keeps the last row of a repeated key.\<close>

definition activity_by_uid :: "network \<Rightarrow> uuid \<Rightarrow> planned_activity option" where
  "activity_by_uid n = map_of (rev (map (\<lambda>a. (pa_uid a, a)) (activities n)))"

definition activity_uids :: "network \<Rightarrow> uuid list" where
  "activity_uids n = map pa_uid (activities n)"

definition predecessors :: "network \<Rightarrow> (uuid \<Rightarrow> planned_relationship list option) result" where
  "predecessors n =
     raise_if (list_ex (\<lambda>r. pr_successor_uid r \<notin> set (activity_uids n)) (relationships n)) KeyError
       (Inr (\<lambda>u. if u \<in> set (activity_uids n)
                 then Some (filter (\<lambda>r. pr_successor_uid r = u) (relationships n)) else None))"

definition successors :: "network \<Rightarrow> (uuid \<Rightarrow> planned_relationship list option) result" where
  "successors n =
     raise_if (list_ex (\<lambda>r. pr_predecessor_uid r \<notin> set (activity_uids n)) (relationships n)) KeyError
       (Inr (\<lambda>u. if u \<in> set (activity_uids n)
                 then Some (filter (\<lambda>r. pr_predecessor_uid r = u) (relationships n)) else None))"

subsection \<open>The canonical payload\<close>

datatype json = JNull | JBool bool | JInt int | JStr string | JList "json list" | JObj "(string \<times> json) list"

definition hex_digit :: "nat \<Rightarrow> char" where
  "hex_digit d = ''0123456789abcdef'' ! (d mod 16)"

fun hex_text :: "nat \<Rightarrow> nat \<Rightarrow> string" where
  "hex_text 0 v = []"
| "hex_text (Suc k) v = hex_text k (v div 16) @ [hex_digit v]"

definition uuid_text :: "uuid \<Rightarrow> string" where
  "uuid_text u =
     (let h = hex_text 32 u
      in take 8 h @ ''-'' @ take 4 (drop 8 h) @ ''-'' @ take 4 (drop 12 h)
         @ ''-'' @ take 4 (drop 16 h) @ ''-'' @ drop 20 h)"

definition json_opt_int :: "int option \<Rightarrow> json" where
  "json_opt_int v = (case v of None \<Rightarrow> JNull | Some i \<Rightarrow> JInt i)"

definition calendar_digest :: "(json \<Rightarrow> string) \<Rightarrow> compiled_intervals option \<Rightarrow> json" where
  "calendar_digest sha c =
     (case c of None \<Rightarrow> JNull
      | Some cal \<Rightarrow> JStr (sha (JList (map (\<lambda>(s, f). JList [JInt s, JInt f]) (intervals cal)))))"

definition activity_payload :: "(json \<Rightarrow> string) \<Rightarrow> planned_activity \<Rightarrow> json" where
  "activity_payload sha a =
     JList ([JStr (uuid_text (pa_uid a)), JInt (pa_duration a),
             calendar_digest sha (Some (pa_calendar a)),
             JStr (constraint_value (pa_constraint_type a)),
             json_opt_int (pa_constraint_coordinate a), json_opt_int (pa_actual_start a),
             json_opt_int (pa_actual_finish a), json_opt_int (pa_remaining_duration a),
             calendar_digest sha (pa_measure_calendar a)]
            @ (if pa_float_basis a = ''elapsed'' then [JStr ''elapsed_float''] else [])
            @ (case pa_assignment_envelope a of None \<Rightarrow> []
               | Some rows \<Rightarrow> map (\<lambda>p. JList
                   [JStr (uuid_text (ap_uid p)), JStr (uuid_text (ap_resource_uid p)),
                    calendar_digest sha (Some (ap_calendar p)), JInt (ap_work_duration p)]) rows))"

definition relationship_payload :: "(json \<Rightarrow> string) \<Rightarrow> planned_relationship \<Rightarrow> json" where
  "relationship_payload sha r =
     JList ([JStr (uuid_text (pr_uid r)), JStr (uuid_text (pr_predecessor_uid r)),
             JStr (uuid_text (pr_successor_uid r)), JStr (relationship_value (pr_type r)),
             JInt (pr_lag r), calendar_digest sha (pr_lag_calendar r)]
            @ (case pr_inactive_boundary_uid r of None \<Rightarrow> []
               | Some b \<Rightarrow> [JStr ''inactive_boundary'', JStr (uuid_text b)]))"

definition network_payload :: "(json \<Rightarrow> string) \<Rightarrow> network \<Rightarrow> json" where
  "network_payload sha n =
     JObj [(''project_start'', JInt (project_start n)), (''horizon'', JInt (horizon n)),
           (''status_time'', json_opt_int (status_time n)),
           (''activities'', JList (map (activity_payload sha) (activities n))),
           (''relationships'', JList (map (relationship_payload sha) (relationships n)))]"

definition network_fingerprint :: "(json \<Rightarrow> string) \<Rightarrow> network \<Rightarrow> string" where
  "network_fingerprint sha n = sha (network_payload sha n)"

subsection \<open>\<open>Network.validate\<close>\<close>

abbreviation forward_error :: "string \<Rightarrow> uuid option \<Rightarrow> exc" where
  "forward_error code u \<equiv> Coded ForwardPassError code u"

definition check_window :: "network \<Rightarrow> unit result" where
  "check_window n =
     raise_if (horizon n \<le> project_start n) (forward_error ''SCHEDULE_HORIZON_INVALID'' None)
       (raise_if (case status_time n of None \<Rightarrow> False
                  | Some t \<Rightarrow> \<not> (project_start n \<le> t \<and> t \<le> horizon n))
          (forward_error ''SCHEDULE_STATUS_TIME_INVALID'' None) (Inr ()))"

definition check_envelope :: "planned_activity \<Rightarrow> unit result \<Rightarrow> unit result" where
  "check_envelope a k =
     (case pa_assignment_envelope a of
        None \<Rightarrow> k
      | Some rows \<Rightarrow>
          raise_if (length rows < 2 \<or> has_started a \<or> pa_constraint_type a \<noteq> ASAP)
            (forward_error ''SCHEDULE_ASSIGNMENT_ENVELOPE_INVALID'' (Some (pa_uid a)))
            (raise_if (list_ex (\<lambda>p. ap_work_duration p \<le> 0 \<or> intervals (ap_calendar p) = []) rows)
               (forward_error ''SCHEDULE_ASSIGNMENT_ENVELOPE_INVALID'' (Some (pa_uid a))) k))"

text \<open>The checks on one activity, in the code's order; \<open>seen\<close> are the identifiers already met.\<close>

definition check_activity :: "planned_activity \<Rightarrow> uuid list \<Rightarrow> uuid list result" where
  "check_activity a seen =
     (let err = (\<lambda>code. forward_error code (Some (pa_uid a))) in
      raise_if (pa_uid a \<in> set seen) (err ''SCHEDULE_DUPLICATE_ACTIVITY'')
      (raise_if (pa_duration a < 0) (err ''SCHEDULE_DURATION_NEGATIVE'')
      (raise_if (intervals (pa_calendar a) = []) (err ''SCHEDULE_CALENDAR_EMPTY'')
      (raise_if (intervals (float_calendar a) = []) (err ''SCHEDULE_MEASURE_CALENDAR_EMPTY'')
      (raise_if (pa_float_basis a \<notin> {''working'', ''elapsed''}) (err ''SCHEDULE_FLOAT_BASIS_INVALID'')
      (rbind (check_envelope a (Inr ())) (\<lambda>_.
       raise_if (pa_constraint_type a \<in> set DATED_CONSTRAINTS \<and> pa_constraint_coordinate a = None)
         (err ''SCHEDULE_CONSTRAINT_INCOMPLETE'')
      (raise_if (case pa_remaining_duration a of None \<Rightarrow> False | Some r \<Rightarrow> r < 0)
         (err ''SCHEDULE_REMAINING_NEGATIVE'')
      (raise_if (is_complete a \<and> pa_actual_start a = None) (err ''SCHEDULE_ACTUAL_FINISH_WITHOUT_START'')
      (raise_if (has_started a \<and> \<not> is_complete a \<and> pa_remaining_duration a = None)
         (err ''SCHEDULE_REMAINING_UNKNOWN'')
      (raise_if (case (pa_actual_start a, pa_actual_finish a) of
                   (Some s, Some f) \<Rightarrow> f < s | _ \<Rightarrow> False) (err ''SCHEDULE_ACTUALS_INVERTED'')
         (Inr (seen @ [pa_uid a])))))))))))))"

text \<open>
  The state of the loop over the edges: the edge identifiers met, the edges of every inactive
  boundary (in insertion order) and the boundary each predecessor belongs to.
\<close>

record edge_state =
  es_edges :: "uuid list"
  es_boundaries :: "(uuid \<times> planned_relationship list) list"
  es_by_predecessor :: "(uuid \<times> uuid) list"

fun setdefault_append :: "'k \<Rightarrow> 'v \<Rightarrow> ('k \<times> 'v list) list \<Rightarrow> ('k \<times> 'v list) list" where
  "setdefault_append k v [] = [(k, [v])]"
| "setdefault_append k v ((k', vs) # rest) =
     (if k' = k then (k', vs @ [v]) # rest else (k', vs) # setdefault_append k v rest)"

definition check_boundary_edge ::
    "network \<Rightarrow> planned_relationship \<Rightarrow> uuid \<Rightarrow> edge_state \<Rightarrow> edge_state result" where
  "check_boundary_edge n r b s =
     raise_if (pr_type r \<noteq> FS \<or> pr_lag r \<noteq> 0 \<or> pr_lag_calendar r \<noteq> None)
       (forward_error ''SCHEDULE_INACTIVE_BOUNDARY_UNSUPPORTED'' (Some b))
     (case (activity_by_uid n (pr_predecessor_uid r), activity_by_uid n (pr_successor_uid r)) of
        (Some p, Some q) \<Rightarrow>
          raise_if (has_started p \<or> has_started q)
            (forward_error ''SCHEDULE_INACTIVE_BOUNDARY_UNSUPPORTED'' (Some b))
          (let by = es_by_predecessor s;
               previous = (case map_of by (pr_predecessor_uid r) of None \<Rightarrow> b | Some b' \<Rightarrow> b');
               by' = (if map_of by (pr_predecessor_uid r) = None
                      then (pr_predecessor_uid r, b) # by else by)
           in raise_if (previous \<noteq> b)
                (forward_error ''SCHEDULE_INACTIVE_BOUNDARY_UNSUPPORTED'' (Some (pr_predecessor_uid r)))
                (Inr (s\<lparr>es_by_predecessor := by',
                        es_boundaries := setdefault_append b r (es_boundaries s)\<rparr>)))
      | _ \<Rightarrow> Inl KeyError)"

definition check_relationship ::
    "network \<Rightarrow> uuid list \<Rightarrow> planned_relationship \<Rightarrow> edge_state \<Rightarrow> edge_state result" where
  "check_relationship n seen r s =
     raise_if (pr_uid r \<in> set (es_edges s)) (forward_error ''SCHEDULE_DUPLICATE_RELATIONSHIP'' (Some (pr_uid r)))
     (raise_if (pr_predecessor_uid r \<notin> set seen \<or> pr_successor_uid r \<notin> set seen)
        (forward_error ''SCHEDULE_UNKNOWN_ACTIVITY'' (Some (pr_uid r)))
     (raise_if (pr_predecessor_uid r = pr_successor_uid r)
        (forward_error ''SCHEDULE_SELF_RELATIONSHIP'' (Some (pr_uid r)))
     (let s' = s\<lparr>es_edges := es_edges s @ [pr_uid r]\<rparr>
      in case pr_inactive_boundary_uid r of
           None \<Rightarrow> Inr s'
         | Some b \<Rightarrow> check_boundary_edge n r b s')))"

definition check_boundary_group :: "uuid \<times> planned_relationship list \<Rightarrow> unit \<Rightarrow> unit result" where
  "check_boundary_group g u =
     (case g of (b, rows) \<Rightarrow>
        let e = forward_error ''SCHEDULE_INACTIVE_BOUNDARY_UNSUPPORTED'' (Some b) in
        raise_if (length rows \<noteq> 1 \<and> length rows \<noteq> 2) e
        (raise_if (length (remdups (map pr_predecessor_uid rows)) \<noteq> 1) e
        (raise_if (length (remdups (map pr_successor_uid rows)) \<noteq> length rows) e (Inr u))))"

definition validate :: "network \<Rightarrow> unit result" where
  "validate n =
     rbind (check_window n) (\<lambda>_.
     rbind (rfold check_activity (activities n) []) (\<lambda>seen.
     rbind (rfold (check_relationship n seen) (relationships n)
              \<lparr> es_edges = [], es_boundaries = [], es_by_predecessor = [] \<rparr>) (\<lambda>s.
     rfold check_boundary_group (es_boundaries s) ())))"

subsection \<open>Lags\<close>

definition lag_calendar_for :: "planned_relationship \<Rightarrow> compiled_intervals \<Rightarrow> compiled_intervals" where
  "lag_calendar_for r successor_calendar =
     (case pr_lag_calendar r of Some c \<Rightarrow> c | None \<Rightarrow> successor_calendar)"

definition shift_lag :: "compiled_intervals \<Rightarrow> int \<Rightarrow> int \<Rightarrow> int option result" where
  "shift_lag c anchor lag =
     (if lag = 0 then Inr (Some anchor)
      else if lag > 0 then add_working c anchor lag
      else sub_working c anchor (- lag))"

text \<open>The branch of \<open>unshift_lag\<close> for a negative lag, below the test of the ceiling itself.\<close>

definition unshift_lead :: "compiled_intervals \<Rightarrow> int \<Rightarrow> int \<Rightarrow> int \<Rightarrow> int option result" where
  "unshift_lead c anchor lag limit =
     (let lead = - lag in
      if lead > total_work c then Inr None
      else case prev_working_start c anchor of
        None \<Rightarrow> Inr None
      | Some landing \<Rightarrow>
          rbind (add_working c landing lead) (\<lambda>r.
            case r of
              None \<Rightarrow> Inr None
            | Some moved \<Rightarrow>
                (let answer = (case next_working c moved of None \<Rightarrow> moved | Some opened \<Rightarrow> opened) in
                 if answer > limit then Inr None
                 else rbind (shift_lag c answer lag) (\<lambda>landed.
                   Inr (case landed of
                          Some l \<Rightarrow> (if l \<le> anchor then Some answer else None)
                        | None \<Rightarrow> None)))))"

definition unshift_lag :: "compiled_intervals \<Rightarrow> int \<Rightarrow> int \<Rightarrow> int option \<Rightarrow> int option result" where
  "unshift_lag c anchor lag ceiling =
     (case (case ceiling of None \<Rightarrow> ci_last c | Some x \<Rightarrow> Some x) of
        None \<Rightarrow> Inr (if lag = 0 then Some anchor else None)
      | Some limit \<Rightarrow>
          rbind (shift_lag c limit lag) (\<lambda>at_limit.
            if (case at_limit of None \<Rightarrow> False | Some x \<Rightarrow> x \<le> anchor) then Inr (Some limit)
            else if lag = 0 then Inr (Some anchor)
            else if lag > 0 then
              rbind (sub_working c anchor lag) (\<lambda>answer.
                Inr (case answer of
                       Some x \<Rightarrow> (if x \<le> limit then Some x else None)
                     | None \<Rightarrow> None))
            else unshift_lead c anchor lag limit))"

end
