(* ===== verification/Network_Facts.thy ===== *)
theory Network_Facts
  imports Network
begin

section \<open>What a validated network and a lag guarantee\<close>

subsection \<open>The interface of a lagged edge\<close>

text \<open>
  The two passes meet on an edge: the forward pass shifts the predecessor's coordinate over the
  lag, the backward pass carries the successor's bound back. \<open>Lag_Edge\<close> is the contract between
  the two directions; the facts both passes and the float rest on are derived from it.
\<close>

locale Lag_Edge =
  fixes inv :: "'c \<Rightarrow> bool"
    and shift :: "'c \<Rightarrow> int \<Rightarrow> int \<Rightarrow> int option"
    and unshift :: "'c \<Rightarrow> int \<Rightarrow> int \<Rightarrow> int \<Rightarrow> int option"
  assumes shift_mono: "inv c \<Longrightarrow> shift c x l = Some x' \<Longrightarrow> shift c y l = Some y' \<Longrightarrow> x \<le> y \<Longrightarrow> x' \<le> y'"
    and unshift_Some: "inv c \<Longrightarrow> unshift c a l lim = Some y \<Longrightarrow>
      y \<le> lim \<and> (\<exists>z. shift c y l = Some z \<and> z \<le> a)
      \<and> (\<forall>y'\<le>lim. (\<exists>z. shift c y' l = Some z \<and> z \<le> a) \<longrightarrow> y' \<le> y)"
    and unshift_None: "inv c \<Longrightarrow> unshift c a l lim = None \<Longrightarrow> y' \<le> lim \<Longrightarrow> shift c y' l = Some z \<Longrightarrow> \<not> z \<le> a"
begin

text \<open>An early coordinate that honours an edge survives the edge being carried back.\<close>

lemma early_le_late:
  assumes "inv c" and "shift c x l = Some x'" and "x' \<le> b" and "x \<le> lim"
  shows "\<exists>y. unshift c b l lim = Some y \<and> x \<le> y"
  using unshift_Some [OF assms(1), of b l lim] unshift_None [OF assms(1) _ assms(4,2), of b] assms(2-4)
  by (cases "unshift c b l lim") auto

text \<open>A coordinate at or before a bound carried back honours the edge.\<close>

lemma late_honours:
  assumes "inv c" and "unshift c b l lim = Some y" and "x \<le> y" and "shift c x l = Some x'"
  shows "x' \<le> b"
  using unshift_Some [OF assms(1,2)] shift_mono [OF assms(1,4) _ assms(3)] by fastforce

lemma unshift_mono:
  assumes "inv c" and "unshift c b l lim = Some y" and "b \<le> b'"
  shows "\<exists>y'. unshift c b' l lim = Some y' \<and> y \<le> y'"
  using unshift_Some [OF assms(1,2)] early_le_late [OF assms(1), of y l _ b' lim] assms(3) by fastforce

end

subsection \<open>Lags on a compiled calendar\<close>

abbreviation shifted :: "compiled_intervals \<Rightarrow> int \<Rightarrow> int \<Rightarrow> int option" where
  "shifted c anchor lag \<equiv> shift_working_time anchor lag (intervals c)"

lemma shift_lag_eq: "wf_calendar c \<Longrightarrow> shift_lag c anchor lag = Inr (shifted c anchor lag)"
  using shift_forward_eq [of c lag anchor] shift_backward_eq [of c "- lag" anchor]
  by (auto simp: shift_lag_def shift_working_time_def)

lemma shifted_pos: "wf_calendar c \<Longrightarrow> 0 < lag \<Longrightarrow> shifted c x lag = add_positive c x lag"
  by (simp add: shift_working_time_def shift_forward_eq)

lemma shifted_neg: "wf_calendar c \<Longrightarrow> 0 < lead \<Longrightarrow> shifted c x (- lead) = sub_positive c x lead"
  by (simp add: shift_working_time_def shift_backward_eq)

lemma shifted_zero [simp]: "shifted c x 0 = Some x"
  by (simp add: shift_working_time_def)

definition lands :: "compiled_intervals \<Rightarrow> int \<Rightarrow> int \<Rightarrow> int \<Rightarrow> bool" where
  "lands c lag anchor y \<longleftrightarrow> (case shifted c y lag of None \<Rightarrow> False | Some z \<Rightarrow> z \<le> anchor)"

lemma lands_iff: "lands c lag anchor y \<longleftrightarrow> (\<exists>z. shifted c y lag = Some z \<and> z \<le> anchor)"
  by (auto simp: lands_def split: option.splits)

lemma lands_pos:
  assumes "wf_calendar c" and "0 < lag"
  shows "lands c lag anchor y \<longleftrightarrow> work (intervals c) y + lag \<le> work (intervals c) anchor"
proof (cases "add_positive c y lag")
  case None
  then show ?thesis
    using cal.add_None [OF assms None] cal.W_bounds [OF assms(1), of anchor] by (simp add: lands_def shifted_pos assms)
next
  case (Some z)
  then show ?thesis
    using cal.add_le_iff [OF assms Some] by (simp add: lands_def shifted_pos assms)
qed

lemma lands_neg:
  assumes "wf_calendar c" and "0 < lead"
  shows "lands c (- lead) anchor y \<longleftrightarrow>
    lead \<le> work (intervals c) y \<and> work (intervals c) y < work (intervals c) (anchor + 1) + lead"
proof (cases "sub_positive c y lead")
  case None
  then show ?thesis
    using cal.sub_None [OF assms None] by (simp add: lands_def shifted_neg assms)
next
  case (Some z)
  have "z \<le> anchor \<longleftrightarrow> \<not> anchor + 1 \<le> z" by auto
  also have "\<dots> \<longleftrightarrow> \<not> work (intervals c) (anchor + 1) \<le> work (intervals c) y - lead"
    using cal.le_sub_iff [OF assms Some, of "anchor + 1"] by simp
  finally show ?thesis
    using Some cal.sub_Some [OF assms Some] cal.W_bounds [OF assms(1), of z]
    by (auto simp: lands_def shifted_neg assms)
qed

lemma lands_zero: "lands c 0 anchor y \<longleftrightarrow> y \<le> anchor"
  by (simp add: lands_def)

lemma shifted_mono:
  assumes "wf_calendar c" and "shifted c x lag = Some x'" and "shifted c y lag = Some y'" and "x \<le> y"
  shows "x' \<le> y'"
proof -
  consider "lag = 0" | "0 < lag" | lead where "0 < lead" "lag = - lead" by (metis neg_0_less_iff_less linorder_cases minus_minus)
  then show ?thesis
  proof cases
    case 1
    with assms show ?thesis by simp
  next
    case 2
    with assms cal.span_mono [OF assms(1) 2] show ?thesis by (simp add: shifted_pos)
  next
    case 3
    have "work (intervals c) x' \<le> work (intervals c) y'"
      using assms 3 cal.sub_Some [OF assms(1) 3(1)] cal.W_mono [OF assms(1,4)] by (simp add: shifted_neg)
    then show ?thesis
      using cal.working_above [OF assms(1), of y' x'] cal.sub_Some [OF assms(1) 3(1), of y y'] assms 3
      by (simp add: shifted_neg)
  qed
qed

definition unshift_answer :: "compiled_intervals \<Rightarrow> int \<Rightarrow> int \<Rightarrow> int \<Rightarrow> int option result \<Rightarrow> bool" where
  "unshift_answer c lag anchor limit r \<longleftrightarrow>
     (r = Inr None \<and> (\<forall>y\<le>limit. \<not> lands c lag anchor y))
   \<or> (\<exists>y. r = Inr (Some y) \<and> y \<le> limit \<and> lands c lag anchor y
        \<and> (\<forall>y'\<le>limit. lands c lag anchor y' \<longrightarrow> y' \<le> y))"

lemma unshift_lag_limit:
  assumes "wf_calendar c"
  shows "unshift_lag c anchor lag (Some limit) =
    (if lands c lag anchor limit then Inr (Some limit)
     else if lag = 0 then Inr (Some anchor)
     else if lag > 0 then Inr (case sub_positive c anchor lag of
         Some x \<Rightarrow> (if x \<le> limit then Some x else None) | None \<Rightarrow> None)
     else unshift_lead c anchor lag limit)"
  by (simp add: unshift_lag_def shift_lag_eq [OF assms] lands_def)

lemma unshift_positive:
  assumes wf: "wf_calendar c" and l: "0 < lag" and over: "\<not> lands c lag anchor limit"
  shows "unshift_answer c lag anchor limit (unshift_lag c anchor lag (Some limit))"
proof (cases "sub_positive c anchor lag")
  case None
  have "\<not> lands c lag anchor y" for y
    using cal.sub_None [OF wf l None] cal.W_bounds [OF wf, of y] by (simp add: lands_pos wf l)
  with None l over show ?thesis by (simp add: unshift_lag_limit wf unshift_answer_def)
next
  case (Some x)
  have le: "lands c lag anchor y \<longleftrightarrow> y \<le> x" for y
    using cal.le_sub_iff [OF wf l Some, of y] by (auto simp: lands_pos wf l)
  with over have "x \<le> limit" by simp
  with Some l over le show ?thesis by (simp add: unshift_lag_limit wf unshift_answer_def)
qed

text \<open>
  A lead. When the ceiling itself does not land, either the lead does not fit before it and no
  coordinate lands at all, or the answer is the working unit that \<open>lead\<close> units separate from the
  last landing at or before the anchor.
\<close>

lemma lead_infeasible:
  assumes wf: "wf_calendar c" and l: "0 < lead" and y: "y \<le> limit" "lands c (- lead) anchor y"
    and "\<not> lands c (- lead) anchor limit"
  shows "work (intervals c) (anchor + 1) + lead \<le> work (intervals c) limit"
  using cal.W_mono [OF wf y(1)] y(2) assms(5) by (auto simp: lands_neg [OF wf l])

lemma unshift_none_answer:
  assumes "\<And>y. y \<le> limit \<Longrightarrow> lands c lag anchor y \<Longrightarrow> False"
  shows "unshift_answer c lag anchor limit (Inr None)"
  using assms by (auto simp: unshift_answer_def)

text \<open>The unit a lead away from the landing, carried across a gap it ends in, is the greatest that lands.\<close>

lemma lead_answer:
  assumes wf: "wf_calendar c" and l: "0 < lead" and over: "\<not> lands c (- lead) anchor limit"
    and landing: "prev_working_start c anchor = Some k" and moved: "add_positive c k lead = Some m"
  defines "a \<equiv> (case next_working c m of None \<Rightarrow> m | Some y \<Rightarrow> y)"
  shows "lands c (- lead) anchor a"
    and "y \<le> limit \<Longrightarrow> lands c (- lead) anchor y \<Longrightarrow> y \<le> a \<and> a \<le> limit"
proof -
  let ?W = "work (intervals c)"
  have Wk: "?W k = ?W (anchor + 1) - 1" "0 \<le> ?W k"
    using cal.prvs_Some [OF wf landing] cal.working_end [OF wf, of k] cal.W_bounds [OF wf, of k] by auto
  have Wm: "?W m = ?W (anchor + 1) + lead - 1" using cal.add_Some [OF wf l moved] Wk by auto
  have Wa: "?W a = ?W m"
    unfolding a_def using cal.nxt_Some [OF wf, of m] by (auto split: option.split)
  show "lands c (- lead) anchor a" using Wa Wm Wk by (simp add: lands_neg [OF wf l])
  assume y: "y \<le> limit" "lands c (- lead) anchor y"
  note full = lead_infeasible [OF wf l y over]
  have "y \<le> a"
  proof (cases "next_working c m")
    case None
    with full Wm cal.nxt_None [OF wf None] cal.W_bounds [OF wf, of limit] show ?thesis by simp
  next
    case (Some z)
    moreover have "?W y \<le> ?W a" using y(2) Wa Wm by (simp add: lands_neg [OF wf l])
    ultimately show ?thesis
      using cal.nxt_Some [OF wf Some] cal.working_above [OF wf, of z y] by (simp add: a_def)
  qed
  moreover have "a \<le> limit" using full cal.W_mono [OF wf, of limit a] Wa Wm by fastforce
  ultimately show "y \<le> a \<and> a \<le> limit" by simp
qed

lemma unshift_negative:
  assumes wf: "wf_calendar c" and l: "0 < lead" and over: "\<not> lands c (- lead) anchor limit"
  shows "unshift_answer c (- lead) anchor limit (unshift_lead c anchor (- lead) limit)"
proof -
  note lands = lands_neg [OF wf l]
  consider (long) "lead > tot (intervals c)"
    | (early) "lead \<le> tot (intervals c)" "prev_working_start c anchor = None"
    | (out) k where "lead \<le> tot (intervals c)" "prev_working_start c anchor = Some k" "add_positive c k lead = None"
    | (found) k m where "lead \<le> tot (intervals c)" "prev_working_start c anchor = Some k" "add_positive c k lead = Some m"
    by (meson not_le option.exhaust)
  then show ?thesis
  proof cases
    case long
    then have "\<not> lands c (- lead) anchor y" for y
      using cal.W_bounds [OF wf, of y] by (simp add: lands)
    with long show ?thesis by (simp add: unshift_lead_def total_work_eq wf unshift_answer_def)
  next
    case early
    with cal.prvs_None [OF wf early(2)] show ?thesis
      by (auto simp: unshift_lead_def total_work_eq wf unshift_answer_def lands)
  next
    case out
    have "tot (intervals c) < work (intervals c) (anchor + 1) + lead"
      using cal.add_None [OF wf l out(3)] cal.prvs_Some [OF wf out(2)] cal.working_end [OF wf, of k] by simp
    then have "unshift_answer c (- lead) anchor limit (Inr None)"
      using lead_infeasible [OF wf l _ _ over] cal.W_bounds [OF wf, of limit]
      by (intro unshift_none_answer) force
    with out l show ?thesis by (simp add: unshift_lead_def total_work_eq wf)
  next
    case found
    define a where "a = (case next_working c m of None \<Rightarrow> m | Some y \<Rightarrow> y)"
    note ans = lead_answer [OF wf l over found(2,3), folded a_def]
    have "unshift_lead c anchor (- lead) limit = (if a > limit then Inr None else Inr (Some a))"
      using found l ans(1) unfolding a_def
      by (auto simp: unshift_lead_def total_work_eq wf Let_def shift_lag_eq lands_def split: option.splits)
    with ans show ?thesis by (force simp: unshift_answer_def)
  qed
qed

lemma unshift_lag_answer:
  assumes "wf_calendar c"
  shows "unshift_answer c lag anchor limit (unshift_lag c anchor lag (Some limit))"
proof (cases "lands c lag anchor limit")
  case True
  then show ?thesis by (auto simp: unshift_lag_limit assms unshift_answer_def)
next
  case False
  consider "lag = 0" | "0 < lag" | "lag < 0" by linarith
  then show ?thesis
  proof cases
    case 1
    with False show ?thesis by (auto simp: unshift_lag_limit assms unshift_answer_def lands_zero)
  next
    case 2
    with False assms show ?thesis by (simp add: unshift_positive)
  next
    case 3
    then have "unshift_lag c anchor lag (Some limit) = unshift_lead c anchor lag limit"
      using False by (simp add: unshift_lag_limit assms)
    with unshift_negative [OF assms, of "- lag" anchor limit] 3 False show ?thesis by simp
  qed
qed

definition unshifted :: "compiled_intervals \<Rightarrow> int \<Rightarrow> int \<Rightarrow> int \<Rightarrow> int option" where
  "unshifted c anchor lag limit = (case unshift_lag c anchor lag (Some limit) of Inr r \<Rightarrow> r | Inl _ \<Rightarrow> None)"

lemma unshift_lag_eq: "wf_calendar c \<Longrightarrow> unshift_lag c anchor lag (Some limit) = Inr (unshifted c anchor lag limit)"
  using unshift_lag_answer [of c lag anchor limit] by (auto simp: unshift_answer_def unshifted_def)

interpretation edge: Lag_Edge wf_calendar shifted unshifted
proof
  show "x' \<le> y'" if "wf_calendar c" "shifted c x l = Some x'" "shifted c y l = Some y'" "x \<le> y" for c x y l x' y'
    using that by (rule shifted_mono)
  show "y \<le> lim \<and> (\<exists>z. shifted c y l = Some z \<and> z \<le> a)
      \<and> (\<forall>y'\<le>lim. (\<exists>z. shifted c y' l = Some z \<and> z \<le> a) \<longrightarrow> y' \<le> y)"
    if "wf_calendar c" "unshifted c a l lim = Some y" for c a l lim y
    using unshift_lag_answer [OF that(1), of l a lim] that
    by (auto simp: unshift_answer_def unshift_lag_eq lands_iff)
  show "\<not> z \<le> a" if "wf_calendar c" "unshifted c a l lim = None" "y' \<le> lim" "shifted c y' l = Some z" for c a l lim y' z
    using unshift_lag_answer [OF that(1), of l a lim] that
    by (auto simp: unshift_answer_def unshift_lag_eq lands_iff)
qed

subsection \<open>What \<open>validate\<close> accepts\<close>

text \<open>The conditions on a network, stated without any traversal.\<close>

definition activity_ok :: "planned_activity \<Rightarrow> bool" where
  "activity_ok a \<longleftrightarrow> 0 \<le> pa_duration a \<and> intervals (pa_calendar a) \<noteq> []
     \<and> intervals (float_calendar a) \<noteq> [] \<and> pa_float_basis a \<in> {''working'', ''elapsed''}
     \<and> (\<forall>rows. pa_assignment_envelope a = Some rows \<longrightarrow>
          2 \<le> length rows \<and> \<not> has_started a \<and> pa_constraint_type a = ASAP
          \<and> (\<forall>p \<in> set rows. 0 < ap_work_duration p \<and> intervals (ap_calendar p) \<noteq> []))
     \<and> (pa_constraint_type a \<in> set DATED_CONSTRAINTS \<longrightarrow> pa_constraint_coordinate a \<noteq> None)
     \<and> (\<forall>r. pa_remaining_duration a = Some r \<longrightarrow> 0 \<le> r)
     \<and> (is_complete a \<longrightarrow> has_started a)
     \<and> (has_started a \<and> \<not> is_complete a \<longrightarrow> pa_remaining_duration a \<noteq> None)
     \<and> (\<forall>s f. pa_actual_start a = Some s \<longrightarrow> pa_actual_finish a = Some f \<longrightarrow> s \<le> f)"

definition window_ok :: "network \<Rightarrow> bool" where
  "window_ok n \<longleftrightarrow> project_start n < horizon n
     \<and> (\<forall>t. status_time n = Some t \<longrightarrow> project_start n \<le> t \<and> t \<le> horizon n)"

definition edge_ok :: "network \<Rightarrow> planned_relationship \<Rightarrow> bool" where
  "edge_ok n r \<longleftrightarrow> pr_predecessor_uid r \<in> set (activity_uids n)
     \<and> pr_successor_uid r \<in> set (activity_uids n) \<and> pr_predecessor_uid r \<noteq> pr_successor_uid r
     \<and> (pr_inactive_boundary_uid r \<noteq> None \<longrightarrow>
          pr_type r = FS \<and> pr_lag r = 0 \<and> pr_lag_calendar r = None
          \<and> (\<forall>a \<in> set (activities n). pa_uid a \<in> {pr_predecessor_uid r, pr_successor_uid r} \<longrightarrow> \<not> has_started a))"

definition boundary_rows :: "uuid \<Rightarrow> planned_relationship list \<Rightarrow> planned_relationship list" where
  "boundary_rows b rs = filter (\<lambda>r. pr_inactive_boundary_uid r = Some b) rs"

definition boundaries_ok :: "planned_relationship list \<Rightarrow> bool" where
  "boundaries_ok rs \<longleftrightarrow>
     (\<forall>r \<in> set rs. \<forall>r' \<in> set rs. \<forall>b b'. pr_inactive_boundary_uid r = Some b \<longrightarrow>
        pr_inactive_boundary_uid r' = Some b' \<longrightarrow> pr_predecessor_uid r = pr_predecessor_uid r' \<longrightarrow> b = b')
   \<and> (\<forall>b. boundary_rows b rs \<noteq> [] \<longrightarrow>
        length (boundary_rows b rs) \<le> 2
        \<and> (\<forall>r \<in> set (boundary_rows b rs). \<forall>r' \<in> set (boundary_rows b rs). pr_predecessor_uid r = pr_predecessor_uid r')
        \<and> distinct (map pr_successor_uid (boundary_rows b rs)))"

definition network_ok :: "network \<Rightarrow> bool" where
  "network_ok n \<longleftrightarrow> window_ok n \<and> distinct (activity_uids n) \<and> (\<forall>a \<in> set (activities n). activity_ok a)
     \<and> distinct (map pr_uid (relationships n)) \<and> (\<forall>r \<in> set (relationships n). edge_ok n r)
     \<and> boundaries_ok (relationships n)"

lemma check_window_iff: "check_window n = Inr u \<longleftrightarrow> window_ok n"
  by (auto simp: check_window_def window_ok_def raise_if_Inr_iff split: option.splits)

lemma check_activity_iff:
  "check_activity a seen = Inr t \<longleftrightarrow> pa_uid a \<notin> set seen \<and> activity_ok a \<and> t = seen @ [pa_uid a]"
  by (cases "pa_remaining_duration a"; cases "pa_actual_start a"; cases "pa_actual_finish a";
      cases "pa_assignment_envelope a")
    (auto simp: check_activity_def check_envelope_def activity_ok_def Let_def result_simps list_ex_iff
        has_started_def is_complete_def not_le not_less)

lemma check_activities_iff:
  "rfold check_activity as seen = Inr t \<longleftrightarrow>
     t = seen @ map pa_uid as \<and> (\<forall>a \<in> set as. activity_ok a)
     \<and> distinct (map pa_uid as) \<and> set seen \<inter> pa_uid ` set as = {}"
  by (induction as arbitrary: seen) (auto simp: rbind_Inr_iff check_activity_iff)

lemma activity_by_uid_mem:
  "activity_by_uid n u = Some a \<Longrightarrow> a \<in> set (activities n) \<and> pa_uid a = u"
  by (auto simp: activity_by_uid_def dest: map_of_SomeD)

lemma activity_by_uid_iff:
  "distinct (activity_uids n) \<Longrightarrow> activity_by_uid n u = Some a \<longleftrightarrow> a \<in> set (activities n) \<and> pa_uid a = u"
proof
  assume "distinct (activity_uids n)" and a: "a \<in> set (activities n) \<and> pa_uid a = u"
  then have "distinct (map fst (rev (map (\<lambda>a. (pa_uid a, a)) (activities n))))"
    by (simp add: activity_uids_def rev_map [symmetric] comp_def)
  then show "activity_by_uid n u = Some a"
    unfolding activity_by_uid_def using a by (intro map_of_is_SomeI) auto
qed (rule activity_by_uid_mem)

lemma activity_by_uid_known: "u \<in> set (activity_uids n) \<Longrightarrow> \<exists>a. activity_by_uid n u = Some a"
  by (cases "activity_by_uid n u") (force simp: activity_by_uid_def activity_uids_def map_of_eq_None_iff)+

lemma activity_uid_mem: "a \<in> set (activities n) \<Longrightarrow> pa_uid a \<in> set (activity_uids n)"
  by (simp add: activity_uids_def)

lemma setdefault_append_map:
  "map_of (setdefault_append k v m) = (map_of m)(k \<mapsto> (case map_of m k of None \<Rightarrow> [v] | Some vs \<Rightarrow> vs @ [v]))"
  by (induction k v m rule: setdefault_append.induct) (auto simp: fun_eq_iff)

lemma setdefault_append_keys:
  "distinct (map fst m) \<Longrightarrow> distinct (map fst (setdefault_append k v m))"
  "set (map fst (setdefault_append k v m)) = insert k (set (map fst m))"
  by (induction k v m rule: setdefault_append.induct) auto

text \<open>
  The loop over the edges: \<open>done\<close> are the edges already checked. The groups collected are the
  edges of each boundary, and the per-predecessor map records each one's boundary.
\<close>

definition edges_inv :: "network \<Rightarrow> planned_relationship list \<Rightarrow> edge_state \<Rightarrow> bool" where
  "edges_inv n rs s \<longleftrightarrow>
     es_edges s = map pr_uid rs \<and> distinct (map pr_uid rs) \<and> (\<forall>r \<in> set rs. edge_ok n r)
   \<and> distinct (map fst (es_boundaries s))
   \<and> (\<forall>b. map_of (es_boundaries s) b = (if boundary_rows b rs = [] then None else Some (boundary_rows b rs)))
   \<and> (\<forall>r \<in> set rs. \<forall>b. pr_inactive_boundary_uid r = Some b \<longrightarrow> map_of (es_by_predecessor s) (pr_predecessor_uid r) = Some b)
   \<and> (\<forall>p b. map_of (es_by_predecessor s) p = Some b \<longrightarrow>
        (\<exists>r \<in> set rs. pr_inactive_boundary_uid r = Some b \<and> pr_predecessor_uid r = p))"

definition edge_fits :: "network \<Rightarrow> planned_relationship list \<Rightarrow> planned_relationship \<Rightarrow> bool" where
  "edge_fits n rs r \<longleftrightarrow> pr_uid r \<notin> set (map pr_uid rs) \<and> edge_ok n r
     \<and> (\<forall>b. pr_inactive_boundary_uid r = Some b \<longrightarrow>
          (\<forall>r' \<in> set rs. \<forall>b'. pr_inactive_boundary_uid r' = Some b' \<longrightarrow>
             pr_predecessor_uid r' = pr_predecessor_uid r \<longrightarrow> b' = b))"

lemma activity_uid_unique:
  "distinct (activity_uids n) \<Longrightarrow> a \<in> set (activities n) \<Longrightarrow> b \<in> set (activities n) \<Longrightarrow> pa_uid a = pa_uid b \<Longrightarrow> a = b"
  by (metis activity_by_uid_iff option.inject)

lemma check_boundary_edge_iff:
  assumes d: "distinct (activity_uids n)"
    and known: "pr_predecessor_uid r \<in> set (activity_uids n)" "pr_successor_uid r \<in> set (activity_uids n)"
  shows "check_boundary_edge n r b s = Inr t \<longleftrightarrow>
    pr_type r = FS \<and> pr_lag r = 0 \<and> pr_lag_calendar r = None
    \<and> (\<forall>a \<in> set (activities n). pa_uid a \<in> {pr_predecessor_uid r, pr_successor_uid r} \<longrightarrow> \<not> has_started a)
    \<and> (\<forall>b'. map_of (es_by_predecessor s) (pr_predecessor_uid r) = Some b' \<longrightarrow> b' = b)
    \<and> t = s\<lparr>es_by_predecessor := (if map_of (es_by_predecessor s) (pr_predecessor_uid r) = None
              then (pr_predecessor_uid r, b) # es_by_predecessor s else es_by_predecessor s),
            es_boundaries := setdefault_append b r (es_boundaries s)\<rparr>"
proof -
  obtain p q where pq: "activity_by_uid n (pr_predecessor_uid r) = Some p"
      "activity_by_uid n (pr_successor_uid r) = Some q"
    using activity_by_uid_known known by metis
  have unstarted: "(\<forall>a \<in> set (activities n). pa_uid a \<in> {pr_predecessor_uid r, pr_successor_uid r} \<longrightarrow> \<not> has_started a)
      \<longleftrightarrow> \<not> has_started p \<and> \<not> has_started q"
  proof -
    have "a \<in> set (activities n) \<and> pa_uid a = pr_predecessor_uid r \<longleftrightarrow> a = p"
      "a \<in> set (activities n) \<and> pa_uid a = pr_successor_uid r \<longleftrightarrow> a = q" for a
      using pq activity_by_uid_iff [OF d] by (metis option.inject)+
    then show ?thesis by (metis insertCI insertE singletonD)
  qed
  show ?thesis unfolding unstarted
    by (cases "map_of (es_by_predecessor s) (pr_predecessor_uid r)")
      (auto simp: check_boundary_edge_def pq raise_if_Inr_iff)
qed

lemma check_relationship_iff:
  assumes d: "distinct (activity_uids n)" and seen: "set seen = set (activity_uids n)"
  shows "check_relationship n seen r s = Inr t \<longleftrightarrow>
    pr_uid r \<notin> set (es_edges s) \<and> edge_ok n r
    \<and> (case pr_inactive_boundary_uid r of
         None \<Rightarrow> t = s\<lparr>es_edges := es_edges s @ [pr_uid r]\<rparr>
       | Some b \<Rightarrow> (\<forall>b'. map_of (es_by_predecessor s) (pr_predecessor_uid r) = Some b' \<longrightarrow> b' = b)
           \<and> t = s\<lparr>es_edges := es_edges s @ [pr_uid r],
                es_by_predecessor := (if map_of (es_by_predecessor s) (pr_predecessor_uid r) = None
                  then (pr_predecessor_uid r, b) # es_by_predecessor s else es_by_predecessor s),
                es_boundaries := setdefault_append b r (es_boundaries s)\<rparr>)"
proof (cases "pr_predecessor_uid r \<in> set (activity_uids n) \<and> pr_successor_uid r \<in> set (activity_uids n)")
  case False
  with seen show ?thesis by (auto simp: check_relationship_def raise_if_Inr_iff edge_ok_def)
next
  case True
  with seen check_boundary_edge_iff [OF d, of r] show ?thesis
    by (cases "pr_inactive_boundary_uid r") (auto simp: check_relationship_def Let_def raise_if_Inr_iff edge_ok_def)
qed

lemma edge_step_fits:
  assumes inv: "edges_inv n rs s" and d: "distinct (activity_uids n)" and seen: "set seen = set (activity_uids n)"
  shows "(\<exists>t. check_relationship n seen r s = Inr t) \<longleftrightarrow> edge_fits n rs r"
proof -
  have prev: "(\<forall>b'. map_of (es_by_predecessor s) (pr_predecessor_uid r) = Some b' \<longrightarrow> b' = b)
      \<longleftrightarrow> (\<forall>r' \<in> set rs. \<forall>b'. pr_inactive_boundary_uid r' = Some b' \<longrightarrow>
             pr_predecessor_uid r' = pr_predecessor_uid r \<longrightarrow> b' = b)" for b
    using inv unfolding edges_inv_def by (metis option.inject)
  have "es_edges s = map pr_uid rs" using inv by (simp add: edges_inv_def)
  then show ?thesis
    unfolding check_relationship_iff [OF d seen] edge_fits_def
    by (cases "pr_inactive_boundary_uid r") (auto simp: prev)
qed

lemma edge_step_inv:
  assumes inv: "edges_inv n rs s" and d: "distinct (activity_uids n)" and seen: "set seen = set (activity_uids n)"
    and t: "check_relationship n seen r s = Inr t"
  shows "edges_inv n (rs @ [r]) t"
proof (cases "pr_inactive_boundary_uid r")
  case None
  with inv t show ?thesis
    unfolding check_relationship_iff [OF d seen] edges_inv_def boundary_rows_def by auto
next
  case (Some b)
  let ?p = "pr_predecessor_uid r"
  from t Some have ok: "pr_uid r \<notin> set (es_edges s)" "edge_ok n r"
      "\<And>b'. map_of (es_by_predecessor s) ?p = Some b' \<Longrightarrow> b' = b"
    and byp: "map_of (es_by_predecessor t) = (map_of (es_by_predecessor s))(?p \<mapsto> b)"
    and groups: "es_boundaries t = setdefault_append b r (es_boundaries s)"
    and edges: "es_edges t = es_edges s @ [pr_uid r]"
    unfolding check_relationship_iff [OF d seen] by (auto split: if_splits)
  have rows: "boundary_rows b' (rs @ [r]) = boundary_rows b' rs @ (if b' = b then [r] else [])" for b'
    using Some by (simp add: boundary_rows_def)
  have "map_of (es_boundaries t) b' = (if boundary_rows b' (rs @ [r]) = [] then None else Some (boundary_rows b' (rs @ [r])))" for b'
    using inv unfolding groups setdefault_append_map rows edges_inv_def by auto
  moreover have "distinct (map fst (es_boundaries t))"
    using inv unfolding groups edges_inv_def by (simp add: setdefault_append_keys)
  moreover have "\<forall>r' \<in> set (rs @ [r]). \<forall>b'. pr_inactive_boundary_uid r' = Some b' \<longrightarrow>
      map_of (es_by_predecessor t) (pr_predecessor_uid r') = Some b'"
    using inv ok(3) Some unfolding byp edges_inv_def by fastforce
  moreover have "\<forall>p b'. map_of (es_by_predecessor t) p = Some b' \<longrightarrow>
      (\<exists>r' \<in> set (rs @ [r]). pr_inactive_boundary_uid r' = Some b' \<and> pr_predecessor_uid r' = p)"
    using inv Some unfolding byp edges_inv_def by auto
  ultimately show ?thesis
    using inv ok(1,2) edges unfolding edges_inv_def by auto
qed

definition boundary_group_ok :: "planned_relationship list \<Rightarrow> bool" where
  "boundary_group_ok rows \<longleftrightarrow> length rows \<in> {1, 2}
     \<and> (\<forall>r \<in> set rows. \<forall>r' \<in> set rows. pr_predecessor_uid r = pr_predecessor_uid r')
     \<and> distinct (map pr_successor_uid rows)"

lemma length_remdups_one: "length (remdups xs) = Suc 0 \<longleftrightarrow> xs \<noteq> [] \<and> (\<forall>x \<in> set xs. \<forall>y \<in> set xs. x = y)"
proof
  assume "length (remdups xs) = Suc 0"
  then obtain z where "remdups xs = [z]" by (auto simp: length_Suc_conv)
  then have "set xs = {z}" by (metis set_remdups list.set(1,2))
  then show "xs \<noteq> [] \<and> (\<forall>x \<in> set xs. \<forall>y \<in> set xs. x = y)" by auto
next
  assume *: "xs \<noteq> [] \<and> (\<forall>x \<in> set xs. \<forall>y \<in> set xs. x = y)"
  then obtain z where "set xs = {z}" by (metis list.set_intros(1) neq_Nil_conv insertI1 singleton_iff subset_singletonD subsetI empty_iff)
  then show "length (remdups xs) = Suc 0" by (simp add: length_remdups_card_conv)
qed

lemma length_remdups_map: "length (remdups (map f xs)) = length xs \<longleftrightarrow> distinct (map f xs)"
  by (metis length_map length_remdups_eq remdups_id_iff_distinct)

lemma check_group_iff: "check_boundary_group (b, rows) u = Inr v \<longleftrightarrow> boundary_group_ok rows"
proof -
  have "length (remdups (map pr_predecessor_uid rows)) = 1
    \<longleftrightarrow> rows \<noteq> [] \<and> (\<forall>r \<in> set rows. \<forall>r' \<in> set rows. pr_predecessor_uid r = pr_predecessor_uid r')"
    using length_remdups_one [of "map pr_predecessor_uid rows"] by simp
  moreover have "\<not> (length rows \<noteq> 1 \<and> length rows \<noteq> 2) \<longleftrightarrow> length rows \<in> {1, 2}" by auto
  moreover have "length rows \<in> {1, 2} \<Longrightarrow> rows \<noteq> []" by auto
  moreover have "(Inr u :: unit result) = Inr v" by simp
  ultimately show ?thesis
    unfolding check_boundary_group_def boundary_group_ok_def Let_def raise_if_Inr_iff length_remdups_map prod.case
    by blast
qed

lemma check_groups_iff: "rfold check_boundary_group gs u = Inr v \<longleftrightarrow> (\<forall>(b, rows) \<in> set gs. boundary_group_ok rows)"
  by (induction gs arbitrary: u) (auto simp: rbind_Inr_iff check_group_iff)

lemma edges_iff:
  assumes d: "distinct (activity_uids n)" and seen: "set seen = set (activity_uids n)"
  shows "rfold (check_relationship n seen) rs \<lparr> es_edges = [], es_boundaries = [], es_by_predecessor = [] \<rparr> = Inr t
    \<Longrightarrow> edges_inv n rs t"
    and "(\<exists>t. rfold (check_relationship n seen) rs \<lparr> es_edges = [], es_boundaries = [], es_by_predecessor = [] \<rparr> = Inr t)
      \<longleftrightarrow> (\<forall>done r rest. rs = done @ r # rest \<longrightarrow> edge_fits n done r)"
proof -
  let ?s0 = "\<lparr> es_edges = [], es_boundaries = [], es_by_predecessor = [] \<rparr>"
  have init: "edges_inv n [] ?s0" by (simp add: edges_inv_def boundary_rows_def)
  show fwd: "edges_inv n rs t" if "rfold (check_relationship n seen) rs ?s0 = Inr t" for t
    using that init by (rule rfold_invariant) (rule edge_step_inv [OF _ d seen])
  show "(\<exists>t. rfold (check_relationship n seen) rs ?s0 = Inr t)
      \<longleftrightarrow> (\<forall>done r rest. rs = done @ r # rest \<longrightarrow> edge_fits n done r)"
  proof
    assume "\<exists>t. rfold (check_relationship n seen) rs ?s0 = Inr t"
    then obtain t where t: "rfold (check_relationship n seen) rs ?s0 = Inr t" by blast
    show "\<forall>done r rest. rs = done @ r # rest \<longrightarrow> edge_fits n done r"
    proof (intro allI impI)
      fix "done" r rest
      assume split: "rs = done @ r # rest"
      from t obtain u v where u: "rfold (check_relationship n seen) done ?s0 = Inr u"
          "check_relationship n seen r u = Inr v"
        by (auto simp: split rfold_append rbind_Inr_iff)
      have "edges_inv n done u"
        using u(1) init by (rule rfold_invariant) (rule edge_step_inv [OF _ d seen])
      with u(2) show "edge_fits n done r" using edge_step_fits [OF _ d seen] by blast
    qed
  next
    assume fits: "\<forall>done r rest. rs = done @ r # rest \<longrightarrow> edge_fits n done r"
    have "\<exists>t. rfold (check_relationship n seen) rs ?s0 = Inr t \<and> edges_inv n rs t"
      using init
    proof (rule rfold_total)
      fix "done" r rest s
      assume split: "rs = done @ r # rest" and inv: "edges_inv n done s"
      have "edge_fits n done r" using fits split by blast
      then obtain s' where s': "check_relationship n seen r s = Inr s'"
        using edge_step_fits [OF inv d seen] by blast
      with edge_step_inv [OF inv d seen s']
      show "\<exists>s'. check_relationship n seen r s = Inr s' \<and> edges_inv n (done @ [r]) s'" by blast
    qed
    then show "\<exists>t. rfold (check_relationship n seen) rs ?s0 = Inr t" by blast
  qed
qed

definition boundary_agree :: "planned_relationship \<Rightarrow> planned_relationship \<Rightarrow> bool" where
  "boundary_agree r r' \<longleftrightarrow> (\<forall>b b'. pr_inactive_boundary_uid r = Some b \<longrightarrow>
     pr_inactive_boundary_uid r' = Some b' \<longrightarrow> pr_predecessor_uid r = pr_predecessor_uid r' \<longrightarrow> b = b')"

definition one_boundary :: "planned_relationship list \<Rightarrow> bool" where
  "one_boundary rs \<longleftrightarrow> (\<forall>r \<in> set rs. \<forall>r' \<in> set rs. boundary_agree r r')"

lemma boundary_agree_refl: "boundary_agree r r"
  unfolding boundary_agree_def by (metis option.inject)

lemma boundary_agree_sym: "boundary_agree r r' \<Longrightarrow> boundary_agree r' r"
  unfolding boundary_agree_def by metis

lemma one_boundary_snoc: "one_boundary (rs @ [x]) \<longleftrightarrow> one_boundary rs \<and> (\<forall>r \<in> set rs. boundary_agree r x)"
  using boundary_agree_refl [of x] boundary_agree_sym by (auto simp: one_boundary_def)

lemma edge_fits_agree:
  "edge_fits n rs r \<longleftrightarrow> pr_uid r \<notin> set (map pr_uid rs) \<and> edge_ok n r \<and> (\<forall>r' \<in> set rs. boundary_agree r' r)"
proof -
  have "(\<forall>b. pr_inactive_boundary_uid r = Some b \<longrightarrow>
          (\<forall>r' \<in> set rs. \<forall>b'. pr_inactive_boundary_uid r' = Some b' \<longrightarrow>
             pr_predecessor_uid r' = pr_predecessor_uid r \<longrightarrow> b' = b)) \<longleftrightarrow> (\<forall>r' \<in> set rs. boundary_agree r' r)"
    unfolding boundary_agree_def by blast
  then show ?thesis unfolding edge_fits_def by simp
qed

lemma edges_fit_iff:
  "(\<forall>done r rest. rs = done @ r # rest \<longrightarrow> edge_fits n done r) \<longleftrightarrow>
     distinct (map pr_uid rs) \<and> (\<forall>r \<in> set rs. edge_ok n r) \<and> one_boundary rs"
proof (induction rs rule: rev_induct)
  case Nil
  show ?case by (simp add: one_boundary_def)
next
  case (snoc x rs)
  have split: "(\<forall>done r rest. rs @ [x] = done @ r # rest \<longrightarrow> edge_fits n done r)
    \<longleftrightarrow> (\<forall>done r rest. rs = done @ r # rest \<longrightarrow> edge_fits n done r) \<and> edge_fits n rs x"
  proof (intro iffI conjI allI impI)
    fix "done" r rest
    assume "\<forall>done r rest. rs @ [x] = done @ r # rest \<longrightarrow> edge_fits n done r" and "rs = done @ r # rest"
    then show "edge_fits n done r" by (metis append_Cons append_assoc)
  next
    fix "done" r rest
    assume both: "(\<forall>done r rest. rs = done @ r # rest \<longrightarrow> edge_fits n done r) \<and> edge_fits n rs x"
      and eq: "rs @ [x] = done @ r # rest"
    then show "edge_fits n done r" by (cases rest rule: rev_cases) auto
  qed auto
  show ?case unfolding split snoc.IH unfolding edge_fits_agree one_boundary_snoc by auto
qed

lemma groups_ok_iff:
  assumes "edges_inv n rs t"
  shows "(\<forall>(b, rows) \<in> set (es_boundaries t). boundary_group_ok rows)
    \<longleftrightarrow> (\<forall>b. boundary_rows b rs \<noteq> [] \<longrightarrow> boundary_group_ok (boundary_rows b rs))"
proof -
  have m: "map_of (es_boundaries t) b = (if boundary_rows b rs = [] then None else Some (boundary_rows b rs))" for b
    using assms by (simp add: edges_inv_def)
  have d: "distinct (map fst (es_boundaries t))"
    using assms by (simp add: edges_inv_def)
  have "(b, rows) \<in> set (es_boundaries t) \<longleftrightarrow> boundary_rows b rs \<noteq> [] \<and> rows = boundary_rows b rs" for b rows
    using m [of b] map_of_eq_Some_iff [OF d, of b rows] by (auto split: if_splits)
  then have "set (es_boundaries t) = {(b, boundary_rows b rs) | b. boundary_rows b rs \<noteq> []}" by auto
  then show ?thesis by auto
qed

lemma boundary_group_ok_iff:
  "rows \<noteq> [] \<Longrightarrow> boundary_group_ok rows \<longleftrightarrow> length rows \<le> 2
     \<and> (\<forall>r \<in> set rows. \<forall>r' \<in> set rows. pr_predecessor_uid r = pr_predecessor_uid r')
     \<and> distinct (map pr_successor_uid rows)"
proof -
  assume "rows \<noteq> []"
  then have "length rows \<in> {1, 2} \<longleftrightarrow> length rows \<le> 2" by (cases rows) (auto simp: le_Suc_eq)
  then show ?thesis unfolding boundary_group_ok_def by simp
qed

lemma validate_iff: "validate n = Inr () \<longleftrightarrow> network_ok n"
proof -
  let ?s0 = "\<lparr> es_edges = [], es_boundaries = [], es_by_predecessor = [] \<rparr>"
  let ?fold = "rfold (check_relationship n (activity_uids n)) (relationships n) ?s0"
  have "validate n = Inr () \<longleftrightarrow> window_ok n \<and> (\<forall>a \<in> set (activities n). activity_ok a)
      \<and> distinct (activity_uids n)
      \<and> (\<exists>t. ?fold = Inr t \<and> (\<forall>(b, rows) \<in> set (es_boundaries t). boundary_group_ok rows))"
    by (auto simp: validate_def rbind_Inr_iff check_window_iff check_activities_iff check_groups_iff activity_uids_def)
  also have "\<dots> \<longleftrightarrow> network_ok n"
  proof (cases "distinct (activity_uids n)")
    case True
    note e = edges_iff [OF True refl, of "relationships n"]
    let ?groups = "\<forall>b. boundary_rows b (relationships n) \<noteq> [] \<longrightarrow> boundary_group_ok (boundary_rows b (relationships n))"
    have "(\<exists>t. ?fold = Inr t \<and> (\<forall>(b, rows) \<in> set (es_boundaries t). boundary_group_ok rows))
      \<longleftrightarrow> (\<exists>t. ?fold = Inr t) \<and> ?groups"
      using groups_ok_iff [OF e(1)] by blast
    moreover have "one_boundary (relationships n) \<and> ?groups \<longleftrightarrow> boundaries_ok (relationships n)"
      unfolding boundaries_ok_def one_boundary_def boundary_agree_def
      by (intro conj_cong refl all_cong1 imp_cong boundary_group_ok_iff)
    ultimately show ?thesis
      unfolding e(2) edges_fit_iff network_ok_def using True by argo
  qed (simp add: network_ok_def)
  finally show ?thesis .
qed

subsection \<open>Properties\<close>

text \<open>
  (C16) Carrying a bound back over a lag is exact: on every well-formed calendar, for every lag of
  either sign and every ceiling, \<open>unshift_lag\<close> never raises; its answer is at or before the
  ceiling, lands at or before the anchor when the lag is applied to it, and is the greatest
  coordinate that does; it answers nothing only when no coordinate up to the ceiling does.
\<close>

theorem unshift_lag_greatest:
  assumes "wf_calendar c"
  shows "\<exists>r. unshift_lag c anchor lag (Some limit) = Inr r \<and>
    (case r of
       None \<Rightarrow> \<forall>y z. y \<le> limit \<longrightarrow> shift_lag c y lag = Inr (Some z) \<longrightarrow> anchor < z
     | Some y \<Rightarrow> y \<le> limit \<and> (\<exists>z. shift_lag c y lag = Inr (Some z) \<and> z \<le> anchor)
         \<and> (\<forall>y' z'. y' \<le> limit \<longrightarrow> shift_lag c y' lag = Inr (Some z') \<longrightarrow> z' \<le> anchor \<longrightarrow> y' \<le> y))"
  using unshift_lag_answer [OF assms, of lag anchor limit]
  by (auto simp: unshift_answer_def shift_lag_eq [OF assms] lands_iff not_le)

theorem unshift_lag_greatest_witness:
  "unshift_lag (ci_of [(0, 5), (10, 100)]) 4 (- 3) (Some 60) = Inr (Some 12)
   \<and> {y. y \<le> 60 \<and> (\<exists>z. shift_lag (ci_of [(0, 5), (10, 100)]) y (- 3) = Inr (Some z) \<and> z \<le> 4)} \<subseteq> {..12}"
proof -
  have v: "unshift_lag (ci_of [(0, 5), (10, 100)]) 4 (- 3) (Some 60) = Inr (Some 12)" by code_simp
  show ?thesis using unshift_lag_greatest [OF ci_of_wf [of "[(0, 5), (10, 100)]"], of 4 "- 3" 60] v by auto
qed

text \<open>
  A lag is applied faithfully and keeps the order of its anchors: \<open>shift_lag\<close> computes the
  reference scan \<open>shift_working_time\<close> for lags of either sign, never raises, and a later anchor
  never lands earlier.
\<close>

theorem shift_lag_faithful:
  assumes "wf_calendar c"
  shows "shift_lag c x lag = Inr (shift_working_time x lag (intervals c))
    \<and> (\<forall>x' y y'. shift_lag c x lag = Inr (Some x') \<longrightarrow> shift_lag c y lag = Inr (Some y')
         \<longrightarrow> x \<le> y \<longrightarrow> x' \<le> y')"
  using edge.shift_mono [OF assms] by (auto simp: shift_lag_eq [OF assms])

theorem shift_lag_faithful_witness:
  "shift_lag (ci_of [(0, 5), (10, 100)]) 3 4 = Inr (shift_working_time 3 4 (intervals (ci_of [(0, 5), (10, 100)])))
   \<and> shift_lag (ci_of [(0, 5), (10, 100)]) 12 (- 3) = Inr (Some 4)"
proof -
  have v: "shift_lag (ci_of [(0, 5), (10, 100)]) 12 (- 3) = Inr (Some 4)" by code_simp
  show ?thesis using shift_lag_faithful [OF ci_of_wf [of "[(0, 5), (10, 100)]"], of 3 4] v by blast
qed

text \<open>
  (C17) \<open>Network.validate\<close> accepts exactly the networks that meet its conditions stated without any
  traversal: a non-empty window holding the status time, unique activity identifiers, activities
  whose numbers, calendars, constraints and actuals are consistent, unique edges between two
  different known activities, and inactive boundaries of at most two unstarted finish-to-start
  edges out of one predecessor. Its three loops, with their seen-sets and group maps, decide
  precisely this.
\<close>

theorem validate_decides: "validate n = Inr () \<longleftrightarrow> network_ok n"
  by (rule validate_iff)

end
