(* ===== verification/Progress.thy ===== *)
theory Progress
  imports Network_Facts
begin

section \<open>Reported progress (\<open>core/engine/progress.py\<close>)\<close>

text \<open>
  The state an activity's actual dates put it in, the policies the engine refuses, where the
  remaining work of a started activity may begin, and which edges the policy releases. Both passes
  and the free float ask \<open>relationship_binds\<close>.
\<close>

datatype progress_state = NOT_STARTED | IN_PROGRESS | COMPLETE

definition state_value :: "progress_state \<Rightarrow> string" where
  "state_value s = (case s of NOT_STARTED \<Rightarrow> ''not_started'' | IN_PROGRESS \<Rightarrow> ''in_progress''
     | COMPLETE \<Rightarrow> ''complete'')"

definition RETAINING_POLICIES :: "progress_policy list" where
  "RETAINING_POLICIES = [NONE, RETAINED_LOGIC]"

definition state_of :: "planned_activity \<Rightarrow> progress_state" where
  "state_of a = (if is_complete a then COMPLETE else if has_started a then IN_PROGRESS else NOT_STARTED)"

definition require_supported :: "progress_policy \<Rightarrow> bool \<Rightarrow> unit result" where
  "require_supported policy progressed =
     raise_if (policy = ACTUAL_DATES \<and> progressed)
       (Coded ProgressError ''PROGRESS_POLICY_NOT_EVIDENCED'' None) (Inr ())"

definition remaining_bound ::
    "progress_state \<Rightarrow> progress_policy \<Rightarrow> int \<Rightarrow> int option \<Rightarrow> int option \<Rightarrow> int" where
  "remaining_bound state policy logic_bound status actual_start =
     (if state \<noteq> IN_PROGRESS then logic_bound
      else let bound = (case status of
                 None \<Rightarrow> logic_bound
               | Some t \<Rightarrow> (if policy = PROGRESS_OVERRIDE then t else max logic_bound t))
           in case actual_start of None \<Rightarrow> bound | Some s \<Rightarrow> max bound s)"

definition relationship_binds :: "progress_policy \<Rightarrow> progress_state \<Rightarrow> int option \<Rightarrow> bool" where
  "relationship_binds policy successor_state status =
     (if successor_state = COMPLETE then False
      else if policy \<noteq> PROGRESS_OVERRIDE \<or> status = None then True
      else successor_state \<noteq> IN_PROGRESS)"

text \<open>The facts the passes use.\<close>

lemma require_supported_iff: "require_supported policy progressed = Inr u \<longleftrightarrow> \<not> (policy = ACTUAL_DATES \<and> progressed)"
  by (simp add: require_supported_def raise_if_Inr_iff)

lemma state_of_iff:
  "state_of a = NOT_STARTED \<longleftrightarrow> \<not> has_started a \<and> \<not> is_complete a"
  "state_of a = COMPLETE \<longleftrightarrow> is_complete a"
  "state_of a = IN_PROGRESS \<longleftrightarrow> has_started a \<and> \<not> is_complete a"
  by (auto simp: state_of_def)

lemma unprogressed_state: "\<not> is_progressed n \<Longrightarrow> a \<in> set (activities n) \<Longrightarrow> state_of a = NOT_STARTED"
  by (auto simp: is_progressed_def state_of_def list_ex_iff)

lemma not_started_binds: "relationship_binds policy NOT_STARTED status"
  by (simp add: relationship_binds_def)

lemma remaining_bound_floors:
  "state = IN_PROGRESS \<Longrightarrow> actual = Some s \<Longrightarrow> s \<le> remaining_bound state policy b status actual"
  "state = IN_PROGRESS \<Longrightarrow> relationship_binds policy state status \<Longrightarrow> b \<le> remaining_bound state policy b status actual"
  "state = IN_PROGRESS \<Longrightarrow> status = Some t \<Longrightarrow> t \<le> remaining_bound state policy b status actual"
  by (auto simp: remaining_bound_def relationship_binds_def split: option.splits)

end
