(* ===== verification/Sample.thy ===== *)
theory Sample
  imports Network_Facts
begin

section \<open>A small network\<close>

text \<open>
  Three activities on one calendar with two gaps, a lagged finish-to-start edge, a start-to-start
  edge and a finish-to-finish edge. The properties are exercised on it, so that each is seen to
  hold somewhere.
\<close>

definition sample_calendar :: compiled_intervals where
  "sample_calendar = ci_of [(0, 8), (10, 18), (20, 100)]"

definition sample_activity :: "uuid \<Rightarrow> int \<Rightarrow> planned_activity" where
  "sample_activity u d = \<lparr> pa_uid = u, pa_duration = d, pa_calendar = sample_calendar,
     pa_constraint_type = ASAP, pa_constraint_coordinate = None, pa_actual_start = None,
     pa_actual_finish = None, pa_remaining_duration = None, pa_measure_calendar = None,
     pa_float_basis = ''working'', pa_assignment_envelope = None \<rparr>"

definition sample_edge :: "uuid \<Rightarrow> uuid \<Rightarrow> uuid \<Rightarrow> relationship_type \<Rightarrow> int \<Rightarrow> planned_relationship" where
  "sample_edge u p q t lag = \<lparr> pr_uid = u, pr_predecessor_uid = p, pr_successor_uid = q,
     pr_type = t, pr_lag = lag, pr_lag_calendar = None, pr_inactive_boundary_uid = None \<rparr>"

definition sample_network :: network where
  "sample_network = \<lparr>
     activities = [sample_activity 1 5, sample_activity 2 6, sample_activity 3 4],
     relationships = [sample_edge 11 1 2 FS 2, sample_edge 12 1 3 SS 0, sample_edge 13 2 3 FF 1],
     project_start = 0, horizon = 90, status_time = None \<rparr>"

text \<open>The same activities with an edge that closes a cycle.\<close>

definition cyclic_network :: network where
  "cyclic_network = sample_network\<lparr>relationships :=
     [sample_edge 11 1 2 FS 2, sample_edge 12 2 3 FS 0, sample_edge 13 3 2 FS 0]\<rparr>"

text \<open>The same network with its first activity under way and a status time.\<close>

definition progressed_network :: network where
  "progressed_network = sample_network\<lparr>
     activities := [(sample_activity 1 5)\<lparr>pa_actual_start := Some 1, pa_remaining_duration := Some 3\<rparr>,
                    sample_activity 2 6, sample_activity 3 4],
     status_time := Some 4\<rparr>"

lemma sample_calendar_wf: "wf_calendar sample_calendar"
  unfolding sample_calendar_def by (rule ci_of_wf)

end
