(* ===== verification/Ordering.thy ===== *)
theory Ordering
  imports Progress Sample "HOL-Library.AList"
begin

section \<open>The order of a pass (\<open>_topological_order\<close> in \<open>core/engine/forward.py\<close>)\<close>

text \<open>
  Kahn's algorithm over the network's edges, ties broken by declaration order, a cycle refused by
  code. The dictionary of indegrees is an association list in insertion order, updated in place; a
  missing key is a \<open>KeyError\<close>. The loop terminates on every input: a popped entry leaves the queue,
  and an entry joins it only when a positive count is decremented to zero.

  The second half is the interface of a fold over such an order: a step that stores one row per
  identifier and reads only the rows of the identifiers it depends on. What such a fold computes is
  a solution of the rows' equations, whatever order it took. Both passes are folds of this kind.
\<close>

type_synonym counts = "(uuid \<times> int) list"

fun position_from :: "nat \<Rightarrow> uuid list \<Rightarrow> uuid \<Rightarrow> nat" where
  "position_from i [] u = 0"
| "position_from i (x # xs) u = (if x = u \<and> u \<notin> set xs then i else position_from (Suc i) xs u)"

definition position :: "network \<Rightarrow> uuid \<Rightarrow> nat" where
  "position n = position_from 0 (activity_uids n)"

definition bump :: "int \<Rightarrow> uuid \<Rightarrow> counts \<Rightarrow> counts result" where
  "bump by u c = (case map_of c u of None \<Rightarrow> Inl KeyError | Some v \<Rightarrow> Inr (AList.update u (v + by) c))"

definition indegrees :: "network \<Rightarrow> counts result" where
  "indegrees n = rfold (\<lambda>r c. bump 1 (pr_successor_uid r) c) (relationships n)
     (map (\<lambda>u. (u, 0)) (rev (remdups (rev (activity_uids n)))))"

text \<open>The inner loop: one decrement for every edge out of the popped activity.\<close>

fun release :: "planned_relationship list \<Rightarrow> counts \<Rightarrow> uuid list \<Rightarrow> (counts \<times> uuid list) result" where
  "release [] c released = Inr (c, released)"
| "release (r # rs) c released =
     (case map_of c (pr_successor_uid r) of
        None \<Rightarrow> Inl KeyError
      | Some v \<Rightarrow> release rs (AList.update (pr_successor_uid r) (v - 1) c)
          (if v - 1 = 0 then released @ [pr_successor_uid r] else released))"

definition outstanding :: "counts \<Rightarrow> nat" where
  "outstanding c = sum_list (map (nat \<circ> snd) c)"

lemma outstanding_update:
  "map_of c u = Some v \<Longrightarrow> outstanding (AList.update u w c) + nat v = outstanding c + nat w"
  by (induction c) (auto simp: outstanding_def)

lemma release_measure:
  "release rs c released = Inr (c', released') \<Longrightarrow>
     length released' + outstanding c' \<le> length released + outstanding c"
proof (induction rs c released rule: release.induct)
  case (2 r rs c released)
  then obtain v where v: "map_of c (pr_successor_uid r) = Some v" by (auto split: option.splits)
  have "outstanding (AList.update (pr_successor_uid r) (v - 1) c) + nat v = outstanding c + nat (v - 1)"
    by (rule outstanding_update [OF v])
  with 2 v show ?case by (auto split: if_splits)
qed simp

function kahn_loop ::
    "(uuid \<Rightarrow> planned_relationship list option) \<Rightarrow> (uuid \<Rightarrow> nat) \<Rightarrow> uuid list \<Rightarrow> counts \<Rightarrow> uuid list
     \<Rightarrow> (uuid list \<times> counts) result" where
  "kahn_loop succs pos [] c order = Inr (order, c)"
| "kahn_loop succs pos (uid # ready) c order =
     (case succs uid of
        None \<Rightarrow> Inl KeyError
      | Some rs \<Rightarrow>
          (case release rs c [] of
             Inl e \<Rightarrow> Inl e
           | Inr (c', released) \<Rightarrow>
               kahn_loop succs pos (ready @ sort_key pos released) c' (order @ [uid])))"
  by pat_completeness auto
termination
proof (relation "measure (\<lambda>(succs, pos, ready, c, order). length ready + outstanding c)", goal_cases)
  case (2 succs pos uid ready c order rs x c' released)
  then have "release rs c [] = Inr (c', released)" by simp
  from release_measure [OF this] show ?case by simp
qed simp

definition topological_order :: "network \<Rightarrow> uuid list result" where
  "topological_order n =
     rbind (successors n) (\<lambda>succs.
     rbind (indegrees n) (\<lambda>c.
     let pos = position n;
         ready = sort_key pos (map fst (filter (\<lambda>(u, k). k = 0) c))
     in rbind (kahn_loop succs pos ready c []) (\<lambda>(order, c').
        if length order \<noteq> length (activities n)
        then let unresolved = sort_key pos (map fst (filter (\<lambda>(u, k). k > 0) c'))
             in Inl (forward_error ''SCHEDULE_CYCLE''
                  (case unresolved of [] \<Rightarrow> None | u # us \<Rightarrow> Some u))
        else Inr order)))"

subsection \<open>Counting\<close>

definition edge_rel :: "network \<Rightarrow> (uuid \<times> uuid) set" where
  "edge_rel n = (\<lambda>r. (pr_predecessor_uid r, pr_successor_uid r)) ` set (relationships n)"

definition known_edges :: "network \<Rightarrow> bool" where
  "known_edges n \<longleftrightarrow> (\<forall>r \<in> set (relationships n).
     pr_predecessor_uid r \<in> set (activity_uids n) \<and> pr_successor_uid r \<in> set (activity_uids n))"

text \<open>Every activity comes after all its predecessors.\<close>

definition precedence_order :: "network \<Rightarrow> uuid list \<Rightarrow> bool" where
  "precedence_order n order \<longleftrightarrow> (\<forall>pre u post. order = pre @ u # post \<longrightarrow>
     (\<forall>r \<in> set (relationships n). pr_successor_uid r = u \<longrightarrow> pr_predecessor_uid r \<in> set pre))"

lemma precedence_order_Nil [simp]: "precedence_order n []"
  by (simp add: precedence_order_def)

lemma precedence_order_snoc:
  "precedence_order n (order @ [u]) \<longleftrightarrow> precedence_order n order
     \<and> (\<forall>r \<in> set (relationships n). pr_successor_uid r = u \<longrightarrow> pr_predecessor_uid r \<in> set order)"
  (is "?l \<longleftrightarrow> ?r")
proof
  assume l: ?l
  have "pr_predecessor_uid r \<in> set pre"
    if "order = pre @ pr_successor_uid r # post" "r \<in> set (relationships n)" for pre post r
    using l that unfolding precedence_order_def by (metis append_Cons append_assoc)
  with l show ?r unfolding precedence_order_def by metis
next
  assume r: ?r
  show ?l
    unfolding precedence_order_def
  proof (intro allI impI ballI)
    fix pre x post r
    assume split: "order @ [u] = pre @ x # post" and "r \<in> set (relationships n)" "pr_successor_uid r = x"
    with r show "pr_predecessor_uid r \<in> set pre"
      unfolding precedence_order_def by (cases post rule: rev_cases) auto
  qed
qed

abbreviation into :: "uuid \<Rightarrow> planned_relationship list \<Rightarrow> int" where
  "into u rs \<equiv> int (length (filter (\<lambda>r. pr_successor_uid r = u) rs))"

lemma update_keys: "map_of c u = Some v \<Longrightarrow> map fst (AList.update u w c) = map fst c"
  by (induction c) auto

lemma indegrees_fold:
  assumes "\<forall>r \<in> set rs. pr_successor_uid r \<in> set (map fst c)"
  shows "\<exists>c'. rfold (\<lambda>r c. bump 1 (pr_successor_uid r) c) rs c = Inr c' \<and> map fst c' = map fst c
    \<and> (\<forall>u. map_of c' u = map_option (\<lambda>v. v + into u rs) (map_of c u))"
  using assms
proof (induction rs arbitrary: c)
  case Nil
  show ?case by (simp add: option.map_ident)
next
  case (Cons r rs)
  let ?x = "pr_successor_uid r"
  obtain v where v: "map_of c ?x = Some v" using Cons.prems map_of_eq_None_iff [of c ?x] by (cases "map_of c ?x") auto
  let ?c = "AList.update ?x (v + 1) c"
  have keys: "map fst ?c = map fst c" by (rule update_keys [OF v])
  obtain c' where c': "rfold (\<lambda>r c. bump 1 (pr_successor_uid r) c) rs ?c = Inr c'" "map fst c' = map fst ?c"
      "\<And>u. map_of c' u = map_option (\<lambda>v. v + into u rs) (map_of ?c u)"
    using Cons.IH [of ?c] Cons.prems keys by auto
  have "map_of c' u = map_option (\<lambda>v. v + into u (r # rs)) (map_of c u)" for u
    using v by (auto simp: c'(3) update_conv' option.map_comp comp_def algebra_simps intro!: option.map_cong)
  with c'(1,2) keys v show ?case by (simp add: bump_def)
qed

lemma release_spec:
  assumes "\<forall>r \<in> set rs. pr_successor_uid r \<in> set (map fst c)"
  shows "\<exists>c' new. release rs c released = Inr (c', released @ new) \<and> map fst c' = map fst c
    \<and> (\<forall>u. map_of c' u = map_option (\<lambda>v. v - into u rs) (map_of c u))
    \<and> distinct new \<and> set new = {u. \<exists>v. map_of c u = Some v \<and> 1 \<le> v \<and> v \<le> into u rs}"
  using assms
proof (induction rs arbitrary: c released)
  case Nil
  show ?case by (auto simp: option.map_ident)
next
  case (Cons r rs)
  let ?x = "pr_successor_uid r"
  obtain v where v: "map_of c ?x = Some v" using Cons.prems map_of_eq_None_iff [of c ?x] by (cases "map_of c ?x") auto
  let ?c = "AList.update ?x (v - 1) c" and ?hit = "if v - 1 = 0 then [?x] else []"
  have keys: "map fst ?c = map fst c" by (rule update_keys [OF v])
  obtain c' new where c': "release rs ?c (released @ ?hit) = Inr (c', (released @ ?hit) @ new)" "map fst c' = map fst ?c"
      "\<And>u. map_of c' u = map_option (\<lambda>v. v - into u rs) (map_of ?c u)" "distinct new"
      "set new = {u. \<exists>v. map_of ?c u = Some v \<and> 1 \<le> v \<and> v \<le> into u rs}"
    using Cons.IH [of ?c "released @ ?hit"] Cons.prems keys by auto
  have "map_of c' u = map_option (\<lambda>v. v - into u (r # rs)) (map_of c u)" for u
    using v by (auto simp: c'(3) update_conv' option.map_comp comp_def algebra_simps intro!: option.map_cong)
  moreover have "set (?hit @ new) = {u. \<exists>v. map_of c u = Some v \<and> 1 \<le> v \<and> v \<le> into u (r # rs)}"
    using v unfolding set_append c'(5) update_conv' by (auto split: if_splits)
  moreover have "distinct (?hit @ new)"
    using c'(4,5) v by (auto simp: update_conv')
  moreover have "release (r # rs) c released = Inr (c', released @ (?hit @ new))"
    using v c'(1) by auto
  ultimately show ?case using c'(2) keys by metis
qed

subsection \<open>The invariant of the loop\<close>

definition kahn_inv :: "network \<Rightarrow> uuid list \<Rightarrow> counts \<Rightarrow> uuid list \<Rightarrow> bool" where
  "kahn_inv n ready c order \<longleftrightarrow>
     map fst c = activity_uids n \<and> distinct (order @ ready) \<and> set (order @ ready) \<subseteq> set (activity_uids n)
   \<and> (\<forall>u \<in> set (activity_uids n). map_of c u =
        Some (into u (filter (\<lambda>r. pr_predecessor_uid r \<notin> set order) (relationships n))))
   \<and> (\<forall>u \<in> set (activity_uids n). map_of c u = Some 0 \<longleftrightarrow> u \<in> set (order @ ready))
   \<and> precedence_order n order"

lemma into_split:
  "into u (filter (\<lambda>r. pr_predecessor_uid r \<notin> S) rs) =
     into u (filter (\<lambda>r. pr_predecessor_uid r \<notin> insert x S) rs)
     + (if x \<in> S then 0 else into u (filter (\<lambda>r. pr_predecessor_uid r = x) rs))"
  by (induction rs) auto

lemma into_zero: "into u rs = 0 \<longleftrightarrow> (\<forall>r \<in> set rs. pr_successor_uid r \<noteq> u)"
  by (induction rs) auto

lemma kahn_step:
  assumes inv: "kahn_inv n (uid # ready) c order" and known: "known_edges n"
    and rs: "rs = filter (\<lambda>r. pr_predecessor_uid r = uid) (relationships n)"
  shows "\<exists>c' new. release rs c [] = Inr (c', new)
    \<and> kahn_inv n (ready @ sort_key pos new) c' (order @ [uid])"
proof -
  let ?U = "set (activity_uids n)"
  let ?left = "\<lambda>S u. into u (filter (\<lambda>r. pr_predecessor_uid r \<notin> S) (relationships n))"
  from inv have keys: "map fst c = activity_uids n" and d: "distinct (order @ uid # ready)"
    and sub: "set (order @ uid # ready) \<subseteq> ?U"
    and cnt: "\<And>u. u \<in> ?U \<Longrightarrow> map_of c u = Some (?left (set order) u)"
    and zero: "\<And>u. u \<in> ?U \<Longrightarrow> map_of c u = Some 0 \<longleftrightarrow> u \<in> set (order @ uid # ready)"
    and prec: "precedence_order n order"
    unfolding kahn_inv_def by blast+
  have rs_known: "\<forall>r \<in> set rs. pr_successor_uid r \<in> set (map fst c)"
    using known by (auto simp: keys rs known_edges_def)
  obtain c' new where rel: "release rs c [] = Inr (c', new)" and keys': "map fst c' = map fst c"
    and c': "\<And>u. map_of c' u = map_option (\<lambda>v. v - into u rs) (map_of c u)"
    and dn: "distinct new" and new: "set new = {u. \<exists>v. map_of c u = Some v \<and> 1 \<le> v \<and> v \<le> into u rs}"
    using release_spec [OF rs_known, of "[]"] by auto
  have split: "?left (set order) u = ?left (set (order @ [uid])) u + into u rs" for u
    using into_split [of u "set order" "relationships n" uid] d by (simp add: rs)
  have cnt': "map_of c' u = Some (?left (set (order @ [uid])) u)" if "u \<in> ?U" for u
    using cnt [OF that] split [of u] by (simp add: c')
  have new_iff: "u \<in> set new \<longleftrightarrow> u \<in> ?U \<and> u \<notin> set (order @ uid # ready) \<and> map_of c' u = Some 0" for u
  proof (cases "u \<in> ?U")
    case True
    have nn: "0 \<le> ?left (set (order @ [uid])) u" by (rule of_nat_0_le_iff)
    have "u \<in> set new \<longleftrightarrow> 1 \<le> ?left (set order) u \<and> ?left (set order) u \<le> into u rs"
      unfolding new mem_Collect_eq cnt [OF True] by blast
    also have "\<dots> \<longleftrightarrow> ?left (set order) u \<noteq> 0 \<and> ?left (set (order @ [uid])) u = 0"
      using split [of u] nn by linarith
    finally show ?thesis
      using zero [OF True] True unfolding cnt [OF True] cnt' [OF True] option.inject by blast
  next
    case False
    then have "map_of c u = None" using keys by (metis map_of_eq_None_iff list.set_map)
    with False show ?thesis by (auto simp: new)
  qed
  have done_zero: "map_of c' u = Some 0" if "u \<in> set (order @ uid # ready)" for u
  proof -
    have U: "u \<in> ?U" using that sub by blast
    have nn: "0 \<le> ?left (set (order @ [uid])) u" "0 \<le> into u rs" by (rule of_nat_0_le_iff)+
    have "?left (set order) u = 0" using zero [OF U] that unfolding cnt [OF U] option.inject by blast
    with split [of u] nn have "?left (set (order @ [uid])) u = 0" by linarith
    then show ?thesis unfolding cnt' [OF U] option.inject .
  qed
  have "kahn_inv n (ready @ sort_key pos new) c' (order @ [uid])"
    unfolding kahn_inv_def
  proof (intro conjI ballI)
    show "map fst c' = activity_uids n" using keys keys' by simp
    show "distinct ((order @ [uid]) @ ready @ sort_key pos new)" using d dn new_iff by auto
    show "set ((order @ [uid]) @ ready @ sort_key pos new) \<subseteq> ?U" using sub new_iff by auto
    show "map_of c' u = Some (?left (set (order @ [uid])) u)" if "u \<in> ?U" for u by (rule cnt' [OF that])
    show "map_of c' u = Some 0 \<longleftrightarrow> u \<in> set ((order @ [uid]) @ ready @ sort_key pos new)" if "u \<in> ?U" for u
      using new_iff [of u] done_zero [of u] that by auto
    have "?left (set order) uid = 0" using zero [of uid] cnt [of uid] sub by simp
    then show "precedence_order n (order @ [uid])"
      using prec unfolding precedence_order_snoc into_zero by auto
  qed
  with rel show ?thesis by blast
qed

lemma kahn_loop_spec:
  assumes "kahn_inv n ready c order" and "known_edges n"
    and "\<And>u. u \<in> set (activity_uids n) \<Longrightarrow>
      succs u = Some (filter (\<lambda>r. pr_predecessor_uid r = u) (relationships n))"
  shows "\<exists>order' c'. kahn_loop succs pos ready c order = Inr (order', c') \<and> kahn_inv n [] c' order'"
  using assms
proof (induction succs pos ready c order rule: kahn_loop.induct)
  case (2 succs pos uid ready c order)
  have "uid \<in> set (activity_uids n)" using "2.prems"(1) by (simp add: kahn_inv_def)
  then have s: "succs uid = Some (filter (\<lambda>r. pr_predecessor_uid r = uid) (relationships n))" by (rule "2.prems"(3))
  from kahn_step [OF "2.prems"(1,2) refl] obtain c' new where
    step: "release (filter (\<lambda>r. pr_predecessor_uid r = uid) (relationships n)) c [] = Inr (c', new)"
      "kahn_inv n (ready @ sort_key pos new) c' (order @ [uid])" by blast
  have "\<exists>order' c''. kahn_loop succs pos (ready @ sort_key pos new) c' (order @ [uid]) = Inr (order', c'')
      \<and> kahn_inv n [] c'' order'"
    by (rule "2.IH" [OF s step(1) refl step(2) "2.prems"(2,3)])
  with s step(1) show ?case by simp
qed simp

subsection \<open>What the order is\<close>

lemma remdups_rev_distinct: "distinct xs \<Longrightarrow> rev (remdups (rev xs)) = xs"
  by (simp add: distinct_remdups_id)

lemma successors_known:
  "known_edges n \<Longrightarrow> successors n = Inr (\<lambda>u. if u \<in> set (activity_uids n)
     then Some (filter (\<lambda>r. pr_predecessor_uid r = u) (relationships n)) else None)"
  by (auto simp: successors_def raise_if_def known_edges_def list_ex_iff)

lemma predecessors_known:
  "known_edges n \<Longrightarrow> predecessors n = Inr (\<lambda>u. if u \<in> set (activity_uids n)
     then Some (filter (\<lambda>r. pr_successor_uid r = u) (relationships n)) else None)"
  by (auto simp: predecessors_def raise_if_def known_edges_def list_ex_iff)

lemma initial_counts:
  assumes "distinct (activity_uids n)" and "known_edges n"
  shows "\<exists>c. indegrees n = Inr c \<and> map fst c = activity_uids n
    \<and> (\<forall>u \<in> set (activity_uids n). map_of c u = Some (into u (relationships n)))"
proof -
  let ?c = "map (\<lambda>u. (u, 0 :: int)) (activity_uids n)"
  have keys: "map fst ?c = activity_uids n" by (simp add: comp_def)
  have zero: "map_of ?c u = Some 0" if "u \<in> set (activity_uids n)" for u
    using that by (simp add: map_of_map_restrict)
  have "\<forall>r \<in> set (relationships n). pr_successor_uid r \<in> set (map fst ?c)"
    using assms(2) unfolding keys known_edges_def by blast
  from indegrees_fold [OF this] obtain c' where
    c': "rfold (\<lambda>r c. bump 1 (pr_successor_uid r) c) (relationships n) ?c = Inr c'" "map fst c' = map fst ?c"
      "\<And>u. map_of c' u = map_option (\<lambda>v. v + into u (relationships n)) (map_of ?c u)" by blast
  then show ?thesis
    using keys zero by (auto simp: indegrees_def remdups_rev_distinct [OF assms(1)])
qed

lemma kahn_start:
  assumes d: "distinct (activity_uids n)" and keys: "map fst c = activity_uids n"
    and cnt: "\<forall>u \<in> set (activity_uids n). map_of c u = Some (into u (relationships n))"
  shows "kahn_inv n (sort_key pos (map fst (filter (\<lambda>(u, k). k = 0) c))) c []"
proof -
  have dc: "distinct (map fst c)" using d keys by simp
  have "set (map fst (filter (\<lambda>(u, k). k = 0) c)) = {u \<in> set (activity_uids n). map_of c u = Some 0}"
    using map_of_eq_Some_iff [OF dc] unfolding keys [symmetric] by force
  moreover have "distinct (map fst (filter (\<lambda>(u, k). k = 0) c))"
    using dc by (rule distinct_map_filter)
  ultimately show ?thesis using keys cnt by (auto simp: kahn_inv_def)
qed

lemma topological_order_cases:
  assumes d: "distinct (activity_uids n)" and known: "known_edges n"
  shows "\<exists>order c. kahn_inv n [] c order \<and> topological_order n =
    (if length order \<noteq> length (activities n)
     then Inl (forward_error ''SCHEDULE_CYCLE''
       (case sort_key (position n) (map fst (filter (\<lambda>(u, k). k > 0) c)) of [] \<Rightarrow> None | u # us \<Rightarrow> Some u))
     else Inr order)"
proof -
  obtain c where c: "indegrees n = Inr c" "map fst c = activity_uids n"
    "\<forall>u \<in> set (activity_uids n). map_of c u = Some (into u (relationships n))"
    using initial_counts [OF assms] by blast
  let ?succs = "\<lambda>u. if u \<in> set (activity_uids n)
    then Some (filter (\<lambda>r. pr_predecessor_uid r = u) (relationships n)) else None"
  have s: "?succs u = Some (filter (\<lambda>r. pr_predecessor_uid r = u) (relationships n))"
    if "u \<in> set (activity_uids n)" for u using that by simp
  from kahn_loop_spec [OF kahn_start [OF d c(2,3), of "position n"] known s, of "position n"]
  obtain order c' where run: "kahn_loop ?succs (position n)
      (sort_key (position n) (map fst (filter (\<lambda>(u, k). k = 0) c))) c [] = Inr (order, c')"
    and inv: "kahn_inv n [] c' order"
    by blast
  have "topological_order n =
    (if length order \<noteq> length (activities n)
     then Inl (forward_error ''SCHEDULE_CYCLE''
       (case sort_key (position n) (map fst (filter (\<lambda>(u, k). k > 0) c')) of [] \<Rightarrow> None | u # us \<Rightarrow> Some u))
     else Inr order)"
    using run by (simp add: topological_order_def successors_known [OF known] c(1) Let_def)
  with inv show ?thesis by blast
qed

lemma kahn_done:
  assumes "kahn_inv n [] c order" and d: "distinct (activity_uids n)"
  shows "length order = length (activities n) \<longleftrightarrow> set order = set (activity_uids n)"
proof -
  have "length order = card (set order)" "set order \<subseteq> set (activity_uids n)"
    using assms(1) by (auto simp: kahn_inv_def distinct_card)
  moreover have "length (activities n) = card (set (activity_uids n))"
    using distinct_card [OF d] by (simp add: activity_uids_def)
  ultimately show ?thesis by (metis List.finite_set card_subset_eq)
qed

text \<open>An activity the loop never reached waits for another one it never reached.\<close>

lemma unreached_waits:
  assumes inv: "kahn_inv n [] c order" and u: "u \<in> set (activity_uids n)" "u \<notin> set order"
  shows "\<exists>r \<in> set (relationships n). pr_successor_uid r = u \<and> pr_predecessor_uid r \<notin> set order"
proof -
  have "into u (filter (\<lambda>r. pr_predecessor_uid r \<notin> set order) (relationships n)) \<noteq> 0"
    using inv u unfolding kahn_inv_def by (metis append_Nil2)
  then show ?thesis unfolding into_zero by auto
qed

text \<open>In a finite set where everything has a predecessor, some element is its own ancestor.\<close>

lemma backward_cycle:
  assumes "finite S" and "u \<in> S" and "\<And>v. v \<in> S \<Longrightarrow> \<exists>w \<in> S. (w, v) \<in> R"
  shows "\<exists>v \<in> S. (v, v) \<in> R\<^sup>+ \<and> (v, u) \<in> R\<^sup>*"
proof (rule ccontr)
  let ?S = "{v \<in> S. (v, u) \<in> R\<^sup>*}"
  let ?R = "R \<inter> ?S \<times> ?S"
  assume none: "\<not> ?thesis"
  have "acyclic ?R"
    unfolding acyclic_def
  proof (intro allI notI)
    fix x assume x: "(x, x) \<in> ?R\<^sup>+"
    then obtain y where "(x, y) \<in> ?R" by (blast dest: tranclD)
    then have "x \<in> ?S" by blast
    moreover have "(x, x) \<in> R\<^sup>+" using x by (rule trancl_mono) blast
    ultimately show False using none by blast
  qed
  moreover have "finite ?R" using assms(1) by simp
  ultimately have "wf ?R" by (intro finite_acyclic_wf)
  moreover have "u \<in> ?S" using assms(2) by simp
  ultimately obtain z where z: "z \<in> ?S" "\<And>y. (y, z) \<in> ?R \<Longrightarrow> y \<notin> ?S"
    by (rule wfE_min) blast
  then obtain w where "w \<in> S" "(w, z) \<in> R" using assms(3) by blast
  with z show False by (auto intro: converse_rtrancl_into_rtrancl)
qed

lemma precedence_order_acyclic:
  assumes "precedence_order n order" and "distinct order" and "fst ` edge_rel n \<subseteq> set order" and "snd ` edge_rel n \<subseteq> set order"
  shows "acyclic (edge_rel n)"
proof -
  let ?pos = "\<lambda>u. length (takeWhile (\<lambda>x. x \<noteq> u) order)"
  have step: "?pos p < ?pos q" if "(p, q) \<in> edge_rel n" for p q
  proof -
    have "q \<in> set order" using that assms(4) by force
    then obtain pre post where split: "order = pre @ q # post" "q \<notin> set pre" by (metis split_list_first)
    then have "p \<in> set pre" using assms(1) that unfolding precedence_order_def edge_rel_def by auto
    then obtain a b where "pre = a @ p # b" "p \<notin> set a" by (metis split_list_first)
    with split show ?thesis by (auto simp: takeWhile_append)
  qed
  have "?pos p < ?pos q" if "(p, q) \<in> (edge_rel n)\<^sup>+" for p q
    using that by induction (auto dest: step)
  then show ?thesis unfolding acyclic_def by blast
qed

text \<open>The order is complete exactly when the edges have no cycle.\<close>

lemma kahn_complete_iff:
  assumes inv: "kahn_inv n [] c order" and d: "distinct (activity_uids n)" and known: "known_edges n"
  shows "set order = set (activity_uids n) \<longleftrightarrow> acyclic (edge_rel n)"
proof
  assume "set order = set (activity_uids n)"
  with inv known show "acyclic (edge_rel n)"
    by (intro precedence_order_acyclic [of n order]) (auto simp: kahn_inv_def known_edges_def edge_rel_def)
next
  assume ac: "acyclic (edge_rel n)"
  show "set order = set (activity_uids n)"
  proof (rule ccontr)
    assume "set order \<noteq> set (activity_uids n)"
    with inv obtain u where u: "u \<in> set (activity_uids n) - set order" unfolding kahn_inv_def by auto
    have "\<exists>v \<in> set (activity_uids n) - set order. (v, v) \<in> (edge_rel n)\<^sup>+ \<and> (v, u) \<in> (edge_rel n)\<^sup>*"
      using u unreached_waits [OF inv] known
      by (intro backward_cycle) (force simp: edge_rel_def known_edges_def)+
    with ac show False unfolding acyclic_def by blast
  qed
qed

lemma kahn_cycle_reported:
  assumes inv: "kahn_inv n [] c order" and d: "distinct (activity_uids n)" and known: "known_edges n"
    and missing: "set order \<noteq> set (activity_uids n)"
  shows "\<exists>u v. (case sort_key f (map fst (filter (\<lambda>(u, k). k > 0) c)) of [] \<Rightarrow> None | u # us \<Rightarrow> Some u) = Some u
    \<and> u \<in> set (activity_uids n) \<and> (v, v) \<in> (edge_rel n)\<^sup>+ \<and> (v, u) \<in> (edge_rel n)\<^sup>*"
proof -
  let ?left = "map fst (filter (\<lambda>(u, k). k > 0) c)"
  have keys: "map fst c = activity_uids n" using inv by (simp add: kahn_inv_def)
  have dc: "distinct (map fst c)" using d keys by simp
  have cnt: "\<exists>k. map_of c u = Some k \<and> 0 \<le> k \<and> (k = 0 \<longleftrightarrow> u \<in> set order)" if "u \<in> set (activity_uids n)" for u
    using inv that unfolding kahn_inv_def by (metis append_Nil2 of_nat_0_le_iff option.inject)
  have left: "set ?left = set (activity_uids n) - set order"
  proof (intro set_eqI iffI)
    fix u assume "u \<in> set ?left"
    then obtain k where "(u, k) \<in> set c" "0 < k" by auto
    then have "map_of c u = Some k" "u \<in> set (map fst c)" using map_of_eq_Some_iff [OF dc] by force+
    then show "u \<in> set (activity_uids n) - set order" using \<open>0 < k\<close> cnt [of u] keys by auto
  next
    fix u assume u: "u \<in> set (activity_uids n) - set order"
    then obtain k where "map_of c u = Some k" "0 < k" using cnt [of u] by force
    then show "u \<in> set ?left" using map_of_SomeD [of c u k] by force
  qed
  have "sort_key f ?left \<noteq> []" using left missing inv unfolding kahn_inv_def by (metis Diff_eq_empty_iff append_Nil2 set_empty set_sort subset_antisym)
  then obtain u us where u: "sort_key f ?left = u # us" by (cases "sort_key f ?left") auto
  then have mem: "u \<in> set (activity_uids n) - set order" using left by (metis list.set_intros(1) set_sort)
  have "\<exists>v \<in> set (activity_uids n) - set order. (v, v) \<in> (edge_rel n)\<^sup>+ \<and> (v, u) \<in> (edge_rel n)\<^sup>*"
    using mem unreached_waits [OF inv] known
    by (intro backward_cycle) (force simp: edge_rel_def known_edges_def)+
  with u mem show ?thesis by auto
qed

lemma topological_order_Inr:
  assumes d: "distinct (activity_uids n)" and known: "known_edges n" and ok: "topological_order n = Inr order"
  shows "distinct order" and "set order = set (activity_uids n)" and "precedence_order n order"
    and "acyclic (edge_rel n)"
proof -
  obtain order' c where inv: "kahn_inv n [] c order'" and "topological_order n = (if length order' \<noteq> length (activities n)
     then Inl (forward_error ''SCHEDULE_CYCLE''
       (case sort_key (position n) (map fst (filter (\<lambda>(u, k). k > 0) c)) of [] \<Rightarrow> None | u # us \<Rightarrow> Some u))
     else Inr order')"
    using topological_order_cases [OF d known] by blast
  with ok have [simp]: "order' = order" and len: "length order = length (activities n)" by (auto split: if_splits)
  show set: "set order = set (activity_uids n)" using kahn_done [OF inv d] len by simp
  show "distinct order" "precedence_order n order" using inv by (auto simp: kahn_inv_def)
  show "acyclic (edge_rel n)" using kahn_complete_iff [OF inv d known] set by simp
qed

lemma topological_order_acyclic:
  assumes "distinct (activity_uids n)" and "known_edges n" and "acyclic (edge_rel n)"
  shows "\<exists>order. topological_order n = Inr order"
proof -
  obtain order c where inv: "kahn_inv n [] c order" and run: "topological_order n = (if length order \<noteq> length (activities n)
     then Inl (forward_error ''SCHEDULE_CYCLE''
       (case sort_key (position n) (map fst (filter (\<lambda>(u, k). k > 0) c)) of [] \<Rightarrow> None | u # us \<Rightarrow> Some u))
     else Inr order)"
    using topological_order_cases [OF assms(1,2)] by blast
  with kahn_complete_iff [OF inv assms(1,2)] kahn_done [OF inv assms(1)] assms(3) show ?thesis by simp
qed

subsection \<open>Properties\<close>

text \<open>
  (C12) Ordering is a decision procedure for cycles: on distinct activities and edges between known
  ones, \<open>_topological_order\<close> answers a duplicate-free list of exactly the activities in which every
  predecessor stands before its successor when the edges are acyclic, and otherwise refuses with
  \<open>SCHEDULE_CYCLE\<close> naming an activity that lies on a cycle or downstream of one. It has no other
  outcome, and its loop terminates on every input.
\<close>

theorem topological_order_correct:
  assumes "distinct (activity_uids n)" and "known_edges n"
  shows "if acyclic (edge_rel n)
    then \<exists>order. topological_order n = Inr order \<and> distinct order
      \<and> set order = set (activity_uids n) \<and> precedence_order n order
    else \<exists>u v. topological_order n = Inl (forward_error ''SCHEDULE_CYCLE'' (Some u))
      \<and> u \<in> set (activity_uids n) \<and> (v, v) \<in> (edge_rel n)\<^sup>+ \<and> (v, u) \<in> (edge_rel n)\<^sup>*"
proof -
  obtain order c where inv: "kahn_inv n [] c order" and run: "topological_order n = (if length order \<noteq> length (activities n)
     then Inl (forward_error ''SCHEDULE_CYCLE''
       (case sort_key (position n) (map fst (filter (\<lambda>(u, k). k > 0) c)) of [] \<Rightarrow> None | u # us \<Rightarrow> Some u))
     else Inr order)"
    using topological_order_cases [OF assms] by blast
  note complete = kahn_complete_iff [OF inv assms] kahn_done [OF inv assms(1)]
  show ?thesis
  proof (cases "acyclic (edge_rel n)")
    case True
    with run complete inv show ?thesis by (simp add: kahn_inv_def)
  next
    case False
    with complete kahn_cycle_reported [OF inv assms, of "position n"] run show ?thesis by simp
  qed
qed

theorem topological_order_correct_witness:
  "topological_order sample_network = Inr [1, 2, 3] \<and> acyclic (edge_rel sample_network)
   \<and> topological_order cyclic_network = Inl (forward_error ''SCHEDULE_CYCLE'' (Some 2))
   \<and> (\<exists>v. (v, v) \<in> (edge_rel cyclic_network)\<^sup>+ \<and> (v, 2) \<in> (edge_rel cyclic_network)\<^sup>*)"
proof -
  have run: "topological_order sample_network = Inr [1, 2, 3]"
    "topological_order cyclic_network = Inl (forward_error ''SCHEDULE_CYCLE'' (Some 2))" by code_simp+
  have d: "distinct (activity_uids sample_network)" "distinct (activity_uids cyclic_network)" by code_simp+
  have k: "known_edges sample_network" "known_edges cyclic_network" by code_simp+
  show ?thesis
    using topological_order_correct [OF d(1) k(1)] topological_order_correct [OF d(2) k(2)] run
    by (auto split: if_splits)
qed

end
