(* ===== verification/Dependency.thy ===== *)
theory Dependency
  imports Prelude
begin

section \<open>Folds over a dependency order\<close>

text \<open>
  The contract of a pass: it visits keys in an order in which every key comes after the keys it
  depends on, computes one row per key from the rows of its dependencies, and stores it. Derived
  here, once for every pass: the rows stored solve the rows' equations, the solution does not
  depend on the order chosen, and a property that carries over from the dependencies to a key holds
  of every row and keeps the pass from failing.
\<close>

definition deps_before :: "('k \<Rightarrow> 'k set) \<Rightarrow> 'k list \<Rightarrow> bool" where
  "deps_before deps ks \<longleftrightarrow> (\<forall>pre k post. ks = pre @ k # post \<longrightarrow> deps k \<subseteq> set pre)"

lemma deps_before_prefix: "deps_before deps (pre @ post) \<Longrightarrow> deps_before deps pre"
  unfolding deps_before_def by (metis append_Cons append_assoc)

lemma deps_before_split: "deps_before deps (pre @ k # post) \<Longrightarrow> deps k \<subseteq> set pre"
  by (simp add: deps_before_def)

locale Dependency_Fold =
  fixes deps :: "'k \<Rightarrow> 'k set"
    and row :: "'k \<Rightarrow> ('k \<Rightarrow> 'v option) \<Rightarrow> 'v result"
    and step :: "'k \<Rightarrow> 's \<Rightarrow> 's result"
    and rows :: "'s \<Rightarrow> 'k \<Rightarrow> 'v option"
  assumes row_local: "(\<And>d. d \<in> deps k \<Longrightarrow> m d = m' d) \<Longrightarrow> row k m = row k m'"
    and step_row: "step k s = Inr s' \<Longrightarrow> \<exists>v. row k (rows s) = Inr v \<and> rows s' = (rows s)(k \<mapsto> v)"
    and step_total: "row k (rows s) = Inr v \<Longrightarrow> \<exists>s'. step k s = Inr s'"
begin

lemma fold_solves:
  assumes run: "rfold step ks s0 = Inr s" and empty: "rows s0 = Map.empty"
    and d: "distinct ks" and o: "deps_before deps ks"
  shows "dom (rows s) = set ks" and "k \<in> set ks \<Longrightarrow> \<exists>v. rows s k = Some v \<and> row k (rows s) = Inr v"
proof -
  have "dom (rows s) = set ks \<and> (\<forall>k \<in> set ks. \<exists>v. rows s k = Some v \<and> row k (rows s) = Inr v)"
    using run
  proof (rule rfold_invariant [where P = "\<lambda>done s. dom (rows s) = set done
        \<and> (\<forall>k \<in> set done. \<exists>v. rows s k = Some v \<and> row k (rows s) = Inr v)"])
    show "dom (rows s0) = set [] \<and> (\<forall>k \<in> set []. \<exists>v. rows s0 k = Some v \<and> row k (rows s0) = Inr v)"
      by (simp add: empty)
  next
    fix pre x post s s'
    assume split: "ks = pre @ x # post" and step: "step x s = Inr s'"
      and inv: "dom (rows s) = set pre \<and> (\<forall>k \<in> set pre. \<exists>v. rows s k = Some v \<and> row k (rows s) = Inr v)"
    obtain v where v: "row x (rows s) = Inr v" "rows s' = (rows s)(x \<mapsto> v)" using step_row [OF step] by blast
    have fresh: "x \<notin> set pre" using d split by simp
    have same: "row k (rows s') = row k (rows s)" if kin: "k \<in> set (pre @ [x])" for k
    proof (rule row_local)
      fix e assume e: "e \<in> deps k"
      obtain a b where ab: "pre @ [x] = a @ k # b" using split_list [OF kin] by blast
      have "ks = (pre @ [x]) @ post" using split by simp
      then have "ks = a @ k # (b @ post)" unfolding ab by simp
      then have "deps k \<subseteq> set a" using o by (metis deps_before_split)
      moreover have "set a \<subseteq> set pre"
        using ab by (cases b rule: rev_cases) auto
      ultimately have "e \<noteq> x" using e fresh by blast
      then show "rows s' e = rows s e" using v(2) by simp
    qed
    show "dom (rows s') = set (pre @ [x]) \<and> (\<forall>k \<in> set (pre @ [x]). \<exists>v. rows s' k = Some v \<and> row k (rows s') = Inr v)"
    proof (intro conjI ballI)
      show "dom (rows s') = set (pre @ [x])" using inv v(2) by auto
      fix k assume k: "k \<in> set (pre @ [x])"
      show "\<exists>v. rows s' k = Some v \<and> row k (rows s') = Inr v"
        unfolding same [OF k] using inv v fresh k by (cases "k = x") auto
    qed
  qed
  then show "dom (rows s) = set ks" and "k \<in> set ks \<Longrightarrow> \<exists>v. rows s k = Some v \<and> row k (rows s) = Inr v"
    by blast+
qed

text \<open>Whatever the order, the equations have one solution.\<close>

lemma solution_unique:
  assumes "deps_before deps ks"
    and "\<And>k. k \<in> set ks \<Longrightarrow> \<exists>v. m k = Some v \<and> row k m = Inr v"
    and "\<And>k. k \<in> set ks \<Longrightarrow> \<exists>v. m' k = Some v \<and> row k m' = Inr v"
  shows "\<forall>k \<in> set ks. m k = m' k"
  using assms
proof (induction ks rule: rev_induct)
  case (snoc x ks)
  have IH: "\<forall>k \<in> set ks. m k = m' k"
    using snoc.prems by (intro snoc.IH) (auto dest: deps_before_prefix)
  have "row x m = row x m'"
    using IH deps_before_split [of deps ks x "[]"] snoc.prems(1) by (intro row_local) auto
  then have "m x = m' x" using snoc.prems(2,3) [of x] by force
  with IH show ?case by simp
qed simp

lemma rows_induct:
  assumes o: "deps_before deps ks"
    and sol: "\<And>k. k \<in> set ks \<Longrightarrow> \<exists>v. m k = Some v \<and> row k m = Inr v"
    and ind: "\<And>k v. k \<in> set ks \<Longrightarrow> m k = Some v \<Longrightarrow> row k m = Inr v \<Longrightarrow>
      (\<And>d. d \<in> deps k \<Longrightarrow> d \<in> set ks \<and> (\<exists>w. m d = Some w \<and> P d w)) \<Longrightarrow> P k v"
    and k: "k \<in> set ks" and v: "m k = Some v"
  shows "P k v"
proof -
  have "\<forall>k \<in> set pre. \<exists>v. m k = Some v \<and> P k v" if "ks = pre @ post" for pre post
    using that
  proof (induction pre arbitrary: post rule: rev_induct)
    case (snoc x pre)
    have IH: "\<forall>k \<in> set pre. \<exists>v. m k = Some v \<and> P k v" using snoc.IH [of "x # post"] snoc.prems by simp
    have sub: "deps x \<subseteq> set pre" using o snoc.prems by (metis append_Cons append_Nil append_assoc deps_before_split)
    have x: "x \<in> set ks" and pre: "set pre \<subseteq> set ks" using snoc.prems by auto
    obtain w where w: "m x = Some w" "row x m = Inr w" using sol [OF x] by blast
    have "P x w" using IH sub pre by (intro ind [OF x w]) blast
    with IH w show ?case by auto
  qed simp
  from this [of ks "[]"] k v show ?thesis by auto
qed

text \<open>When every row can be computed from good dependencies and is good, the fold succeeds.\<close>

lemma fold_succeeds:
  assumes empty: "rows s0 = Map.empty" and d: "distinct ks" and o: "deps_before deps ks"
    and ind: "\<And>k m. k \<in> set ks \<Longrightarrow> (\<And>d. d \<in> deps k \<Longrightarrow> \<exists>w. m d = Some w \<and> P d w) \<Longrightarrow>
      \<exists>v. row k m = Inr v \<and> P k v"
  shows "\<exists>s. rfold step ks s0 = Inr s"
proof -
  have "\<exists>s. rfold step ks s0 = Inr s \<and> (\<forall>k \<in> set ks. \<exists>v. rows s k = Some v \<and> P k v)"
  proof (rule rfold_total [where P = "\<lambda>done s. \<forall>k \<in> set done. \<exists>v. rows s k = Some v \<and> P k v"])
    fix pre x post s
    assume split: "ks = pre @ x # post" and inv: "\<forall>k \<in> set pre. \<exists>v. rows s k = Some v \<and> P k v"
    have "deps x \<subseteq> set pre" using o split by (metis deps_before_split)
    then obtain v where v: "row x (rows s) = Inr v" "P x v"
      using ind [of x "rows s"] inv split by auto
    obtain s' where s': "step x s = Inr s'" using step_total [OF v(1)] by blast
    with step_row [OF s'] v have "rows s' = (rows s)(x \<mapsto> v)" by auto
    with s' inv v d split show "\<exists>s'. step x s = Inr s' \<and> (\<forall>k \<in> set (pre @ [x]). \<exists>v. rows s' k = Some v \<and> P k v)"
      by auto
  qed simp
  then show ?thesis by blast
qed

end

end
