(* ===== verification/Forward.thy ===== *)
theory Forward
  imports Ordering Dependency
begin

section \<open>The forward pass (\<open>core/engine/forward.py\<close>)\<close>

text \<open>
  Earliest dates in topological order. \<open>bounds\<close> reads the predecessors' placed rows,
  \<open>constrain\<close> applies the constraint of untouched work, \<open>place\<close> finds the span, \<open>driver\<close> decides
  which edge put it there, and \<open>place_reported\<close> handles activities with actual dates. One iteration
  of the loop is \<open>forward_row\<close>, a function of the rows already placed; \<open>forward_step\<close> stores its
  result. The JSON digest is the parameter \<open>sha\<close>.
\<close>

definition FROM_PROJECT_START :: string where "FROM_PROJECT_START = ''project_start''"
definition FROM_RELATIONSHIP :: string where "FROM_RELATIONSHIP = ''relationship''"
definition FROM_CONSTRAINT :: string where "FROM_CONSTRAINT = ''constraint''"
definition FROM_ACTUALS :: string where "FROM_ACTUALS = ''actuals''"
definition FROM_STATUS_TIME :: string where "FROM_STATUS_TIME = ''status_time''"
definition FORWARD_PASS_PROFILE :: string where "FORWARD_PASS_PROFILE = ''sto-forward-pass-v5''"

record activity_times =
  at_uid :: uuid
  early_start :: int
  early_finish :: int
  driving_relationship_uid :: "uuid option"
  at_source :: string
  at_state :: progress_state
  remaining_start :: "int option"

record deferred_constraint =
  dc_activity_uid :: uuid
  dc_type :: constraint_type

record constraint_violation =
  cv_activity_uid :: uuid
  cv_type :: constraint_type
  cv_coordinate :: int
  cv_logic_required :: int

record forward_pass_result =
  fp_times :: "activity_times list"
  fp_order :: "uuid list"
  fp_project_start :: int
  fp_project_finish :: int
  deferred_constraints :: "deferred_constraint list"
  constraint_violations :: "constraint_violation list"
  unbounded_starts :: "uuid list"
  fp_fingerprint :: string
  fp_network_fingerprint :: string
  fp_progress_policy :: progress_policy
  fp_snap_milestones :: bool

definition by_uid :: "forward_pass_result \<Rightarrow> uuid \<Rightarrow> activity_times option" where
  "by_uid fp = map_of (rev (map (\<lambda>t. (at_uid t, t)) (fp_times fp)))"

definition driving_relationships :: "forward_pass_result \<Rightarrow> uuid list" where
  "driving_relationships fp =
     fold (\<lambda>t seen. case driving_relationship_uid t of
             None \<Rightarrow> seen
           | Some u \<Rightarrow> (if u \<in> set seen then seen else seen @ [u])) (fp_times fp) []"

definition by_state :: "forward_pass_result \<Rightarrow> progress_state \<Rightarrow> uuid list" where
  "by_state fp s = map at_uid (filter (\<lambda>t. at_state t = s) (fp_times fp))"

definition complete_activities :: "forward_pass_result \<Rightarrow> uuid set" where
  "complete_activities fp = set (map at_uid (filter (\<lambda>t. at_state t = COMPLETE) (fp_times fp)))"

subsection \<open>Bounds\<close>

definition calendar_floor :: "planned_activity \<Rightarrow> int" where
  "calendar_floor a = (case ci_first (pa_calendar a) of None \<Rightarrow> 0 | Some x \<Rightarrow> x)"

record bound_state =
  bs_start :: "int option"
  bs_finish :: "int option"
  bs_start_driver :: "uuid option"
  bs_finish_driver :: "uuid option"

text \<open>Whether a shifted anchor takes over a bound and its driver.\<close>

definition takes_over :: "int \<Rightarrow> int option \<Rightarrow> uuid option \<Rightarrow> bool" where
  "takes_over x bound drv =
     (case bound of None \<Rightarrow> True | Some b \<Rightarrow> x > b \<or> drv = None \<and> x = b)"

definition bound_step ::
    "planned_activity \<Rightarrow> (uuid \<Rightarrow> activity_times option) \<Rightarrow> planned_relationship \<Rightarrow> bound_state
     \<Rightarrow> bound_state result" where
  "bound_step a placed r s =
     (case placed (pr_predecessor_uid r) of
        None \<Rightarrow> Inl KeyError
      | Some p \<Rightarrow>
          (let anchor = (if anchors_predecessor_finish r then early_finish p else early_start p) in
           rbind (shift_lag (lag_calendar_for r (pa_calendar a)) anchor (pr_lag r)) (\<lambda>moved.
             case moved of
               None \<Rightarrow> Inl (forward_error ''SCHEDULE_LAG_UNREACHABLE'' (Some (pr_uid r)))
             | Some x \<Rightarrow> Inr
                 (if bounds_successor_start r
                  then (if takes_over x (bs_start s) (bs_start_driver s)
                        then s\<lparr>bs_start := Some x, bs_start_driver := Some (pr_uid r)\<rparr> else s)
                  else (if takes_over x (bs_finish s) (bs_finish_driver s)
                        then s\<lparr>bs_finish := Some x, bs_finish_driver := Some (pr_uid r)\<rparr> else s)))))"

definition floor_bounds ::
    "planned_activity \<Rightarrow> int \<Rightarrow> bound_state \<Rightarrow> int \<times> int \<times> uuid option \<times> uuid option" where
  "floor_bounds a unbounded_floor s =
     (let cf = calendar_floor a;
          (sb, sd) = (case bs_start s of
                        None \<Rightarrow> (unbounded_floor, None)
                      | Some b \<Rightarrow> (if b < cf then (cf, None) else (b, bs_start_driver s)));
          (fb, fd) = (case bs_finish s of
                        None \<Rightarrow> (cf, None)
                      | Some b \<Rightarrow> (if b < cf then (cf, None) else (b, bs_finish_driver s)))
      in (sb, fb, sd, fd))"

definition bounds ::
    "planned_activity \<Rightarrow> planned_relationship list \<Rightarrow> (uuid \<Rightarrow> activity_times option) \<Rightarrow> int option
     \<Rightarrow> int \<Rightarrow> (int \<times> int \<times> uuid option \<times> uuid option) result" where
  "bounds a rs placed base unbounded_floor =
     rbind (rfold (bound_step a placed) rs
              \<lparr> bs_start = base, bs_finish = base, bs_start_driver = None, bs_finish_driver = None \<rparr>)
       (\<lambda>s. Inr (floor_bounds a unbounded_floor s))"

subsection \<open>Placement\<close>

datatype pin = PinStart | PinFinish

text \<open>The envelope branch: every assignment from the same bound, the task around them.\<close>

definition place_envelope ::
    "planned_activity \<Rightarrow> assignment_placement list \<Rightarrow> int \<Rightarrow> int \<Rightarrow> int \<Rightarrow> int \<Rightarrow> pin option
     \<Rightarrow> (int \<times> int) result" where
  "place_envelope a rows duration start_bound finish_bound hz pinned =
     raise_if (pinned \<noteq> None \<or> duration \<noteq> pa_duration a \<or> finish_bound > start_bound)
       (forward_error ''SCHEDULE_ASSIGNMENT_ENVELOPE_UNMEASURED_BOUND'' (Some (pa_uid a)))
     (rbind (rmap (\<lambda>p. earliest_span (ap_calendar p) start_bound start_bound (ap_work_duration p) hz) rows)
       (\<lambda>spans.
        raise_if (None \<in> set spans) (forward_error ''SCHEDULE_HORIZON_EXCEEDED'' (Some (pa_uid a)))
        (let found = map the spans in
         raise_if (found = []) ValueError
         (let start = min_of 0 (map fst found); finish = max_of 0 (map snd found)
          in raise_if (finish < finish_bound)
               (forward_error ''SCHEDULE_ASSIGNMENT_ENVELOPE_UNMEASURED_BOUND'' (Some (pa_uid a)))
               (Inr (start, finish))))))"

definition place_pinned ::
    "planned_activity \<Rightarrow> int \<Rightarrow> int \<Rightarrow> pin \<Rightarrow> int option \<Rightarrow> (int \<times> int) result" where
  "place_pinned a duration hz p coordinate =
     (case coordinate of
        None \<Rightarrow> Inl (forward_error ''SCHEDULE_CONSTRAINT_INCOMPLETE'' (Some (pa_uid a)))
      | Some c \<Rightarrow>
          (case p of
             PinStart \<Rightarrow>
               rbind (if duration = 0 then Inr (Some c) else add_working (pa_calendar a) c duration) (\<lambda>r.
                 case r of
                   None \<Rightarrow> Inl (forward_error ''SCHEDULE_HORIZON_EXCEEDED'' (Some (pa_uid a)))
                 | Some finish \<Rightarrow>
                     raise_if (finish > hz) (forward_error ''SCHEDULE_HORIZON_EXCEEDED'' (Some (pa_uid a)))
                       (Inr (c, finish)))
           | PinFinish \<Rightarrow>
               rbind (if duration = 0 then Inr (Some c) else sub_working (pa_calendar a) c duration) (\<lambda>r.
                 case r of
                   None \<Rightarrow> Inl (forward_error ''SCHEDULE_HORIZON_EXCEEDED'' (Some (pa_uid a)))
                 | Some start \<Rightarrow>
                     raise_if (c > hz) (forward_error ''SCHEDULE_HORIZON_EXCEEDED'' (Some (pa_uid a)))
                       (Inr (start, c)))))"

definition place_milestone ::
    "planned_activity \<Rightarrow> int \<Rightarrow> int \<Rightarrow> int \<Rightarrow> bool \<Rightarrow> (int \<times> int) result" where
  "place_milestone a start_bound finish_bound hz snap =
     (let moment = max start_bound finish_bound;
          err = forward_error ''SCHEDULE_HORIZON_EXCEEDED'' (Some (pa_uid a))
      in case (if snap then next_working (pa_calendar a) moment else Some moment) of
           None \<Rightarrow> Inl err
         | Some m \<Rightarrow> raise_if (m > hz) err (Inr (m, m)))"

definition place ::
    "planned_activity \<Rightarrow> int \<Rightarrow> int \<Rightarrow> int \<Rightarrow> int \<Rightarrow> bool \<Rightarrow> pin option \<Rightarrow> int option
     \<Rightarrow> (int \<times> int) result" where
  "place a duration start_bound finish_bound hz snap pinned coordinate =
     (case pa_assignment_envelope a of
        Some rows \<Rightarrow> place_envelope a rows duration start_bound finish_bound hz pinned
      | None \<Rightarrow>
          (case pinned of
             Some p \<Rightarrow> place_pinned a duration hz p coordinate
           | None \<Rightarrow>
               if duration = 0 then place_milestone a start_bound finish_bound hz snap
               else rbind (earliest_span (pa_calendar a) start_bound finish_bound duration hz) (\<lambda>span.
                 case span of
                   None \<Rightarrow> Inl (forward_error ''SCHEDULE_HORIZON_EXCEEDED'' (Some (pa_uid a)))
                 | Some sf \<Rightarrow> Inr sf)))"

text \<open>The replay without the finish bound: \<open>None\<close> when it finds no place.\<close>

definition driver ::
    "planned_activity \<Rightarrow> int \<Rightarrow> int \<Rightarrow> int \<Rightarrow> uuid option \<Rightarrow> uuid option \<Rightarrow> int \<Rightarrow> int \<Rightarrow> bool
     \<Rightarrow> uuid option result" where
  "driver a duration start_bound finish_bound start_driver finish_driver fl hz snap =
     (case finish_driver of
        None \<Rightarrow> Inr start_driver
      | Some fd \<Rightarrow>
          rbind (if duration = 0
                 then (let moment = max start_bound fl
                       in Inr (map_option (\<lambda>m. (m, m))
                            (if snap then next_working (pa_calendar a) moment else Some moment)))
                 else earliest_span (pa_calendar a) start_bound fl duration hz)
            (\<lambda>without_finish.
               Inr (case without_finish of
                      None \<Rightarrow> finish_driver
                    | Some (s, f) \<Rightarrow> (if f \<ge> finish_bound then start_driver else finish_driver))))"

definition place_reported ::
    "network \<Rightarrow> bool \<Rightarrow> progress_policy \<Rightarrow> planned_activity \<Rightarrow> progress_state \<Rightarrow> int \<Rightarrow> int
     \<Rightarrow> uuid option \<Rightarrow> uuid option \<Rightarrow> activity_times result" where
  "place_reported n snap policy a state start_bound finish_bound start_driver finish_driver =
     (if state = COMPLETE
      then (case (pa_actual_start a, pa_actual_finish a) of
              (Some s, Some f) \<Rightarrow> Inr \<lparr> at_uid = pa_uid a, early_start = s, early_finish = f,
                  driving_relationship_uid = None, at_source = FROM_ACTUALS, at_state = state,
                  remaining_start = None \<rparr>
            | _ \<Rightarrow> Inl (forward_error ''SCHEDULE_ACTUAL_FINISH_WITHOUT_START'' (Some (pa_uid a))))
      else (case pa_actual_start a of
              None \<Rightarrow> Inl (forward_error ''SCHEDULE_ACTUALS_INCOHERENT'' (Some (pa_uid a)))
            | Some actual \<Rightarrow>
               (let start_floor = remaining_bound state policy start_bound (status_time n) (Some actual);
                    finish_floor = remaining_bound state policy finish_bound (status_time n) (Some actual);
                    overtaken = (\<lambda>b. case status_time n of None \<Rightarrow> False | Some t \<Rightarrow> t > b);
                    sd = (if policy = PROGRESS_OVERRIDE \<or> overtaken start_bound then None else start_driver);
                    fd = (if policy = PROGRESS_OVERRIDE \<or> overtaken finish_bound then None else finish_driver)
                in rbind (place a (remaining a) start_floor finish_floor (horizon n) snap None None)
                     (\<lambda>(rem_start, finish).
                   rbind (driver a (remaining a) start_floor finish_floor sd fd actual (horizon n) snap)
                     (\<lambda>drv. Inr \<lparr> at_uid = pa_uid a, early_start = actual, early_finish = finish,
                        driving_relationship_uid = drv,
                        at_source = (if drv \<noteq> None then FROM_RELATIONSHIP
                          else if (case status_time n of None \<Rightarrow> False | Some t \<Rightarrow> t \<ge> actual)
                               then FROM_STATUS_TIME else FROM_ACTUALS),
                        at_state = state, remaining_start = Some rem_start \<rparr>)))))"

subsection \<open>One iteration of the loop\<close>

record constrained_bounds =
  cb_start :: int
  cb_finish :: int
  cb_start_driver :: "uuid option"
  cb_finish_driver :: "uuid option"
  cb_pinned :: "pin option"
  cb_constrained :: bool
  cb_rests_on_fallback :: bool

definition constrain :: "planned_activity \<Rightarrow> constrained_bounds \<Rightarrow> constrained_bounds" where
  "constrain a b =
     (case (pa_constraint_type a, pa_constraint_coordinate a) of
        (SNET, Some c) \<Rightarrow> (if c > cb_start b
           then b\<lparr>cb_start := c, cb_start_driver := None, cb_constrained := True, cb_rests_on_fallback := False\<rparr>
           else b)
      | (FNET, Some c) \<Rightarrow> (if c > cb_finish b
           then b\<lparr>cb_finish := c, cb_finish_driver := None, cb_constrained := True\<rparr> else b)
      | (MSO, Some c) \<Rightarrow> b\<lparr>cb_pinned := Some PinStart, cb_rests_on_fallback := False\<rparr>
      | (MFO, Some c) \<Rightarrow> b\<lparr>cb_pinned := Some PinFinish, cb_rests_on_fallback := False\<rparr>
      | _ \<Rightarrow> b)"

record forward_result =
  fr_times :: activity_times
  fr_deferred :: "deferred_constraint list"
  fr_violations :: "constraint_violation list"
  fr_unbounded :: "uuid list"

text \<open>
  Untouched work: its constraint, its place, what it displaced when pinned, what drove it, and
  whether the fallback to the project start decided where it went.
\<close>

definition untouched_row ::
    "network \<Rightarrow> bool \<Rightarrow> planned_activity \<Rightarrow> int \<Rightarrow> constrained_bounds \<Rightarrow> forward_result result" where
  "untouched_row n snap a fl b0 =
     (let b = constrain a b0; d = remaining a; c = pa_constraint_coordinate a in
      rbind (place a d (cb_start b) (cb_finish b) (horizon n) snap (cb_pinned b) c) (\<lambda>(start, finish).
      rbind (if cb_pinned b \<noteq> None \<or> cb_constrained b then Inr None
             else driver a d (cb_start b) (cb_finish b) (cb_start_driver b) (cb_finish_driver b)
                    fl (horizon n) snap) (\<lambda>drv.
      rbind (if cb_rests_on_fallback b
             then rbind (place a d (calendar_floor a) (cb_finish b) (horizon n) snap (cb_pinned b) c)
                    (\<lambda>elsewhere. Inr (elsewhere \<noteq> (start, finish)))
             else Inr False) (\<lambda>decided.
      Inr \<lparr> fr_times = \<lparr> at_uid = pa_uid a, early_start = start, early_finish = finish,
              driving_relationship_uid = drv,
              at_source = (if cb_pinned b \<noteq> None \<or> cb_constrained b then FROM_CONSTRAINT
                           else if drv \<noteq> None then FROM_RELATIONSHIP else FROM_PROJECT_START),
              at_state = NOT_STARTED, remaining_start = None \<rparr>,
            fr_deferred = (if pa_constraint_type a \<in> set DEFERRED_CONSTRAINTS
              then [\<lparr> dc_activity_uid = pa_uid a, dc_type = pa_constraint_type a \<rparr>] else []),
            fr_violations = (case (cb_pinned b, c) of
                (Some p, Some x) \<Rightarrow>
                  (let required = (if p = PinStart then cb_start b0 else cb_finish b0);
                       actual = (if p = PinStart then start else finish)
                   in if required > actual
                      then [\<lparr> cv_activity_uid = pa_uid a, cv_type = pa_constraint_type a,
                              cv_coordinate = x, cv_logic_required = required \<rparr>] else [])
              | _ \<Rightarrow> []),
            fr_unbounded = (if decided then [pa_uid a] else []) \<rparr>))))"

definition reported_row ::
    "network \<Rightarrow> bool \<Rightarrow> progress_policy \<Rightarrow> planned_activity \<Rightarrow> int \<Rightarrow> int \<Rightarrow> uuid option
     \<Rightarrow> uuid option \<Rightarrow> forward_result result" where
  "reported_row n snap policy a sb fb sd fd =
     rbind (place_reported n snap policy a (state_of a) sb fb sd fd) (\<lambda>t.
       Inr \<lparr> fr_times = t,
             fr_deferred = (if pa_constraint_type a \<noteq> ASAP
               then [\<lparr> dc_activity_uid = pa_uid a, dc_type = pa_constraint_type a \<rparr>] else []),
             fr_violations = [], fr_unbounded = [] \<rparr>)"

definition forward_base :: "network \<Rightarrow> planned_activity \<Rightarrow> planned_relationship list \<Rightarrow> int option" where
  "forward_base n a rs =
     (if state_of a \<noteq> NOT_STARTED then pa_actual_start a
      else if rs \<noteq> [] then None else Some (project_start n))"

definition forward_row ::
    "network \<Rightarrow> bool \<Rightarrow> progress_policy \<Rightarrow> (uuid \<Rightarrow> planned_relationship list option) \<Rightarrow> uuid
     \<Rightarrow> (uuid \<Rightarrow> activity_times option) \<Rightarrow> forward_result result" where
  "forward_row n snap policy incoming u placed =
     (case (activity_by_uid n u, incoming u) of
        (Some a, Some rs) \<Rightarrow>
          (let base = forward_base n a rs;
               binding = (if relationship_binds policy (state_of a) (status_time n) then rs else []);
               unbounded_floor = (case base of Some x \<Rightarrow> x | None \<Rightarrow> project_start n);
               fl = (case base of Some x \<Rightarrow> x | None \<Rightarrow> calendar_floor a)
           in rbind (bounds a binding placed base unbounded_floor) (\<lambda>(sb, fb, sd, fd).
                if state_of a \<noteq> NOT_STARTED then reported_row n snap policy a sb fb sd fd
                else untouched_row n snap a fl
                  \<lparr> cb_start = sb, cb_finish = fb, cb_start_driver = sd, cb_finish_driver = fd,
                    cb_pinned = None, cb_constrained = False,
                    cb_rests_on_fallback = (binding \<noteq> [] \<and> sd = None \<and> sb = project_start n) \<rparr>))
      | _ \<Rightarrow> Inl KeyError)"

record forward_state =
  fs_placed :: "uuid \<Rightarrow> activity_times option"
  fs_deferred :: "deferred_constraint list"
  fs_violations :: "constraint_violation list"
  fs_unbounded :: "uuid list"

definition forward_step ::
    "network \<Rightarrow> bool \<Rightarrow> progress_policy \<Rightarrow> (uuid \<Rightarrow> planned_relationship list option) \<Rightarrow> uuid
     \<Rightarrow> forward_state \<Rightarrow> forward_state result" where
  "forward_step n snap policy incoming u s =
     rbind (forward_row n snap policy incoming u (fs_placed s)) (\<lambda>r.
       Inr \<lparr> fs_placed = (fs_placed s)(u \<mapsto> fr_times r),
             fs_deferred = fs_deferred s @ fr_deferred r,
             fs_violations = fs_violations s @ fr_violations r,
             fs_unbounded = fs_unbounded s @ fr_unbounded r \<rparr>)"

definition forward_init :: forward_state where
  "forward_init = \<lparr> fs_placed = Map.empty, fs_deferred = [], fs_violations = [], fs_unbounded = [] \<rparr>"

subsection \<open>The pass\<close>

definition forward_fingerprint ::
    "(json \<Rightarrow> string) \<Rightarrow> activity_times list \<Rightarrow> int \<Rightarrow> int \<Rightarrow> bool \<Rightarrow> string" where
  "forward_fingerprint sha placed_rows start finish snap =
     sha (JObj [(''profile'', JStr FORWARD_PASS_PROFILE), (''snap_milestones'', JBool snap),
                (''project_start'', JInt start), (''project_finish'', JInt finish),
                (''times'', JList (map (\<lambda>t. JList
                   [JStr (uuid_text (at_uid t)), JInt (early_start t), JInt (early_finish t),
                    json_opt_int (remaining_start t), JStr (state_value (at_state t))])
                   (sort_key (\<lambda>t. uuid_text (at_uid t)) placed_rows)))])"

text \<open>The answer built from the rows in traversal order and what the loop collected.\<close>

definition forward_answer ::
    "(json \<Rightarrow> string) \<Rightarrow> network \<Rightarrow> bool \<Rightarrow> progress_policy \<Rightarrow> uuid list \<Rightarrow> forward_state
     \<Rightarrow> activity_times list \<Rightarrow> forward_pass_result" where
  "forward_answer sha n snap policy order s placed_rows =
     (let finish = max_of (project_start n) (map early_finish placed_rows)
      in \<lparr> fp_times = placed_rows, fp_order = order, fp_project_start = project_start n,
           fp_project_finish = finish, deferred_constraints = fs_deferred s,
           constraint_violations = fs_violations s, unbounded_starts = fs_unbounded s,
           fp_fingerprint = forward_fingerprint sha placed_rows (project_start n) finish snap,
           fp_network_fingerprint = network_fingerprint sha n,
           fp_progress_policy = policy, fp_snap_milestones = snap \<rparr>)"

definition forward_pass ::
    "(json \<Rightarrow> string) \<Rightarrow> network \<Rightarrow> bool \<Rightarrow> progress_policy \<Rightarrow> forward_pass_result result" where
  "forward_pass sha n snap policy =
     rbind (validate n) (\<lambda>_.
     rbind (require_supported policy (is_progressed n)) (\<lambda>_.
     rbind (topological_order n) (\<lambda>order.
     rbind (predecessors n) (\<lambda>incoming.
     rbind (rfold (forward_step n snap policy incoming) order forward_init) (\<lambda>s.
     rbind (rmap (\<lambda>u. case fs_placed s u of None \<Rightarrow> Inl KeyError | Some t \<Rightarrow> Inr t) order)
       (\<lambda>placed_rows. Inr (forward_answer sha n snap policy order s placed_rows)))))))"

end
