(* ===== verification/Forward_Facts.thy ===== *)
theory Forward_Facts
  imports Forward
begin

section \<open>What the forward pass guarantees\<close>

text \<open>
  The rows of a pass are the solution of its equations (the interpretation of \<open>Dependency_Fold\<close>);
  the bounds are the maximum of what the edges require; a placement honours its bounds and is the
  least that does. From these: precedence, optimality, and what reported progress keeps.
\<close>

subsection \<open>Bounds\<close>

text \<open>Where an edge lands, read from the placed rows.\<close>

definition edge_reach ::
    "planned_activity \<Rightarrow> (uuid \<Rightarrow> activity_times option) \<Rightarrow> planned_relationship \<Rightarrow> int option" where
  "edge_reach a placed r =
     (case placed (pr_predecessor_uid r) of
        None \<Rightarrow> None
      | Some p \<Rightarrow>
          (case shift_lag (lag_calendar_for r (pa_calendar a))
                  (if anchors_predecessor_finish r then early_finish p else early_start p) (pr_lag r) of
             Inr (Some x) \<Rightarrow> Some x
           | _ \<Rightarrow> None))"

lemma bound_step_iff:
  "bound_step a placed r s = Inr s' \<longleftrightarrow> (\<exists>x. edge_reach a placed r = Some x
     \<and> s' = (if bounds_successor_start r
             then (if takes_over x (bs_start s) (bs_start_driver s)
                   then s\<lparr>bs_start := Some x, bs_start_driver := Some (pr_uid r)\<rparr> else s)
             else (if takes_over x (bs_finish s) (bs_finish_driver s)
                   then s\<lparr>bs_finish := Some x, bs_finish_driver := Some (pr_uid r)\<rparr> else s)))"
proof (cases "placed (pr_predecessor_uid r)")
  case (Some p)
  let ?m = "shift_lag (lag_calendar_for r (pa_calendar a))
    (if anchors_predecessor_finish r then early_finish p else early_start p) (pr_lag r)"
  consider e where "?m = Inl e" | "?m = Inr None" | x where "?m = Inr (Some x)"
    by (metis option.exhaust sum.exhaust)
  then show ?thesis
  proof cases
    case 3
    have "Inr t = Inr s' \<longleftrightarrow> s' = t" for t :: bound_state by blast
    with Some 3 show ?thesis unfolding bound_step_def edge_reach_def Let_def by simp
  qed (use Some in \<open>simp_all add: bound_step_def edge_reach_def Let_def\<close>)
qed (simp add: bound_step_def edge_reach_def)

text \<open>One side of the running bounds: the maximum of the base and of the edges on that side.\<close>

definition side_bound :: "int option \<Rightarrow> (planned_relationship \<Rightarrow> int option) \<Rightarrow> planned_relationship list
    \<Rightarrow> int option \<Rightarrow> uuid option \<Rightarrow> bool" where
  "side_bound base reach rs b drv \<longleftrightarrow>
     (\<forall>x. base = Some x \<longrightarrow> (\<exists>y. b = Some y \<and> x \<le> y))
   \<and> (\<forall>r \<in> set rs. \<exists>x y. reach r = Some x \<and> b = Some y \<and> x \<le> y)
   \<and> (\<forall>y. b = Some y \<longrightarrow> base = Some y \<or> (\<exists>r \<in> set rs. reach r = Some y))
   \<and> (\<forall>e. drv = Some e \<longrightarrow> (\<exists>r \<in> set rs. pr_uid r = e \<and> reach r = b))"

lemma side_bound_init: "side_bound base reach [] base None"
  by (auto simp: side_bound_def)

lemma side_bound_step:
  assumes "reach r = Some x" and "side_bound base reach rs b drv"
  shows "takes_over x b drv \<Longrightarrow> side_bound base reach (rs @ [r]) (Some x) (Some (pr_uid r))"
    and "\<not> takes_over x b drv \<Longrightarrow> side_bound base reach (rs @ [r]) b drv"
  using assms unfolding side_bound_def takes_over_def
  by (fastforce split: option.splits)+

definition bounds_inv :: "int option \<Rightarrow> (planned_relationship \<Rightarrow> int option) \<Rightarrow> planned_relationship list
    \<Rightarrow> bound_state \<Rightarrow> bool" where
  "bounds_inv base reach rs s \<longleftrightarrow>
     side_bound base reach (filter bounds_successor_start rs) (bs_start s) (bs_start_driver s)
   \<and> side_bound base reach (filter (\<lambda>r. \<not> bounds_successor_start r) rs) (bs_finish s) (bs_finish_driver s)"

lemma bounds_fold:
  assumes "rfold (bound_step a placed) rs
      \<lparr> bs_start = base, bs_finish = base, bs_start_driver = None, bs_finish_driver = None \<rparr> = Inr s"
  shows "bounds_inv base (edge_reach a placed) rs s"
  using assms
proof (rule rfold_invariant)
  fix pre r post s s'
  assume inv: "bounds_inv base (edge_reach a placed) pre s" and step: "bound_step a placed r s = Inr s'"
  from step obtain x where x: "edge_reach a placed r = Some x" unfolding bound_step_iff by blast
  show "bounds_inv base (edge_reach a placed) (pre @ [r]) s'"
  proof (cases "bounds_successor_start r")
    case True
    with inv step x side_bound_step [where reach = "edge_reach a placed", OF x] show ?thesis
      by (cases "takes_over x (bs_start s) (bs_start_driver s)") (auto simp: bounds_inv_def bound_step_iff)
  next
    case False
    with inv step x side_bound_step [where reach = "edge_reach a placed", OF x] show ?thesis
      by (cases "takes_over x (bs_finish s) (bs_finish_driver s)") (auto simp: bounds_inv_def bound_step_iff)
  qed
qed (simp add: bounds_inv_def side_bound_init)

lemma bounds_fold_total:
  assumes "\<And>r. r \<in> set rs \<Longrightarrow> edge_reach a placed r \<noteq> None"
  shows "\<exists>s. rfold (bound_step a placed) rs s0 = Inr s"
  using assms by (intro rfold_no_error) (auto simp: bound_step_iff)

text \<open>The four results of \<open>bounds\<close>.\<close>

definition floored :: "planned_activity \<Rightarrow> int \<Rightarrow> int option \<Rightarrow> int" where
  "floored a fallback b = (case b of None \<Rightarrow> fallback | Some y \<Rightarrow> max y (calendar_floor a))"

lemma bounds_Inr:
  assumes "bounds a rs placed base ub = Inr (sb, fb, sd, fd)"
  obtains s where "bounds_inv base (edge_reach a placed) rs s"
    and "sb = floored a ub (bs_start s)" and "fb = floored a (calendar_floor a) (bs_finish s)"
    and "sd = (if bs_start s = Some sb then bs_start_driver s else None)"
    and "fd = (if bs_finish s = Some fb then bs_finish_driver s else None)"
proof -
  from assms obtain s where s: "rfold (bound_step a placed) rs
      \<lparr> bs_start = base, bs_finish = base, bs_start_driver = None, bs_finish_driver = None \<rparr> = Inr s"
    "floor_bounds a ub s = (sb, fb, sd, fd)"
    by (auto simp: bounds_def rbind_Inr_iff)
  show thesis
    using s(2) bounds_fold [OF s(1)]
    by (intro that [of s]) (auto simp: floor_bounds_def floored_def Let_def split: option.splits if_splits)
qed

subsection \<open>Placement\<close>

text \<open>The calendars of a network are compiled ones.\<close>

definition wf_network :: "network \<Rightarrow> bool" where
  "wf_network n \<longleftrightarrow>
     (\<forall>a \<in> set (activities n). wf_calendar (pa_calendar a) \<and> wf_calendar (float_calendar a)
        \<and> (\<forall>rows. pa_assignment_envelope a = Some rows \<longrightarrow> (\<forall>p \<in> set rows. wf_calendar (ap_calendar p))))
   \<and> (\<forall>r \<in> set (relationships n). \<forall>c. pr_lag_calendar r = Some c \<longrightarrow> wf_calendar c)"

text \<open>What a span of a plain activity is: a coordinate when empty, a span of its calendar otherwise.\<close>

definition activity_span :: "planned_activity \<Rightarrow> int \<Rightarrow> bool \<Rightarrow> int \<Rightarrow> int \<Rightarrow> bool" where
  "activity_span a d snap s f \<longleftrightarrow>
     (if d = 0 then f = s \<and> (snap \<longrightarrow> contains_coordinate s (intervals (pa_calendar a)))
      else is_span (pa_calendar a) d s f \<and> 0 \<le> s)"

definition fits :: "planned_activity \<Rightarrow> int \<Rightarrow> bool \<Rightarrow> int \<Rightarrow> int \<Rightarrow> int \<Rightarrow> int \<Rightarrow> bool" where
  "fits a d snap sb fb s f \<longleftrightarrow> activity_span a d snap s f \<and> sb \<le> s \<and> fb \<le> f"

lemma fits_zero:
  "fits a 0 snap sb fb s f \<longleftrightarrow> f = s \<and> max sb fb \<le> s \<and> (snap \<longrightarrow> contains_coordinate s (intervals (pa_calendar a)))"
  by (auto simp: fits_def activity_span_def)

lemma place_milestone_spec:
  assumes wf: "wf_calendar (pa_calendar a)"
  shows "place_milestone a sb fb hz snap = Inr (s, f) \<Longrightarrow>
      fits a 0 snap sb fb s f \<and> f \<le> hz \<and> (\<forall>s' f'. fits a 0 snap sb fb s' f' \<longrightarrow> s \<le> s' \<and> f \<le> f')"
    and "place_milestone a sb fb hz snap = Inl e \<Longrightarrow> fits a 0 snap sb fb s f \<Longrightarrow> f \<le> hz \<Longrightarrow> False"
proof -
  let ?m = "max sb fb"
  show "fits a 0 snap sb fb s f \<and> f \<le> hz \<and> (\<forall>s' f'. fits a 0 snap sb fb s' f' \<longrightarrow> s \<le> s' \<and> f \<le> f')"
    if ok: "place_milestone a sb fb hz snap = Inr (s, f)"
  proof (cases snap)
    case True
    then obtain m where m: "next_working (pa_calendar a) ?m = Some m" "s = m" "f = m" "m \<le> hz"
      using ok by (auto simp: place_milestone_def Let_def raise_if_Inr_iff split: option.splits)
    with cal.nxt_Some [OF wf m(1)] next_working_least [OF wf m(1)] True show ?thesis
      unfolding fits_zero by blast
  next
    case False
    then show ?thesis
      using ok unfolding fits_zero by (auto simp: place_milestone_def Let_def raise_if_Inr_iff)
  qed
  show False if err: "place_milestone a sb fb hz snap = Inl e" and fit: "fits a 0 snap sb fb s f" "f \<le> hz"
  proof (cases snap)
    case True
    with fit have s: "?m \<le> s" "contains_coordinate s (intervals (pa_calendar a))" "s \<le> hz"
      unfolding fits_zero by auto
    show False
    proof (cases "next_working (pa_calendar a) ?m")
      case None
      with next_working_none [OF wf None s(1)] s show False by simp
    next
      case (Some m)
      with next_working_least [OF wf Some s(1,2)] s err True show False
        by (simp add: place_milestone_def Let_def raise_if_def split: if_splits)
    qed
  next
    case False
    with fit err show False
      unfolding fits_zero by (auto simp: place_milestone_def Let_def raise_if_def split: if_splits)
  qed
qed

lemma earliest_span_fits:
  assumes wf: "wf_calendar (pa_calendar a)" and d: "0 < d"
  shows "\<exists>r. earliest_span (pa_calendar a) sb fb d hz = Inr r \<and>
    (case r of None \<Rightarrow> \<forall>s f. \<not> (fits a d snap sb fb s f \<and> f \<le> hz)
     | Some (s, f) \<Rightarrow> fits a d snap sb fb s f \<and> f \<le> hz
         \<and> (\<forall>s' f'. fits a d snap sb fb s' f' \<longrightarrow> s \<le> s' \<and> f \<le> f'))"
proof -
  note span = earliest_span_pos [OF wf d, of sb fb hz]
  have fits_iff: "earliest_feasible (pa_calendar a) sb fb d hz s f \<longleftrightarrow> fits a d snap sb fb s f \<and> f \<le> hz" for s f
    using d by (auto simp: earliest_feasible_def fits_def activity_span_def)
  have beyond: "s \<le> s' \<and> f \<le> f'"
    if "fits a d snap sb fb s f" "f \<le> hz" "fits a d snap sb fb s' f'" "\<not> f' \<le> hz" for s f s' f'
  proof -
    have "f \<le> f'" using that by simp
    moreover have "s \<le> s'"
      using is_span_mono_finish [OF wf _ _ _ \<open>f \<le> f'\<close>, of d s s'] that d by (simp add: fits_def activity_span_def)
    ultimately show ?thesis by simp
  qed
  from span show ?thesis
    unfolding earliest_answer_def fits_iff
  proof (elim disjE exE conjE)
    fix s f assume *: "earliest_span (pa_calendar a) sb fb d hz = Inr (Some (s, f))" "fits a d snap sb fb s f" "f \<le> hz"
      "\<forall>s' f'. fits a d snap sb fb s' f' \<and> f' \<le> hz \<longrightarrow> s \<le> s' \<and> f \<le> f'"
    with beyond [of s f] show ?thesis by (auto, blast+)
  qed auto
qed

lemma place_plain:
  assumes wf: "wf_calendar (pa_calendar a)" and d: "0 \<le> d" and plain: "pa_assignment_envelope a = None"
  shows "place a d sb fb hz snap None c = Inr (s, f) \<Longrightarrow>
      fits a d snap sb fb s f \<and> f \<le> hz \<and> (\<forall>s' f'. fits a d snap sb fb s' f' \<longrightarrow> s \<le> s' \<and> f \<le> f')"
    and "place a d sb fb hz snap None c = Inl e \<Longrightarrow> fits a d snap sb fb s f \<Longrightarrow> f \<le> hz \<Longrightarrow> False"
proof -
  show "fits a d snap sb fb s f \<and> f \<le> hz \<and> (\<forall>s' f'. fits a d snap sb fb s' f' \<longrightarrow> s \<le> s' \<and> f \<le> f')"
    if "place a d sb fb hz snap None c = Inr (s, f)"
    using that plain place_milestone_spec(1) [OF wf, of sb fb hz snap s f] d
      earliest_span_fits [OF wf, of d sb fb hz snap]
    by (cases "d = 0") (auto simp: place_def split: option.splits)
  show False if "place a d sb fb hz snap None c = Inl e" "fits a d snap sb fb s f" "f \<le> hz"
    using that plain place_milestone_spec(2) [OF wf, of sb fb hz snap e s f] d
      earliest_span_fits [OF wf, of d sb fb hz snap]
    by (cases "d = 0") (auto simp: place_def split: option.splits)
qed

text \<open>An envelope starts with its first assignment, ends with its last, and honours both bounds.\<close>

lemma place_envelope_spec:
  assumes wf: "\<forall>p \<in> set rows. wf_calendar (ap_calendar p)" and work: "\<forall>p \<in> set rows. 0 < ap_work_duration p"
    and ok: "place_envelope a rows d sb fb hz None = Inr (s, f)"
  shows "sb \<le> s" and "fb \<le> f" and "f \<le> hz" and "s < f"
    and "\<exists>spans. list_all2 (\<lambda>p (x, y). is_span (ap_calendar p) (ap_work_duration p) x y \<and> sb \<le> x) rows spans
      \<and> s = Min (fst ` set spans) \<and> f = Max (snd ` set spans)"
proof -
  from ok obtain spans where spans: "list_all2 (\<lambda>p r. earliest_span (ap_calendar p) sb sb (ap_work_duration p) hz = Inr r) rows spans"
    "None \<notin> set spans" "map the spans \<noteq> []" "s = min_of 0 (map fst (map the spans))" "f = max_of 0 (map snd (map the spans))" "fb \<le> f"
    by (auto simp: place_envelope_def result_simps Let_def rmap_Inr_iff not_less)
  let ?found = "map the spans"
  have each: "is_span (ap_calendar p) (ap_work_duration p) x y \<and> sb \<le> x \<and> y \<le> hz \<and> x < y"
    if p: "p \<in> set rows" and run: "earliest_span (ap_calendar p) sb sb (ap_work_duration p) hz = Inr (Some (x, y))" for p x y
  proof -
    have wfp: "wf_calendar (ap_calendar p)" and d: "0 < ap_work_duration p" using wf work p by auto
    have "earliest_feasible (ap_calendar p) sb sb (ap_work_duration p) hz x y"
      using earliest_span_pos [OF wfp d, of sb sb hz] run unfolding earliest_answer_def by auto
    then show ?thesis using is_span_ordered [OF wfp d] by (auto simp: earliest_feasible_def)
  qed
  have len: "length spans = length rows" using spans(1) by (simp add: list_all2_lengthD)
  have nth: "is_span (ap_calendar (rows ! i)) (ap_work_duration (rows ! i)) (fst (?found ! i)) (snd (?found ! i))
      \<and> sb \<le> fst (?found ! i) \<and> snd (?found ! i) \<le> hz \<and> fst (?found ! i) < snd (?found ! i)"
    if i: "i < length rows" for i
  proof -
    have "spans ! i \<noteq> None" using spans(2) i len by (metis nth_mem)
    then obtain x y where "spans ! i = Some (x, y)" by auto
    moreover have "earliest_span (ap_calendar (rows ! i)) sb sb (ap_work_duration (rows ! i)) hz = Inr (spans ! i)"
      using spans(1) i by (simp add: list_all2_conv_all_nth)
    ultimately show ?thesis using each [of "rows ! i" x y] i len by simp
  qed
  have mem: "sb \<le> fst q \<and> snd q \<le> hz \<and> fst q < snd q" if "q \<in> set ?found" for q
    using that nth len by (metis in_set_conv_nth length_map)
  have smem: "s \<in> fst ` set ?found" and fmem: "f \<in> snd ` set ?found"
    and smin: "s = Min (fst ` set ?found)" and fmax: "f = Max (snd ` set ?found)"
    using min_of_image [OF spans(3)] max_of_image [OF spans(3)] unfolding spans(4,5) by blast+
  show "fb \<le> f" by (rule spans(6))
  from smem obtain q where q: "q \<in> set ?found" "s = fst q" by (rule imageE) simp
  from fmem obtain q' where q': "q' \<in> set ?found" "f = snd q'" by (rule imageE) simp
  show "sb \<le> s" using mem [OF q(1)] q(2) by simp
  show "f \<le> hz" using mem [OF q'(1)] q'(2) by simp
  have "snd q \<le> f" unfolding fmax using q(1) by (intro Max_ge) simp_all
  then show "s < f" using mem [OF q(1)] q(2) by simp
  show "\<exists>spans. list_all2 (\<lambda>p (x, y). is_span (ap_calendar p) (ap_work_duration p) x y \<and> sb \<le> x) rows spans
      \<and> s = Min (fst ` set spans) \<and> f = Max (snd ` set spans)"
    using nth len smin fmax
    by (intro exI [of _ ?found]) (simp add: list_all2_conv_all_nth case_prod_beta)
qed

text \<open>A pinned activity sits on its coordinate, and the other end is its duration away.\<close>

lemma place_pinned_spec:
  assumes wf: "wf_calendar (pa_calendar a)" and d: "0 \<le> d"
  shows "place_pinned a d hz PinStart c = Inr (s, f) \<Longrightarrow>
      c = Some s \<and> f \<le> hz \<and> shift_working_time s d (intervals (pa_calendar a)) = Some f"
    and "place_pinned a d hz PinFinish c = Inr (s, f) \<Longrightarrow>
      c = Some f \<and> f \<le> hz \<and> shift_working_time f (- d) (intervals (pa_calendar a)) = Some s"
  using indexed_layer_agrees [OF wf d]
  by (cases c; auto simp: place_pinned_def result_simps not_less split: if_splits option.splits)+

lemma place_ordered:
  assumes wf: "wf_calendar (pa_calendar a)" and d: "0 \<le> d"
    and env: "\<And>rows. pa_assignment_envelope a = Some rows \<Longrightarrow>
      (\<forall>p \<in> set rows. wf_calendar (ap_calendar p)) \<and> (\<forall>p \<in> set rows. 0 < ap_work_duration p)"
    and ok: "place a d sb fb hz snap None c = Inr (s, f)"
  shows "sb \<le> s" and "fb \<le> f" and "f \<le> hz" and "s \<le> f"
proof -
  have "sb \<le> s \<and> fb \<le> f \<and> f \<le> hz \<and> s \<le> f"
  proof (cases "pa_assignment_envelope a")
    case None
    have "s \<le> f" if "activity_span a d snap s f"
      using that is_span_ordered [OF wf, of d s f] d by (cases "d = 0") (auto simp: activity_span_def)
    with place_plain(1) [OF wf d None ok] show ?thesis by (simp add: fits_def)
  next
    case (Some rows)
    with ok have "place_envelope a rows d sb fb hz None = Inr (s, f)" by (simp add: place_def)
    from place_envelope_spec [OF _ _ this] env [OF Some] show ?thesis by simp
  qed
  then show "sb \<le> s" and "fb \<le> f" and "f \<le> hz" and "s \<le> f" by blast+
qed

subsection \<open>The pass as a fold\<close>

definition incoming_edges :: "network \<Rightarrow> uuid \<Rightarrow> planned_relationship list" where
  "incoming_edges n u = filter (\<lambda>r. pr_successor_uid r = u) (relationships n)"

definition incoming_of :: "network \<Rightarrow> uuid \<Rightarrow> planned_relationship list option" where
  "incoming_of n u = (if u \<in> set (activity_uids n) then Some (incoming_edges n u) else None)"

definition pred_uids :: "network \<Rightarrow> uuid \<Rightarrow> uuid set" where
  "pred_uids n u = pr_predecessor_uid ` set (incoming_edges n u)"

abbreviation forward_times ::
    "network \<Rightarrow> bool \<Rightarrow> progress_policy \<Rightarrow> uuid \<Rightarrow> (uuid \<Rightarrow> activity_times option) \<Rightarrow> activity_times result" where
  "forward_times n snap policy u m \<equiv> rbind (forward_row n snap policy (incoming_of n) u m) (\<lambda>r. Inr (fr_times r))"

lemma bounds_cong:
  "(\<And>r. r \<in> set rs \<Longrightarrow> m (pr_predecessor_uid r) = m' (pr_predecessor_uid r)) \<Longrightarrow> bounds a rs m base ub = bounds a rs m' base ub"
  unfolding bounds_def by (intro arg_cong2 [where f = rbind] refl rfold_cong) (simp_all add: bound_step_def)

lemma forward_row_cong:
  assumes "\<And>d. d \<in> pred_uids n u \<Longrightarrow> m d = m' d"
  shows "forward_row n snap policy (incoming_of n) u m = forward_row n snap policy (incoming_of n) u m'"
proof -
  have "bounds a rs m base ub = bounds a rs m' base ub" if "set rs \<subseteq> set (incoming_edges n u)" for a rs base ub
    using that assms by (intro bounds_cong) (auto simp: pred_uids_def)
  then show ?thesis
    by (auto simp: forward_row_def incoming_of_def Let_def split: option.splits)
qed

interpretation fwd: Dependency_Fold "pred_uids n" "forward_times n snap policy"
    "forward_step n snap policy (incoming_of n)" fs_placed
  for n snap policy
proof
  show "forward_times n snap policy k m = forward_times n snap policy k m'"
    if "\<And>d. d \<in> pred_uids n k \<Longrightarrow> m d = m' d" for k m m'
    using forward_row_cong [OF that] by simp
  show "\<exists>v. forward_times n snap policy k (fs_placed s) = Inr v \<and> fs_placed s' = (fs_placed s)(k \<mapsto> v)"
    if "forward_step n snap policy (incoming_of n) k s = Inr s'" for k s s'
    using that by (auto simp: forward_step_def rbind_Inr_iff)
  show "\<exists>s'. forward_step n snap policy (incoming_of n) k s = Inr s'"
    if "forward_times n snap policy k (fs_placed s) = Inr v" for k s v
    using that by (auto simp: forward_step_def rbind_Inr_iff)
qed

lemma precedence_deps: "precedence_order n order \<Longrightarrow> deps_before (pred_uids n) order"
  by (fastforce simp: precedence_order_def deps_before_def pred_uids_def incoming_edges_def)

lemma network_ok_known: "network_ok n \<Longrightarrow> known_edges n"
  by (auto simp: network_ok_def edge_ok_def known_edges_def)

lemma network_ok_distinct: "network_ok n \<Longrightarrow> distinct (activity_uids n)"
  by (simp add: network_ok_def)

lemma predecessors_incoming: "network_ok n \<Longrightarrow> predecessors n = Inr (incoming_of n)"
  using predecessors_known [OF network_ok_known] by (auto simp: incoming_of_def incoming_edges_def fun_eq_iff)

lemma place_reported_shape:
  assumes "place_reported n snap policy a state sb fb sd fd = Inr t"
  shows "at_uid t = pa_uid a" and "at_state t = state"
proof -
  have "at_uid t = pa_uid a \<and> at_state t = state"
  proof (cases "state = COMPLETE")
    case True
    with assms show ?thesis by (auto simp: place_reported_def split: option.splits)
  next
    case False
    with assms obtain s where "pa_actual_start a = Some s" by (auto simp: place_reported_def split: option.splits)
    with False assms show ?thesis by (auto simp: place_reported_def Let_def rbind_Inr_iff)
  qed
  then show "at_uid t = pa_uid a" and "at_state t = state" by blast+
qed

text \<open>What an untouched row is: the place found, and the driver of that place.\<close>

lemma untouched_row_shape:
  assumes "untouched_row n snap a fl b0 = Inr r"
  defines "b \<equiv> constrain a b0"
  shows "at_uid (fr_times r) = pa_uid a" and "at_state (fr_times r) = NOT_STARTED"
    and "remaining_start (fr_times r) = None"
    and "place a (remaining a) (cb_start b) (cb_finish b) (horizon n) snap (cb_pinned b) (pa_constraint_coordinate a)
      = Inr (early_start (fr_times r), early_finish (fr_times r))"
    and "cb_pinned b \<noteq> None \<or> cb_constrained b \<Longrightarrow> driving_relationship_uid (fr_times r) = None"
    and "cb_pinned b = None \<Longrightarrow> \<not> cb_constrained b \<Longrightarrow>
      driver a (remaining a) (cb_start b) (cb_finish b) (cb_start_driver b) (cb_finish_driver b) fl (horizon n) snap
        = Inr (driving_relationship_uid (fr_times r))"
proof -
  from assms(1) obtain s f drv decided where
    p: "place a (remaining a) (cb_start b) (cb_finish b) (horizon n) snap (cb_pinned b) (pa_constraint_coordinate a) = Inr (s, f)"
    and d: "(if cb_pinned b \<noteq> None \<or> cb_constrained b then Inr None
        else driver a (remaining a) (cb_start b) (cb_finish b) (cb_start_driver b) (cb_finish_driver b) fl (horizon n) snap) = Inr drv"
    and r: "at_uid (fr_times r) = pa_uid a" "at_state (fr_times r) = NOT_STARTED" "remaining_start (fr_times r) = None"
      "early_start (fr_times r) = s" "early_finish (fr_times r) = f" "driving_relationship_uid (fr_times r) = drv"
    unfolding untouched_row_def b_def [symmetric] Let_def rbind_Inr_iff by (force simp: rbind_Inr_iff)
  then show "at_uid (fr_times r) = pa_uid a" and "at_state (fr_times r) = NOT_STARTED"
    and "remaining_start (fr_times r) = None"
    and "place a (remaining a) (cb_start b) (cb_finish b) (horizon n) snap (cb_pinned b) (pa_constraint_coordinate a)
      = Inr (early_start (fr_times r), early_finish (fr_times r))"
    and "cb_pinned b \<noteq> None \<or> cb_constrained b \<Longrightarrow> driving_relationship_uid (fr_times r) = None"
    and "cb_pinned b = None \<Longrightarrow> \<not> cb_constrained b \<Longrightarrow>
      driver a (remaining a) (cb_start b) (cb_finish b) (cb_start_driver b) (cb_finish_driver b) fl (horizon n) snap
        = Inr (driving_relationship_uid (fr_times r))"
    by simp_all
qed

text \<open>A row of the pass comes from bounds over the edges that bind, and from one of two placements.\<close>

definition binding_edges :: "network \<Rightarrow> progress_policy \<Rightarrow> planned_activity \<Rightarrow> planned_relationship list" where
  "binding_edges n policy a =
     (if relationship_binds policy (state_of a) (status_time n) then incoming_edges n (pa_uid a) else [])"

lemma forward_row_Inr:
  assumes "forward_row n snap policy (incoming_of n) u m = Inr r"
  obtains a sb fb sd fd where "a \<in> set (activities n)" and "pa_uid a = u" and "activity_by_uid n u = Some a"
    and "bounds a (binding_edges n policy a) m (forward_base n a (incoming_edges n u))
      (case forward_base n a (incoming_edges n u) of Some x \<Rightarrow> x | None \<Rightarrow> project_start n) = Inr (sb, fb, sd, fd)"
    and "if state_of a \<noteq> NOT_STARTED then reported_row n snap policy a sb fb sd fd = Inr r
      else untouched_row n snap a
        (case forward_base n a (incoming_edges n u) of Some x \<Rightarrow> x | None \<Rightarrow> calendar_floor a)
        \<lparr> cb_start = sb, cb_finish = fb, cb_start_driver = sd, cb_finish_driver = fd,
          cb_pinned = None, cb_constrained = False,
          cb_rests_on_fallback = (binding_edges n policy a \<noteq> [] \<and> sd = None \<and> sb = project_start n) \<rparr> = Inr r"
proof -
  from assms obtain a where a: "activity_by_uid n u = Some a" "u \<in> set (activity_uids n)"
    by (auto simp: forward_row_def incoming_of_def split: option.splits if_splits)
  have uid: "a \<in> set (activities n)" "pa_uid a = u" using activity_by_uid_mem [OF a(1)] by auto
  note run = assms [unfolded forward_row_def a incoming_of_def if_P [OF a(2)] prod.case option.case Let_def rbind_Inr_iff]
  show thesis
    using run uid a(1)
    by (elim exE conjE, simp only: binding_edges_def split: prod.splits)
      (rule that, auto simp: binding_edges_def split: if_splits)
qed

lemma map_of_rev_mem:
  "distinct (map key ts) \<Longrightarrow> t \<in> set ts \<Longrightarrow> map_of (rev (map (\<lambda>t. (key t, t)) ts)) (key t) = Some t"
  by (rule map_of_is_SomeI) (auto simp: rev_map [symmetric] comp_def)

lemma map_of_rev_rows:
  assumes "distinct ks" and "\<And>k. k \<in> set ks \<Longrightarrow> m k = Some (g k)" and "\<And>k. k \<in> set ks \<Longrightarrow> key (g k) = k"
    and "dom m = set ks"
  shows "map_of (rev (map (\<lambda>t. (key t, t)) (map g ks))) = m"
proof -
  have map: "map (\<lambda>t. (key t, t)) (map g ks) = map (\<lambda>k. (k, g k)) ks" using assms(3) by simp
  have "map_of (rev (map (\<lambda>k. (k, g k)) ks)) = map_of (map (\<lambda>k. (k, g k)) ks)"
    using assms(1) by (subst map_of_inject_set) (simp_all add: comp_def rev_map [symmetric])
  moreover have "map_of (map (\<lambda>k. (k, g k)) ks) k = m k" for k
    using assms(2) [of k] domIff [of k m] unfolding assms(4)
    by (cases "k \<in> set ks") (simp_all add: map_of_map_restrict restrict_map_def)
  ultimately show ?thesis unfolding map by (auto simp: fun_eq_iff)
qed

lemma forward_row_uid:
  assumes "forward_row n snap policy (incoming_of n) u m = Inr r"
  shows "at_uid (fr_times r) = u"
    and "activity_by_uid n u = Some a \<Longrightarrow> at_state (fr_times r) = state_of a"
proof -
  obtain b sb fb sd fd where b: "pa_uid b = u" "activity_by_uid n u = Some b" and
    row: "if state_of b \<noteq> NOT_STARTED then reported_row n snap policy b sb fb sd fd = Inr r
      else untouched_row n snap b
        (case forward_base n b (incoming_edges n u) of Some x \<Rightarrow> x | None \<Rightarrow> calendar_floor b)
        \<lparr> cb_start = sb, cb_finish = fb, cb_start_driver = sd, cb_finish_driver = fd,
          cb_pinned = None, cb_constrained = False,
          cb_rests_on_fallback = (binding_edges n policy b \<noteq> [] \<and> sd = None \<and> sb = project_start n) \<rparr> = Inr r"
    using assms by (rule forward_row_Inr)
  have "at_uid (fr_times r) = u \<and> at_state (fr_times r) = state_of b"
  proof (cases "state_of b = NOT_STARTED")
    case True
    with row untouched_row_shape(1,2) b show ?thesis by simp
  next
    case False
    with row obtain t where "place_reported n snap policy b (state_of b) sb fb sd fd = Inr t" "fr_times r = t"
      by (auto simp: reported_row_def rbind_Inr_iff)
    with place_reported_shape b show ?thesis by simp
  qed
  then show "at_uid (fr_times r) = u"
    and "activity_by_uid n u = Some a \<Longrightarrow> at_state (fr_times r) = state_of a"
    using b by simp_all
qed

text \<open>Everything a successful pass tells about its inputs and its fold.\<close>

lemma forward_pass_run:
  assumes "forward_pass sha n snap policy = Inr fp"
  obtains s where "network_ok n" and "\<not> (policy = ACTUAL_DATES \<and> is_progressed n)"
    and "topological_order n = Inr (fp_order fp)"
    and "rfold (forward_step n snap policy (incoming_of n)) (fp_order fp) forward_init = Inr s"
    and "list_all2 (\<lambda>u t. fs_placed s u = Some t) (fp_order fp) (fp_times fp)"
    and "fp_project_start fp = project_start n"
    and "fp_project_finish fp = max_of (project_start n) (map early_finish (fp_times fp))"
    and "fp_network_fingerprint fp = network_fingerprint sha n"
    and "fp_progress_policy fp = policy" and "fp_snap_milestones fp = snap"
    and "deferred_constraints fp = fs_deferred s" and "constraint_violations fp = fs_violations s"
proof -
  from assms have ok: "network_ok n" by (auto simp: forward_pass_def rbind_Inr_iff validate_iff)
  note inc = predecessors_incoming [OF ok]
  from assms obtain order s rows where o: "topological_order n = Inr order"
    and s: "rfold (forward_step n snap policy (incoming_of n)) order forward_init = Inr s"
    and rows: "rmap (\<lambda>u. case fs_placed s u of None \<Rightarrow> Inl KeyError | Some t \<Rightarrow> Inr t) order = Inr rows"
    and pol: "require_supported policy (is_progressed n) = Inr ()"
    and fp: "fp_order fp = order" "fp_times fp = rows" "fp_project_start fp = project_start n"
      "fp_project_finish fp = max_of (project_start n) (map early_finish rows)"
      "fp_network_fingerprint fp = network_fingerprint sha n"
      "fp_progress_policy fp = policy" "fp_snap_milestones fp = snap"
      "deferred_constraints fp = fs_deferred s" "constraint_violations fp = fs_violations s"
    by (auto simp: forward_pass_def forward_answer_def rbind_Inr_iff inc Let_def)
  have "list_all2 (\<lambda>u t. fs_placed s u = Some t) order rows"
    using rows unfolding rmap_Inr_iff by (rule list_all2_mono) (auto split: option.splits)
  with ok pol o s fp show thesis by (intro that [of s]) (simp_all add: require_supported_iff)
qed

lemma forward_pass_rows:
  assumes "forward_pass sha n snap policy = Inr fp"
  shows "distinct (fp_order fp)" and "set (fp_order fp) = set (activity_uids n)"
    and "precedence_order n (fp_order fp)"
    and "map at_uid (fp_times fp) = fp_order fp"
    and "dom (by_uid fp) = set (activity_uids n)"
    and "u \<in> set (activity_uids n) \<Longrightarrow>
      \<exists>t. by_uid fp u = Some t \<and> t \<in> set (fp_times fp) \<and> forward_times n snap policy u (by_uid fp) = Inr t"
    and "by_uid fp u = Some t \<Longrightarrow> at_uid t = u"
proof -
  obtain s where ok: "network_ok n" and o: "topological_order n = Inr (fp_order fp)"
    and s: "rfold (forward_step n snap policy (incoming_of n)) (fp_order fp) forward_init = Inr s"
    and rows: "list_all2 (\<lambda>u t. fs_placed s u = Some t) (fp_order fp) (fp_times fp)"
    using assms by (rule forward_pass_run)
  note order = topological_order_Inr [OF network_ok_distinct [OF ok] network_ok_known [OF ok] o]
  have init: "fs_placed forward_init = Map.empty" by (simp add: forward_init_def)
  note solved = fwd.fold_solves [OF s init order(1) precedence_deps [OF order(3)]]
  have uid: "at_uid t = u" if "fs_placed s u = Some t" for u t
  proof -
    have "u \<in> set (fp_order fp)" using that solved(1) by (metis domI)
    from solved(2) [OF this] that obtain r where "forward_row n snap policy (incoming_of n) u (fs_placed s) = Inr r" "fr_times r = t"
      by (auto simp: rbind_Inr_iff)
    with forward_row_uid(1) show ?thesis by blast
  qed
  have times: "fp_times fp = map (\<lambda>u. the (fs_placed s u)) (fp_order fp)"
    using rows by (induction rule: list_all2_induct) auto
  have rowmap: "by_uid fp = fs_placed s"
    unfolding by_uid_def times
  proof (rule map_of_rev_rows [OF order(1)])
    show "fs_placed s k = Some (the (fs_placed s k))" if "k \<in> set (fp_order fp)" for k
      using solved(2) [OF that] by auto
    then show "at_uid (the (fs_placed s k)) = k" if "k \<in> set (fp_order fp)" for k using uid that by blast
    show "dom (fs_placed s) = set (fp_order fp)" by (rule solved(1))
  qed
  show "distinct (fp_order fp)" "set (fp_order fp) = set (activity_uids n)" "precedence_order n (fp_order fp)"
    using order by blast+
  show "map at_uid (fp_times fp) = fp_order fp"
  proof -
    have "at_uid (the (fs_placed s k)) = k" if "k \<in> set (fp_order fp)" for k
      using solved(2) [OF that] uid [of k] by auto
    then show ?thesis unfolding times by (simp add: map_idI)
  qed
  show "dom (by_uid fp) = set (activity_uids n)" using solved(1) order(2) by (simp add: rowmap)
  show "\<exists>t. by_uid fp u = Some t \<and> t \<in> set (fp_times fp) \<and> forward_times n snap policy u (by_uid fp) = Inr t"
    if "u \<in> set (activity_uids n)"
  proof -
    from that order(2) have u: "u \<in> set (fp_order fp)" by simp
    from solved(2) [OF u] obtain t where t: "fs_placed s u = Some t" "forward_times n snap policy u (fs_placed s) = Inr t"
      by blast
    have "t \<in> set (fp_times fp)" unfolding times using u t(1) by force
    with t show ?thesis unfolding rowmap by blast
  qed
  show "at_uid t = u" if "by_uid fp u = Some t" using uid that by (simp add: rowmap)
qed

subsection \<open>Bounds of a row\<close>

lemma bounds_lower:
  assumes "bounds a rs m base ub = Inr (sb, fb, sd, fd)"
  shows "r \<in> set rs \<Longrightarrow> \<exists>x. edge_reach a m r = Some x \<and> x \<le> (if bounds_successor_start r then sb else fb)"
    and "base = Some x \<Longrightarrow> x \<le> sb \<and> x \<le> fb"
proof -
  obtain s where inv: "bounds_inv base (edge_reach a m) rs s"
    and sb: "sb = floored a ub (bs_start s)" and fb: "fb = floored a (calendar_floor a) (bs_finish s)"
    using assms by (rule bounds_Inr)
  show "\<exists>x. edge_reach a m r = Some x \<and> x \<le> (if bounds_successor_start r then sb else fb)" if "r \<in> set rs"
    using inv that unfolding bounds_inv_def side_bound_def sb fb floored_def
    by (cases "bounds_successor_start r") fastforce+
  show "x \<le> sb \<and> x \<le> fb" if "base = Some x"
    using inv that unfolding bounds_inv_def side_bound_def sb fb floored_def by fastforce
qed

lemma bounds_floor:
  assumes "bounds a rs m base ub = Inr (sb, fb, sd, fd)"
  shows "calendar_floor a \<le> fb" and "calendar_floor a \<le> sb \<or> sb = ub"
    and "base = None \<Longrightarrow> \<forall>r \<in> set rs. \<not> bounds_successor_start r \<Longrightarrow> sb = ub"
proof -
  obtain s where inv: "bounds_inv base (edge_reach a m) rs s"
    and sb: "sb = floored a ub (bs_start s)" and fb: "fb = floored a (calendar_floor a) (bs_finish s)"
    using assms by (rule bounds_Inr)
  show "calendar_floor a \<le> fb" "calendar_floor a \<le> sb \<or> sb = ub"
    by (auto simp: sb fb floored_def split: option.splits)
  show "sb = ub" if "base = None" "\<forall>r \<in> set rs. \<not> bounds_successor_start r"
    using inv that unfolding bounds_inv_def side_bound_def sb floored_def by (auto split: option.splits)
qed

text \<open>The bounds are the least that cover the edges, the base and the calendar.\<close>

lemma bounds_least:
  assumes "bounds a rs m base ub = Inr (sb, fb, sd, fd)"
    and cf: "calendar_floor a \<le> y" and base: "\<And>x. base = Some x \<Longrightarrow> x \<le> y"
  shows "(\<And>r x. r \<in> set rs \<Longrightarrow> bounds_successor_start r \<Longrightarrow> edge_reach a m r = Some x \<Longrightarrow> x \<le> y) \<Longrightarrow>
      (base = None \<Longrightarrow> \<forall>r \<in> set rs. \<not> bounds_successor_start r \<Longrightarrow> ub \<le> y) \<Longrightarrow> sb \<le> y"
    and "(\<And>r x. r \<in> set rs \<Longrightarrow> \<not> bounds_successor_start r \<Longrightarrow> edge_reach a m r = Some x \<Longrightarrow> x \<le> y) \<Longrightarrow> fb \<le> y"
proof -
  obtain s where inv: "bounds_inv base (edge_reach a m) rs s"
    and sb: "sb = floored a ub (bs_start s)" and fb: "fb = floored a (calendar_floor a) (bs_finish s)"
    using assms(1) by (rule bounds_Inr)
  show "sb \<le> y" if reach: "\<And>r x. r \<in> set rs \<Longrightarrow> bounds_successor_start r \<Longrightarrow> edge_reach a m r = Some x \<Longrightarrow> x \<le> y"
    and un: "base = None \<Longrightarrow> \<forall>r \<in> set rs. \<not> bounds_successor_start r \<Longrightarrow> ub \<le> y"
  proof (cases "bs_start s")
    case None
    with inv have "base = None" "\<forall>r \<in> set rs. \<not> bounds_successor_start r"
      unfolding bounds_inv_def side_bound_def by (auto simp: not_None_eq [symmetric])
    with None un show ?thesis by (simp add: sb floored_def)
  next
    case (Some b)
    with inv have "base = Some b \<or> (\<exists>r \<in> set rs. bounds_successor_start r \<and> edge_reach a m r = Some b)"
      unfolding bounds_inv_def side_bound_def by auto
    with Some cf base reach show ?thesis by (auto simp: sb floored_def)
  qed
  show "fb \<le> y" if reach: "\<And>r x. r \<in> set rs \<Longrightarrow> \<not> bounds_successor_start r \<Longrightarrow> edge_reach a m r = Some x \<Longrightarrow> x \<le> y"
  proof (cases "bs_finish s")
    case None
    then show ?thesis using cf by (simp add: fb floored_def)
  next
    case (Some b)
    with inv have "base = Some b \<or> (\<exists>r \<in> set rs. \<not> bounds_successor_start r \<and> edge_reach a m r = Some b)"
      unfolding bounds_inv_def side_bound_def by auto
    with Some cf base reach show ?thesis by (auto simp: fb floored_def)
  qed
qed

lemma constrain_raises:
  "cb_start b \<le> cb_start (constrain a b)" "cb_finish b \<le> cb_finish (constrain a b)"
  "pa_constraint_type a \<notin> {MSO, MFO} \<Longrightarrow> cb_pinned (constrain a b) = cb_pinned b"
  "pa_constraint_type a = SNET \<Longrightarrow> pa_constraint_coordinate a = Some x \<Longrightarrow> x \<le> cb_start (constrain a b)"
  "pa_constraint_type a = FNET \<Longrightarrow> pa_constraint_coordinate a = Some x \<Longrightarrow> x \<le> cb_finish (constrain a b)"
  by (auto simp: constrain_def split: constraint_type.splits option.splits)

lemma constrain_least:
  "cb_start b \<le> y \<Longrightarrow> (\<And>x. pa_constraint_type a = SNET \<Longrightarrow> pa_constraint_coordinate a = Some x \<Longrightarrow> x \<le> y) \<Longrightarrow>
     cb_start (constrain a b) \<le> y"
  "cb_finish b \<le> z \<Longrightarrow> (\<And>x. pa_constraint_type a = FNET \<Longrightarrow> pa_constraint_coordinate a = Some x \<Longrightarrow> x \<le> z) \<Longrightarrow>
     cb_finish (constrain a b) \<le> z"
  by (auto simp: constrain_def split: constraint_type.splits option.splits)

lemma remaining_nonneg: "activity_ok a \<Longrightarrow> 0 \<le> remaining a"
  by (auto simp: activity_ok_def remaining_def split: option.splits)

lemma wf_networkD:
  assumes "wf_network n" and "a \<in> set (activities n)"
  shows "wf_calendar (pa_calendar a)" and "wf_calendar (float_calendar a)"
    and "pa_assignment_envelope a = Some rows \<Longrightarrow> p \<in> set rows \<Longrightarrow> wf_calendar (ap_calendar p)"
    and "r \<in> set (relationships n) \<Longrightarrow> wf_calendar (lag_calendar_for r (pa_calendar a))"
  using assms by (auto simp: wf_network_def lag_calendar_for_def split: option.splits)

lemma network_okD: "network_ok n \<Longrightarrow> a \<in> set (activities n) \<Longrightarrow> activity_ok a"
  by (simp add: network_ok_def)

lemma calendar_floor_le:
  assumes "contains_coordinate x (intervals (pa_calendar a))" and wf: "wf_calendar (pa_calendar a)"
  shows "calendar_floor a \<le> x"
proof (cases "intervals (pa_calendar a)")
  case (Cons i ivs)
  obtain s f where i: "i = (s, f)" by (cases i)
  have "s \<le> x"
    using assms wf_starts_after [of s f ivs x] wf_calendarD(1) [OF wf] Cons i by (fastforce simp: wf_calendar_def)
  then show ?thesis by (simp add: calendar_floor_def ci_first_def wf_calendarD(2) [OF wf] Cons i)
qed (use assms in simp)

subsection \<open>Untouched rows\<close>

text \<open>A row of untouched, unpinned work: where its bounds come from and where it was put.\<close>

lemma untouched_placed:
  assumes ok: "network_ok n" and u: "forward_times n snap policy (pa_uid a) m = Inr t"
    and a: "a \<in> set (activities n)" and fresh: "state_of a = NOT_STARTED"
  obtains sb fb sd fd b where "bounds a (incoming_edges n (pa_uid a)) m
      (if incoming_edges n (pa_uid a) = [] then Some (project_start n) else None) (project_start n) = Inr (sb, fb, sd, fd)"
    and "cb_start b = sb" and "cb_finish b = fb" and "cb_pinned b = None"
    and "place a (remaining a) (cb_start (constrain a b)) (cb_finish (constrain a b)) (horizon n) snap
      (cb_pinned (constrain a b)) (pa_constraint_coordinate a) = Inr (early_start t, early_finish t)"
    and "remaining_start t = None"
proof -
  from u obtain r where r: "forward_row n snap policy (incoming_of n) (pa_uid a) m = Inr r" "t = fr_times r"
    by (auto simp: rbind_Inr_iff)
  from r(1) show thesis
  proof (rule forward_row_Inr)
    fix a' sb fb sd fd
    assume a': "a' \<in> set (activities n)" "pa_uid a' = pa_uid a"
      and bnd: "bounds a' (binding_edges n policy a') m (forward_base n a' (incoming_edges n (pa_uid a)))
      (case forward_base n a' (incoming_edges n (pa_uid a)) of Some x \<Rightarrow> x | None \<Rightarrow> project_start n) = Inr (sb, fb, sd, fd)"
      and row: "if state_of a' \<noteq> NOT_STARTED then reported_row n snap policy a' sb fb sd fd = Inr r
      else untouched_row n snap a'
        (case forward_base n a' (incoming_edges n (pa_uid a)) of Some x \<Rightarrow> x | None \<Rightarrow> calendar_floor a')
        \<lparr> cb_start = sb, cb_finish = fb, cb_start_driver = sd, cb_finish_driver = fd,
          cb_pinned = None, cb_constrained = False,
          cb_rests_on_fallback = (binding_edges n policy a' \<noteq> [] \<and> sd = None \<and> sb = project_start n) \<rparr> = Inr r"
    have [simp]: "a' = a" using activity_uid_unique [OF network_ok_distinct [OF ok] a'(1) a a'(2)] .
    have base: "forward_base n a (incoming_edges n (pa_uid a))
        = (if incoming_edges n (pa_uid a) = [] then Some (project_start n) else None)"
      by (simp add: forward_base_def fresh)
    have fall: "(case forward_base n a (incoming_edges n (pa_uid a)) of Some x \<Rightarrow> x | None \<Rightarrow> project_start n) = project_start n"
      by (simp add: base)
    have bind: "binding_edges n policy a = incoming_edges n (pa_uid a)"
      by (simp add: binding_edges_def fresh not_started_binds)
    show thesis
      using bnd row fresh untouched_row_shape [of n snap a _ _ r]
      unfolding r(2) \<open>a' = a\<close> fall bind
      by (intro that [of sb fb sd fd "\<lparr> cb_start = sb, cb_finish = fb, cb_start_driver = sd, cb_finish_driver = fd,
          cb_pinned = None, cb_constrained = False,
          cb_rests_on_fallback = (incoming_edges n (pa_uid a) \<noteq> [] \<and> sd = None \<and> sb = project_start n) \<rparr>"])
        (simp_all add: base r(2))
  qed
qed

lemma activity_envelope_ok:
  "network_ok n \<Longrightarrow> wf_network n \<Longrightarrow> a \<in> set (activities n) \<Longrightarrow> pa_assignment_envelope a = Some rows \<Longrightarrow>
    (\<forall>p \<in> set rows. wf_calendar (ap_calendar p)) \<and> (\<forall>p \<in> set rows. 0 < ap_work_duration p)"
  using wf_networkD(3) network_okD [of n a] by (auto simp: activity_ok_def)

lemma untouched_ge:
  assumes ok: "network_ok n" and wf: "wf_network n" and u: "forward_times n snap policy (pa_uid a) m = Inr t"
    and a: "a \<in> set (activities n)" and fresh: "state_of a = NOT_STARTED"
    and free: "pa_constraint_type a \<notin> {MSO, MFO}"
  shows "r \<in> set (incoming_edges n (pa_uid a)) \<Longrightarrow>
      \<exists>x. edge_reach a m r = Some x \<and> x \<le> (if bounds_successor_start r then early_start t else early_finish t)"
    and "early_start t \<le> early_finish t" and "early_finish t \<le> horizon n"
    and "pa_constraint_type a = SNET \<Longrightarrow> pa_constraint_coordinate a = Some x \<Longrightarrow> x \<le> early_start t"
    and "pa_constraint_type a = FNET \<Longrightarrow> pa_constraint_coordinate a = Some x \<Longrightarrow> x \<le> early_finish t"
    and "\<forall>r \<in> set (incoming_edges n (pa_uid a)). \<not> bounds_successor_start r \<Longrightarrow> project_start n \<le> early_start t"
    and "calendar_floor a \<le> early_finish t"
proof -
  obtain sb fb sd fd b where bnd: "bounds a (incoming_edges n (pa_uid a)) m
      (if incoming_edges n (pa_uid a) = [] then Some (project_start n) else None) (project_start n) = Inr (sb, fb, sd, fd)"
    and b: "cb_start b = sb" "cb_finish b = fb" "cb_pinned b = None"
    and pl: "place a (remaining a) (cb_start (constrain a b)) (cb_finish (constrain a b)) (horizon n) snap
      (cb_pinned (constrain a b)) (pa_constraint_coordinate a) = Inr (early_start t, early_finish t)"
    using ok u a fresh by (rule untouched_placed)
  have pin: "cb_pinned (constrain a b) = None" using constrain_raises(3) [OF free] b by simp
  note placed = place_ordered [OF wf_networkD(1) [OF wf a] remaining_nonneg [OF network_okD [OF ok a]]
      activity_envelope_ok [OF ok wf a] pl [unfolded pin]]
  have ge: "sb \<le> early_start t" "fb \<le> early_finish t"
    using placed(1,2) constrain_raises(1,2) [of b a] b by auto
  show "\<exists>x. edge_reach a m r = Some x \<and> x \<le> (if bounds_successor_start r then early_start t else early_finish t)"
    if "r \<in> set (incoming_edges n (pa_uid a))"
    using bounds_lower(1) [OF bnd that] ge by (auto split: if_splits)
  show "early_start t \<le> early_finish t" "early_finish t \<le> horizon n" using placed by simp_all
  show "x \<le> early_start t" if "pa_constraint_type a = SNET" "pa_constraint_coordinate a = Some x"
    using constrain_raises(4) [OF that, of b] placed(1) by simp
  show "x \<le> early_finish t" if "pa_constraint_type a = FNET" "pa_constraint_coordinate a = Some x"
    using constrain_raises(5) [OF that, of b] placed(2) by simp
  show "project_start n \<le> early_start t" if none: "\<forall>r \<in> set (incoming_edges n (pa_uid a)). \<not> bounds_successor_start r"
    using bounds_lower(2) [OF bnd, of "project_start n"] bounds_floor(3) [OF bnd] none ge
    by (cases "incoming_edges n (pa_uid a) = []") auto
  show "calendar_floor a \<le> early_finish t" using bounds_floor(1) [OF bnd] ge by simp
qed

lemma forward_pass_row_mem:
  "forward_pass sha n snap policy = Inr fp \<Longrightarrow> t \<in> set (fp_times fp) \<Longrightarrow> by_uid fp (at_uid t) = Some t"
  using forward_pass_rows(1,4) [of sha n snap policy fp] unfolding by_uid_def by (intro map_of_rev_mem) auto

end
