(* ===== verification/Backward.thy ===== *)
theory Backward
  imports Forward_Facts
begin

section \<open>The backward pass (\<open>core/engine/backward.py\<close>)\<close>

text \<open>
  Latest dates in reverse topological order. \<open>late_bounds\<close> reads the successors' placed rows
  through \<open>unshift_lag\<close>, selecting one edge of every inactive boundary; \<open>late_constrain\<close> applies the
  late constraints; \<open>late_place\<close> finds the span and \<open>late_driver\<close> the edge that held it. The pass
  refuses a forward result from another network or under another policy.
\<close>

definition FROM_PROJECT_FINISH :: string where "FROM_PROJECT_FINISH = ''project_finish''"
definition BACKWARD_PASS_PROFILE :: string where "BACKWARD_PASS_PROFILE = ''sto-backward-pass-v9''"

abbreviation backward_error :: "string \<Rightarrow> uuid option \<Rightarrow> exc" where
  "backward_error code u \<equiv> Coded BackwardPassError code u"

record activity_late_times =
  lt_uid :: uuid
  late_start :: int
  late_finish :: int
  lt_driving_relationship_uid :: "uuid option"
  lt_source :: string
  lt_remaining_start :: "int option"

record deferred_late_constraint =
  dl_activity_uid :: uuid
  dl_type :: constraint_type

record backward_pass_result =
  bp_times :: "activity_late_times list"
  bp_order :: "uuid list"
  bp_project_late_finish :: int
  bp_deferred_constraints :: "deferred_late_constraint list"
  bp_fingerprint :: string
  overridden_relationships :: "uuid list"
  bp_network_fingerprint :: string
  bp_progress_policy :: progress_policy
  bp_snap_milestones :: bool
  project_late_finish_explicit :: bool

definition late_by_uid :: "backward_pass_result \<Rightarrow> uuid \<Rightarrow> activity_late_times option" where
  "late_by_uid bp = map_of (rev (map (\<lambda>t. (lt_uid t, t)) (bp_times bp)))"

definition late_driving_relationships :: "backward_pass_result \<Rightarrow> uuid list" where
  "late_driving_relationships bp =
     fold (\<lambda>t seen. case lt_driving_relationship_uid t of
             None \<Rightarrow> seen
           | Some u \<Rightarrow> (if u \<in> set seen then seen else seen @ [u])) (bp_times bp) []"

subsection \<open>Which edges bind, and from where\<close>

definition boundary_groups_of ::
    "uuid set \<Rightarrow> planned_relationship list \<Rightarrow> (uuid \<times> planned_relationship list) list" where
  "boundary_groups_of released rs =
     fold (\<lambda>r g. case pr_inactive_boundary_uid r of None \<Rightarrow> g | Some b \<Rightarrow> setdefault_append b r g)
       (filter (\<lambda>r. pr_uid r \<notin> released) rs) []"

definition candidate_anchor ::
    "(uuid \<Rightarrow> activity_late_times option) \<Rightarrow> planned_relationship \<Rightarrow> int result" where
  "candidate_anchor placed r =
     (case placed (pr_successor_uid r) of
        None \<Rightarrow> Inl KeyError
      | Some s \<Rightarrow> Inr (if bounds_successor_start r
            then (case lt_remaining_start s of Some x \<Rightarrow> x | None \<Rightarrow> late_start s)
            else late_finish s))"

text \<open>The edge of an inactive boundary that binds: its only one, or the unique latest.\<close>

definition pick_boundary ::
    "(uuid \<Rightarrow> activity_late_times option) \<Rightarrow> uuid \<times> planned_relationship list
     \<Rightarrow> planned_relationship result" where
  "pick_boundary placed g =
     (case g of (b, rows) \<Rightarrow>
        (case rows of
           [r] \<Rightarrow> Inr r
         | _ \<Rightarrow> rbind (rmap (candidate_anchor placed) rows) (\<lambda>anchors.
             let latest = max_of 0 anchors;
                 winners = map snd (filter (\<lambda>(x, r). x = latest) (zip anchors rows))
             in (case winners of
                   [r] \<Rightarrow> Inr r
                 | _ \<Rightarrow> Inl (backward_error ''SCHEDULE_INACTIVE_BOUNDARY_LATE_TIE'' (Some b))))))"

definition selected_edges ::
    "uuid set \<Rightarrow> (uuid \<Rightarrow> activity_late_times option) \<Rightarrow> planned_relationship list
     \<Rightarrow> planned_relationship list result" where
  "selected_edges released placed rs =
     rbind (rmap (pick_boundary placed) (boundary_groups_of released rs)) (\<lambda>picked.
       Inr (filter (\<lambda>r. pr_uid r \<notin> released \<and> pr_inactive_boundary_uid r = None) rs @ picked))"

text \<open>The coordinate of the successor an edge is carried back from.\<close>

definition late_anchor ::
    "(uuid \<Rightarrow> activity_times option) \<Rightarrow> compiled_intervals \<Rightarrow> planned_relationship
     \<Rightarrow> activity_late_times \<Rightarrow> int result" where
  "late_anchor early c r s =
     (case (bounds_successor_start r, lt_remaining_start s) of
        (True, Some rem) \<Rightarrow>
          (case early (pr_predecessor_uid r) of
             None \<Rightarrow> Inl KeyError
           | Some p \<Rightarrow>
               rbind (shift_lag c (if anchors_predecessor_finish r then early_finish p else early_start p)
                        (pr_lag r)) (\<lambda>landed.
                 Inr (case landed of
                        None \<Rightarrow> rem
                      | Some x \<Rightarrow> (if x > late_start s then rem else late_start s))))
      | (True, None) \<Rightarrow> Inr (late_start s)
      | (False, _) \<Rightarrow> Inr (late_finish s))"

record late_bound_state =
  lb_start :: int
  lb_finish :: int
  lb_start_driver :: "uuid option"
  lb_finish_driver :: "uuid option"

definition late_takes_over :: "int \<Rightarrow> int \<Rightarrow> uuid option \<Rightarrow> bool" where
  "late_takes_over x bound drv \<longleftrightarrow> x < bound \<or> drv = None \<and> x = bound"

definition late_bound_step ::
    "network \<Rightarrow> (uuid \<Rightarrow> activity_times option) \<Rightarrow> (uuid \<Rightarrow> activity_late_times option)
     \<Rightarrow> planned_relationship \<Rightarrow> late_bound_state \<Rightarrow> late_bound_state result" where
  "late_bound_step n early placed r b =
     (case (placed (pr_successor_uid r), activity_by_uid n (pr_successor_uid r)) of
        (Some s, Some q) \<Rightarrow>
          (let c = lag_calendar_for r (pa_calendar q) in
           rbind (late_anchor early c r s) (\<lambda>anchor.
           rbind (unshift_lag c anchor (pr_lag r) (Some (horizon n))) (\<lambda>moved.
             case moved of
               None \<Rightarrow> Inl (backward_error ''SCHEDULE_LAG_UNREACHABLE'' (Some (pr_uid r)))
             | Some x \<Rightarrow> Inr
                 (if anchors_predecessor_finish r
                  then (if late_takes_over x (lb_finish b) (lb_finish_driver b)
                        then b\<lparr>lb_finish := x, lb_finish_driver := Some (pr_uid r)\<rparr> else b)
                  else (if late_takes_over x (lb_start b) (lb_start_driver b)
                        then b\<lparr>lb_start := x, lb_start_driver := Some (pr_uid r)\<rparr> else b)))))
      | _ \<Rightarrow> Inl KeyError)"

definition late_bounds ::
    "network \<Rightarrow> (uuid \<Rightarrow> activity_times option) \<Rightarrow> uuid set \<Rightarrow> int \<Rightarrow> planned_relationship list
     \<Rightarrow> (uuid \<Rightarrow> activity_late_times option) \<Rightarrow> late_bound_state result" where
  "late_bounds n early released late rs placed =
     rbind (selected_edges released placed rs) (\<lambda>sel.
       rfold (late_bound_step n early placed) sel
         \<lparr> lb_start = late, lb_finish = late, lb_start_driver = None, lb_finish_driver = None \<rparr>)"

subsection \<open>Placement\<close>

definition late_place_envelope ::
    "planned_activity \<Rightarrow> assignment_placement list \<Rightarrow> int \<Rightarrow> int \<Rightarrow> int \<Rightarrow> pin option
     \<Rightarrow> (int \<times> int) result" where
  "late_place_envelope a rows duration start_bound finish_bound pinned =
     raise_if (pinned \<noteq> None \<or> duration \<noteq> pa_duration a)
       (backward_error ''SCHEDULE_ASSIGNMENT_ENVELOPE_UNMEASURED_BOUND'' (Some (pa_uid a)))
     (rbind (rmap (\<lambda>p. latest_span (ap_calendar p) start_bound finish_bound (ap_work_duration p)
                (case ci_first (ap_calendar p) of None \<Rightarrow> 0 | Some x \<Rightarrow> x)) rows)
       (\<lambda>spans.
        raise_if (None \<in> set spans) (backward_error ''SCHEDULE_FLOOR_EXCEEDED'' (Some (pa_uid a)))
        (let found = map the spans in
         raise_if (found = []) ValueError
         (let start = min_of 0 (map fst found); finish = max_of 0 (map snd found)
          in raise_if (start > start_bound \<or> finish > finish_bound)
               (backward_error ''SCHEDULE_ASSIGNMENT_ENVELOPE_UNMEASURED_BOUND'' (Some (pa_uid a)))
               (Inr (start, finish))))))"

definition late_place_pinned ::
    "planned_activity \<Rightarrow> int \<Rightarrow> pin \<Rightarrow> int option \<Rightarrow> (int \<times> int) result" where
  "late_place_pinned a duration p coordinate =
     (let err = backward_error ''SCHEDULE_FLOOR_EXCEEDED'' (Some (pa_uid a)) in
      case coordinate of
        None \<Rightarrow> Inl (backward_error ''SCHEDULE_CONSTRAINT_INCOMPLETE'' (Some (pa_uid a)))
      | Some c \<Rightarrow>
          (case p of
             PinStart \<Rightarrow>
               rbind (if duration = 0 then Inr (Some c) else add_working (pa_calendar a) c duration) (\<lambda>r.
                 case r of
                   None \<Rightarrow> Inl err
                 | Some finish \<Rightarrow> raise_if (c < calendar_floor a) err (Inr (c, finish)))
           | PinFinish \<Rightarrow>
               rbind (if duration = 0 then Inr (Some c) else sub_working (pa_calendar a) c duration) (\<lambda>r.
                 case r of
                   None \<Rightarrow> Inl err
                 | Some start \<Rightarrow> raise_if (start < calendar_floor a) err (Inr (start, c)))))"

definition late_place_milestone :: "planned_activity \<Rightarrow> int \<Rightarrow> int \<Rightarrow> bool \<Rightarrow> (int \<times> int) result" where
  "late_place_milestone a start_bound finish_bound snap =
     (let moment = min start_bound finish_bound;
          err = backward_error ''SCHEDULE_FLOOR_EXCEEDED'' (Some (pa_uid a))
      in case (if snap then prev_working_start (pa_calendar a) moment else Some moment) of
           None \<Rightarrow> Inl err
         | Some m \<Rightarrow> raise_if (m < calendar_floor a) err (Inr (m, m)))"

definition late_place ::
    "planned_activity \<Rightarrow> int \<Rightarrow> int \<Rightarrow> int \<Rightarrow> bool \<Rightarrow> pin option \<Rightarrow> int option
     \<Rightarrow> (int \<times> int) result" where
  "late_place a duration start_bound finish_bound snap pinned coordinate =
     (case pa_assignment_envelope a of
        Some rows \<Rightarrow> late_place_envelope a rows duration start_bound finish_bound pinned
      | None \<Rightarrow>
          (case pinned of
             Some p \<Rightarrow> late_place_pinned a duration p coordinate
           | None \<Rightarrow>
               if duration = 0 then late_place_milestone a start_bound finish_bound snap
               else rbind (latest_span (pa_calendar a) start_bound finish_bound duration (calendar_floor a))
                 (\<lambda>span. case span of
                    None \<Rightarrow> Inl (backward_error ''SCHEDULE_FLOOR_EXCEEDED'' (Some (pa_uid a)))
                  | Some sf \<Rightarrow> Inr sf)))"

definition late_driver ::
    "planned_activity \<Rightarrow> int \<Rightarrow> int \<Rightarrow> int \<Rightarrow> uuid option \<Rightarrow> uuid option \<Rightarrow> int \<Rightarrow> uuid option result" where
  "late_driver a duration start_bound finish_bound start_driver finish_driver late =
     (case (start_driver, finish_driver) of
        (None, _) \<Rightarrow> Inr finish_driver
      | (Some sd, None) \<Rightarrow> Inr start_driver
      | (Some sd, Some fd) \<Rightarrow>
          rbind (latest_span (pa_calendar a) late finish_bound duration (calendar_floor a)) (\<lambda>without_start.
            Inr (case without_start of
                   Some (s, f) \<Rightarrow> (if s \<le> start_bound then finish_driver else start_driver)
                 | None \<Rightarrow> start_driver)))"

subsection \<open>One iteration of the loop\<close>

record late_constrained =
  lc_start :: int
  lc_finish :: int
  lc_start_driver :: "uuid option"
  lc_finish_driver :: "uuid option"
  lc_pinned :: "pin option"
  lc_constrained :: bool

text \<open>The constraint of untouched work; reported work applies none.\<close>

definition late_constrain :: "planned_activity \<Rightarrow> late_bound_state \<Rightarrow> late_constrained" where
  "late_constrain a b =
     (let c0 = \<lparr> lc_start = lb_start b, lc_finish = lb_finish b, lc_start_driver = lb_start_driver b,
                 lc_finish_driver = lb_finish_driver b, lc_pinned = None, lc_constrained = False \<rparr>
      in if state_of a \<noteq> NOT_STARTED then c0
         else case (pa_constraint_type a, pa_constraint_coordinate a) of
            (SNLT, Some x) \<Rightarrow> (if x < lb_start b
               then c0\<lparr>lc_start := x, lc_start_driver := None, lc_constrained := True\<rparr> else c0)
          | (FNLT, Some x) \<Rightarrow> (if x < lb_finish b
               then c0\<lparr>lc_finish := x, lc_finish_driver := None, lc_constrained := True\<rparr> else c0)
          | (MSO, Some x) \<Rightarrow> c0\<lparr>lc_pinned := Some PinStart\<rparr>
          | (MFO, Some x) \<Rightarrow> c0\<lparr>lc_pinned := Some PinFinish\<rparr>
          | _ \<Rightarrow> c0)"

definition late_deferred :: "planned_activity \<Rightarrow> deferred_late_constraint list" where
  "late_deferred a =
     (if (if state_of a \<noteq> NOT_STARTED then pa_constraint_type a \<noteq> ASAP else pa_constraint_type a = ALAP)
      then [\<lparr> dl_activity_uid = pa_uid a, dl_type = pa_constraint_type a \<rparr>] else [])"

definition complete_late_row :: "planned_activity \<Rightarrow> activity_late_times result" where
  "complete_late_row a =
     (case (pa_actual_start a, pa_actual_finish a) of
        (Some s, Some f) \<Rightarrow> Inr \<lparr> lt_uid = pa_uid a, late_start = s, late_finish = f,
            lt_driving_relationship_uid = None, lt_source = FROM_ACTUALS, lt_remaining_start = None \<rparr>
      | _ \<Rightarrow> Inl (backward_error ''SCHEDULE_ACTUAL_FINISH_WITHOUT_START'' (Some (pa_uid a))))"

definition placed_late_row ::
    "bool \<Rightarrow> int \<Rightarrow> planned_activity \<Rightarrow> late_bound_state \<Rightarrow> activity_late_times result" where
  "placed_late_row snap late a b =
     (let c = late_constrain a b; d = remaining a in
      rbind (late_place a d (lc_start c) (lc_finish c) snap (lc_pinned c) (pa_constraint_coordinate a))
        (\<lambda>(start, finish).
      rbind (if lc_pinned c \<noteq> None \<or> lc_constrained c then Inr None
             else late_driver a d (lc_start c) (lc_finish c) (lc_start_driver c) (lc_finish_driver c) late)
        (\<lambda>drv.
      let source = (if lc_pinned c \<noteq> None \<or> lc_constrained c then FROM_CONSTRAINT
                    else if drv \<noteq> None then FROM_RELATIONSHIP else FROM_PROJECT_FINISH)
      in if state_of a = IN_PROGRESS
         then (case pa_actual_start a of
                 None \<Rightarrow> Inl (backward_error ''SCHEDULE_PROGRESS_STATE_INCOMPLETE'' (Some (pa_uid a)))
               | Some actual \<Rightarrow> Inr \<lparr> lt_uid = pa_uid a, late_start = actual, late_finish = finish,
                   lt_driving_relationship_uid = drv, lt_source = source, lt_remaining_start = Some start \<rparr>)
         else Inr \<lparr> lt_uid = pa_uid a, late_start = start, late_finish = finish,
                lt_driving_relationship_uid = drv, lt_source = source, lt_remaining_start = None \<rparr>)))"

definition backward_row ::
    "network \<Rightarrow> bool \<Rightarrow> (uuid \<Rightarrow> activity_times option) \<Rightarrow> uuid set \<Rightarrow> int
     \<Rightarrow> (uuid \<Rightarrow> planned_relationship list option) \<Rightarrow> uuid
     \<Rightarrow> (uuid \<Rightarrow> activity_late_times option) \<Rightarrow> activity_late_times result" where
  "backward_row n snap early released late outgoing u placed =
     (case activity_by_uid n u of
        None \<Rightarrow> Inl KeyError
      | Some a \<Rightarrow>
          if state_of a = COMPLETE then complete_late_row a
          else (case outgoing u of
                  None \<Rightarrow> Inl KeyError
                | Some rs \<Rightarrow> rbind (late_bounds n early released late rs placed) (placed_late_row snap late a)))"

record backward_state =
  ls_placed :: "uuid \<Rightarrow> activity_late_times option"
  ls_deferred :: "deferred_late_constraint list"

definition backward_step ::
    "network \<Rightarrow> bool \<Rightarrow> (uuid \<Rightarrow> activity_times option) \<Rightarrow> uuid set \<Rightarrow> int
     \<Rightarrow> (uuid \<Rightarrow> planned_relationship list option) \<Rightarrow> uuid \<Rightarrow> backward_state \<Rightarrow> backward_state result" where
  "backward_step n snap early released late outgoing u s =
     rbind (backward_row n snap early released late outgoing u (ls_placed s)) (\<lambda>t.
       Inr \<lparr> ls_placed = (ls_placed s)(u \<mapsto> t),
             ls_deferred = ls_deferred s
               @ (case activity_by_uid n u of None \<Rightarrow> [] | Some a \<Rightarrow> late_deferred a) \<rparr>)"

subsection \<open>The pass\<close>

definition policy_value :: "progress_policy \<Rightarrow> string" where
  "policy_value p = (case p of NONE \<Rightarrow> ''none'' | RETAINED_LOGIC \<Rightarrow> ''retained_logic''
     | PROGRESS_OVERRIDE \<Rightarrow> ''progress_override'' | ACTUAL_DATES \<Rightarrow> ''actual_dates'')"

definition backward_fingerprint ::
    "(json \<Rightarrow> string) \<Rightarrow> activity_late_times list \<Rightarrow> int \<Rightarrow> uuid list \<Rightarrow> progress_policy \<Rightarrow> bool \<Rightarrow> string" where
  "backward_fingerprint sha rows late overridden policy snap =
     sha (JObj [(''profile'', JStr BACKWARD_PASS_PROFILE), (''progress_policy'', JStr (policy_value policy)),
                (''snap_milestones'', JBool snap), (''project_late_finish'', JInt late),
                (''overridden_relationships'', JList (map JStr (sort (map uuid_text overridden)))),
                (''times'', JList (map (\<lambda>t. JList
                   [JStr (uuid_text (lt_uid t)), JInt (late_start t), JInt (late_finish t),
                    json_opt_int (lt_remaining_start t)])
                   (sort_key (\<lambda>t. uuid_text (lt_uid t)) rows)))])"

text \<open>The edges that hold nothing under the policy.\<close>

definition overridden_edges :: "network \<Rightarrow> progress_policy \<Rightarrow> uuid list result" where
  "overridden_edges n policy =
     rbind (rmap (\<lambda>r. case activity_by_uid n (pr_successor_uid r) of
                    None \<Rightarrow> Inl KeyError
                  | Some q \<Rightarrow> Inr (if relationship_binds policy (state_of q) (status_time n) then [] else [pr_uid r]))
             (relationships n)) (\<lambda>xs. Inr (concat xs))"

text \<open>What the pass refuses of the forward result and of the policies named again.\<close>

definition check_forward ::
    "(json \<Rightarrow> string) \<Rightarrow> network \<Rightarrow> forward_pass_result \<Rightarrow> bool option \<Rightarrow> progress_policy option
     \<Rightarrow> (progress_policy \<times> bool) result" where
  "check_forward sha n fp snap_arg policy_arg =
     raise_if (fp_network_fingerprint fp \<noteq> network_fingerprint sha n) (backward_error ''SCHEDULE_PASS_MISMATCH'' None)
     (raise_if (policy_arg \<noteq> None \<and> policy_arg \<noteq> Some (fp_progress_policy fp))
        (backward_error ''SCHEDULE_POLICY_MISMATCH'' None)
     (raise_if (snap_arg \<noteq> None \<and> snap_arg \<noteq> Some (fp_snap_milestones fp))
        (backward_error ''SCHEDULE_POLICY_MISMATCH'' None)
        (Inr (fp_progress_policy fp, fp_snap_milestones fp))))"

definition backward_pass ::
    "(json \<Rightarrow> string) \<Rightarrow> network \<Rightarrow> forward_pass_result \<Rightarrow> bool option \<Rightarrow> int option
     \<Rightarrow> progress_policy option \<Rightarrow> backward_pass_result result" where
  "backward_pass sha n fp snap_arg late_arg policy_arg =
     rbind (validate n) (\<lambda>_.
     rbind (check_forward sha n fp snap_arg policy_arg) (\<lambda>(policy, snap).
     rbind (successors n) (\<lambda>outgoing.
     let late = (case late_arg of None \<Rightarrow> fp_project_finish fp | Some x \<Rightarrow> x) in
     raise_if (late > horizon n) (backward_error ''SCHEDULE_HORIZON_EXCEEDED'' None)
     (rbind (overridden_edges n policy) (\<lambda>overridden.
      rbind (rfold (backward_step n snap (by_uid fp) (set overridden) late outgoing) (rev (fp_order fp))
               \<lparr> ls_placed = Map.empty, ls_deferred = [] \<rparr>) (\<lambda>s.
      rbind (rmap (\<lambda>u. case ls_placed s u of None \<Rightarrow> Inl KeyError | Some t \<Rightarrow> Inr t) (fp_order fp)) (\<lambda>rows.
      Inr \<lparr> bp_times = rows, bp_order = rev (fp_order fp), bp_project_late_finish = late,
            bp_deferred_constraints = ls_deferred s,
            bp_fingerprint = backward_fingerprint sha rows late overridden policy snap,
            overridden_relationships = overridden,
            bp_network_fingerprint = network_fingerprint sha n, bp_progress_policy = policy,
            bp_snap_milestones = snap, project_late_finish_explicit = (late_arg \<noteq> None) \<rparr>)))))))"

end
