(* ===== verification/Forward_Optimal.thy ===== *)
theory Forward_Optimal
  imports Forward_Facts
begin

section \<open>The early dates are the least feasible schedule\<close>

text \<open>
  The abstract specification of the forward pass: a schedule assigns every activity a start and a
  finish; it is feasible when each activity occupies a span of its own calendar, honours its
  not-earlier-than constraint and every edge into it. The pass computes the least feasible
  schedule, and the rows do not depend on the topological order chosen. What reported progress and
  pinned constraints keep is stated at the end.
\<close>

subsection \<open>Feasible schedules\<close>

definition untouched_network :: "network \<Rightarrow> bool" where
  "untouched_network n \<longleftrightarrow> (\<forall>a \<in> set (activities n). state_of a = NOT_STARTED
     \<and> pa_assignment_envelope a = None \<and> pa_constraint_type a \<notin> {MSO, MFO})"

definition edge_met ::
    "(uuid \<Rightarrow> int \<times> int) \<Rightarrow> planned_activity \<Rightarrow> planned_relationship \<Rightarrow> bool" where
  "edge_met sched a r \<longleftrightarrow>
     (case shift_lag (lag_calendar_for r (pa_calendar a))
             (if anchors_predecessor_finish r then snd (sched (pr_predecessor_uid r)) else fst (sched (pr_predecessor_uid r)))
             (pr_lag r) of
        Inr (Some x) \<Rightarrow> x \<le> (if bounds_successor_start r then fst (sched (pa_uid a)) else snd (sched (pa_uid a)))
      | _ \<Rightarrow> False)"

definition feasible_activity ::
    "network \<Rightarrow> bool \<Rightarrow> (uuid \<Rightarrow> int \<times> int) \<Rightarrow> planned_activity \<Rightarrow> bool" where
  "feasible_activity n snap sched a \<longleftrightarrow>
     activity_span a (remaining a) snap (fst (sched (pa_uid a))) (snd (sched (pa_uid a)))
   \<and> calendar_floor a \<le> fst (sched (pa_uid a))
   \<and> ((\<forall>r \<in> set (incoming_edges n (pa_uid a)). \<not> bounds_successor_start r) \<longrightarrow> project_start n \<le> fst (sched (pa_uid a)))
   \<and> (\<forall>x. pa_constraint_coordinate a = Some x \<longrightarrow>
        (pa_constraint_type a = SNET \<longrightarrow> x \<le> fst (sched (pa_uid a)))
      \<and> (pa_constraint_type a = FNET \<longrightarrow> x \<le> snd (sched (pa_uid a))))
   \<and> (\<forall>r \<in> set (incoming_edges n (pa_uid a)). edge_met sched a r)"

definition feasible_schedule :: "network \<Rightarrow> bool \<Rightarrow> (uuid \<Rightarrow> int \<times> int) \<Rightarrow> bool" where
  "feasible_schedule n snap sched \<longleftrightarrow> (\<forall>a \<in> set (activities n). feasible_activity n snap sched a)"

definition early_schedule :: "forward_pass_result \<Rightarrow> uuid \<Rightarrow> int \<times> int" where
  "early_schedule fp u = (case by_uid fp u of Some t \<Rightarrow> (early_start t, early_finish t) | None \<Rightarrow> (0, 0))"

lemma edge_met_reach:
  assumes "by_uid fp (pa_uid a) = Some t" and "edge_reach a (by_uid fp) r = Some x"
  shows "edge_met (early_schedule fp) a r \<longleftrightarrow> x \<le> (if bounds_successor_start r then early_start t else early_finish t)"
  using assms by (cases "anchors_predecessor_finish r")
    (auto simp: edge_met_def edge_reach_def early_schedule_def split: option.splits sum.splits)

text \<open>An untouched row occupies the least fitting span of its bounds.\<close>

lemma untouched_least:
  assumes ok: "network_ok n" and wf: "wf_network n" and plain: "untouched_network n"
    and u: "forward_times n snap policy (pa_uid a) m = Inr t" and a: "a \<in> set (activities n)"
  shows "activity_span a (remaining a) snap (early_start t) (early_finish t)"
    and "calendar_floor a \<le> early_start t"
    and "activity_span a (remaining a) snap s f \<Longrightarrow> calendar_floor a \<le> s \<Longrightarrow>
      ((\<forall>r \<in> set (incoming_edges n (pa_uid a)). \<not> bounds_successor_start r) \<longrightarrow> project_start n \<le> s) \<Longrightarrow>
      (\<And>x. pa_constraint_coordinate a = Some x \<Longrightarrow>
        (pa_constraint_type a = SNET \<longrightarrow> x \<le> s) \<and> (pa_constraint_type a = FNET \<longrightarrow> x \<le> f)) \<Longrightarrow>
      (\<And>r x. r \<in> set (incoming_edges n (pa_uid a)) \<Longrightarrow> edge_reach a m r = Some x \<Longrightarrow>
        x \<le> (if bounds_successor_start r then s else f)) \<Longrightarrow>
      early_start t \<le> s \<and> early_finish t \<le> f"
proof -
  have fresh: "state_of a = NOT_STARTED" and env: "pa_assignment_envelope a = None"
    and free: "pa_constraint_type a \<notin> {MSO, MFO}"
    using plain a by (auto simp: untouched_network_def)
  note wfc = wf_networkD(1) [OF wf a] and nonneg = remaining_nonneg [OF network_okD [OF ok a]]
  obtain sb fb sd fd b where bnd: "bounds a (incoming_edges n (pa_uid a)) m
      (if incoming_edges n (pa_uid a) = [] then Some (project_start n) else None) (project_start n) = Inr (sb, fb, sd, fd)"
    and b: "cb_start b = sb" "cb_finish b = fb" "cb_pinned b = None"
    and pl: "place a (remaining a) (cb_start (constrain a b)) (cb_finish (constrain a b)) (horizon n) snap
      (cb_pinned (constrain a b)) (pa_constraint_coordinate a) = Inr (early_start t, early_finish t)"
    using ok u a fresh by (rule untouched_placed)
  have "cb_pinned (constrain a b) = None" using constrain_raises(3) [OF free] b by simp
  note least = place_plain(1) [OF wfc nonneg env pl [unfolded this]]
  show span: "activity_span a (remaining a) snap (early_start t) (early_finish t)"
    using least by (simp add: fits_def)
  show "calendar_floor a \<le> early_start t"
  proof (cases "remaining a = 0")
    case True
    then show ?thesis using span untouched_ge(7) [OF ok wf u a fresh free] by (simp add: activity_span_def)
  next
    case False
    with span have "contains_coordinate (early_start t) (intervals (pa_calendar a))"
      by (simp add: activity_span_def is_span_def)
    then show ?thesis by (rule calendar_floor_le [OF _ wfc])
  qed
  show "early_start t \<le> s \<and> early_finish t \<le> f"
    if sp: "activity_span a (remaining a) snap s f" and cf: "calendar_floor a \<le> s"
      and ps: "(\<forall>r \<in> set (incoming_edges n (pa_uid a)). \<not> bounds_successor_start r) \<longrightarrow> project_start n \<le> s"
      and con: "\<And>x. pa_constraint_coordinate a = Some x \<Longrightarrow>
        (pa_constraint_type a = SNET \<longrightarrow> x \<le> s) \<and> (pa_constraint_type a = FNET \<longrightarrow> x \<le> f)"
      and reach: "\<And>r x. r \<in> set (incoming_edges n (pa_uid a)) \<Longrightarrow> edge_reach a m r = Some x \<Longrightarrow>
        x \<le> (if bounds_successor_start r then s else f)"
  proof -
    have sf: "s \<le> f"
      using sp is_span_ordered [OF wfc, of "remaining a" s f] nonneg by (cases "remaining a = 0") (auto simp: activity_span_def)
    let ?base = "if incoming_edges n (pa_uid a) = [] then Some (project_start n) else None"
    have base: "x \<le> s" if "?base = Some x" for x using that ps by (auto split: if_splits)
    have "sb \<le> s"
    proof (rule bounds_least(1) [OF bnd cf base])
      show "x \<le> s" if "r \<in> set (incoming_edges n (pa_uid a))" "bounds_successor_start r" "edge_reach a m r = Some x" for r x
        using reach [OF that(1,3)] that(2) by simp
      show "project_start n \<le> s" if "\<forall>r \<in> set (incoming_edges n (pa_uid a)). \<not> bounds_successor_start r"
        using ps that by blast
    qed
    moreover have "fb \<le> f"
    proof (rule bounds_least(2) [OF bnd order.trans [OF cf sf] order.trans [OF base sf]])
      show "x \<le> f" if "r \<in> set (incoming_edges n (pa_uid a))" "\<not> bounds_successor_start r" "edge_reach a m r = Some x" for r x
        using reach [OF that(1,3)] that(2) by simp
    qed
    ultimately have "cb_start (constrain a b) \<le> s" "cb_finish (constrain a b) \<le> f"
      using constrain_least [of b] b con by auto
    with sp least show ?thesis by (simp add: fits_def)
  qed
qed

lemma early_schedule_feasible:
  assumes run: "forward_pass sha n snap policy = Inr fp" and wf: "wf_network n" and plain: "untouched_network n"
  shows "feasible_schedule n snap (early_schedule fp)"
  unfolding feasible_schedule_def
proof
  fix a assume a: "a \<in> set (activities n)"
  have ok: "network_ok n" using run by (rule forward_pass_run)
  have fresh: "state_of a = NOT_STARTED" and free: "pa_constraint_type a \<notin> {MSO, MFO}"
    using plain a by (auto simp: untouched_network_def)
  have "pa_uid a \<in> set (activity_uids n)" using a by (simp add: activity_uids_def)
  from forward_pass_rows(6) [OF run this] obtain t where
    t: "by_uid fp (pa_uid a) = Some t" and u: "forward_times n snap policy (pa_uid a) (by_uid fp) = Inr t" by blast
  note ge = untouched_ge [OF ok wf u a fresh free]
  have "edge_met (early_schedule fp) a r" if "r \<in> set (incoming_edges n (pa_uid a))" for r
    using ge(1) [OF that] edge_met_reach [of fp a, OF t] by blast
  moreover have "early_schedule fp (pa_uid a) = (early_start t, early_finish t)"
    by (simp add: early_schedule_def t)
  ultimately show "feasible_activity n snap (early_schedule fp) a"
    using ge(4,5,6) untouched_least(1,2) [OF ok wf plain u a] by (simp add: feasible_activity_def)
qed

lemma early_schedule_least:
  assumes run: "forward_pass sha n snap policy = Inr fp" and wf: "wf_network n" and plain: "untouched_network n"
    and sched: "feasible_schedule n snap sched" and t: "by_uid fp u = Some t"
  shows "early_start t \<le> fst (sched u) \<and> early_finish t \<le> snd (sched u)"
proof -
  have ok: "network_ok n" using run by (rule forward_pass_run)
  note rows = forward_pass_rows [OF run]
  have u: "u \<in> set (fp_order fp)" using t rows(2,5) by (metis domI)
  show ?thesis
  proof (rule fwd.rows_induct [where P = "\<lambda>u t. early_start t \<le> fst (sched u) \<and> early_finish t \<le> snd (sched u)"
        and n = n and snap = snap and policy = policy])
    show "deps_before (pred_uids n) (fp_order fp)" by (rule precedence_deps [OF rows(3)])
    show "u \<in> set (fp_order fp)" "by_uid fp u = Some t" by (rule u, rule t)
    show "\<exists>v. by_uid fp k = Some v \<and> forward_times n snap policy k (by_uid fp) = Inr v" if "k \<in> set (fp_order fp)" for k
      using rows(6) [of k] that rows(2) by auto
  next
    fix k v
    assume k: "k \<in> set (fp_order fp)" "by_uid fp k = Some v" "forward_times n snap policy k (by_uid fp) = Inr v"
      and IH: "\<And>d. d \<in> pred_uids n k \<Longrightarrow> d \<in> set (fp_order fp)
        \<and> (\<exists>w. by_uid fp d = Some w \<and> early_start w \<le> fst (sched d) \<and> early_finish w \<le> snd (sched d))"
    obtain a where a: "a \<in> set (activities n)" "pa_uid a = k"
      using k(1) rows(2) by (auto simp: activity_uids_def)
    have f: "feasible_activity n snap sched a" using sched a by (simp add: feasible_schedule_def)
    have reach: "x \<le> (if bounds_successor_start r then fst (sched k) else snd (sched k))"
      if r: "r \<in> set (incoming_edges n (pa_uid a))" and x: "edge_reach a (by_uid fp) r = Some x" for r x
    proof -
      let ?c = "lag_calendar_for r (pa_calendar a)" and ?p = "pr_predecessor_uid r"
      have wfc: "wf_calendar ?c" using wf_networkD(4) [OF wf a(1)] r by (simp add: incoming_edges_def)
      have "?p \<in> pred_uids n k" using r a(2) by (simp add: pred_uids_def)
      with IH obtain w where w: "by_uid fp ?p = Some w" "early_start w \<le> fst (sched ?p)" "early_finish w \<le> snd (sched ?p)"
        by blast
      have "edge_met sched a r" using f r by (simp add: feasible_activity_def)
      then obtain y where y: "shifted ?c (if anchors_predecessor_finish r then snd (sched ?p) else fst (sched ?p)) (pr_lag r) = Some y"
        and le: "y \<le> (if bounds_successor_start r then fst (sched k) else snd (sched k))"
        using a(2) by (auto simp: edge_met_def shift_lag_eq [OF wfc] split: option.splits)
      have x': "shifted ?c (if anchors_predecessor_finish r then early_finish w else early_start w) (pr_lag r) = Some x"
        using x w(1) by (auto simp: edge_reach_def shift_lag_eq [OF wfc] split: option.splits)
      have "x \<le> y" using edge.shift_mono [OF wfc x' y] w(2,3) by simp
      with le show ?thesis by simp
    qed
    show "early_start v \<le> fst (sched k) \<and> early_finish v \<le> snd (sched k)"
      using untouched_least(3) [OF ok wf plain _ a(1), of snap policy "by_uid fp" v "fst (sched k)" "snd (sched k)"]
        k(3) f reach a(2) unfolding feasible_activity_def by blast
  qed
qed

subsection \<open>Reported work\<close>

lemma reported_placed:
  assumes ok: "network_ok n" and u: "forward_times n snap policy (pa_uid a) m = Inr t"
    and a: "a \<in> set (activities n)" and begun: "state_of a \<noteq> NOT_STARTED"
  obtains sb fb sd fd where "bounds a (binding_edges n policy a) m (pa_actual_start a)
      (case pa_actual_start a of Some x \<Rightarrow> x | None \<Rightarrow> project_start n) = Inr (sb, fb, sd, fd)"
    and "place_reported n snap policy a (state_of a) sb fb sd fd = Inr t"
proof -
  from u obtain r where r: "forward_row n snap policy (incoming_of n) (pa_uid a) m = Inr r" "t = fr_times r"
    by (auto simp: rbind_Inr_iff)
  from r(1) show thesis
  proof (rule forward_row_Inr)
    fix a' sb fb sd fd
    assume a': "a' \<in> set (activities n)" "pa_uid a' = pa_uid a"
      and bnd: "bounds a' (binding_edges n policy a') m (forward_base n a' (incoming_edges n (pa_uid a)))
      (case forward_base n a' (incoming_edges n (pa_uid a)) of Some x \<Rightarrow> x | None \<Rightarrow> project_start n) = Inr (sb, fb, sd, fd)"
      and row: "if state_of a' \<noteq> NOT_STARTED then reported_row n snap policy a' sb fb sd fd = Inr r
      else untouched_row n snap a'
        (case forward_base n a' (incoming_edges n (pa_uid a)) of Some x \<Rightarrow> x | None \<Rightarrow> calendar_floor a')
        \<lparr> cb_start = sb, cb_finish = fb, cb_start_driver = sd, cb_finish_driver = fd,
          cb_pinned = None, cb_constrained = False,
          cb_rests_on_fallback = (binding_edges n policy a' \<noteq> [] \<and> sd = None \<and> sb = project_start n) \<rparr> = Inr r"
    have [simp]: "a' = a" using activity_uid_unique [OF network_ok_distinct [OF ok] a'(1) a a'(2)] .
    have "forward_base n a (incoming_edges n (pa_uid a)) = pa_actual_start a" by (simp add: forward_base_def begun)
    with bnd row begun show thesis
      by (intro that [of sb fb sd fd]) (auto simp: reported_row_def rbind_Inr_iff r(2))
  qed
qed

lemma complete_row:
  assumes "network_ok n" and "forward_times n snap policy (pa_uid a) m = Inr t"
    and "a \<in> set (activities n)" and "state_of a = COMPLETE"
  shows "pa_actual_start a = Some (early_start t)" and "pa_actual_finish a = Some (early_finish t)"
    and "driving_relationship_uid t = None" and "remaining_start t = None"
proof -
  have "state_of a \<noteq> NOT_STARTED" using assms(4) by simp
  from reported_placed [OF assms(1-3) this] obtain sb fb sd fd where
    "place_reported n snap policy a (state_of a) sb fb sd fd = Inr t" by metis
  then show "pa_actual_start a = Some (early_start t)" and "pa_actual_finish a = Some (early_finish t)"
    and "driving_relationship_uid t = None" and "remaining_start t = None"
    using assms(4) by (auto simp: place_reported_def split: option.splits)
qed

lemma in_progress_row:
  assumes ok: "network_ok n" and wf: "wf_network n" and u: "forward_times n snap policy (pa_uid a) m = Inr t"
    and a: "a \<in> set (activities n)" and begun: "state_of a = IN_PROGRESS"
  obtains rem where "pa_actual_start a = Some (early_start t)" and "remaining_start t = Some rem"
    and "early_start t \<le> rem" and "rem \<le> early_finish t" and "early_finish t \<le> horizon n"
    and "\<And>x. status_time n = Some x \<Longrightarrow> x \<le> rem"
    and "\<And>r. r \<in> set (binding_edges n policy a) \<Longrightarrow>
      \<exists>x. edge_reach a m r = Some x \<and> x \<le> (if bounds_successor_start r then rem else early_finish t)"
    and "activity_span a (remaining a) snap rem (early_finish t)"
proof -
  have begun': "state_of a \<noteq> NOT_STARTED" using begun by simp
  obtain sb fb sd fd where bnd: "bounds a (binding_edges n policy a) m (pa_actual_start a)
      (case pa_actual_start a of Some x \<Rightarrow> x | None \<Rightarrow> project_start n) = Inr (sb, fb, sd, fd)"
    and pr: "place_reported n snap policy a (state_of a) sb fb sd fd = Inr t"
    by (rule reported_placed [OF ok u a begun'])
  obtain actual where act: "pa_actual_start a = Some actual"
    using begun by (auto simp: state_of_iff has_started_def)
  let ?sf = "remaining_bound IN_PROGRESS policy sb (status_time n) (Some actual)"
  let ?ff = "remaining_bound IN_PROGRESS policy fb (status_time n) (Some actual)"
  from pr act begun obtain rem where
    pl: "place a (remaining a) ?sf ?ff (horizon n) snap None None = Inr (rem, early_finish t)"
    and t: "early_start t = actual" "remaining_start t = Some rem"
    by (auto simp: place_reported_def Let_def rbind_Inr_iff)
  have env: "pa_assignment_envelope a = None"
    using network_okD [OF ok a] begun by (cases "pa_assignment_envelope a") (auto simp: activity_ok_def state_of_iff)
  note wfc = wf_networkD(1) [OF wf a] and nonneg = remaining_nonneg [OF network_okD [OF ok a]]
  note ord = place_ordered [OF wfc nonneg activity_envelope_ok [OF ok wf a] pl]
  have edges: "\<exists>x. edge_reach a m r = Some x \<and> x \<le> (if bounds_successor_start r then rem else early_finish t)"
    if "r \<in> set (binding_edges n policy a)" for r
  proof -
    have binds: "relationship_binds policy IN_PROGRESS (status_time n)"
      using that begun by (auto simp: binding_edges_def split: if_splits)
    have "sb \<le> rem" "fb \<le> early_finish t"
      using ord(1,2) remaining_bound_floors(2) [OF refl binds, where actual = "Some actual"] by (meson order.trans)+
    with bounds_lower(1) [OF bnd that] show ?thesis by (auto split: if_splits)
  qed
  show thesis
  proof (rule that [of rem])
    show "pa_actual_start a = Some (early_start t)" "remaining_start t = Some rem" using act t by simp_all
    show "early_start t \<le> rem"
      using remaining_bound_floors(1) [OF refl, where actual = "Some actual" and s = actual] ord(1) t by (metis order.trans)
    show "rem \<le> early_finish t" "early_finish t \<le> horizon n" using ord by simp_all
    show "x \<le> rem" if "status_time n = Some x" for x
      using remaining_bound_floors(3) [OF refl that, of policy sb "Some actual"] ord(1) unfolding that by simp
    show "activity_span a (remaining a) snap rem (early_finish t)"
      using place_plain(1) [OF wfc nonneg env pl] by (simp add: fits_def)
  qed (rule edges)
qed

subsection \<open>When the pass succeeds\<close>

lemma driver_total:
  assumes wf: "wf_calendar (pa_calendar a)" and d: "0 \<le> d"
  shows "\<exists>drv. driver a d sb fb sd fd fl hz snap = Inr drv"
proof (cases "d = 0")
  case False
  with d obtain r where "earliest_span (pa_calendar a) sb fl d hz = Inr r"
    using earliest_span_fits [OF wf, of d sb fl hz] by auto
  with False show ?thesis by (simp add: driver_def split: option.splits)
qed (simp add: driver_def Let_def split: option.splits)

lemma place_total:
  assumes "wf_calendar (pa_calendar a)" and "0 \<le> d" and "pa_assignment_envelope a = None"
    and "fits a d snap sb fb s f" and "f \<le> hz"
  shows "\<exists>s' f'. place a d sb fb hz snap None c = Inr (s', f')"
proof (cases "place a d sb fb hz snap None c")
  case (Inl e)
  from place_plain(2) [OF assms(1-3) Inl assms(4,5)] show ?thesis ..
qed (metis surj_pair)

lemma untouched_row_total:
  assumes wf: "wf_calendar (pa_calendar a)" and d: "0 \<le> remaining a" and env: "pa_assignment_envelope a = None"
    and pin: "cb_pinned (constrain a b) = None"
    and fit: "fits a (remaining a) snap (cb_start (constrain a b)) (cb_finish (constrain a b)) s f"
    and cf: "calendar_floor a \<le> s" and hz: "f \<le> horizon n"
  shows "\<exists>r. untouched_row n snap a fl b = Inr r"
proof -
  let ?b = "constrain a b" and ?d = "remaining a" and ?c = "pa_constraint_coordinate a"
  obtain s' f' where pl: "place a ?d (cb_start ?b) (cb_finish ?b) (horizon n) snap None ?c = Inr (s', f')"
    using place_total [OF wf d env fit hz] by blast
  obtain drv where drv: "driver a ?d (cb_start ?b) (cb_finish ?b) (cb_start_driver ?b) (cb_finish_driver ?b) fl (horizon n) snap = Inr drv"
    using driver_total [OF wf d] by blast
  have "fits a ?d snap (calendar_floor a) (cb_finish ?b) s f" using fit cf by (simp add: fits_def)
  then obtain s'' f'' where "place a ?d (calendar_floor a) (cb_finish ?b) (horizon n) snap None ?c = Inr (s'', f'')"
    using place_total [OF wf d env _ hz] by blast
  with pl drv pin show ?thesis by (simp add: untouched_row_def Let_def)
qed

lemma edge_reach_feasible:
  assumes wf: "wf_calendar (lag_calendar_for r (pa_calendar a))" and lag: "0 \<le> pr_lag r"
    and w: "m (pr_predecessor_uid r) = Some w" "early_start w \<le> fst (sched (pr_predecessor_uid r))"
      "early_finish w \<le> snd (sched (pr_predecessor_uid r))"
    and met: "edge_met sched a r"
  shows "\<exists>x. edge_reach a m r = Some x
    \<and> x \<le> (if bounds_successor_start r then fst (sched (pa_uid a)) else snd (sched (pa_uid a)))"
proof -
  let ?c = "lag_calendar_for r (pa_calendar a)" and ?p = "pr_predecessor_uid r"
  let ?early = "if anchors_predecessor_finish r then early_finish w else early_start w"
  let ?late = "if anchors_predecessor_finish r then snd (sched ?p) else fst (sched ?p)"
  from met obtain y where y: "shifted ?c ?late (pr_lag r) = Some y"
    and le: "y \<le> (if bounds_successor_start r then fst (sched (pa_uid a)) else snd (sched (pa_uid a)))"
    by (auto simp: edge_met_def shift_lag_eq [OF wf] split: option.splits)
  have anchors: "?early \<le> ?late" using w(2,3) by simp
  have "\<exists>x. shifted ?c ?early (pr_lag r) = Some x"
  proof (cases "pr_lag r = 0")
    case False
    then have pos: "0 < pr_lag r" using lag by simp
    have "add_positive ?c ?late (pr_lag r) = Some y" using y pos by (simp add: shifted_pos [OF wf])
    then have "add_positive ?c ?early (pr_lag r) \<noteq> None"
      using cal.add_None [OF wf pos] cal.add_Some [OF wf pos] cal.W_mono [OF wf anchors] cal.W_bounds [OF wf, of y] by fastforce
    then show ?thesis using pos by (auto simp: shifted_pos [OF wf])
  qed simp
  then obtain x where x: "shifted ?c ?early (pr_lag r) = Some x" by blast
  with edge.shift_mono [OF wf x y anchors] le w(1) show ?thesis
    by (intro exI [of _ x]) (auto simp: edge_reach_def shift_lag_eq [OF wf])
qed

lemma untouched_succeeds:
  assumes ok: "network_ok n" and wf: "wf_network n" and plain: "untouched_network n" and lags: "\<forall>r \<in> set (relationships n). 0 \<le> pr_lag r"
    and a: "a \<in> set (activities n)" and feas: "feasible_activity n snap sched a" and hz: "snd (sched (pa_uid a)) \<le> horizon n"
    and preds: "\<And>d. d \<in> pred_uids n (pa_uid a) \<Longrightarrow> \<exists>w. m d = Some w \<and> early_start w \<le> fst (sched d) \<and> early_finish w \<le> snd (sched d)"
  shows "\<exists>t. forward_times n snap policy (pa_uid a) m = Inr t
    \<and> early_start t \<le> fst (sched (pa_uid a)) \<and> early_finish t \<le> snd (sched (pa_uid a))"
proof -
  let ?s = "fst (sched (pa_uid a))" and ?f = "snd (sched (pa_uid a))"
  have fresh: "state_of a = NOT_STARTED" and env: "pa_assignment_envelope a = None"
    and free: "pa_constraint_type a \<notin> {MSO, MFO}"
    using plain a by (auto simp: untouched_network_def)
  note wfc = wf_networkD(1) [OF wf a] and nonneg = remaining_nonneg [OF network_okD [OF ok a]]
  have reach: "\<exists>x. edge_reach a m r = Some x \<and> x \<le> (if bounds_successor_start r then ?s else ?f)"
    if r: "r \<in> set (incoming_edges n (pa_uid a))" for r
  proof -
    have "pr_predecessor_uid r \<in> pred_uids n (pa_uid a)" using r by (simp add: pred_uids_def)
    then obtain w where w: "m (pr_predecessor_uid r) = Some w" "early_start w \<le> fst (sched (pr_predecessor_uid r))"
      "early_finish w \<le> snd (sched (pr_predecessor_uid r))" using preds by blast
    have mem: "r \<in> set (relationships n)" and "edge_met sched a r"
      using r feas by (simp_all add: incoming_edges_def feasible_activity_def)
    with edge_reach_feasible [where sched = sched and m = m and r = r and a = a, OF wf_networkD(4) [OF wf a mem] _ w] lags
    show ?thesis by blast
  qed
  let ?base = "if incoming_edges n (pa_uid a) = [] then Some (project_start n) else None"
  obtain st where st: "rfold (bound_step a m) (incoming_edges n (pa_uid a))
      \<lparr> bs_start = ?base, bs_finish = ?base, bs_start_driver = None, bs_finish_driver = None \<rparr> = Inr st"
    using bounds_fold_total [of "incoming_edges n (pa_uid a)" a m] reach by (metis option.distinct(1))
  obtain sb fb sd fd where fl: "floor_bounds a (project_start n) st = (sb, fb, sd, fd)" by (metis prod_cases4)
  have bnd: "bounds a (incoming_edges n (pa_uid a)) m ?base (project_start n) = Inr (sb, fb, sd, fd)"
    unfolding bounds_def st rbind.simps fl ..
  have sp: "activity_span a (remaining a) snap ?s ?f" and cf: "calendar_floor a \<le> ?s"
    and ps: "(\<forall>r \<in> set (incoming_edges n (pa_uid a)). \<not> bounds_successor_start r) \<longrightarrow> project_start n \<le> ?s"
    and con: "\<And>x. pa_constraint_coordinate a = Some x \<Longrightarrow>
        (pa_constraint_type a = SNET \<longrightarrow> x \<le> ?s) \<and> (pa_constraint_type a = FNET \<longrightarrow> x \<le> ?f)"
    using feas by (auto simp: feasible_activity_def)
  have sf: "?s \<le> ?f"
    using sp is_span_ordered [OF wfc, of "remaining a" ?s ?f] nonneg by (cases "remaining a = 0") (auto simp: activity_span_def)
  have base: "x \<le> ?s" if "?base = Some x" for x using that ps by (auto split: if_splits)
  have sb: "sb \<le> ?s"
  proof (rule bounds_least(1) [OF bnd cf base])
    show "x \<le> ?s" if "r \<in> set (incoming_edges n (pa_uid a))" "bounds_successor_start r" "edge_reach a m r = Some x" for r x
      using reach [OF that(1)] that(2,3) by auto
    show "project_start n \<le> ?s" if "\<forall>r \<in> set (incoming_edges n (pa_uid a)). \<not> bounds_successor_start r"
      using ps that by blast
  qed
  have fb: "fb \<le> ?f"
  proof (rule bounds_least(2) [OF bnd order.trans [OF cf sf] order.trans [OF base sf]])
    show "x \<le> ?f" if "r \<in> set (incoming_edges n (pa_uid a))" "\<not> bounds_successor_start r" "edge_reach a m r = Some x" for r x
      using reach [OF that(1)] that(2,3) by auto
  qed
  let ?b = "\<lparr> cb_start = sb, cb_finish = fb, cb_start_driver = sd, cb_finish_driver = fd,
    cb_pinned = None, cb_constrained = False,
    cb_rests_on_fallback = (incoming_edges n (pa_uid a) \<noteq> [] \<and> sd = None \<and> sb = project_start n) \<rparr>"
  have "cb_pinned (constrain a ?b) = None" using constrain_raises(3) [OF free] by simp
  moreover have "cb_start (constrain a ?b) \<le> ?s" "cb_finish (constrain a ?b) \<le> ?f"
    using constrain_least [of ?b] sb fb con by auto
  ultimately obtain r where row: "untouched_row n snap a (case ?base of Some x \<Rightarrow> x | None \<Rightarrow> calendar_floor a) ?b = Inr r"
    using untouched_row_total [OF wfc nonneg env, of ?b snap ?s ?f n] sp cf hz by (auto simp: fits_def)
  have known: "pa_uid a \<in> set (activity_uids n)" "activity_by_uid n (pa_uid a) = Some a"
    using a activity_by_uid_iff [OF network_ok_distinct [OF ok]] by (auto simp: activity_uids_def)
  have base_eq: "forward_base n a (incoming_edges n (pa_uid a)) = ?base" by (simp add: forward_base_def fresh)
  have fall: "(case ?base of Some x \<Rightarrow> x | None \<Rightarrow> project_start n) = project_start n" by simp
  have "forward_row n snap policy (incoming_of n) (pa_uid a) m = Inr r"
    unfolding forward_row_def incoming_of_def known(2) if_P [OF known(1)] prod.case option.case Let_def base_eq fall
      fresh if_P [OF not_started_binds] bnd rbind.simps
    using row by (simp only: simp_thms if_False)
  then have run: "forward_times n snap policy (pa_uid a) m = Inr (fr_times r)" by simp
  have "early_start (fr_times r) \<le> ?s \<and> early_finish (fr_times r) \<le> ?f"
  proof (rule untouched_least(3) [OF ok wf plain run a sp cf ps con])
    show "x \<le> (if bounds_successor_start r then ?s else ?f)"
      if "r \<in> set (incoming_edges n (pa_uid a))" "edge_reach a m r = Some x" for r x
      using reach [OF that(1)] that(2) by auto
  qed
  with run show ?thesis by blast
qed

lemma untouched_unprogressed: "untouched_network n \<Longrightarrow> \<not> is_progressed n"
  by (auto simp: untouched_network_def is_progressed_def list_ex_iff state_of_iff)

lemma forward_pass_succeeds:
  assumes ok: "network_ok n" and wf: "wf_network n" and ac: "acyclic (edge_rel n)" and plain: "untouched_network n"
    and lags: "\<forall>r \<in> set (relationships n). 0 \<le> pr_lag r"
    and sched: "feasible_schedule n snap sched" and hz: "\<forall>a \<in> set (activities n). snd (sched (pa_uid a)) \<le> horizon n"
  shows "\<exists>fp. forward_pass sha n snap policy = Inr fp"
proof -
  note d = network_ok_distinct [OF ok] and known = network_ok_known [OF ok]
  obtain order where o: "topological_order n = Inr order"
    using topological_order_cases [OF d known] kahn_complete_iff [OF _ d known] kahn_done [OF _ d] ac by metis
  note order = topological_order_Inr [OF d known o]
  let ?P = "\<lambda>u (t :: activity_times). early_start t \<le> fst (sched u) \<and> early_finish t \<le> snd (sched u)"
  have init: "fs_placed forward_init = Map.empty" by (simp add: forward_init_def)
  obtain s where s: "rfold (forward_step n snap policy (incoming_of n)) order forward_init = Inr s"
  proof -
    have "\<exists>s. rfold (forward_step n snap policy (incoming_of n)) order forward_init = Inr s"
    proof (rule fwd.fold_succeeds [where P = ?P, OF init order(1) precedence_deps [OF order(3)]])
      fix k m assume k: "k \<in> set order" and preds: "\<And>d. d \<in> pred_uids n k \<Longrightarrow> \<exists>w. m d = Some w \<and> ?P d w"
      obtain a where a: "a \<in> set (activities n)" "pa_uid a = k" using k order(2) by (auto simp: activity_uids_def)
      have "feasible_activity n snap sched a" using sched a(1) by (simp add: feasible_schedule_def)
      moreover have "snd (sched (pa_uid a)) \<le> horizon n" using hz a(1) by blast
      ultimately show "\<exists>v. forward_times n snap policy k m = Inr v \<and> ?P k v"
        using untouched_succeeds [OF ok wf plain lags a(1), of snap sched m policy, unfolded a(2)] preds
        unfolding a(2) by blast
    qed
    with that show thesis by blast
  qed
  have placed: "\<exists>t. fs_placed s u = Some t" if "u \<in> set order" for u
    using fwd.fold_solves(2) [OF s init order(1) precedence_deps [OF order(3)] that] by blast
  have "\<exists>rows. rmap (\<lambda>u. case fs_placed s u of None \<Rightarrow> Inl KeyError | Some t \<Rightarrow> Inr t) us = Inr rows"
    if "set us \<subseteq> set order" for us
    using that placed by (induction us) (fastforce split: option.splits)+
  from this [of order] obtain rows where
    "rmap (\<lambda>u. case fs_placed s u of None \<Rightarrow> Inl KeyError | Some t \<Rightarrow> Inr t) order = Inr rows" by auto
  moreover have "validate n = Inr ()" using ok by (simp add: validate_iff)
  moreover have "require_supported policy (is_progressed n) = Inr ()"
    using untouched_unprogressed [OF plain] by (simp add: require_supported_iff)
  ultimately show ?thesis
    using o s by (simp add: forward_pass_def predecessors_incoming [OF ok] Let_def)
qed

subsection \<open>Properties\<close>

text \<open>
  (C1) The early dates are the least feasible schedule: on a network of compiled calendars without
  reported work, envelopes or pinned constraints, whatever the mix of the four relationship types,
  lags of either sign, lag calendars and not-earlier-than constraints, a successful forward pass
  gives every activity a span of its own calendar that honours every edge and constraint, and every
  other such schedule starts and finishes every activity no earlier.
\<close>

theorem forward_pass_least:
  assumes "forward_pass sha n snap policy = Inr fp" and "wf_network n" and "untouched_network n"
  shows "feasible_schedule n snap (early_schedule fp)
    \<and> (\<forall>sched. feasible_schedule n snap sched \<longrightarrow> (\<forall>u t. by_uid fp u = Some t \<longrightarrow>
          early_start t \<le> fst (sched u) \<and> early_finish t \<le> snd (sched u)))"
  using early_schedule_feasible [OF assms] early_schedule_least [OF assms] by blast

definition sample_forward :: forward_pass_result where
  "sample_forward = (case forward_pass (\<lambda>_. []) sample_network False RETAINED_LOGIC of Inr fp \<Rightarrow> fp | Inl _ \<Rightarrow> undefined)"

lemma sample_forward_run: "forward_pass (\<lambda>_. []) sample_network False RETAINED_LOGIC = Inr sample_forward"
proof -
  have "case forward_pass (\<lambda>_. []) sample_network False RETAINED_LOGIC of Inr _ \<Rightarrow> True | Inl _ \<Rightarrow> False" by code_simp
  then show ?thesis unfolding sample_forward_def by (auto split: sum.splits)
qed

lemma sample_networks_wf:
  "wf_network sample_network" "wf_network progressed_network"
  using sample_calendar_wf
  by (auto simp: wf_network_def sample_network_def progressed_network_def sample_activity_def sample_edge_def float_calendar_def)

lemma sample_untouched: "untouched_network sample_network"
  by (auto simp: untouched_network_def sample_network_def sample_activity_def state_of_def is_complete_def has_started_def)

theorem forward_pass_least_witness:
  "map (\<lambda>t. (at_uid t, early_start t, early_finish t)) (fp_times sample_forward) = [(1, 0, 5), (2, 7, 15), (3, 12, 16)]
   \<and> feasible_schedule sample_network False (early_schedule sample_forward)"
proof -
  have "map (\<lambda>t. (at_uid t, early_start t, early_finish t)) (fp_times sample_forward) = [(1, 0, 5), (2, 7, 15), (3, 12, 16)]"
    by code_simp
  with forward_pass_least [OF sample_forward_run sample_networks_wf(1) sample_untouched] show ?thesis by blast
qed

text \<open>
  (C2) The forward pass is complete: on a valid, acyclic, untouched network whose lags are not
  negative it succeeds, under every policy, exactly when some feasible schedule finishes every
  activity within the horizon. It never refuses a schedulable network and never answers an
  unschedulable one.
\<close>

theorem forward_pass_complete:
  assumes "network_ok n" and "wf_network n" and "acyclic (edge_rel n)" and "untouched_network n"
    and "\<forall>r \<in> set (relationships n). 0 \<le> pr_lag r"
  shows "(\<exists>fp. forward_pass sha n snap policy = Inr fp)
    \<longleftrightarrow> (\<exists>sched. feasible_schedule n snap sched \<and> (\<forall>a \<in> set (activities n). snd (sched (pa_uid a)) \<le> horizon n))"
proof
  assume "\<exists>fp. forward_pass sha n snap policy = Inr fp"
  then obtain fp where run: "forward_pass sha n snap policy = Inr fp" by blast
  have "snd (early_schedule fp (pa_uid a)) \<le> horizon n" if a: "a \<in> set (activities n)" for a
  proof -
    obtain t where t: "by_uid fp (pa_uid a) = Some t" "forward_times n snap policy (pa_uid a) (by_uid fp) = Inr t"
      using forward_pass_rows(6) [OF run, of "pa_uid a"] a by (auto simp: activity_uids_def)
    have "state_of a = NOT_STARTED" "pa_constraint_type a \<notin> {MSO, MFO}"
      using assms(4) a by (auto simp: untouched_network_def)
    with untouched_ge(3) [OF assms(1,2) t(2) a] t(1) show ?thesis by (simp add: early_schedule_def)
  qed
  with early_schedule_feasible [OF run assms(2,4)]
  show "\<exists>sched. feasible_schedule n snap sched \<and> (\<forall>a \<in> set (activities n). snd (sched (pa_uid a)) \<le> horizon n)" by blast
next
  assume "\<exists>sched. feasible_schedule n snap sched \<and> (\<forall>a \<in> set (activities n). snd (sched (pa_uid a)) \<le> horizon n)"
  with forward_pass_succeeds [OF assms] show "\<exists>fp. forward_pass sha n snap policy = Inr fp" by blast
qed

lemma sample_network_ok: "network_ok sample_network"
proof -
  have "validate sample_network = Inr ()" by code_simp
  then show ?thesis by (simp only: validate_iff)
qed

lemma sample_acyclic: "acyclic (edge_rel sample_network)"
proof -
  have "topological_order sample_network = Inr [1, 2, 3]" by code_simp
  with topological_order_Inr(4) network_ok_distinct [OF sample_network_ok] network_ok_known [OF sample_network_ok]
  show ?thesis by blast
qed

theorem forward_pass_complete_witness:
  "\<exists>sched. feasible_schedule sample_network False sched
     \<and> list_all (\<lambda>a. snd (sched (pa_uid a)) \<le> horizon sample_network) (activities sample_network)"
proof -
  have "\<forall>r \<in> set (relationships sample_network). 0 \<le> pr_lag r" by code_simp
  from forward_pass_complete [OF sample_network_ok sample_networks_wf(1) sample_acyclic sample_untouched this,
      of "\<lambda>_. []" False RETAINED_LOGIC] sample_forward_run
  show ?thesis unfolding list_all_iff by blast
qed

text \<open>
  (C3) Precedence is honoured on every network: in a successful pass, whatever else the network
  holds (reported predecessors, envelopes, milestones, constraints), each edge into an activity that
  has not started and is not pinned by a must-date lands, through its lag and its lag calendar, at
  or before the end of the activity it bounds.
\<close>

theorem forward_honours_precedence:
  assumes "forward_pass sha n snap policy = Inr fp" and "wf_network n"
    and "r \<in> set (relationships n)" and "a \<in> set (activities n)" and "pa_uid a = pr_successor_uid r"
    and "state_of a = NOT_STARTED" and "pa_constraint_type a \<notin> {MSO, MFO}"
  shows "\<exists>p t x. by_uid fp (pr_predecessor_uid r) = Some p \<and> by_uid fp (pr_successor_uid r) = Some t
    \<and> shift_lag (lag_calendar_for r (pa_calendar a))
        (if anchors_predecessor_finish r then early_finish p else early_start p) (pr_lag r) = Inr (Some x)
    \<and> x \<le> (if bounds_successor_start r then early_start t else early_finish t)"
proof -
  have ok: "network_ok n" using assms(1) by (rule forward_pass_run)
  have r: "r \<in> set (incoming_edges n (pa_uid a))" using assms(3,5) by (simp add: incoming_edges_def)
  obtain t where t: "by_uid fp (pa_uid a) = Some t" "forward_times n snap policy (pa_uid a) (by_uid fp) = Inr t"
    using forward_pass_rows(6) [OF assms(1), of "pa_uid a"] assms(4) by (auto simp: activity_uids_def)
  from untouched_ge(1) [OF ok assms(2) t(2) assms(4,6,7) r] obtain x where
    x: "edge_reach a (by_uid fp) r = Some x" "x \<le> (if bounds_successor_start r then early_start t else early_finish t)" by blast
  from x(1) obtain p where "by_uid fp (pr_predecessor_uid r) = Some p"
    "shift_lag (lag_calendar_for r (pa_calendar a))
        (if anchors_predecessor_finish r then early_finish p else early_start p) (pr_lag r) = Inr (Some x)"
    by (auto simp: edge_reach_def split: option.splits sum.splits)
  with x(2) t(1) assms(5) show ?thesis by auto
qed

definition sample_progressed :: forward_pass_result where
  "sample_progressed = (case forward_pass (\<lambda>_. []) progressed_network False RETAINED_LOGIC of Inr fp \<Rightarrow> fp | Inl _ \<Rightarrow> undefined)"

lemma sample_progressed_run: "forward_pass (\<lambda>_. []) progressed_network False RETAINED_LOGIC = Inr sample_progressed"
proof -
  have "case forward_pass (\<lambda>_. []) progressed_network False RETAINED_LOGIC of Inr _ \<Rightarrow> True | Inl _ \<Rightarrow> False" by code_simp
  then show ?thesis unfolding sample_progressed_def by (auto split: sum.splits)
qed

theorem forward_honours_precedence_witness:
  "\<exists>p t x. by_uid sample_progressed 1 = Some p \<and> by_uid sample_progressed 2 = Some t
    \<and> shift_lag sample_calendar (early_finish p) 2 = Inr (Some x) \<and> x \<le> early_start t"
  using forward_honours_precedence [OF sample_progressed_run sample_networks_wf(2),
      of "sample_edge 11 1 2 FS 2" "sample_activity 2 6"]
  by (simp add: progressed_network_def sample_network_def sample_edge_def sample_activity_def state_of_def is_complete_def
      has_started_def lag_calendar_for_def anchors_predecessor_finish_def bounds_successor_start_def)

lemma reported_rows:
  assumes "forward_pass sha n snap policy = Inr fp" and "wf_network n"
    and "a \<in> set (activities n)" and "by_uid fp (pa_uid a) = Some t"
  shows "at_state t = state_of a"
    and "state_of a = COMPLETE \<Longrightarrow> pa_actual_start a = Some (early_start t)
      \<and> pa_actual_finish a = Some (early_finish t) \<and> driving_relationship_uid t = None"
    and "state_of a = IN_PROGRESS \<Longrightarrow> pa_actual_start a = Some (early_start t) \<and> (\<exists>rem.
        remaining_start t = Some rem \<and> early_start t \<le> rem \<and> rem \<le> early_finish t \<and> early_finish t \<le> horizon n
      \<and> activity_span a (remaining a) snap rem (early_finish t)
      \<and> (\<forall>x. status_time n = Some x \<longrightarrow> x \<le> rem)
      \<and> (\<forall>r \<in> set (incoming_edges n (pa_uid a)). relationship_binds policy IN_PROGRESS (status_time n) \<longrightarrow>
           (\<exists>x. edge_reach a (by_uid fp) r = Some x \<and> x \<le> (if bounds_successor_start r then rem else early_finish t))))"
proof -
  have ok: "network_ok n" using assms(1) by (rule forward_pass_run)
  have u: "forward_times n snap policy (pa_uid a) (by_uid fp) = Inr t"
    using forward_pass_rows(6) [OF assms(1), of "pa_uid a"] assms(3,4) by (auto simp: activity_uids_def)
  then obtain r where "forward_row n snap policy (incoming_of n) (pa_uid a) (by_uid fp) = Inr r" "fr_times r = t"
    by (auto simp: rbind_Inr_iff)
  with forward_row_uid(2) activity_by_uid_iff [OF network_ok_distinct [OF ok]] assms(3)
  show "at_state t = state_of a" by blast
  show "pa_actual_start a = Some (early_start t) \<and> pa_actual_finish a = Some (early_finish t)
      \<and> driving_relationship_uid t = None" if "state_of a = COMPLETE"
    using complete_row [OF ok u assms(3) that] by blast
  show "pa_actual_start a = Some (early_start t) \<and> (\<exists>rem.
        remaining_start t = Some rem \<and> early_start t \<le> rem \<and> rem \<le> early_finish t \<and> early_finish t \<le> horizon n
      \<and> activity_span a (remaining a) snap rem (early_finish t)
      \<and> (\<forall>x. status_time n = Some x \<longrightarrow> x \<le> rem)
      \<and> (\<forall>r \<in> set (incoming_edges n (pa_uid a)). relationship_binds policy IN_PROGRESS (status_time n) \<longrightarrow>
           (\<exists>x. edge_reach a (by_uid fp) r = Some x \<and> x \<le> (if bounds_successor_start r then rem else early_finish t))))"
    if begun: "state_of a = IN_PROGRESS"
    by (rule in_progress_row [OF ok assms(2) u assms(3) begun]) (auto simp: binding_edges_def begun)
qed

text \<open>
  (C4) Reported work is a fact: in a successful pass a complete activity is exactly its two actual
  dates with no driver; an activity in progress keeps its actual start, and its remaining work is
  one span of its remaining duration that starts at or after the actual start and the status time,
  ends within the horizon at the forecast finish, and, unless the policy releases its edges, still
  waits for every predecessor.
\<close>

theorem forward_keeps_actuals:
  assumes "forward_pass sha n snap policy = Inr fp" and "wf_network n"
    and "a \<in> set (activities n)" and "by_uid fp (pa_uid a) = Some t"
  shows "at_state t = state_of a
    \<and> (state_of a = COMPLETE \<longrightarrow> pa_actual_start a = Some (early_start t)
        \<and> pa_actual_finish a = Some (early_finish t) \<and> driving_relationship_uid t = None)
    \<and> (state_of a = IN_PROGRESS \<longrightarrow> pa_actual_start a = Some (early_start t) \<and> (\<exists>rem.
          remaining_start t = Some rem \<and> early_start t \<le> rem \<and> rem \<le> early_finish t \<and> early_finish t \<le> horizon n
        \<and> activity_span a (remaining a) snap rem (early_finish t)
        \<and> (\<forall>x. status_time n = Some x \<longrightarrow> x \<le> rem)
        \<and> (\<forall>r \<in> set (incoming_edges n (pa_uid a)). relationship_binds policy IN_PROGRESS (status_time n) \<longrightarrow>
             (\<exists>x. edge_reach a (by_uid fp) r = Some x \<and> x \<le> (if bounds_successor_start r then rem else early_finish t)))))"
  using reported_rows [OF assms] by blast

theorem forward_keeps_actuals_witness:
  "\<exists>t. by_uid sample_progressed 1 = Some t \<and> early_start t = 1
    \<and> (\<exists>rem. remaining_start t = Some rem \<and> 4 \<le> rem \<and> rem \<le> early_finish t)"
proof -
  let ?a = "(sample_activity 1 5)\<lparr>pa_actual_start := Some 1, pa_remaining_duration := Some 3\<rparr>"
  have a: "?a \<in> set (activities progressed_network)" "pa_uid ?a = 1" "pa_actual_start ?a = Some 1"
    "state_of ?a = IN_PROGRESS" "status_time progressed_network = Some 4"
    by (auto simp: progressed_network_def sample_network_def sample_activity_def state_of_def is_complete_def has_started_def)
  obtain t where t: "by_uid sample_progressed (pa_uid ?a) = Some t"
    using forward_pass_rows(6) [OF sample_progressed_run activity_uid_mem [OF a(1)]] by blast
  show ?thesis
    using forward_keeps_actuals [OF sample_progressed_run sample_networks_wf(2) a(1) t] t a by auto
qed

text \<open>
  (C13) The answer does not depend on how ties are broken: visiting the activities in any order that
  respects precedence succeeds and places every activity exactly where the pass's own order does.
\<close>

theorem forward_order_independent:
  assumes "forward_pass sha n snap policy = Inr fp"
    and "distinct order" and "set order = set (activity_uids n)" and "precedence_order n order"
  shows "\<exists>s. rfold (forward_step n snap policy (incoming_of n)) order forward_init = Inr s \<and> fs_placed s = by_uid fp"
proof -
  note rows = forward_pass_rows [OF assms(1)]
  have sol: "\<exists>v. by_uid fp k = Some v \<and> forward_times n snap policy k (by_uid fp) = Inr v" if "k \<in> set order" for k
    using rows(6) [of k] that assms(3) by auto
  have init: "fs_placed forward_init = Map.empty" by (simp add: forward_init_def)
  have "\<exists>s. rfold (forward_step n snap policy (incoming_of n)) order forward_init = Inr s"
  proof (rule fwd.fold_succeeds [where P = "\<lambda>u t. by_uid fp u = Some t", OF init assms(2) precedence_deps [OF assms(4)]])
    fix k m assume "k \<in> set order" and preds: "\<And>d. d \<in> pred_uids n k \<Longrightarrow> \<exists>w. m d = Some w \<and> by_uid fp d = Some w"
    have "forward_times n snap policy k m = forward_times n snap policy k (by_uid fp)"
      using preds by (intro fwd.row_local) metis
    with sol [OF \<open>k \<in> set order\<close>] show "\<exists>v. forward_times n snap policy k m = Inr v \<and> by_uid fp k = Some v" by auto
  qed
  then obtain s where s: "rfold (forward_step n snap policy (incoming_of n)) order forward_init = Inr s" by blast
  note solved = fwd.fold_solves [OF s init assms(2) precedence_deps [OF assms(4)]]
  have "fs_placed s k = by_uid fp k" for k
  proof (cases "k \<in> set order")
    case True
    with fwd.solution_unique [OF precedence_deps [OF assms(4)] solved(2) sol] show ?thesis by blast
  next
    case False
    with solved(1) rows(5) assms(3) show ?thesis by (metis domIff)
  qed
  with s show ?thesis by blast
qed

theorem forward_order_independent_witness:
  "\<exists>s. rfold (forward_step sample_network False RETAINED_LOGIC (incoming_of sample_network)) [1, 2, 3] forward_init = Inr s
     \<and> fs_placed s = by_uid sample_forward"
proof -
  have "topological_order sample_network = Inr [1, 2, 3]" by code_simp
  note order = topological_order_Inr [OF network_ok_distinct [OF sample_network_ok] network_ok_known [OF sample_network_ok] this]
  show ?thesis by (rule forward_order_independent [OF sample_forward_run order(1,2,3)])
qed

end
