(* ===== verification/Backward_Facts.thy ===== *)
theory Backward_Facts
  imports Backward Forward_Optimal
begin

section \<open>What the backward pass guarantees\<close>

text \<open>
  The mirror of the forward facts. The pass is a fold over the reversed order, so its rows solve
  their equations; a late bound is the least of what the edges carry back; a late placement is the
  greatest that respects its bounds. From these: the late dates are the greatest schedule meeting
  the project finish, and after a forward pass they never precede the early ones.
\<close>

subsection \<open>The pass as a fold\<close>

definition outgoing_edges :: "network \<Rightarrow> uuid \<Rightarrow> planned_relationship list" where
  "outgoing_edges n u = filter (\<lambda>r. pr_predecessor_uid r = u) (relationships n)"

definition outgoing_of :: "network \<Rightarrow> uuid \<Rightarrow> planned_relationship list option" where
  "outgoing_of n u = (if u \<in> set (activity_uids n) then Some (outgoing_edges n u) else None)"

definition succ_uids :: "network \<Rightarrow> uuid \<Rightarrow> uuid set" where
  "succ_uids n u = pr_successor_uid ` set (outgoing_edges n u)"

lemma setdefault_append_mem:
  "(k', vs) \<in> set (setdefault_append k v m) \<Longrightarrow> x \<in> set vs \<Longrightarrow> x = v \<or> (\<exists>vs'. (k', vs') \<in> set m \<and> x \<in> set vs')"
  by (induction k v m rule: setdefault_append.induct) (auto split: if_splits)

lemma boundary_groups_mem:
  "(b, rows) \<in> set (boundary_groups_of released rs) \<Longrightarrow> r \<in> set rows \<Longrightarrow> r \<in> set rs"
proof -
  have "(b, rows) \<in> set (fold (\<lambda>r g. case pr_inactive_boundary_uid r of None \<Rightarrow> g | Some b \<Rightarrow> setdefault_append b r g) ys g) \<Longrightarrow>
      r \<in> set rows \<Longrightarrow> r \<in> set ys \<or> (\<exists>rows'. (b, rows') \<in> set g \<and> r \<in> set rows')" for ys g
  proof (induction ys arbitrary: g)
    case (Cons y ys)
    from Cons.IH [OF Cons.prems [simplified]] show ?case
      by (auto split: option.splits dest!: setdefault_append_mem)
  qed auto
  then show "(b, rows) \<in> set (boundary_groups_of released rs) \<Longrightarrow> r \<in> set rows \<Longrightarrow> r \<in> set rs"
    unfolding boundary_groups_of_def by fastforce
qed

lemma pick_boundary_mem:
  assumes "pick_boundary placed (b, rows) = Inr r"
  shows "r \<in> set rows"
proof (cases "\<exists>x. rows = [x]")
  case True
  with assms show ?thesis by (auto simp: pick_boundary_def)
next
  case False
  with assms obtain anchors where
    "(case map snd (filter (\<lambda>(x, r). x = max_of 0 anchors) (zip anchors rows)) of
        [r] \<Rightarrow> Inr r | _ \<Rightarrow> Inl (backward_error ''SCHEDULE_INACTIVE_BOUNDARY_LATE_TIE'' (Some b))) = Inr r"
    by (cases rows rule: remdups_adj.cases) (auto simp: pick_boundary_def rbind_Inr_iff Let_def)
  then have "map snd (filter (\<lambda>(x, r). x = max_of 0 anchors) (zip anchors rows)) = [r]"
    by (auto split: list.splits)
  then have "r \<in> set (map snd (filter (\<lambda>(x, r). x = max_of 0 anchors) (zip anchors rows)))" by simp
  then show ?thesis by (auto dest: set_zip_rightD)
qed

lemma selected_mem:
  assumes "selected_edges released placed rs = Inr sel" and "r \<in> set sel"
  shows "r \<in> set rs"
proof -
  from assms(1) obtain picked where p: "rmap (pick_boundary placed) (boundary_groups_of released rs) = Inr picked"
    "sel = filter (\<lambda>r. pr_uid r \<notin> released \<and> pr_inactive_boundary_uid r = None) rs @ picked"
    by (auto simp: selected_edges_def rbind_Inr_iff)
  with assms(2) consider "r \<in> set rs" | "r \<in> set picked" by auto
  then show ?thesis
  proof cases
    case 2
    with rmap_mem [OF p(1)] obtain b rows where
      "(b, rows) \<in> set (boundary_groups_of released rs)" "pick_boundary placed (b, rows) = Inr r" by (metis surj_pair)
    then show ?thesis by (blast dest: pick_boundary_mem boundary_groups_mem)
  qed
qed

lemma pick_boundary_cong:
  "(\<And>r. r \<in> set rows \<Longrightarrow> m (pr_successor_uid r) = m' (pr_successor_uid r)) \<Longrightarrow>
     pick_boundary m (b, rows) = pick_boundary m' (b, rows)"
  unfolding pick_boundary_def prod.case
  by (intro list.case_cong refl arg_cong2 [where f = rbind] rmap_cong) (auto simp: candidate_anchor_def)

lemma late_bounds_cong:
  assumes "\<And>r. r \<in> set rs \<Longrightarrow> m (pr_successor_uid r) = m' (pr_successor_uid r)"
  shows "late_bounds n early released late rs m = late_bounds n early released late rs m'"
proof -
  have "pick_boundary m g = pick_boundary m' g" if "g \<in> set (boundary_groups_of released rs)" for g
  proof -
    obtain b rows where g: "g = (b, rows)" by fastforce
    show ?thesis
      unfolding g using that [unfolded g] assms boundary_groups_mem by (intro pick_boundary_cong) blast
  qed
  then have sel: "selected_edges released m rs = selected_edges released m' rs"
    unfolding selected_edges_def by (intro arg_cong2 [where f = rbind] rmap_cong refl)
  show ?thesis
  proof (cases "selected_edges released m rs")
    case (Inr s)
    have "late_bound_step n early m r b = late_bound_step n early m' r b" if "r \<in> set s" for r b
      using assms [OF selected_mem [OF Inr that]] by (simp add: late_bound_step_def)
    then have "rfold (late_bound_step n early m) s x = rfold (late_bound_step n early m') s x" for x
      by (intro rfold_cong refl)
    moreover have "selected_edges released m' rs = Inr s" using sel Inr by simp
    ultimately show ?thesis by (simp add: late_bounds_def Inr)
  qed (simp add: late_bounds_def sel [symmetric])
qed

interpretation bwd: Dependency_Fold "succ_uids n" "backward_row n snap early released late (outgoing_of n)"
    "backward_step n snap early released late (outgoing_of n)" ls_placed
  for n snap early released late
proof
  show "backward_row n snap early released late (outgoing_of n) k m = backward_row n snap early released late (outgoing_of n) k m'"
    if same: "\<And>d. d \<in> succ_uids n k \<Longrightarrow> m d = m' d" for k m m'
  proof -
    have "late_bounds n early released late (outgoing_edges n k) m = late_bounds n early released late (outgoing_edges n k) m'"
      using same by (intro late_bounds_cong) (auto simp: succ_uids_def)
    then show ?thesis by (auto simp: backward_row_def outgoing_of_def split: option.splits)
  qed
  show "\<exists>v. backward_row n snap early released late (outgoing_of n) k (ls_placed s) = Inr v \<and> ls_placed s' = (ls_placed s)(k \<mapsto> v)"
    if "backward_step n snap early released late (outgoing_of n) k s = Inr s'" for k s s'
    using that by (auto simp: backward_step_def rbind_Inr_iff)
  show "\<exists>s'. backward_step n snap early released late (outgoing_of n) k s = Inr s'"
    if "backward_row n snap early released late (outgoing_of n) k (ls_placed s) = Inr v" for k s v
    using that by (auto simp: backward_step_def rbind_Inr_iff)
qed

text \<open>Reversing an order that respects precedence puts every successor first.\<close>

lemma precedence_deps_rev:
  assumes "precedence_order n order" and "distinct order" and "known_edges n" and "set order = set (activity_uids n)"
  shows "deps_before (succ_uids n) (rev order)"
  unfolding deps_before_def
proof (intro allI impI subsetI)
  fix pre u post q
  assume split: "rev order = pre @ u # post" and q: "q \<in> succ_uids n u"
  from q obtain r where r: "r \<in> set (relationships n)" "pr_predecessor_uid r = u" "pr_successor_uid r = q"
    by (auto simp: succ_uids_def outgoing_edges_def)
  have order: "order = rev post @ u # rev pre" using split by (simp add: rev_swap)
  have "q \<in> set order" using r assms(3,4) by (auto simp: known_edges_def)
  then obtain a b where ab: "order = a @ q # b" by (meson split_list)
  then have "u \<in> set a" using assms(1) r unfolding precedence_order_def by blast
  have "q \<noteq> u"
    using ab \<open>u \<in> set a\<close> assms(2) by auto
  moreover have "q \<notin> set (rev post)"
  proof
    assume "q \<in> set (rev post)"
    then obtain c d where cd: "rev post = c @ q # d" by (meson split_list)
    then have "order = c @ q # (d @ u # rev pre)" using order by simp
    then have "u \<in> set c" using assms(1) r unfolding precedence_order_def by blast
    then show False using order cd assms(2) by auto
  qed
  ultimately show "q \<in> set pre" using \<open>q \<in> set order\<close> unfolding order by simp
qed

subsection \<open>Late bounds\<close>

text \<open>Where an edge carries its successor's row back to.\<close>

definition late_reach ::
    "network \<Rightarrow> (uuid \<Rightarrow> activity_times option) \<Rightarrow> (uuid \<Rightarrow> activity_late_times option)
     \<Rightarrow> planned_relationship \<Rightarrow> int option" where
  "late_reach n early m r =
     (case (m (pr_successor_uid r), activity_by_uid n (pr_successor_uid r)) of
        (Some s, Some q) \<Rightarrow>
          (case late_anchor early (lag_calendar_for r (pa_calendar q)) r s of
             Inr anchor \<Rightarrow>
               (case unshift_lag (lag_calendar_for r (pa_calendar q)) anchor (pr_lag r) (Some (horizon n)) of
                  Inr x \<Rightarrow> x | Inl _ \<Rightarrow> None)
           | Inl _ \<Rightarrow> None)
      | _ \<Rightarrow> None)"

definition lowered :: "planned_relationship \<Rightarrow> int \<Rightarrow> late_bound_state \<Rightarrow> late_bound_state" where
  "lowered r x b =
     (if anchors_predecessor_finish r
      then (if late_takes_over x (lb_finish b) (lb_finish_driver b)
            then b\<lparr>lb_finish := x, lb_finish_driver := Some (pr_uid r)\<rparr> else b)
      else (if late_takes_over x (lb_start b) (lb_start_driver b)
            then b\<lparr>lb_start := x, lb_start_driver := Some (pr_uid r)\<rparr> else b))"

lemma late_bound_step_iff:
  "late_bound_step n early m r b = Inr b' \<longleftrightarrow> (\<exists>x. late_reach n early m r = Some x \<and> b' = lowered r x b)"
proof (cases "m (pr_successor_uid r)"; cases "activity_by_uid n (pr_successor_uid r)")
  fix s q assume sq: "m (pr_successor_uid r) = Some s" "activity_by_uid n (pr_successor_uid r) = Some q"
  let ?c = "lag_calendar_for r (pa_calendar q)"
  show ?thesis
  proof (cases "late_anchor early ?c r s")
    case (Inr anchor)
    have flip: "Inr t = Inr b' \<longleftrightarrow> b' = t" for t :: late_bound_state by blast
    show ?thesis
    proof (cases "unshift_lag ?c anchor (pr_lag r) (Some (horizon n))")
      case u: (Inr out)
      then show ?thesis using sq Inr flip
        by (cases out) (simp_all add: late_bound_step_def late_reach_def Let_def lowered_def)
    qed (use sq Inr in \<open>simp add: late_bound_step_def late_reach_def Let_def\<close>)
  qed (use sq in \<open>simp add: late_bound_step_def late_reach_def Let_def\<close>)
qed (simp_all add: late_bound_step_def late_reach_def)

definition late_side :: "int \<Rightarrow> (planned_relationship \<Rightarrow> int option) \<Rightarrow> planned_relationship list \<Rightarrow> int \<Rightarrow> bool" where
  "late_side late reach rs b \<longleftrightarrow> b \<le> late \<and> (\<forall>r \<in> set rs. \<exists>x. reach r = Some x \<and> b \<le> x)
     \<and> (b = late \<or> (\<exists>r \<in> set rs. reach r = Some b))"

definition late_inv :: "int \<Rightarrow> (planned_relationship \<Rightarrow> int option) \<Rightarrow> planned_relationship list \<Rightarrow> late_bound_state \<Rightarrow> bool" where
  "late_inv late reach rs b \<longleftrightarrow>
     late_side late reach (filter (\<lambda>r. \<not> anchors_predecessor_finish r) rs) (lb_start b)
   \<and> late_side late reach (filter anchors_predecessor_finish rs) (lb_finish b)"

lemma late_side_step:
  "reach r = Some x \<Longrightarrow> late_side late reach rs b \<Longrightarrow> late_takes_over x b drv \<Longrightarrow> late_side late reach (rs @ [r]) x"
  "reach r = Some x \<Longrightarrow> late_side late reach rs b \<Longrightarrow> \<not> late_takes_over x b drv \<Longrightarrow> late_side late reach (rs @ [r]) b"
  unfolding late_side_def late_takes_over_def by fastforce+

lemma late_fold:
  assumes "rfold (late_bound_step n early m) rs
      \<lparr> lb_start = late, lb_finish = late, lb_start_driver = None, lb_finish_driver = None \<rparr> = Inr b"
  shows "late_inv late (late_reach n early m) rs b"
  using assms
proof (rule rfold_invariant)
  fix pre r post u u'
  assume inv: "late_inv late (late_reach n early m) pre u" and "late_bound_step n early m r u = Inr u'"
  then obtain x where x: "late_reach n early m r = Some x" and u': "u' = lowered r x u"
    unfolding late_bound_step_iff by blast
  note steps = late_side_step [of "late_reach n early m" r x late, OF x]
  show "late_inv late (late_reach n early m) (pre @ [r]) u'"
  proof (cases "anchors_predecessor_finish r")
    case True
    with inv steps [of _ "lb_finish u" "lb_finish_driver u"] show ?thesis
      by (cases "late_takes_over x (lb_finish u) (lb_finish_driver u)") (auto simp: late_inv_def u' lowered_def)
  next
    case False
    with inv steps [of _ "lb_start u" "lb_start_driver u"] show ?thesis
      by (cases "late_takes_over x (lb_start u) (lb_start_driver u)") (auto simp: late_inv_def u' lowered_def)
  qed
qed (simp add: late_inv_def late_side_def)

definition no_boundaries :: "network \<Rightarrow> bool" where
  "no_boundaries n \<longleftrightarrow> (\<forall>r \<in> set (relationships n). pr_inactive_boundary_uid r = None)"

lemma selected_plain:
  assumes "no_boundaries n" and "set rs \<subseteq> set (relationships n)"
  shows "selected_edges released m rs = Inr (filter (\<lambda>r. pr_uid r \<notin> released) rs)"
proof -
  have none: "pr_inactive_boundary_uid r = None" if "r \<in> set rs" for r using that assms by (auto simp: no_boundaries_def)
  have skip: "\<forall>r \<in> set ys. pr_inactive_boundary_uid r = None \<Longrightarrow>
      fold (\<lambda>r g. case pr_inactive_boundary_uid r of None \<Rightarrow> g | Some b \<Rightarrow> setdefault_append b r g) ys g = g" for ys g
    by (induction ys) auto
  have "boundary_groups_of released rs = []"
    unfolding boundary_groups_of_def using none by (intro skip) simp
  moreover have "filter (\<lambda>r. pr_uid r \<notin> released \<and> pr_inactive_boundary_uid r = None) rs = filter (\<lambda>r. pr_uid r \<notin> released) rs"
    using none by (intro filter_cong) auto
  ultimately show ?thesis by (simp add: selected_edges_def)
qed

lemma late_bounds_Inr:
  assumes "no_boundaries n" and "set rs \<subseteq> set (relationships n)"
    and "late_bounds n early released late rs m = Inr b"
  shows "late_inv late (late_reach n early m) (filter (\<lambda>r. pr_uid r \<notin> released) rs) b"
  using assms(3) late_fold [of n early m _ late b] by (simp add: late_bounds_def selected_plain [OF assms(1,2)])

lemma late_bounds_total:
  assumes "no_boundaries n" and "set rs \<subseteq> set (relationships n)"
    and "\<And>r. r \<in> set rs \<Longrightarrow> late_reach n early m r \<noteq> None"
  shows "\<exists>b. late_bounds n early released late rs m = Inr b"
proof -
  have "\<exists>b. rfold (late_bound_step n early m) (filter (\<lambda>r. pr_uid r \<notin> released) rs) b0 = Inr b" for b0
    using assms(3) by (intro rfold_no_error) (auto simp: late_bound_step_iff)
  then show ?thesis by (auto simp: late_bounds_def selected_plain [OF assms(1,2)])
qed

subsection \<open>Late placement\<close>

definition late_span_of :: "planned_activity \<Rightarrow> int \<Rightarrow> bool \<Rightarrow> int \<Rightarrow> int \<Rightarrow> bool" where
  "late_span_of a d snap s f \<longleftrightarrow>
     (if d = 0 then f = s \<and> (snap \<longrightarrow> contains_coordinate s (intervals (pa_calendar a)))
      else is_span (pa_calendar a) d s f)"

definition late_fits :: "planned_activity \<Rightarrow> int \<Rightarrow> bool \<Rightarrow> int \<Rightarrow> int \<Rightarrow> int \<Rightarrow> int \<Rightarrow> bool" where
  "late_fits a d snap sb fb s f \<longleftrightarrow> late_span_of a d snap s f \<and> s \<le> sb \<and> f \<le> fb \<and> calendar_floor a \<le> s"

lemma activity_late_span: "activity_span a d snap s f \<Longrightarrow> late_span_of a d snap s f"
  by (auto simp: activity_span_def late_span_of_def)

lemma late_fits_zero:
  "late_fits a 0 snap sb fb s f \<longleftrightarrow> f = s \<and> s \<le> min sb fb \<and> calendar_floor a \<le> s
     \<and> (snap \<longrightarrow> contains_coordinate s (intervals (pa_calendar a)))"
  by (auto simp: late_fits_def late_span_of_def)

lemma late_milestone_spec:
  assumes wf: "wf_calendar (pa_calendar a)"
  shows "late_place_milestone a sb fb snap = Inr (s, f) \<Longrightarrow>
      late_fits a 0 snap sb fb s f \<and> (\<forall>s' f'. late_fits a 0 snap sb fb s' f' \<longrightarrow> s' \<le> s \<and> f' \<le> f)"
    and "late_place_milestone a sb fb snap = Inl e \<Longrightarrow> late_fits a 0 snap sb fb s f \<Longrightarrow> False"
proof -
  let ?m = "min sb fb"
  show "late_fits a 0 snap sb fb s f \<and> (\<forall>s' f'. late_fits a 0 snap sb fb s' f' \<longrightarrow> s' \<le> s \<and> f' \<le> f)"
    if ok: "late_place_milestone a sb fb snap = Inr (s, f)"
  proof (cases snap)
    case True
    then obtain m where m: "prev_working_start (pa_calendar a) ?m = Some m" "s = m" "f = m" "calendar_floor a \<le> m"
      using ok by (auto simp: late_place_milestone_def Let_def raise_if_Inr_iff split: option.splits)
    with cal.prvs_Some [OF wf m(1)] prev_working_start_greatest [OF wf m(1)] True show ?thesis
      unfolding late_fits_zero by blast
  next
    case False
    then show ?thesis
      using ok unfolding late_fits_zero by (auto simp: late_place_milestone_def Let_def raise_if_Inr_iff)
  qed
  show False if err: "late_place_milestone a sb fb snap = Inl e" and fit: "late_fits a 0 snap sb fb s f"
  proof (cases snap)
    case True
    with fit have s: "s \<le> ?m" "contains_coordinate s (intervals (pa_calendar a))" "calendar_floor a \<le> s"
      unfolding late_fits_zero by auto
    show False
    proof (cases "prev_working_start (pa_calendar a) ?m")
      case None
      with prev_working_start_none [OF wf None s(1)] s show False by simp
    next
      case (Some m)
      with prev_working_start_greatest [OF wf Some s(1,2)] s err True show False
        by (simp add: late_place_milestone_def Let_def raise_if_def split: if_splits)
    qed
  next
    case False
    with fit err show False
      unfolding late_fits_zero by (auto simp: late_place_milestone_def Let_def raise_if_def split: if_splits)
  qed
qed

lemma late_place_plain:
  assumes wf: "wf_calendar (pa_calendar a)" and d: "0 \<le> d" and plain: "pa_assignment_envelope a = None"
  shows "late_place a d sb fb snap None c = Inr (s, f) \<Longrightarrow>
      late_fits a d snap sb fb s f \<and> (\<forall>s' f'. late_fits a d snap sb fb s' f' \<longrightarrow> s' \<le> s \<and> f' \<le> f)"
    and "late_place a d sb fb snap None c = Inl e \<Longrightarrow> late_fits a d snap sb fb s f \<Longrightarrow> False"
proof -
  have pos: "latest_feasible (pa_calendar a) sb fb d (calendar_floor a) s f \<longleftrightarrow> late_fits a d snap sb fb s f"
    if "d \<noteq> 0" for s f
    using that by (auto simp: latest_feasible_def late_fits_def late_span_of_def)
  have latest: "(latest_span (pa_calendar a) sb fb d (calendar_floor a) = Inr None \<and> (\<forall>s f. \<not> late_fits a d snap sb fb s f))
      \<or> (\<exists>s f. latest_span (pa_calendar a) sb fb d (calendar_floor a) = Inr (Some (s, f)) \<and> late_fits a d snap sb fb s f
          \<and> (\<forall>s' f'. late_fits a d snap sb fb s' f' \<longrightarrow> s' \<le> s \<and> f' \<le> f))" if "d \<noteq> 0"
    using latest_span_pos [OF wf, of d sb fb "calendar_floor a"] that d
    unfolding latest_answer_def pos [OF that] by simp
  show "late_fits a d snap sb fb s f \<and> (\<forall>s' f'. late_fits a d snap sb fb s' f' \<longrightarrow> s' \<le> s \<and> f' \<le> f)"
    if "late_place a d sb fb snap None c = Inr (s, f)"
    using that plain late_milestone_spec(1) [OF wf, of sb fb snap s f] latest
    by (cases "d = 0") (auto simp: late_place_def)
  show False if "late_place a d sb fb snap None c = Inl e" "late_fits a d snap sb fb s f"
    using that plain late_milestone_spec(2) [OF wf, of sb fb snap e s f] latest
    by (cases "d = 0") (auto simp: late_place_def)
qed

lemma late_driver_total:
  assumes "wf_calendar (pa_calendar a)" and "0 \<le> d"
  shows "\<exists>drv. late_driver a d sb fb sd fd late = Inr drv"
proof -
  obtain r where "latest_span (pa_calendar a) late fb d (calendar_floor a) = Inr r"
    using latest_span_pos [OF assms(1), of d late fb "calendar_floor a"]
      latest_span_zero [OF assms(1), of late fb "calendar_floor a"] assms(2)
    unfolding latest_answer_def by (cases "d = 0") auto
  then show ?thesis by (cases sd; cases fd) (simp_all add: late_driver_def)
qed

lemma late_constrain_lowers:
  "lc_start (late_constrain a b) \<le> lb_start b" "lc_finish (late_constrain a b) \<le> lb_finish b"
  "pa_constraint_type a \<notin> {MSO, MFO} \<Longrightarrow> lc_pinned (late_constrain a b) = None"
  by (auto simp: late_constrain_def Let_def split: constraint_type.splits option.splits)

lemma late_constrain_greatest:
  "y \<le> lb_start b \<Longrightarrow> (\<And>x. pa_constraint_type a = SNLT \<Longrightarrow> pa_constraint_coordinate a = Some x \<Longrightarrow> y \<le> x) \<Longrightarrow>
     y \<le> lc_start (late_constrain a b)"
  "z \<le> lb_finish b \<Longrightarrow> (\<And>x. pa_constraint_type a = FNLT \<Longrightarrow> pa_constraint_coordinate a = Some x \<Longrightarrow> z \<le> x) \<Longrightarrow>
     z \<le> lc_finish (late_constrain a b)"
  by (auto simp: late_constrain_def Let_def split: constraint_type.splits option.splits)

lemma late_constrain_bounds:
  assumes "state_of a = NOT_STARTED" and "pa_constraint_coordinate a = Some x"
  shows "pa_constraint_type a = SNLT \<Longrightarrow> lc_start (late_constrain a b) \<le> x"
    and "pa_constraint_type a = FNLT \<Longrightarrow> lc_finish (late_constrain a b) \<le> x"
  using assms by (auto simp: late_constrain_def Let_def)

lemma placed_late_shape:
  assumes "placed_late_row snap late a b = Inr t" and "state_of a = NOT_STARTED"
  shows "late_place a (remaining a) (lc_start (late_constrain a b)) (lc_finish (late_constrain a b)) snap
      (lc_pinned (late_constrain a b)) (pa_constraint_coordinate a) = Inr (late_start t, late_finish t)"
    and "lt_uid t = pa_uid a" and "lt_remaining_start t = None"
  using assms unfolding placed_late_row_def Let_def rbind_Inr_iff by (fastforce simp: rbind_Inr_iff)+

subsection \<open>The answer of the pass\<close>

lemma successors_outgoing: "network_ok n \<Longrightarrow> successors n = Inr (outgoing_of n)"
  using successors_known [OF network_ok_known] by (auto simp: outgoing_of_def outgoing_edges_def fun_eq_iff)

abbreviation late_init :: backward_state where
  "late_init \<equiv> \<lparr> ls_placed = Map.empty, ls_deferred = [] \<rparr>"

lemma backward_pass_run:
  assumes "backward_pass sha n fp snap_arg late_arg policy_arg = Inr bp"
  obtains s over where "network_ok n" and "fp_network_fingerprint fp = network_fingerprint sha n"
    and "bp_project_late_finish bp = (case late_arg of None \<Rightarrow> fp_project_finish fp | Some x \<Rightarrow> x)"
    and "bp_project_late_finish bp \<le> horizon n"
    and "overridden_edges n (fp_progress_policy fp) = Inr over" and "overridden_relationships bp = over"
    and "rfold (backward_step n (fp_snap_milestones fp) (by_uid fp) (set over) (bp_project_late_finish bp) (outgoing_of n))
      (rev (fp_order fp)) late_init = Inr s"
    and "list_all2 (\<lambda>u t. ls_placed s u = Some t) (fp_order fp) (bp_times bp)"
    and "bp_network_fingerprint bp = network_fingerprint sha n"
    and "bp_progress_policy bp = fp_progress_policy fp" and "bp_snap_milestones bp = fp_snap_milestones fp"
proof -
  from assms have ok: "network_ok n" by (auto simp: backward_pass_def rbind_Inr_iff validate_iff)
  note out = successors_outgoing [OF ok]
  let ?late = "case late_arg of None \<Rightarrow> fp_project_finish fp | Some x \<Rightarrow> x"
  from assms obtain over s rows where
    c: "check_forward sha n fp snap_arg policy_arg = Inr (fp_progress_policy fp, fp_snap_milestones fp)"
      "fp_network_fingerprint fp = network_fingerprint sha n"
    and late: "?late \<le> horizon n" and over: "overridden_edges n (fp_progress_policy fp) = Inr over"
    and s: "rfold (backward_step n (fp_snap_milestones fp) (by_uid fp) (set over) ?late (outgoing_of n)) (rev (fp_order fp)) late_init = Inr s"
    and rows: "rmap (\<lambda>u. case ls_placed s u of None \<Rightarrow> Inl KeyError | Some t \<Rightarrow> Inr t) (fp_order fp) = Inr rows"
    and bp: "bp_times bp = rows" "bp_project_late_finish bp = ?late" "overridden_relationships bp = over"
      "bp_network_fingerprint bp = network_fingerprint sha n"
      "bp_progress_policy bp = fp_progress_policy fp" "bp_snap_milestones bp = fp_snap_milestones fp"
    by (auto simp: backward_pass_def check_forward_def rbind_Inr_iff raise_if_Inr_iff out Let_def)
  have "list_all2 (\<lambda>u t. ls_placed s u = Some t) (fp_order fp) rows"
    using rows unfolding rmap_Inr_iff by (rule list_all2_mono) (auto split: option.splits)
  with ok c late over s bp show thesis by (intro that [of over s]) simp_all
qed

lemma backward_row_uid:
  assumes "backward_row n snap early released late outgoing u m = Inr t"
  shows "lt_uid t = u"
proof -
  from assms obtain a where a: "activity_by_uid n u = Some a" by (auto simp: backward_row_def split: option.splits)
  then have uid: "pa_uid a = u" by (blast dest: activity_by_uid_mem)
  show ?thesis
  proof (cases "state_of a = COMPLETE")
    case True
    with assms a uid show ?thesis by (auto simp: backward_row_def complete_late_row_def split: option.splits)
  next
    case False
    with assms a obtain b where "placed_late_row snap late a b = Inr t"
      by (auto simp: backward_row_def rbind_Inr_iff split: option.splits)
    then show ?thesis using uid
      unfolding placed_late_row_def Let_def rbind_Inr_iff
      by (auto simp: rbind_Inr_iff split: if_splits option.splits)
  qed
qed

lemma backward_pass_rows:
  assumes fwd: "forward_pass sha n snap policy = Inr fp"
    and bwd: "backward_pass sha n fp snap_arg late_arg policy_arg = Inr bp"
  shows "dom (late_by_uid bp) = set (activity_uids n)"
    and "u \<in> set (activity_uids n) \<Longrightarrow> \<exists>t. late_by_uid bp u = Some t \<and> t \<in> set (bp_times bp)
      \<and> backward_row n snap (by_uid fp) (set (overridden_relationships bp)) (bp_project_late_finish bp) (outgoing_of n) u (late_by_uid bp) = Inr t"
    and "map lt_uid (bp_times bp) = fp_order fp"
proof -
  note rows = forward_pass_rows [OF fwd]
  have snap: "fp_snap_milestones fp = snap" using fwd by (rule forward_pass_run)
  from bwd obtain s over where ok: "network_ok n" and over: "overridden_relationships bp = over"
    and s: "rfold (backward_step n snap (by_uid fp) (set over) (bp_project_late_finish bp) (outgoing_of n))
      (rev (fp_order fp)) late_init = Inr s"
    and placed: "list_all2 (\<lambda>u t. ls_placed s u = Some t) (fp_order fp) (bp_times bp)"
    unfolding snap [symmetric] by (rule backward_pass_run)
  have init: "ls_placed late_init = Map.empty" by simp
  have d: "distinct (rev (fp_order fp))" using rows(1) by simp
  note solved = bwd.fold_solves [OF s init d precedence_deps_rev [OF rows(3,1) network_ok_known [OF ok] rows(2)]]
  have uid: "lt_uid t = u" if "ls_placed s u = Some t" for u t
  proof -
    have "u \<in> set (rev (fp_order fp))" using that solved(1) by (metis domI)
    from solved(2) [OF this] that show ?thesis by (auto dest: backward_row_uid)
  qed
  have times: "bp_times bp = map (\<lambda>u. the (ls_placed s u)) (fp_order fp)"
    using placed by (induction rule: list_all2_induct) auto
  have the_row: "ls_placed s k = Some (the (ls_placed s k))" "lt_uid (the (ls_placed s k)) = k" if "k \<in> set (fp_order fp)" for k
    using solved(2) [of k] that uid [of k] by auto
  have rowmap: "late_by_uid bp = ls_placed s"
    unfolding late_by_uid_def times
    using solved(1) the_row by (intro map_of_rev_rows [OF rows(1)]) auto
  show "dom (late_by_uid bp) = set (activity_uids n)" using solved(1) rows(2) by (simp add: rowmap)
  show "map lt_uid (bp_times bp) = fp_order fp" unfolding times using the_row(2) by (simp add: map_idI)
  show "\<exists>t. late_by_uid bp u = Some t \<and> t \<in> set (bp_times bp)
      \<and> backward_row n snap (by_uid fp) (set (overridden_relationships bp)) (bp_project_late_finish bp) (outgoing_of n) u (late_by_uid bp) = Inr t"
    if "u \<in> set (activity_uids n)"
  proof -
    from that rows(2) have u: "u \<in> set (rev (fp_order fp))" by simp
    from solved(2) [OF u] obtain t where t: "ls_placed s u = Some t"
      "backward_row n snap (by_uid fp) (set over) (bp_project_late_finish bp) (outgoing_of n) u (ls_placed s) = Inr t" by blast
    have "t \<in> set (bp_times bp)" unfolding times using u t(1) by force
    with t show ?thesis unfolding rowmap over by blast
  qed
qed

end
