(* ===== verification/Backward_Optimal.thy ===== *)
theory Backward_Optimal
  imports Backward_Facts
begin

section \<open>The late dates are the greatest schedule that meets the project finish\<close>

text \<open>
  The abstract specification of the backward pass, on networks without reported work, envelopes,
  pinned constraints or inactive boundaries: among the schedules that occupy spans of the
  activities' calendars, honour every edge and every not-later-than constraint and finish by the
  project's late finish, the late dates are the greatest. The early schedule is one of them, so
  after a forward pass the backward pass succeeds and no activity's late dates precede its early
  ones.
\<close>

definition late_admissible :: "network \<Rightarrow> bool \<Rightarrow> int \<Rightarrow> (uuid \<Rightarrow> int \<times> int) \<Rightarrow> bool" where
  "late_admissible n snap late sched \<longleftrightarrow> (\<forall>a \<in> set (activities n).
     late_span_of a (remaining a) snap (fst (sched (pa_uid a))) (snd (sched (pa_uid a)))
   \<and> calendar_floor a \<le> fst (sched (pa_uid a))
   \<and> fst (sched (pa_uid a)) \<le> late \<and> snd (sched (pa_uid a)) \<le> late
   \<and> (\<forall>x. pa_constraint_coordinate a = Some x \<longrightarrow>
        (pa_constraint_type a = SNLT \<longrightarrow> fst (sched (pa_uid a)) \<le> x)
      \<and> (pa_constraint_type a = FNLT \<longrightarrow> snd (sched (pa_uid a)) \<le> x))
   \<and> (\<forall>r \<in> set (incoming_edges n (pa_uid a)). edge_met sched a r))"

definition late_covers :: "(uuid \<Rightarrow> int \<times> int) \<Rightarrow> uuid \<Rightarrow> activity_late_times \<Rightarrow> bool" where
  "late_covers sched u t \<longleftrightarrow> fst (sched u) \<le> late_start t \<and> snd (sched u) \<le> late_finish t
     \<and> lt_remaining_start t = None"

lemma late_reach_plain:
  assumes "m (pr_successor_uid r) = Some s" and "lt_remaining_start s = None"
    and "activity_by_uid n (pr_successor_uid r) = Some q" and "wf_calendar (lag_calendar_for r (pa_calendar q))"
  shows "late_reach n early m r = unshifted (lag_calendar_for r (pa_calendar q))
    (if bounds_successor_start r then late_start s else late_finish s) (pr_lag r) (horizon n)"
  using assms by (cases "bounds_successor_start r") (simp_all add: late_reach_def late_anchor_def unshift_lag_eq)

lemma late_reach_ge:
  assumes m: "m (pr_successor_uid r) = Some s" "late_covers sched (pr_successor_uid r) s"
    and q: "activity_by_uid n (pr_successor_uid r) = Some q" and wf: "wf_calendar (lag_calendar_for r (pa_calendar q))"
    and met: "edge_met sched q r" and uid: "pa_uid q = pr_successor_uid r"
    and hz: "fst (sched (pr_predecessor_uid r)) \<le> horizon n" "snd (sched (pr_predecessor_uid r)) \<le> horizon n"
  shows "\<exists>x. late_reach n early m r = Some x
    \<and> (if anchors_predecessor_finish r then snd (sched (pr_predecessor_uid r)) else fst (sched (pr_predecessor_uid r))) \<le> x"
proof -
  let ?c = "lag_calendar_for r (pa_calendar q)" and ?p = "pr_predecessor_uid r"
  let ?tip = "if anchors_predecessor_finish r then snd (sched ?p) else fst (sched ?p)"
  from met obtain y where y: "shifted ?c ?tip (pr_lag r) = Some y"
    and le: "y \<le> (if bounds_successor_start r then fst (sched (pa_uid q)) else snd (sched (pa_uid q)))"
    by (auto simp: edge_met_def shift_lag_eq [OF wf] split: option.splits)
  have "y \<le> (if bounds_successor_start r then late_start s else late_finish s)"
    using le m(2) uid by (auto simp: late_covers_def split: if_splits)
  from edge.early_le_late [OF wf y this, of "horizon n"] hz show ?thesis
    using late_reach_plain [of m r s n q early] m q wf by (auto simp: late_covers_def)
qed

text \<open>The row of an untouched activity.\<close>

lemma untouched_late_row:
  assumes ok: "network_ok n" and a: "a \<in> set (activities n)" and fresh: "state_of a = NOT_STARTED"
  shows "backward_row n snap early released late (outgoing_of n) (pa_uid a) m
    = rbind (late_bounds n early released late (outgoing_edges n (pa_uid a)) m) (placed_late_row snap late a)"
proof -
  have "activity_by_uid n (pa_uid a) = Some a" using a activity_by_uid_iff [OF network_ok_distinct [OF ok]] by blast
  then show ?thesis using fresh activity_uid_mem [OF a] by (simp add: backward_row_def outgoing_of_def)
qed

lemma placed_late_total:
  assumes "wf_calendar (pa_calendar a)" and "0 \<le> remaining a" and "pa_assignment_envelope a = None"
    and "state_of a = NOT_STARTED" and "pa_constraint_type a \<notin> {MSO, MFO}"
    and "late_fits a (remaining a) snap (lc_start (late_constrain a b)) (lc_finish (late_constrain a b)) s f"
  shows "\<exists>t. placed_late_row snap late a b = Inr t"
proof -
  let ?c = "late_constrain a b"
  have pin: "lc_pinned ?c = None" using late_constrain_lowers(3) [OF assms(5)] .
  obtain s' f' where p: "late_place a (remaining a) (lc_start ?c) (lc_finish ?c) snap None (pa_constraint_coordinate a) = Inr (s', f')"
  proof (cases "late_place a (remaining a) (lc_start ?c) (lc_finish ?c) snap None (pa_constraint_coordinate a)")
    case (Inl e)
    from late_place_plain(2) [OF assms(1-3) Inl assms(6)] show ?thesis ..
  next
    case (Inr sf)
    then show ?thesis using that by (cases sf) simp
  qed
  obtain drv where "late_driver a (remaining a) (lc_start ?c) (lc_finish ?c) (lc_start_driver ?c) (lc_finish_driver ?c) late = Inr drv"
    using late_driver_total [OF assms(1,2)] by blast
  with p pin assms(4) show ?thesis by (simp add: placed_late_row_def Let_def)
qed

lemma late_row_covers:
  assumes ok: "network_ok n" and wf: "wf_network n" and plain: "untouched_network n" and nob: "no_boundaries n"
    and adm: "late_admissible n snap late sched" and lh: "late \<le> horizon n" and a: "a \<in> set (activities n)"
    and succs: "\<And>d. d \<in> succ_uids n (pa_uid a) \<Longrightarrow> \<exists>w. m d = Some w \<and> late_covers sched d w"
  shows "\<exists>t. backward_row n snap early {} late (outgoing_of n) (pa_uid a) m = Inr t \<and> late_covers sched (pa_uid a) t"
proof -
  let ?s = "fst (sched (pa_uid a))" and ?f = "snd (sched (pa_uid a))" and ?out = "outgoing_edges n (pa_uid a)"
  have fresh: "state_of a = NOT_STARTED" and env: "pa_assignment_envelope a = None"
    and free: "pa_constraint_type a \<notin> {MSO, MFO}"
    using plain a by (auto simp: untouched_network_def)
  note wfc = wf_networkD(1) [OF wf a] and nonneg = remaining_nonneg [OF network_okD [OF ok a]]
  have ad: "late_span_of a (remaining a) snap ?s ?f" "calendar_floor a \<le> ?s" "?s \<le> late" "?f \<le> late"
    "\<And>x. pa_constraint_type a = SNLT \<Longrightarrow> pa_constraint_coordinate a = Some x \<Longrightarrow> ?s \<le> x"
    "\<And>x. pa_constraint_type a = FNLT \<Longrightarrow> pa_constraint_coordinate a = Some x \<Longrightarrow> ?f \<le> x"
    using adm a by (auto simp: late_admissible_def)
  have reach: "\<exists>x. late_reach n early m r = Some x \<and> (if anchors_predecessor_finish r then ?f else ?s) \<le> x"
    if r: "r \<in> set ?out" for r
  proof -
    have mem: "r \<in> set (relationships n)" "pr_predecessor_uid r = pa_uid a" using r by (auto simp: outgoing_edges_def)
    have "pr_successor_uid r \<in> set (activity_uids n)" using network_ok_known [OF ok] mem(1) by (simp add: known_edges_def)
    then obtain q where q: "activity_by_uid n (pr_successor_uid r) = Some q" using activity_by_uid_known by blast
    then have qmem: "q \<in> set (activities n)" "pa_uid q = pr_successor_uid r" by (auto dest: activity_by_uid_mem)
    have "pr_successor_uid r \<in> succ_uids n (pa_uid a)" using r by (simp add: succ_uids_def)
    then obtain w where w: "m (pr_successor_uid r) = Some w" "late_covers sched (pr_successor_uid r) w" using succs by blast
    have "edge_met sched q r" using adm qmem mem(1) by (auto simp: late_admissible_def incoming_edges_def)
    note ge = late_reach_ge [where m = m, OF w q wf_networkD(4) [OF wf qmem(1) mem(1)] this qmem(2)]
    have "?s \<le> horizon n" "?f \<le> horizon n" using ad(3,4) lh by linarith+
    with ge show ?thesis unfolding mem(2) by blast
  qed
  have sub: "set ?out \<subseteq> set (relationships n)" by (auto simp: outgoing_edges_def)
  have "late_reach n early m r \<noteq> None" if "r \<in> set ?out" for r using reach [OF that] by blast
  from late_bounds_total [OF nob sub this] obtain b where b: "late_bounds n early {} late ?out m = Inr b" by blast
  have inv: "late_inv late (late_reach n early m) ?out b"
    using late_bounds_Inr [OF nob sub b] by simp
  have "?s \<le> lb_start b"
  proof -
    from inv consider "lb_start b = late" | r where "r \<in> set ?out" "\<not> anchors_predecessor_finish r" "late_reach n early m r = Some (lb_start b)"
      unfolding late_inv_def late_side_def by auto
    then show ?thesis using ad(3) reach by cases fastforce+
  qed
  moreover have "?f \<le> lb_finish b"
  proof -
    from inv consider "lb_finish b = late" | r where "r \<in> set ?out" "anchors_predecessor_finish r" "late_reach n early m r = Some (lb_finish b)"
      unfolding late_inv_def late_side_def by auto
    then show ?thesis using ad(4) reach by cases fastforce+
  qed
  ultimately have "late_fits a (remaining a) snap (lc_start (late_constrain a b)) (lc_finish (late_constrain a b)) ?s ?f"
    using late_constrain_greatest [of _ b a] ad by (simp add: late_fits_def)
  note fit = this
  obtain t where t: "placed_late_row snap late a b = Inr t"
    using placed_late_total [OF wfc nonneg env fresh free fit] by blast
  have pin: "lc_pinned (late_constrain a b) = None" by (rule late_constrain_lowers(3) [OF free])
  note shape = placed_late_shape [OF t fresh]
  from late_place_plain(1) [OF wfc nonneg env shape(1) [unfolded pin]] fit
  have "?s \<le> late_start t" "?f \<le> late_finish t" by blast+
  with shape(3) have "late_covers sched (pa_uid a) t" by (simp add: late_covers_def)
  moreover have "backward_row n snap early {} late (outgoing_of n) (pa_uid a) m = Inr t"
    using untouched_late_row [OF ok a fresh] b t by simp
  ultimately show ?thesis by blast
qed

subsection \<open>The greatest schedule\<close>

lemma overridden_untouched:
  assumes "network_ok n" and "untouched_network n"
  shows "overridden_edges n policy = Inr []"
proof -
  have "rmap (\<lambda>r. case activity_by_uid n (pr_successor_uid r) of
          None \<Rightarrow> Inl KeyError
        | Some q \<Rightarrow> Inr (if relationship_binds policy (state_of q) (status_time n) then [] else [pr_uid r])) rs
      = Inr (map (\<lambda>_. []) rs)" if "set rs \<subseteq> set (relationships n)" for rs
    using that
  proof (induction rs)
    case (Cons r rs)
    have "pr_successor_uid r \<in> set (activity_uids n)"
      using network_ok_known [OF assms(1)] Cons.prems by (auto simp: known_edges_def)
    then obtain q where q: "activity_by_uid n (pr_successor_uid r) = Some q" using activity_by_uid_known by blast
    then have "state_of q = NOT_STARTED"
      using assms(2) activity_by_uid_mem by (auto simp: untouched_network_def)
    with q Cons show ?case by (simp add: not_started_binds)
  qed simp
  from this [of "relationships n"] show ?thesis by (simp add: overridden_edges_def)
qed

lemma backward_covers:
  assumes fwd: "forward_pass sha n snap policy = Inr fp"
    and bwd: "backward_pass sha n fp snap_arg late_arg policy_arg = Inr bp"
    and wf: "wf_network n" and plain: "untouched_network n" and nob: "no_boundaries n"
    and adm: "late_admissible n snap (bp_project_late_finish bp) sched" and l: "late_by_uid bp u = Some l"
  shows "fst (sched u) \<le> late_start l \<and> snd (sched u) \<le> late_finish l"
proof -
  note rows = forward_pass_rows [OF fwd] and lrows = backward_pass_rows [OF fwd bwd]
  obtain over where ok: "network_ok n" and lh: "bp_project_late_finish bp \<le> horizon n"
    and over: "overridden_edges n (fp_progress_policy fp) = Inr over" "overridden_relationships bp = over"
    using bwd by (rule backward_pass_run)
  have none: "set (overridden_relationships bp) = {}"
    using over overridden_untouched [OF ok plain, of "fp_progress_policy fp"] by simp
  have u: "u \<in> set (rev (fp_order fp))" using l lrows(1) rows(2) by (metis domI set_rev)
  have "late_covers sched u l"
  proof (rule bwd.rows_induct [where P = "late_covers sched" and n = n and snap = snap and early = "by_uid fp"
        and released = "{}" and late = "bp_project_late_finish bp"])
    show "deps_before (succ_uids n) (rev (fp_order fp))"
      by (rule precedence_deps_rev [OF rows(3,1) network_ok_known [OF ok] rows(2)])
    show "u \<in> set (rev (fp_order fp))" "late_by_uid bp u = Some l" by (rule u, rule l)
    show "\<exists>v. late_by_uid bp k = Some v \<and> backward_row n snap (by_uid fp) {} (bp_project_late_finish bp) (outgoing_of n) k (late_by_uid bp) = Inr v"
      if "k \<in> set (rev (fp_order fp))" for k
      using lrows(2) [of k] that rows(2) unfolding none by auto
    fix k v
    assume k: "k \<in> set (rev (fp_order fp))"
      and v: "backward_row n snap (by_uid fp) {} (bp_project_late_finish bp) (outgoing_of n) k (late_by_uid bp) = Inr v"
      and IH: "\<And>d. d \<in> succ_uids n k \<Longrightarrow> d \<in> set (rev (fp_order fp)) \<and> (\<exists>w. late_by_uid bp d = Some w \<and> late_covers sched d w)"
    obtain a where a: "a \<in> set (activities n)" "pa_uid a = k" using k rows(2) by (auto simp: activity_uids_def)
    from late_row_covers [OF ok wf plain nob adm lh a(1), of "late_by_uid bp" "by_uid fp"] IH v a(2)
    show "late_covers sched k v" by auto
  qed
  then show ?thesis by (simp add: late_covers_def)
qed

lemma early_admissible:
  assumes fwd: "forward_pass sha n snap policy = Inr fp" and wf: "wf_network n" and plain: "untouched_network n"
    and free: "\<forall>a \<in> set (activities n). pa_constraint_type a \<notin> {SNLT, FNLT}" and late: "fp_project_finish fp \<le> late"
  shows "late_admissible n snap late (early_schedule fp)"
  unfolding late_admissible_def
proof
  fix a assume a: "a \<in> set (activities n)"
  have ok: "network_ok n" and fin: "fp_project_finish fp = max_of (project_start n) (map early_finish (fp_times fp))"
    using fwd by (auto elim: forward_pass_run)
  obtain t where t: "by_uid fp (pa_uid a) = Some t" "t \<in> set (fp_times fp)"
      "forward_times n snap policy (pa_uid a) (by_uid fp) = Inr t"
    using forward_pass_rows(6) [OF fwd activity_uid_mem [OF a]] by blast
  have fresh: "state_of a = NOT_STARTED" "pa_constraint_type a \<notin> {MSO, MFO}"
    using plain a by (auto simp: untouched_network_def)
  have "early_finish t \<le> late"
    using max_of_ge [of "early_finish t" "map early_finish (fp_times fp)" "project_start n"] t(2) fin late by simp
  moreover have "early_start t \<le> early_finish t" by (rule untouched_ge(2) [OF ok wf t(3) a fresh])
  ultimately show "late_span_of a (remaining a) snap (fst (early_schedule fp (pa_uid a))) (snd (early_schedule fp (pa_uid a)))
   \<and> calendar_floor a \<le> fst (early_schedule fp (pa_uid a))
   \<and> fst (early_schedule fp (pa_uid a)) \<le> late \<and> snd (early_schedule fp (pa_uid a)) \<le> late
   \<and> (\<forall>x. pa_constraint_coordinate a = Some x \<longrightarrow>
        (pa_constraint_type a = SNLT \<longrightarrow> fst (early_schedule fp (pa_uid a)) \<le> x)
      \<and> (pa_constraint_type a = FNLT \<longrightarrow> snd (early_schedule fp (pa_uid a)) \<le> x))
   \<and> (\<forall>r \<in> set (incoming_edges n (pa_uid a)). edge_met (early_schedule fp) a r)"
    using early_schedule_feasible [OF fwd wf plain] a free t(1) activity_late_span
    by (auto simp: feasible_schedule_def feasible_activity_def early_schedule_def)
qed

lemma project_finish_horizon:
  assumes fwd: "forward_pass sha n snap policy = Inr fp" and wf: "wf_network n" and plain: "untouched_network n"
  shows "fp_project_finish fp \<le> horizon n"
proof -
  have ok: "network_ok n" and fin: "fp_project_finish fp = max_of (project_start n) (map early_finish (fp_times fp))"
    using fwd by (auto elim: forward_pass_run)
  show ?thesis
  proof (cases "fp_times fp = []")
    case True
    then show ?thesis using ok by (simp add: fin max_of_def network_ok_def window_ok_def)
  next
    case False
    then obtain t where t: "t \<in> set (fp_times fp)" "fp_project_finish fp = early_finish t"
      using max_of_image [of "fp_times fp" "project_start n" early_finish] fin by auto
    have row: "by_uid fp (at_uid t) = Some t" by (rule forward_pass_row_mem [OF fwd t(1)])
    then have "at_uid t \<in> set (activity_uids n)" using forward_pass_rows(5) [OF fwd] by (metis domI)
    then obtain a where a: "a \<in> set (activities n)" "pa_uid a = at_uid t" by (auto simp: activity_uids_def)
    have run: "forward_times n snap policy (pa_uid a) (by_uid fp) = Inr t"
      using forward_pass_rows(6) [OF fwd activity_uid_mem [OF a(1)]] row a(2) by auto
    have "state_of a = NOT_STARTED" "pa_constraint_type a \<notin> {MSO, MFO}"
      using plain a by (auto simp: untouched_network_def)
    with untouched_ge(3) [OF ok wf run a(1)] t(2) show ?thesis by simp
  qed
qed

text \<open>Whenever some admissible schedule exists, the pass succeeds.\<close>

lemma backward_succeeds:
  assumes fwd: "forward_pass sha n snap policy = Inr fp" and wf: "wf_network n" and plain: "untouched_network n"
    and nob: "no_boundaries n"
    and late: "late = (case late_arg of None \<Rightarrow> fp_project_finish fp | Some x \<Rightarrow> x)" and lh: "late \<le> horizon n"
    and adm: "late_admissible n snap late sched"
  shows "\<exists>bp. backward_pass sha n fp None late_arg None = Inr bp"
proof -
  note rows = forward_pass_rows [OF fwd]
  have ok: "network_ok n" and snap: "fp_snap_milestones fp = snap" and finger: "fp_network_fingerprint fp = network_fingerprint sha n"
    using fwd by (auto elim: forward_pass_run)
  have init: "ls_placed late_init = Map.empty" by simp
  have d: "distinct (rev (fp_order fp))" using rows(1) by simp
  have o: "deps_before (succ_uids n) (rev (fp_order fp))"
    by (rule precedence_deps_rev [OF rows(3,1) network_ok_known [OF ok] rows(2)])
  have "\<exists>s. rfold (backward_step n snap (by_uid fp) {} late (outgoing_of n)) (rev (fp_order fp)) late_init = Inr s"
  proof (rule bwd.fold_succeeds [where P = "late_covers sched", OF init d o])
    fix k m assume k: "k \<in> set (rev (fp_order fp))"
      and succs: "\<And>d. d \<in> succ_uids n k \<Longrightarrow> \<exists>w. m d = Some w \<and> late_covers sched d w"
    obtain a where a: "a \<in> set (activities n)" "pa_uid a = k" using k rows(2) by (auto simp: activity_uids_def)
    from late_row_covers [OF ok wf plain nob adm lh a(1), of m "by_uid fp"] succs a(2)
    show "\<exists>v. backward_row n snap (by_uid fp) {} late (outgoing_of n) k m = Inr v \<and> late_covers sched k v" by simp
  qed
  then obtain s where s: "rfold (backward_step n snap (by_uid fp) {} late (outgoing_of n)) (rev (fp_order fp)) late_init = Inr s" by blast
  have "\<exists>t. ls_placed s u = Some t" if "u \<in> set (fp_order fp)" for u
    using bwd.fold_solves(2) [OF s init d o, of u] that by auto
  then have "\<exists>ls. rmap (\<lambda>u. case ls_placed s u of None \<Rightarrow> Inl KeyError | Some t \<Rightarrow> Inr t) (fp_order fp) = Inr ls"
    by (intro rmap_total) fastforce
  moreover have "validate n = Inr ()" using ok by (simp add: validate_iff)
  ultimately show ?thesis
    using s lh late overridden_untouched [OF ok plain]
    by (auto simp: backward_pass_def check_forward_def finger snap successors_outgoing [OF ok] raise_if_def Let_def)
qed

subsection \<open>What the late schedule itself honours\<close>

lemma untouched_late_bounds:
  assumes ok: "network_ok n" and wf: "wf_network n" and plain: "untouched_network n" and nob: "no_boundaries n"
    and row: "backward_row n snap early {} late (outgoing_of n) (pa_uid a) m = Inr l" and a: "a \<in> set (activities n)"
  shows "late_span_of a (remaining a) snap (late_start l) (late_finish l)"
    and "calendar_floor a \<le> late_start l" and "late_start l \<le> late" and "late_finish l \<le> late"
    and "pa_constraint_coordinate a = Some x \<Longrightarrow> pa_constraint_type a = SNLT \<Longrightarrow> late_start l \<le> x"
    and "pa_constraint_coordinate a = Some x \<Longrightarrow> pa_constraint_type a = FNLT \<Longrightarrow> late_finish l \<le> x"
    and "lt_remaining_start l = None"
    and "r \<in> set (outgoing_edges n (pa_uid a)) \<Longrightarrow>
      \<exists>y. late_reach n early m r = Some y \<and> (if anchors_predecessor_finish r then late_finish l else late_start l) \<le> y"
proof -
  have fresh: "state_of a = NOT_STARTED" and env: "pa_assignment_envelope a = None"
    and free: "pa_constraint_type a \<notin> {MSO, MFO}"
    using plain a by (auto simp: untouched_network_def)
  obtain b where b: "late_bounds n early {} late (outgoing_edges n (pa_uid a)) m = Inr b" and t: "placed_late_row snap late a b = Inr l"
    using row untouched_late_row [OF ok a fresh] by (auto simp: rbind_Inr_iff)
  have inv: "late_inv late (late_reach n early m) (outgoing_edges n (pa_uid a)) b"
    using late_bounds_Inr [OF nob _ b] by (auto simp: outgoing_edges_def)
  note shape = placed_late_shape [OF t fresh]
  note fit = late_place_plain(1) [OF wf_networkD(1) [OF wf a] remaining_nonneg [OF network_okD [OF ok a]] env
      shape(1) [unfolded late_constrain_lowers(3) [OF free]]]
  note low = late_constrain_lowers(1,2) [of a b]
  have le: "late_start l \<le> lb_start b" "late_finish l \<le> lb_finish b"
    using fit low unfolding late_fits_def by linarith+
  show "late_span_of a (remaining a) snap (late_start l) (late_finish l)" "calendar_floor a \<le> late_start l"
    using fit by (auto simp: late_fits_def)
  show "late_start l \<le> late" "late_finish l \<le> late"
    using le inv unfolding late_inv_def late_side_def by linarith+
  show "late_start l \<le> x" if "pa_constraint_coordinate a = Some x" "pa_constraint_type a = SNLT"
    using late_constrain_bounds(1) [OF fresh that] fit unfolding late_fits_def by (meson order.trans)
  show "late_finish l \<le> x" if "pa_constraint_coordinate a = Some x" "pa_constraint_type a = FNLT"
    using late_constrain_bounds(2) [OF fresh that] fit unfolding late_fits_def by (meson order.trans)
  show "lt_remaining_start l = None" by (rule shape(3))
  show "\<exists>y. late_reach n early m r = Some y \<and> (if anchors_predecessor_finish r then late_finish l else late_start l) \<le> y"
    if "r \<in> set (outgoing_edges n (pa_uid a))"
    using inv that le unfolding late_inv_def late_side_def by (cases "anchors_predecessor_finish r") fastforce+
qed

text \<open>An edge between two late rows: where the lag lands, it lands in time.\<close>

lemma late_edge_honoured:
  assumes fwd: "forward_pass sha n snap policy = Inr fp"
    and bwd: "backward_pass sha n fp snap_arg late_arg policy_arg = Inr bp"
    and wf: "wf_network n" and plain: "untouched_network n" and nob: "no_boundaries n"
    and r: "r \<in> set (relationships n)" and p: "late_by_uid bp (pr_predecessor_uid r) = Some p"
    and q: "late_by_uid bp (pr_successor_uid r) = Some q" and b: "activity_by_uid n (pr_successor_uid r) = Some b"
    and z: "shift_lag (lag_calendar_for r (pa_calendar b))
      (if anchors_predecessor_finish r then late_finish p else late_start p) (pr_lag r) = Inr (Some z)"
  shows "z \<le> (if bounds_successor_start r then late_start q else late_finish q)"
proof -
  note lrows = backward_pass_rows [OF fwd bwd]
  obtain over where ok: "network_ok n"
    and over: "overridden_edges n (fp_progress_policy fp) = Inr over" "overridden_relationships bp = over"
    using bwd by (rule backward_pass_run)
  have none: "set (overridden_relationships bp) = {}"
    using over overridden_untouched [OF ok plain, of "fp_progress_policy fp"] by simp
  have row: "backward_row n snap (by_uid fp) {} (bp_project_late_finish bp) (outgoing_of n) u (late_by_uid bp) = Inr l"
    if "late_by_uid bp u = Some l" for u l
    using lrows(2) [of u] lrows(1) that unfolding none by (metis domI option.inject)
  have bm: "b \<in> set (activities n)" "pa_uid b = pr_successor_uid r" using activity_by_uid_mem [OF b] by auto
  have "pr_predecessor_uid r \<in> set (activity_uids n)" using lrows(1) p by (metis domI)
  then obtain a where a: "a \<in> set (activities n)" "pa_uid a = pr_predecessor_uid r" by (auto simp: activity_uids_def)
  let ?c = "lag_calendar_for r (pa_calendar b)"
  have wfc: "wf_calendar ?c" by (rule wf_networkD(4) [OF wf bm(1) r])
  have "r \<in> set (outgoing_edges n (pa_uid a))" using r a(2) by (simp add: outgoing_edges_def)
  from untouched_late_bounds(8) [OF ok wf plain nob row [OF p, folded a(2)] a(1) this]
  obtain y where y: "late_reach n (by_uid fp) (late_by_uid bp) r = Some y"
    "(if anchors_predecessor_finish r then late_finish p else late_start p) \<le> y" by blast
  have "lt_remaining_start q = None"
    by (rule untouched_late_bounds(7) [OF ok wf plain nob row [OF q, folded bm(2)] bm(1)])
  with y(1) have "unshifted ?c (if bounds_successor_start r then late_start q else late_finish q) (pr_lag r) (horizon n) = Some y"
    using late_reach_plain [of "late_by_uid bp" r q n b "by_uid fp", OF q _ b wfc] by simp
  from edge.late_honours [OF wfc this y(2)] z show ?thesis by (simp add: shift_lag_eq [OF wfc])
qed

subsection \<open>Properties\<close>

definition late_schedule :: "backward_pass_result \<Rightarrow> uuid \<Rightarrow> int \<times> int" where
  "late_schedule bp u = (case late_by_uid bp u of Some t \<Rightarrow> (late_start t, late_finish t) | None \<Rightarrow> (0, 0))"

text \<open>
  (C5) The late dates are the greatest schedule that meets the project's late finish: on a network
  of compiled calendars without reported work, envelopes, pinned constraints or inactive
  boundaries, a successful backward pass places every activity in a span of its own calendar that
  finishes by the late finish and by its not-later-than constraint, every edge whose lag lands does
  so at or before the late end it bounds, and every schedule that honours all of these starts and
  finishes every activity no later.
\<close>

theorem backward_pass_greatest:
  assumes "forward_pass sha n snap policy = Inr fp"
    and "backward_pass sha n fp snap_arg late_arg policy_arg = Inr bp"
    and "wf_network n" and "untouched_network n" and "no_boundaries n"
  shows "(\<forall>sched. late_admissible n snap (bp_project_late_finish bp) sched \<longrightarrow> (\<forall>u l. late_by_uid bp u = Some l \<longrightarrow>
            fst (sched u) \<le> late_start l \<and> snd (sched u) \<le> late_finish l))
    \<and> (\<forall>a \<in> set (activities n). \<exists>l. late_by_uid bp (pa_uid a) = Some l
         \<and> late_span_of a (remaining a) snap (late_start l) (late_finish l)
         \<and> late_start l \<le> bp_project_late_finish bp \<and> late_finish l \<le> bp_project_late_finish bp
         \<and> (\<forall>x. pa_constraint_coordinate a = Some x \<longrightarrow>
              (pa_constraint_type a = SNLT \<longrightarrow> late_start l \<le> x) \<and> (pa_constraint_type a = FNLT \<longrightarrow> late_finish l \<le> x)))
    \<and> (\<forall>r \<in> set (relationships n). \<forall>p q b z. late_by_uid bp (pr_predecessor_uid r) = Some p \<longrightarrow>
         late_by_uid bp (pr_successor_uid r) = Some q \<longrightarrow> activity_by_uid n (pr_successor_uid r) = Some b \<longrightarrow>
         shift_lag (lag_calendar_for r (pa_calendar b))
           (if anchors_predecessor_finish r then late_finish p else late_start p) (pr_lag r) = Inr (Some z) \<longrightarrow>
         z \<le> (if bounds_successor_start r then late_start q else late_finish q))"
proof (intro conjI ballI)
  fix a assume a: "a \<in> set (activities n)"
  obtain over where ok: "network_ok n"
    and over: "overridden_edges n (fp_progress_policy fp) = Inr over" "overridden_relationships bp = over"
    using assms(2) by (rule backward_pass_run)
  have none: "set (overridden_relationships bp) = {}"
    using over overridden_untouched [OF ok assms(4), of "fp_progress_policy fp"] by simp
  obtain l where l: "late_by_uid bp (pa_uid a) = Some l"
    "backward_row n snap (by_uid fp) {} (bp_project_late_finish bp) (outgoing_of n) (pa_uid a) (late_by_uid bp) = Inr l"
    using backward_pass_rows(2) [OF assms(1,2) activity_uid_mem [OF a]] unfolding none by blast
  note row = untouched_late_bounds [OF ok assms(3-5) l(2) a]
  show "\<exists>l. late_by_uid bp (pa_uid a) = Some l \<and> late_span_of a (remaining a) snap (late_start l) (late_finish l)
         \<and> late_start l \<le> bp_project_late_finish bp \<and> late_finish l \<le> bp_project_late_finish bp
         \<and> (\<forall>x. pa_constraint_coordinate a = Some x \<longrightarrow>
              (pa_constraint_type a = SNLT \<longrightarrow> late_start l \<le> x) \<and> (pa_constraint_type a = FNLT \<longrightarrow> late_finish l \<le> x))"
    using l(1) row(1,3,4,5,6) by blast
qed (use backward_covers [OF assms(1-5)] late_edge_honoured [OF assms(1-5)] in blast)+

definition sample_backward :: backward_pass_result where
  "sample_backward = (case backward_pass (\<lambda>_. []) sample_network sample_forward None (Some 30) None of
     Inr bp \<Rightarrow> bp | Inl _ \<Rightarrow> undefined)"

lemma sample_backward_run: "backward_pass (\<lambda>_. []) sample_network sample_forward None (Some 30) None = Inr sample_backward"
proof -
  have "case backward_pass (\<lambda>_. []) sample_network sample_forward None (Some 30) None of Inr _ \<Rightarrow> True | Inl _ \<Rightarrow> False"
    by code_simp
  then show ?thesis unfolding sample_backward_def by (auto split: sum.splits)
qed

lemma sample_no_boundaries: "no_boundaries sample_network"
  by (auto simp: no_boundaries_def sample_network_def sample_edge_def)

theorem backward_pass_greatest_witness:
  "map (\<lambda>t. (lt_uid t, late_start t, late_finish t)) (bp_times sample_backward) = [(1, 14, 21), (2, 23, 29), (3, 26, 30)]
   \<and> list_all (\<lambda>a. \<exists>l. late_by_uid sample_backward (pa_uid a) = Some l \<and> late_finish l \<le> 30) (activities sample_network)"
proof -
  have v: "map (\<lambda>t. (lt_uid t, late_start t, late_finish t)) (bp_times sample_backward) = [(1, 14, 21), (2, 23, 29), (3, 26, 30)]"
    "bp_project_late_finish sample_backward = 30" by code_simp+
  show ?thesis
    using backward_pass_greatest [OF sample_forward_run sample_backward_run sample_networks_wf(1) sample_untouched sample_no_boundaries]
    unfolding v(2) list_all_iff using v(1) by blast
qed

text \<open>
  (C6) The two passes agree: after a successful forward pass over a network of compiled calendars
  without reported work, envelopes, pinned or not-later-than constraints or inactive boundaries,
  the backward pass never refuses, for the default project finish and for every later one within
  the horizon, and no activity's late start or late finish precedes its early one.
\<close>

theorem backward_after_forward:
  assumes "forward_pass sha n snap policy = Inr fp" and "wf_network n" and "untouched_network n" and "no_boundaries n"
    and "\<forall>a \<in> set (activities n). pa_constraint_type a \<notin> {SNLT, FNLT}"
    and "case late_arg of None \<Rightarrow> True | Some x \<Rightarrow> fp_project_finish fp \<le> x \<and> x \<le> horizon n"
  shows "\<exists>bp. backward_pass sha n fp None late_arg None = Inr bp
    \<and> (\<forall>u \<in> set (activity_uids n). \<exists>t l. by_uid fp u = Some t \<and> late_by_uid bp u = Some l
         \<and> early_start t \<le> late_start l \<and> early_finish t \<le> late_finish l)"
proof -
  let ?late = "case late_arg of None \<Rightarrow> fp_project_finish fp | Some x \<Rightarrow> x"
  have late: "fp_project_finish fp \<le> ?late" "?late \<le> horizon n"
    using assms(6) project_finish_horizon [OF assms(1-3)] by (auto split: option.splits)
  note adm = early_admissible [OF assms(1-3,5) late(1)]
  obtain bp where bp: "backward_pass sha n fp None late_arg None = Inr bp"
    using backward_succeeds [OF assms(1-4) refl late(2) adm] by blast
  have bl: "bp_project_late_finish bp = ?late" using bp by (rule backward_pass_run)
  have "\<exists>t l. by_uid fp u = Some t \<and> late_by_uid bp u = Some l \<and> early_start t \<le> late_start l \<and> early_finish t \<le> late_finish l"
    if u: "u \<in> set (activity_uids n)" for u
  proof -
    obtain t where t: "by_uid fp u = Some t" using forward_pass_rows(6) [OF assms(1) u] by blast
    obtain l where l: "late_by_uid bp u = Some l" using backward_pass_rows(2) [OF assms(1) bp u] by blast
    from backward_covers [OF assms(1) bp assms(2-4) adm [folded bl] l] t l show ?thesis
      by (auto simp: early_schedule_def)
  qed
  with bp show ?thesis by blast
qed

theorem backward_after_forward_witness:
  "\<exists>bp. backward_pass (\<lambda>_. []) sample_network sample_forward None (Some 30) None = Inr bp
    \<and> list_all (\<lambda>u. \<exists>t l. by_uid sample_forward u = Some t \<and> late_by_uid bp u = Some l
         \<and> early_start t \<le> late_start l \<and> early_finish t \<le> late_finish l) (activity_uids sample_network)"
proof -
  have c: "\<forall>a \<in> set (activities sample_network). pa_constraint_type a \<notin> {SNLT, FNLT}" by code_simp
  have l: "case Some 30 of None \<Rightarrow> True | Some x \<Rightarrow> fp_project_finish sample_forward \<le> x \<and> x \<le> horizon sample_network"
    by code_simp
  show ?thesis
    using backward_after_forward [OF sample_forward_run sample_networks_wf(1) sample_untouched sample_no_boundaries c l]
    unfolding list_all_iff by blast
qed

end
