(* ===== verification/Criticality.thy ===== *)
theory Criticality
  imports Backward_Optimal
begin

section \<open>Float and criticality (\<open>core/engine/criticality.py\<close>)\<close>

text \<open>
  Arithmetic over the two passes. A float is signed working time on the activity's measuring
  calendar, or a coordinate difference for elapsed work; the total float is the smaller of the
  start and the finish float; the free float carries every successor's early bound back over its
  edge, within the coordinates the activity can still occupy. An activity is critical when its
  total float is within the threshold and it is not complete.
\<close>

definition CRITICALITY_PROFILE :: string where "CRITICALITY_PROFILE = ''sto-criticality-v8''"

abbreviation criticality_error :: "string \<Rightarrow> uuid option \<Rightarrow> exc" where
  "criticality_error code u \<equiv> Coded CriticalityError code u"

record activity_float =
  af_uid :: uuid
  total_float :: int
  free_float_of :: int
  critical :: bool
  start_float :: int
  finish_float :: int
  af_complete :: bool

definition negative :: "activity_float \<Rightarrow> bool" where
  "negative f \<longleftrightarrow> total_float f < 0"

definition spans_disagree :: "activity_float \<Rightarrow> bool" where
  "spans_disagree f \<longleftrightarrow> start_float f \<noteq> finish_float f"

record float_analysis_result =
  fa_rows :: "activity_float list"
  fa_threshold :: int
  fa_project_late_finish :: int
  fa_fingerprint :: string

definition float_by_uid :: "float_analysis_result \<Rightarrow> uuid \<Rightarrow> activity_float option" where
  "float_by_uid fa = map_of (rev (map (\<lambda>f. (af_uid f, f)) (fa_rows fa)))"

definition critical_activities :: "float_analysis_result \<Rightarrow> uuid list" where
  "critical_activities fa = map af_uid (filter critical (fa_rows fa))"

definition negative_float_activities :: "float_analysis_result \<Rightarrow> uuid list" where
  "negative_float_activities fa = map af_uid (filter negative (fa_rows fa))"

subsection \<open>Measures\<close>

definition signed_working :: "compiled_intervals \<Rightarrow> int \<Rightarrow> int \<Rightarrow> int" where
  "signed_working c start finish =
     (if finish \<ge> start then working_between c start finish else - working_between c finish start)"

definition span_float :: "int \<Rightarrow> int \<Rightarrow> int" where
  "span_float early late = late - early"

definition measure_float :: "planned_activity \<Rightarrow> int \<Rightarrow> int \<Rightarrow> int" where
  "measure_float a start finish =
     (if pa_float_basis a = ''elapsed'' then span_float start finish
      else signed_working (float_calendar a) start finish)"

subsection \<open>Where an activity can still move\<close>

text \<open>Every activity's row is looked up first; a missing one is a \<open>KeyError\<close>.\<close>

definition exactly_pinned :: "network \<Rightarrow> (uuid \<Rightarrow> activity_times option) \<Rightarrow> uuid set result" where
  "exactly_pinned n early =
     rbind (rmap (\<lambda>a. case early (pa_uid a) of
                     None \<Rightarrow> Inl KeyError
                   | Some t \<Rightarrow> Inr (if at_state t = NOT_STARTED \<and> pa_constraint_type a \<in> {MSO, MFO}
                                   then [pa_uid a] else []))
             (activities n)) (\<lambda>xs. Inr (set (concat xs)))"

definition in_state :: "(uuid \<Rightarrow> activity_times option) \<Rightarrow> progress_state \<Rightarrow> uuid \<Rightarrow> bool" where
  "in_state early st u = (case early u of None \<Rightarrow> False | Some t \<Rightarrow> at_state t = st)"

definition snapped_zero_spans ::
    "network \<Rightarrow> bool \<Rightarrow> (uuid \<Rightarrow> activity_times option) \<Rightarrow> uuid set \<Rightarrow> uuid set" where
  "snapped_zero_spans n snap early pinned =
     set (map pa_uid (filter (\<lambda>a. snap \<and> remaining a = 0 \<and> \<not> in_state early COMPLETE (pa_uid a)
                               \<and> pa_uid a \<notin> pinned) (activities n)))"

definition calendar_placed_starts ::
    "network \<Rightarrow> (uuid \<Rightarrow> activity_times option) \<Rightarrow> uuid set \<Rightarrow> uuid set \<Rightarrow> uuid set" where
  "calendar_placed_starts n early pinned snapped =
     set (map pa_uid (filter (\<lambda>a. in_state early NOT_STARTED (pa_uid a) \<and> pa_uid a \<notin> pinned
                               \<and> (remaining a > 0 \<or> pa_uid a \<in> snapped)) (activities n)))"

definition movement_limit ::
    "network \<Rightarrow> (uuid \<Rightarrow> activity_times option) \<Rightarrow> uuid set \<Rightarrow> planned_activity
     \<Rightarrow> (uuid \<times> int \<times> int) result" where
  "movement_limit n early snapped a =
     (let err = criticality_error ''SCHEDULE_HORIZON_EXCEEDED'' (Some (pa_uid a)) in
      case early (pa_uid a) of
        None \<Rightarrow> Inl KeyError
      | Some t \<Rightarrow>
          if at_state t = COMPLETE then Inr (pa_uid a, early_start t, early_finish t)
          else if remaining a = 0 then
            (case (if pa_uid a \<in> snapped then prev_working_start (pa_calendar a) (horizon n)
                   else Some (horizon n)) of
               None \<Rightarrow> Inl err
             | Some limit \<Rightarrow> Inr (pa_uid a, (if has_started a then early_start t else limit), limit))
          else
            rbind (case ci_first (pa_calendar a) of
                     None \<Rightarrow> Inr None
                   | Some fl \<Rightarrow> latest_span (pa_calendar a) (horizon n) (horizon n) (remaining a) fl) (\<lambda>latest.
              case latest of
                None \<Rightarrow> Inl err
              | Some (s, f) \<Rightarrow> Inr (pa_uid a, (if has_started a then early_start t else s), f)))"

subsection \<open>Free float\<close>

record float_context =
  fx_early :: "uuid \<Rightarrow> activity_times option"
  fx_limits :: "uuid \<Rightarrow> (int \<times> int) option"
  fx_snapped :: "uuid set"
  fx_placed_starts :: "uuid set"
  fx_immovable :: "uuid set"
  fx_late_finish :: int

definition available_span :: "activity_times \<Rightarrow> int \<times> int" where
  "available_span t = ((case remaining_start t of None \<Rightarrow> early_start t | Some x \<Rightarrow> x), early_finish t)"

text \<open>The slack one edge leaves its predecessor.\<close>

definition edge_slack ::
    "network \<Rightarrow> float_context \<Rightarrow> planned_activity \<Rightarrow> activity_times \<Rightarrow> planned_relationship \<Rightarrow> int result" where
  "edge_slack n cx a t r =
     (if pr_inactive_boundary_uid r \<noteq> None then Inr 0
      else case (activity_by_uid n (pr_successor_uid r), fx_early cx (pr_successor_uid r), fx_limits cx (pa_uid a)) of
        (Some q, Some s, Some limits) \<Rightarrow>
          (let anchor = (if anchors_predecessor_finish r then early_finish t else early_start t);
               available = (if bounds_successor_start r then fst (available_span s) else snd (available_span s));
               ceiling = (if anchors_predecessor_finish r then snd limits else fst limits);
               err = criticality_error ''SCHEDULE_LAG_UNREACHABLE'' (Some (pr_uid r)) in
           rbind (unshift_lag (lag_calendar_for r (pa_calendar q)) available (pr_lag r) (Some ceiling)) (\<lambda>permitted.
             case permitted of
               None \<Rightarrow> Inl err
             | Some x \<Rightarrow>
                 if pa_uid a \<in> fx_snapped cx \<and> anchors_predecessor_finish r
                    \<or> \<not> anchors_predecessor_finish r \<and> pa_uid a \<in> fx_placed_starts cx
                 then (case prev_working_start (pa_calendar a) x of
                         None \<Rightarrow> Inl err
                       | Some y \<Rightarrow> Inr (measure_float a anchor y))
                 else Inr (measure_float a anchor x)))
      | _ \<Rightarrow> Inl KeyError)"

definition free_float ::
    "network \<Rightarrow> float_context \<Rightarrow> planned_activity \<Rightarrow> activity_times \<Rightarrow> planned_relationship list \<Rightarrow> int result" where
  "free_float n cx a t outgoing =
     (if pa_uid a \<in> fx_immovable cx then Inr 0
      else if outgoing = [] then Inr (measure_float a (early_finish t) (fx_late_finish cx))
      else rbind (rmap (edge_slack n cx a t) outgoing) (\<lambda>slacks. Inr (min_of 0 slacks)))"

subsection \<open>The analysis\<close>

definition float_row ::
    "network \<Rightarrow> float_context \<Rightarrow> (uuid \<Rightarrow> activity_late_times option) \<Rightarrow> uuid set \<Rightarrow> int
     \<Rightarrow> (uuid \<Rightarrow> planned_relationship list option) \<Rightarrow> uuid \<Rightarrow> activity_float result" where
  "float_row n cx late released threshold outgoing u =
     (case (activity_by_uid n u, fx_early cx u, late u, outgoing u) of
        (Some a, Some t, Some l, Some rs) \<Rightarrow>
          (let early_s = (case remaining_start t of None \<Rightarrow> early_start t | Some x \<Rightarrow> x);
               late_s = (case lt_remaining_start l of None \<Rightarrow> late_start l | Some x \<Rightarrow> x);
               sf = measure_float a early_s late_s;
               ff = measure_float a (early_finish t) (late_finish l);
               total = min sf ff;
               done = (u \<in> fx_immovable cx)
           in rbind (free_float n cx a t (filter (\<lambda>r. pr_uid r \<notin> released) rs)) (\<lambda>free.
                Inr \<lparr> af_uid = u, total_float = total, free_float_of = free,
                      critical = (total \<le> threshold \<and> \<not> done), start_float = sf, finish_float = ff,
                      af_complete = done \<rparr>))
      | _ \<Rightarrow> Inl KeyError)"

definition float_fingerprint :: "(json \<Rightarrow> string) \<Rightarrow> activity_float list \<Rightarrow> int \<Rightarrow> int \<Rightarrow> string" where
  "float_fingerprint sha rows threshold late =
     sha (JObj [(''profile'', JStr CRITICALITY_PROFILE), (''threshold'', JInt threshold),
                (''project_late_finish'', JInt late),
                (''rows'', JList (map (\<lambda>f. JList
                   [JStr (uuid_text (af_uid f)), JInt (total_float f), JInt (free_float_of f),
                    JBool (critical f), JInt (start_float f), JInt (finish_float f)])
                   (sort_key (\<lambda>f. uuid_text (af_uid f)) rows)))])"

definition check_passes ::
    "(json \<Rightarrow> string) \<Rightarrow> network \<Rightarrow> forward_pass_result \<Rightarrow> backward_pass_result \<Rightarrow> unit result" where
  "check_passes sha n fp bp =
     raise_if (fp_network_fingerprint fp \<noteq> network_fingerprint sha n
               \<or> bp_network_fingerprint bp \<noteq> network_fingerprint sha n)
       (criticality_error ''SCHEDULE_PASS_MISMATCH'' None)
     (raise_if (fp_progress_policy fp \<noteq> bp_progress_policy bp)
       (criticality_error ''SCHEDULE_POLICY_MISMATCH'' None)
     (raise_if (fp_snap_milestones fp \<noteq> bp_snap_milestones bp)
       (criticality_error ''SCHEDULE_POLICY_MISMATCH'' None) (Inr ())))"

text \<open>The domain every free float is measured in.\<close>

definition float_context_of ::
    "network \<Rightarrow> forward_pass_result \<Rightarrow> backward_pass_result \<Rightarrow> float_context result" where
  "float_context_of n fp bp =
     (let early = by_uid fp in
      rbind (exactly_pinned n early) (\<lambda>pinned.
      let snapped = snapped_zero_spans n (fp_snap_milestones fp) early pinned in
      rbind (rmap (movement_limit n early snapped) (activities n)) (\<lambda>limits.
      Inr \<lparr> fx_early = early, fx_limits = map_of (rev limits), fx_snapped = snapped,
            fx_placed_starts = calendar_placed_starts n early pinned snapped,
            fx_immovable = complete_activities fp, fx_late_finish = bp_project_late_finish bp \<rparr>)))"

definition float_analysis ::
    "(json \<Rightarrow> string) \<Rightarrow> network \<Rightarrow> forward_pass_result \<Rightarrow> backward_pass_result \<Rightarrow> int
     \<Rightarrow> float_analysis_result result" where
  "float_analysis sha n fp bp threshold =
     rbind (check_passes sha n fp bp) (\<lambda>_.
     rbind (float_context_of n fp bp) (\<lambda>cx.
     rbind (successors n) (\<lambda>outgoing.
     rbind (rmap (float_row n cx (late_by_uid bp) (set (overridden_relationships bp)) threshold outgoing)
              (fp_order fp)) (\<lambda>rows.
     Inr \<lparr> fa_rows = rows, fa_threshold = threshold, fa_project_late_finish = bp_project_late_finish bp,
           fa_fingerprint = float_fingerprint sha rows threshold (bp_project_late_finish bp) \<rparr>))))"

end
