(* ===== verification/Criticality_Facts.thy ===== *)
theory Criticality_Facts
  imports Criticality
begin

section \<open>What the floats mean\<close>

text \<open>
  A working float is a difference of the calendar's work counts, so it is additive and monotone.
  The slack of an edge is the room up to the greatest coordinate its predecessor may occupy
  without moving the successor's early date. After two passes over a network without reported
  work the analysis never refuses, no float is negative, and with the default late finish some
  activity is critical.
\<close>

subsection \<open>Measures\<close>

lemma signed_working_eq:
  "wf_calendar c \<Longrightarrow> signed_working c x y = work (intervals c) y - work (intervals c) x"
  by (simp add: signed_working_def working_between_count)

lemma measure_float_eq:
  "wf_calendar (float_calendar a) \<Longrightarrow> measure_float a x y
     = (if pa_float_basis a = ''elapsed'' then y - x
        else work (intervals (float_calendar a)) y - work (intervals (float_calendar a)) x)"
  by (simp add: measure_float_def span_float_def signed_working_eq)

lemma measure_nonneg: "wf_calendar (float_calendar a) \<Longrightarrow> x \<le> y \<Longrightarrow> 0 \<le> measure_float a x y"
  using cal.W_mono [of "float_calendar a" x y] by (simp add: measure_float_eq)

lemma measure_mono: "wf_calendar (float_calendar a) \<Longrightarrow> y \<le> z \<Longrightarrow> measure_float a x y \<le> measure_float a x z"
  using cal.W_mono [of "float_calendar a" y z] by (simp add: measure_float_eq)

lemma measure_self [simp]: "measure_float a x x = 0"
  by (simp add: measure_float_def span_float_def signed_working_def working_between_def)

lemma work_rate:
  assumes wf: "wf_calendar c" and "x \<le> y"
  shows "work (intervals c) y - work (intervals c) x \<le> y - x"
proof -
  have "work (intervals c) (x + int k) - work (intervals c) x \<le> int k" for k
  proof (induction k)
    case (Suc k)
    with cal.W_step [OF wf, of "x + int k"] show ?case by (simp add: algebra_simps)
  qed simp
  from this [of "nat (y - x)"] assms(2) show ?thesis by simp
qed

subsection \<open>The slack of one edge\<close>

definition slack_domain :: "float_context \<Rightarrow> planned_activity \<Rightarrow> planned_relationship \<Rightarrow> bool" where
  "slack_domain cx a r \<longleftrightarrow> pa_uid a \<in> fx_snapped cx \<and> anchors_predecessor_finish r
     \<or> \<not> anchors_predecessor_finish r \<and> pa_uid a \<in> fx_placed_starts cx"

abbreviation slack_anchor :: "activity_times \<Rightarrow> planned_relationship \<Rightarrow> int" where
  "slack_anchor t r \<equiv> (if anchors_predecessor_finish r then early_finish t else early_start t)"

abbreviation slack_ceiling :: "int \<times> int \<Rightarrow> planned_relationship \<Rightarrow> int" where
  "slack_ceiling l r \<equiv> (if anchors_predecessor_finish r then snd l else fst l)"

abbreviation slack_available :: "activity_times \<Rightarrow> planned_relationship \<Rightarrow> int" where
  "slack_available s r \<equiv> (if bounds_successor_start r then fst (available_span s) else snd (available_span s))"

lemma edge_slack_unfold:
  assumes "pr_inactive_boundary_uid r = None" and "activity_by_uid n (pr_successor_uid r) = Some q"
    and "fx_early cx (pr_successor_uid r) = Some s" and "fx_limits cx (pa_uid a) = Some l"
    and "wf_calendar (lag_calendar_for r (pa_calendar q))"
  shows "edge_slack n cx a t r =
    (case unshifted (lag_calendar_for r (pa_calendar q)) (slack_available s r) (pr_lag r) (slack_ceiling l r) of
       None \<Rightarrow> Inl (criticality_error ''SCHEDULE_LAG_UNREACHABLE'' (Some (pr_uid r)))
     | Some x \<Rightarrow>
         if slack_domain cx a r
         then (case prev_working_start (pa_calendar a) x of
                 None \<Rightarrow> Inl (criticality_error ''SCHEDULE_LAG_UNREACHABLE'' (Some (pr_uid r)))
               | Some y \<Rightarrow> Inr (measure_float a (slack_anchor t r) y))
         else Inr (measure_float a (slack_anchor t r) x))"
  using assms by (simp add: edge_slack_def slack_domain_def unshift_lag_eq Let_def split: option.splits)

text \<open>The greatest coordinate the predecessor may occupy without moving the successor.\<close>

lemma edge_slack_greatest:
  assumes wfl: "wf_calendar (lag_calendar_for r (pa_calendar q))" and wfa: "wf_calendar (pa_calendar a)"
    and plain: "pr_inactive_boundary_uid r = None" and q: "activity_by_uid n (pr_successor_uid r) = Some q"
    and s: "fx_early cx (pr_successor_uid r) = Some s" and l: "fx_limits cx (pa_uid a) = Some l"
    and slack: "edge_slack n cx a t r = Inr x"
  shows "\<exists>y. x = measure_float a (slack_anchor t r) y \<and> y \<le> slack_ceiling l r
    \<and> (slack_domain cx a r \<longrightarrow> contains_coordinate y (intervals (pa_calendar a)))
    \<and> (\<forall>z. shifted (lag_calendar_for r (pa_calendar q)) y (pr_lag r) = Some z \<longrightarrow> z \<le> slack_available s r)
    \<and> (\<forall>y' z. y' \<le> slack_ceiling l r \<longrightarrow> (slack_domain cx a r \<longrightarrow> contains_coordinate y' (intervals (pa_calendar a))) \<longrightarrow>
         shifted (lag_calendar_for r (pa_calendar q)) y' (pr_lag r) = Some z \<longrightarrow> z \<le> slack_available s r \<longrightarrow> y' \<le> y)"
proof -
  let ?c = "lag_calendar_for r (pa_calendar q)"
  note run = slack [unfolded edge_slack_unfold [OF plain q s l wfl, of t]]
  obtain x0 where x0: "unshifted ?c (slack_available s r) (pr_lag r) (slack_ceiling l r) = Some x0"
    using run by (cases "unshifted ?c (slack_available s r) (pr_lag r) (slack_ceiling l r)") auto
  note top = edge.unshift_Some [OF wfl x0]
  show ?thesis
  proof (cases "slack_domain cx a r")
    case False
    with run x0 have "x = measure_float a (slack_anchor t r) x0" by simp
    with False top show ?thesis by (intro exI [of _ x0]) auto
  next
    case True
    with run x0 obtain y where y: "prev_working_start (pa_calendar a) x0 = Some y" "x = measure_float a (slack_anchor t r) y"
      by (auto split: option.splits)
    note at = cal.prvs_Some [OF wfa y(1)]
    have "z \<le> slack_available s r" if "shifted ?c y (pr_lag r) = Some z" for z
      using edge.late_honours [OF wfl x0 _ that] at by simp
    moreover have "y' \<le> y" if "y' \<le> slack_ceiling l r" "contains_coordinate y' (intervals (pa_calendar a))"
      "shifted ?c y' (pr_lag r) = Some z" "z \<le> slack_available s r" for y' z
      using top that prev_working_start_greatest [OF wfa y(1) _ that(2)] by blast
    ultimately show ?thesis using y(2) at top True by (intro exI [of _ y]) auto
  qed
qed

lemma edge_slack_total:
  assumes wfl: "wf_calendar (lag_calendar_for r (pa_calendar q))" and wfa: "wf_calendar (pa_calendar a)"
    and wff: "wf_calendar (float_calendar a)"
    and plain: "pr_inactive_boundary_uid r = None" and q: "activity_by_uid n (pr_successor_uid r) = Some q"
    and s: "fx_early cx (pr_successor_uid r) = Some s" and l: "fx_limits cx (pa_uid a) = Some l"
    and land: "shifted (lag_calendar_for r (pa_calendar q)) (slack_anchor t r) (pr_lag r) = Some z" "z \<le> slack_available s r"
    and room: "slack_anchor t r \<le> slack_ceiling l r"
    and occ: "slack_domain cx a r \<Longrightarrow> contains_coordinate (slack_anchor t r) (intervals (pa_calendar a))"
  shows "\<exists>x. edge_slack n cx a t r = Inr x \<and> 0 \<le> x"
proof -
  let ?c = "lag_calendar_for r (pa_calendar q)"
  obtain x0 where x0: "unshifted ?c (slack_available s r) (pr_lag r) (slack_ceiling l r) = Some x0" "slack_anchor t r \<le> x0"
    using edge.early_le_late [OF wfl land room] by blast
  show ?thesis
  proof (cases "slack_domain cx a r")
    case False
    with x0 measure_nonneg [OF wff x0(2)] show ?thesis by (simp add: edge_slack_unfold [OF plain q s l wfl])
  next
    case True
    from occ [OF True] prev_working_start_none [OF wfa _ x0(2)] obtain y where
      y: "prev_working_start (pa_calendar a) x0 = Some y"
      by (cases "prev_working_start (pa_calendar a) x0") auto
    have "slack_anchor t r \<le> y" by (rule prev_working_start_greatest [OF wfa y x0(2) occ [OF True]])
    with True x0 y measure_nonneg [OF wff this] show ?thesis by (simp add: edge_slack_unfold [OF plain q s l wfl])
  qed
qed

subsection \<open>The two passes over plain work\<close>

text \<open>What the early row of an untouched activity tells, and where it leaves room.\<close>

lemma untouched_state:
  assumes fwd: "forward_pass sha n snap policy = Inr fp" and plain: "untouched_network n" and a: "a \<in> set (activities n)"
    and t: "by_uid fp (pa_uid a) = Some t"
  shows "at_state t = NOT_STARTED" and "remaining_start t = None"
proof -
  have ok: "network_ok n" using fwd by (rule forward_pass_run)
  have fresh: "state_of a = NOT_STARTED" using plain a by (simp add: untouched_network_def)
  have run: "forward_times n snap policy (pa_uid a) (by_uid fp) = Inr t"
    using forward_pass_rows(6) [OF fwd activity_uid_mem [OF a]] t by auto
  then obtain r where "forward_row n snap policy (incoming_of n) (pa_uid a) (by_uid fp) = Inr r" "t = fr_times r"
    by (auto simp: rbind_Inr_iff)
  moreover have "activity_by_uid n (pa_uid a) = Some a"
    using activity_by_uid_iff [OF network_ok_distinct [OF ok]] a by blast
  ultimately show "at_state t = NOT_STARTED" using forward_row_uid(2) fresh by auto
  show "remaining_start t = None" using ok run a fresh by (rule untouched_placed)
qed

lemma untouched_unstarted: "state_of a = NOT_STARTED \<Longrightarrow> \<not> has_started a"
  by (auto simp: state_of_def split: if_splits)

lemma untouched_contains:
  "activity_span a d snap s f \<Longrightarrow> 0 < d \<or> d = 0 \<and> snap \<Longrightarrow> contains_coordinate s (intervals (pa_calendar a))"
  by (auto simp: activity_span_def is_span_def split: if_splits)

lemma exactly_pinned_untouched:
  assumes plain: "untouched_network n" and known: "\<And>a. a \<in> set (activities n) \<Longrightarrow> \<exists>t. early (pa_uid a) = Some t"
  shows "exactly_pinned n early = Inr {}"
proof -
  have "rmap (\<lambda>a. case early (pa_uid a) of
          None \<Rightarrow> Inl KeyError
        | Some t \<Rightarrow> Inr (if at_state t = NOT_STARTED \<and> pa_constraint_type a \<in> {MSO, MFO} then [pa_uid a] else [])) as
      = Inr (map (\<lambda>_. []) as)" if "set as \<subseteq> set (activities n)" for as
    using that
  proof (induction as)
    case (Cons a as)
    then obtain t where "early (pa_uid a) = Some t" using known [of a] by auto
    moreover have "pa_constraint_type a \<notin> {MSO, MFO}" using plain Cons.prems by (simp add: untouched_network_def)
    ultimately show ?case using Cons by simp
  qed simp
  from this [of "activities n"] show ?thesis by (simp add: exactly_pinned_def)
qed

lemma movement_limit_room:
  assumes wf: "wf_calendar (pa_calendar a)" and nonneg: "0 \<le> remaining a"
    and t: "early (pa_uid a) = Some t" "at_state t = NOT_STARTED" and fresh: "\<not> has_started a"
    and span: "activity_span a (remaining a) snap (early_start t) (early_finish t)"
    and floor: "calendar_floor a \<le> early_start t" and fin: "early_start t \<le> early_finish t" "early_finish t \<le> horizon n"
    and snapped: "pa_uid a \<in> snapped \<Longrightarrow> remaining a = 0 \<Longrightarrow> snap"
  shows "\<exists>l. movement_limit n early snapped a = Inr (pa_uid a, l) \<and> early_start t \<le> fst l \<and> early_finish t \<le> snd l"
proof (cases "remaining a = 0")
  case True
  show ?thesis
  proof (cases "pa_uid a \<in> snapped")
    case False
    with True t fresh fin show ?thesis by (simp add: movement_limit_def)
  next
    case in_s: True
    have at: "contains_coordinate (early_start t) (intervals (pa_calendar a))" "early_finish t = early_start t"
      using span snapped [OF in_s True] True by (auto simp: activity_span_def)
    have le: "early_start t \<le> horizon n" using fin by simp
    obtain y where y: "prev_working_start (pa_calendar a) (horizon n) = Some y"
      using prev_working_start_none [OF wf _ le] at(1) by (cases "prev_working_start (pa_calendar a) (horizon n)") auto
    with prev_working_start_greatest [OF wf y le at(1)] at(2) True in_s t fresh show ?thesis
      by (simp add: movement_limit_def)
  qed
next
  case False
  then have d: "0 < remaining a" using nonneg by simp
  have sp: "is_span (pa_calendar a) (remaining a) (early_start t) (early_finish t)"
    using span False by (simp add: activity_span_def)
  then have "intervals (pa_calendar a) \<noteq> []" by (auto simp: is_span_def)
  then obtain fl where fl: "ci_first (pa_calendar a) = Some fl"
    by (cases "intervals (pa_calendar a)") (auto simp: ci_first_def wf_calendarD(2) [OF wf])
  then have feas: "latest_feasible (pa_calendar a) (horizon n) (horizon n) (remaining a) fl (early_start t) (early_finish t)"
    using sp floor fin by (simp add: latest_feasible_def calendar_floor_def)
  from latest_span_pos [OF wf d, of "horizon n" "horizon n" fl] feas obtain s f where
    "latest_span (pa_calendar a) (horizon n) (horizon n) (remaining a) fl = Inr (Some (s, f))"
    "early_start t \<le> s" "early_finish t \<le> f"
    unfolding latest_answer_def by blast
  with fl False t fresh show ?thesis by (simp add: movement_limit_def)
qed

lemma movement_limits_room:
  assumes d: "distinct (activity_uids n)"
    and each: "\<And>a. a \<in> set (activities n) \<Longrightarrow> \<exists>l. movement_limit n early snapped a = Inr (pa_uid a, l) \<and> P a l"
  shows "\<exists>ls. rmap (movement_limit n early snapped) (activities n) = Inr ls
    \<and> (\<forall>a \<in> set (activities n). \<exists>l. map_of (rev ls) (pa_uid a) = Some l \<and> P a l)"
proof -
  have "\<exists>p. movement_limit n early snapped a = Inr p \<and> fst p = pa_uid a \<and> P a (snd p)" if "a \<in> set (activities n)" for a
    using each [OF that] by auto
  from rmap_total_rel [where f = "movement_limit n early snapped", OF this]
  obtain ls where ls: "rmap (movement_limit n early snapped) (activities n) = Inr ls"
    and rel: "list_all2 (\<lambda>a p. fst p = pa_uid a \<and> P a (snd p)) (activities n) ls" by blast
  from rel have keys: "map fst ls = activity_uids n" and vals: "\<forall>a p. (a, p) \<in> set (zip (activities n) ls) \<longrightarrow> fst p = pa_uid a \<and> P a (snd p)"
    and len: "length (activities n) = length ls"
    unfolding activity_uids_def by (induction rule: list_all2_induct) auto
  have "\<exists>l. map_of (rev ls) (pa_uid a) = Some l \<and> P a l" if "a \<in> set (activities n)" for a
  proof -
    from in_set_impl_in_set_zip1 [OF len that] obtain p where p: "(a, p) \<in> set (zip (activities n) ls)" .
    then have "p \<in> set ls" by (rule set_zip_rightD)
    moreover have "distinct (map fst (rev ls))" using d keys by (simp add: rev_map [symmetric])
    ultimately have "map_of (rev ls) (fst p) = Some (snd p)" by (intro map_of_is_SomeI) auto
    with vals p show ?thesis by fastforce
  qed
  with ls show ?thesis by blast
qed

lemma float_row_nonneg:
  assumes fwd: "forward_pass sha n snap policy = Inr fp" and wf: "wf_network n" and plain: "untouched_network n"
    and nob: "no_boundaries n" and a: "a \<in> set (activities n)"
    and cx: "fx_early cx = by_uid fp" "fx_immovable cx = complete_activities fp" "fp_project_finish fp \<le> fx_late_finish cx"
    and lim: "fx_limits cx (pa_uid a) = Some lim" "early_start t \<le> fst lim" "early_finish t \<le> snd lim"
    and dom: "pa_uid a \<in> fx_snapped cx \<Longrightarrow> remaining a = 0 \<and> snap"
      "pa_uid a \<in> fx_placed_starts cx \<Longrightarrow> 0 < remaining a \<or> pa_uid a \<in> fx_snapped cx"
    and t: "by_uid fp (pa_uid a) = Some t" and l: "late (pa_uid a) = Some l" "lt_remaining_start l = None"
    and le: "early_start t \<le> late_start l" "early_finish t \<le> late_finish l"
  shows "\<exists>f. float_row n cx late {} thr (outgoing_of n) (pa_uid a) = Inr f \<and> af_uid f = pa_uid a
    \<and> 0 \<le> total_float f \<and> 0 \<le> free_float_of f \<and> (critical f \<longleftrightarrow> total_float f \<le> thr)
    \<and> total_float f \<le> measure_float a (early_finish t) (late_finish l)"
proof -
  have ok: "network_ok n" using fwd by (rule forward_pass_run)
  have look: "activity_by_uid n (pa_uid a) = Some a"
    using activity_by_uid_iff [OF network_ok_distinct [OF ok]] a by blast
  note early = untouched_state [OF fwd plain a t]
  have run: "forward_times n snap policy (pa_uid a) (by_uid fp) = Inr t"
    using forward_pass_rows(6) [OF fwd activity_uid_mem [OF a]] t by auto
  note span = untouched_least(1) [OF ok wf plain run a]
  have wff: "wf_calendar (float_calendar a)" and wfa: "wf_calendar (pa_calendar a)"
    using wf a by (auto simp: wf_network_def)
  have movable: "pa_uid a \<notin> fx_immovable cx"
  proof
    assume "pa_uid a \<in> fx_immovable cx"
    then obtain t' where t': "t' \<in> set (fp_times fp)" "at_state t' = COMPLETE" "at_uid t' = pa_uid a"
      by (auto simp: cx complete_activities_def)
    with forward_pass_row_mem [OF fwd t'(1)] t early(1) show False by simp
  qed
  have free: "\<exists>x. free_float n cx a t (outgoing_edges n (pa_uid a)) = Inr x \<and> 0 \<le> x"
  proof (cases "outgoing_edges n (pa_uid a) = []")
    case True
    have fin: "fp_project_finish fp = max_of (project_start n) (map early_finish (fp_times fp))"
      using fwd by (rule forward_pass_run)
    have "t \<in> set (fp_times fp)" using forward_pass_rows(6) [OF fwd activity_uid_mem [OF a]] t by auto
    then have "early_finish t \<le> fx_late_finish cx"
      using max_of_ge [of "early_finish t" "map early_finish (fp_times fp)" "project_start n"] cx(3) fin by simp
    with True movable measure_nonneg [OF wff] show ?thesis by (simp add: free_float_def)
  next
    case False
    have one: "\<exists>x. edge_slack n cx a t r = Inr x \<and> 0 \<le> x" if r: "r \<in> set (outgoing_edges n (pa_uid a))" for r
    proof -
      have mem: "r \<in> set (relationships n)" "pr_predecessor_uid r = pa_uid a" using r by (auto simp: outgoing_edges_def)
      have "pr_successor_uid r \<in> set (activity_uids n)" using network_ok_known [OF ok] mem(1) by (simp add: known_edges_def)
      then obtain q where q: "activity_by_uid n (pr_successor_uid r) = Some q" using activity_by_uid_known by blast
      then have qm: "q \<in> set (activities n)" "pa_uid q = pr_successor_uid r" by (auto dest: activity_by_uid_mem)
      obtain s where s: "by_uid fp (pa_uid q) = Some s" "forward_times n snap policy (pa_uid q) (by_uid fp) = Inr s"
        using forward_pass_rows(6) [OF fwd activity_uid_mem [OF qm(1)]] by blast
      have freshq: "state_of q = NOT_STARTED" "pa_constraint_type q \<notin> {MSO, MFO}"
        using plain qm by (auto simp: untouched_network_def)
      note wfl = wf_networkD(4) [OF wf qm(1) mem(1)]
      have "r \<in> set (incoming_edges n (pa_uid q))" using mem(1) qm(2) by (simp add: incoming_edges_def)
      from untouched_ge(1) [OF ok wf s(2) qm(1) freshq this] obtain x where
        x: "edge_reach q (by_uid fp) r = Some x" "x \<le> (if bounds_successor_start r then early_start s else early_finish s)"
        by blast
      have land: "shifted (lag_calendar_for r (pa_calendar q)) (slack_anchor t r) (pr_lag r) = Some x"
        using x(1) t mem(2) by (simp add: edge_reach_def shift_lag_eq [OF wfl] split: option.splits if_splits)
      have "remaining_start s = None" by (rule untouched_state(2) [OF fwd plain qm(1) s(1)])
      then have avail: "x \<le> slack_available s r" using x(2) by (simp add: available_span_def split: if_splits)
      have occ: "contains_coordinate (slack_anchor t r) (intervals (pa_calendar a))" if dm: "slack_domain cx a r"
      proof -
        have c: "contains_coordinate (early_start t) (intervals (pa_calendar a))"
          using untouched_contains [OF span] dm dom by (auto simp: slack_domain_def)
        have "early_finish t = early_start t" if "pa_uid a \<in> fx_snapped cx"
          using span dom(1) [OF that] by (simp add: activity_span_def)
        with c dm show ?thesis by (auto simp: slack_domain_def)
      qed
      have "pr_inactive_boundary_uid r = None" using nob mem(1) by (simp add: no_boundaries_def)
      from edge_slack_total [OF wfl wfa wff this q _ lim(1) land avail] s(1) qm(2) lim(2,3) occ show ?thesis
        by (simp add: cx(1))
    qed
    then have "\<exists>y. edge_slack n cx a t r = Inr y" if "r \<in> set (outgoing_edges n (pa_uid a))" for r using that by blast
    from rmap_total [where f = "edge_slack n cx a t", OF this]
    obtain xs where xs: "rmap (edge_slack n cx a t) (outgoing_edges n (pa_uid a)) = Inr xs" by blast
    have "0 \<le> x" if "x \<in> set xs" for x using rmap_mem [OF xs that] one by fastforce
    moreover have "xs \<noteq> []" using xs False by (auto simp: rmap_Inr_iff)
    ultimately have "0 \<le> min_of 0 xs" using min_of_mem [of xs 0] by blast
    with xs False movable show ?thesis by (simp add: free_float_def)
  qed
  have out: "outgoing_of n (pa_uid a) = Some (outgoing_edges n (pa_uid a))"
    using activity_uid_mem [OF a] by (simp add: outgoing_of_def)
  from free obtain x where x: "free_float n cx a t (outgoing_edges n (pa_uid a)) = Inr x" "0 \<le> x" by blast
  let ?sf = "measure_float a (early_start t) (late_start l)" and ?ff = "measure_float a (early_finish t) (late_finish l)"
  have "float_row n cx late {} thr (outgoing_of n) (pa_uid a) = Inr \<lparr> af_uid = pa_uid a, total_float = min ?sf ?ff,
      free_float_of = x, critical = (min ?sf ?ff \<le> thr), start_float = ?sf, finish_float = ?ff, af_complete = False \<rparr>"
    using look t l early(2) out movable x(1) by (simp add: float_row_def cx(1) Let_def)
  moreover have "0 \<le> min ?sf ?ff" using measure_nonneg [OF wff] le by simp
  ultimately show ?thesis using x(2) by simp
qed

text \<open>The whole analysis, row by row.\<close>

definition float_row_sound ::
    "network \<Rightarrow> forward_pass_result \<Rightarrow> backward_pass_result \<Rightarrow> int \<Rightarrow> uuid \<Rightarrow> activity_float \<Rightarrow> bool" where
  "float_row_sound n fp bp thr u f \<longleftrightarrow> af_uid f = u \<and> 0 \<le> total_float f
     \<and> 0 \<le> free_float_of f \<and> (critical f \<longleftrightarrow> total_float f \<le> thr)
     \<and> (\<exists>a t l. activity_by_uid n u = Some a \<and> by_uid fp u = Some t \<and> late_by_uid bp u = Some l
          \<and> early_finish t \<le> late_finish l \<and> late_finish l \<le> bp_project_late_finish bp
          \<and> total_float f \<le> measure_float a (early_finish t) (late_finish l))"


lemma float_analysis_rows:
  assumes fwd: "forward_pass sha n snap policy = Inr fp" and bwd: "backward_pass sha n fp snap_arg late_arg policy_arg = Inr bp"
    and wf: "wf_network n" and plain: "untouched_network n" and nob: "no_boundaries n"
    and free: "\<forall>a \<in> set (activities n). pa_constraint_type a \<notin> {SNLT, FNLT}"
    and late: "fp_project_finish fp \<le> bp_project_late_finish bp"
  shows "\<exists>fa. float_analysis sha n fp bp thr = Inr fa \<and> list_all2 (float_row_sound n fp bp thr)
    (fp_order fp) (fa_rows fa)"
proof -
  have ok: "network_ok n" and snap: "fp_snap_milestones fp = snap" and pol: "fp_progress_policy fp = policy"
    and finger: "fp_network_fingerprint fp = network_fingerprint sha n" using fwd by (auto elim: forward_pass_run)
  obtain over where over: "overridden_edges n policy = Inr over" "overridden_relationships bp = over"
    and bp: "bp_network_fingerprint bp = network_fingerprint sha n" "bp_progress_policy bp = policy"
      "bp_snap_milestones bp = snap"
    using bwd unfolding snap [symmetric] pol [symmetric] by (rule backward_pass_run) simp
  have none: "set (overridden_relationships bp) = {}" using over overridden_untouched [OF ok plain, of policy] by simp
  note adm = early_admissible [OF fwd wf plain free late]
  have known: "\<exists>t. by_uid fp (pa_uid a) = Some t" if "a \<in> set (activities n)" for a
    using forward_pass_rows(6) [OF fwd activity_uid_mem [OF that]] by blast
  note pinned = exactly_pinned_untouched [where early = "by_uid fp", OF plain known]
  define snapped where "snapped = snapped_zero_spans n snap (by_uid fp) {}"
  define placed where "placed = calendar_placed_starts n (by_uid fp) {} snapped"
  have in_snapped: "remaining a = 0 \<and> snap" if "a \<in> set (activities n)" "pa_uid a \<in> snapped" for a
    using that activity_uid_unique [OF network_ok_distinct [OF ok]] by (auto simp: snapped_def snapped_zero_spans_def)
  have in_placed: "0 < remaining a \<or> pa_uid a \<in> snapped" if "a \<in> set (activities n)" "pa_uid a \<in> placed" for a
    using that activity_uid_unique [OF network_ok_distinct [OF ok]] by (auto simp: placed_def calendar_placed_starts_def)
  have room: "\<exists>l. movement_limit n (by_uid fp) snapped a = Inr (pa_uid a, l)
      \<and> (\<forall>t. by_uid fp (pa_uid a) = Some t \<longrightarrow> early_start t \<le> fst l \<and> early_finish t \<le> snd l)"
    if a: "a \<in> set (activities n)" for a
  proof -
    obtain t where t: "by_uid fp (pa_uid a) = Some t" "forward_times n snap policy (pa_uid a) (by_uid fp) = Inr t"
      using forward_pass_rows(6) [OF fwd activity_uid_mem [OF a]] by blast
    have fresh: "state_of a = NOT_STARTED" "pa_constraint_type a \<notin> {MSO, MFO}"
      using plain a by (auto simp: untouched_network_def)
    note least = untouched_least(1,2) [OF ok wf plain t(2) a] and ge = untouched_ge(2,3) [OF ok wf t(2) a fresh]
    from movement_limit_room [where early = "by_uid fp" and snapped = snapped, OF wf_networkD(1) [OF wf a] remaining_nonneg [OF network_okD [OF ok a]] t(1)
        untouched_state(1) [OF fwd plain a t(1)] untouched_unstarted [OF fresh(1)] least ge] in_snapped [OF a] t(1)
    show ?thesis by fastforce
  qed
  from movement_limits_room [OF network_ok_distinct [OF ok] room] obtain ls where
    ls: "rmap (movement_limit n (by_uid fp) snapped) (activities n) = Inr ls"
    and lim: "\<And>a. a \<in> set (activities n) \<Longrightarrow> \<exists>l. map_of (rev ls) (pa_uid a) = Some l
      \<and> (\<forall>t. by_uid fp (pa_uid a) = Some t \<longrightarrow> early_start t \<le> fst l \<and> early_finish t \<le> snd l)" by blast
  define cx where "cx = \<lparr> fx_early = by_uid fp, fx_limits = map_of (rev ls), fx_snapped = snapped,
      fx_placed_starts = placed, fx_immovable = complete_activities fp, fx_late_finish = bp_project_late_finish bp \<rparr>"
  have cx: "float_context_of n fp bp = Inr cx"
    using pinned ls by (simp add: float_context_of_def cx_def snapped_def placed_def snap Let_def)
  have row: "\<exists>f. float_row n cx (late_by_uid bp) {} thr (outgoing_of n) u = Inr f \<and> float_row_sound n fp bp thr u f"
    if u: "u \<in> set (fp_order fp)" for u
  proof -
    obtain a where a: "a \<in> set (activities n)" "pa_uid a = u"
      using u forward_pass_rows(2) [OF fwd] by (auto simp: activity_uids_def)
    have look: "activity_by_uid n u = Some a"
      using activity_by_uid_iff [OF network_ok_distinct [OF ok]] a by blast
    obtain t where t: "by_uid fp (pa_uid a) = Some t" using known [OF a(1)] by blast
    obtain l where l: "late_by_uid bp (pa_uid a) = Some l"
      "backward_row n snap (by_uid fp) {} (bp_project_late_finish bp) (outgoing_of n) (pa_uid a) (late_by_uid bp) = Inr l"
      using backward_pass_rows(2) [OF fwd bwd activity_uid_mem [OF a(1)]] unfolding none by blast
    note lrow = untouched_late_bounds(7,4) [OF ok wf plain nob l(2) a(1)]
    have le: "early_start t \<le> late_start l" "early_finish t \<le> late_finish l"
      using backward_covers [OF fwd bwd wf plain nob adm l(1)] t by (auto simp: early_schedule_def)
    obtain lm where lm: "fx_limits cx (pa_uid a) = Some lm" "early_start t \<le> fst lm" "early_finish t \<le> snd lm"
      using lim [OF a(1)] t by (auto simp: cx_def)
    have "\<exists>f. float_row n cx (late_by_uid bp) {} thr (outgoing_of n) (pa_uid a) = Inr f \<and> af_uid f = pa_uid a
      \<and> 0 \<le> total_float f \<and> 0 \<le> free_float_of f \<and> (critical f \<longleftrightarrow> total_float f \<le> thr)
      \<and> total_float f \<le> measure_float a (early_finish t) (late_finish l)"
      by (rule float_row_nonneg [where sha = sha and snap = snap and policy = policy and fp = fp and lim = lm and t = t])
        (use fwd wf plain nob a(1) lm t l(1) lrow(1) le late in_snapped [OF a(1)] in_placed [OF a(1)]
          in \<open>simp_all add: cx_def\<close>)
    with look t l(1) le(2) lrow(2) show ?thesis unfolding a(2) float_row_sound_def by blast
  qed
  from rmap_total_rel [where Q = "float_row_sound n fp bp thr", OF row] obtain rows where
    rows: "rmap (float_row n cx (late_by_uid bp) {} thr (outgoing_of n)) (fp_order fp) = Inr rows"
    and rel: "list_all2 (float_row_sound n fp bp thr) (fp_order fp) rows" by blast
  then show ?thesis
    using cx successors_outgoing [OF ok] finger bp snap pol
    by (simp add: float_analysis_def check_passes_def raise_if_def none)
qed

subsection \<open>Properties\<close>

text \<open>
  (C7) After the two passes over a network of compiled calendars without reported work, envelopes,
  pinned or not-later-than constraints or inactive boundaries, finishing no later than the late
  finish, the analysis never refuses: it answers one row per activity in the order of the forward
  pass, no total and no free float is negative, and an activity is critical exactly when its total
  float is within the threshold.
\<close>

theorem float_analysis_nonneg:
  assumes "forward_pass sha n snap policy = Inr fp" and "backward_pass sha n fp snap_arg late_arg policy_arg = Inr bp"
    and "wf_network n" and "untouched_network n" and "no_boundaries n"
    and "\<forall>a \<in> set (activities n). pa_constraint_type a \<notin> {SNLT, FNLT}"
    and "fp_project_finish fp \<le> bp_project_late_finish bp"
  shows "\<exists>fa. float_analysis sha n fp bp thr = Inr fa \<and> map af_uid (fa_rows fa) = fp_order fp
    \<and> (\<forall>f \<in> set (fa_rows fa). 0 \<le> total_float f \<and> 0 \<le> free_float_of f \<and> (critical f \<longleftrightarrow> total_float f \<le> thr))"
proof -
  have weak: "map af_uid rows = us \<and> (\<forall>f \<in> set rows. 0 \<le> total_float f \<and> 0 \<le> free_float_of f \<and> (critical f \<longleftrightarrow> total_float f \<le> thr))"
    if "list_all2 (float_row_sound n fp bp thr) us rows" for us rows
    using that by (induction rule: list_all2_induct) (simp_all add: float_row_sound_def)
  from float_analysis_rows [OF assms, of thr] obtain fa where
    "float_analysis sha n fp bp thr = Inr fa" "list_all2 (float_row_sound n fp bp thr) (fp_order fp) (fa_rows fa)" by blast
  with weak [OF this(2)] show ?thesis by blast
qed

definition sample_late :: backward_pass_result where
  "sample_late = (case backward_pass (\<lambda>_. []) sample_network sample_forward None None None of
     Inr bp \<Rightarrow> bp | Inl _ \<Rightarrow> undefined)"

lemma sample_late_run: "backward_pass (\<lambda>_. []) sample_network sample_forward None None None = Inr sample_late"
proof -
  have "case backward_pass (\<lambda>_. []) sample_network sample_forward None None None of Inr _ \<Rightarrow> True | Inl _ \<Rightarrow> False"
    by code_simp
  then show ?thesis unfolding sample_late_def by (auto split: sum.splits)
qed

lemma sample_free: "\<forall>a \<in> set (activities sample_network). pa_constraint_type a \<notin> {SNLT, FNLT}"
  by code_simp

theorem float_analysis_nonneg_witness:
  "\<exists>fa. float_analysis (\<lambda>_. []) sample_network sample_forward sample_backward 0 = Inr fa
    \<and> list_all (\<lambda>f. 0 \<le> total_float f \<and> 0 \<le> free_float_of f) (fa_rows fa) \<and> critical_activities fa = []"
proof -
  have l: "fp_project_finish sample_forward \<le> bp_project_late_finish sample_backward" by code_simp
  have c: "case float_analysis (\<lambda>_. []) sample_network sample_forward sample_backward 0 of
      Inr fa \<Rightarrow> critical_activities fa = [] | Inl _ \<Rightarrow> False" by code_simp
  from float_analysis_nonneg [OF sample_forward_run sample_backward_run sample_networks_wf(1) sample_untouched
      sample_no_boundaries sample_free l, of 0] c
  show ?thesis by (auto simp: list_all_iff)
qed

text \<open>
  (C8) With the default late finish there is always a critical path end: under the same
  conditions, a non-empty network has a critical activity that finishes at the project finish, for
  every threshold that is not negative.
\<close>

theorem critical_activity_exists:
  assumes "forward_pass sha n snap policy = Inr fp" and "backward_pass sha n fp None None None = Inr bp"
    and "wf_network n" and "untouched_network n" and "no_boundaries n"
    and "\<forall>a \<in> set (activities n). pa_constraint_type a \<notin> {SNLT, FNLT}"
    and "activities n \<noteq> []" and "0 \<le> thr"
  shows "\<exists>fa u t. float_analysis sha n fp bp thr = Inr fa \<and> u \<in> set (critical_activities fa)
    \<and> by_uid fp u = Some t \<and> early_finish t = fp_project_finish fp"
proof -
  have late: "bp_project_late_finish bp = fp_project_finish fp" using backward_pass_run [OF assms(2)] by simp
  have fin: "fp_project_finish fp = max_of (project_start n) (map early_finish (fp_times fp))"
    using assms(1) by (rule forward_pass_run)
  note rows = forward_pass_rows [OF assms(1)]
  have "fp_times fp \<noteq> []" using rows(2,4) assms(7) by (auto simp: activity_uids_def)
  then obtain t where t: "t \<in> set (fp_times fp)" "early_finish t = fp_project_finish fp"
    using max_of_image [of "fp_times fp" "project_start n" early_finish] fin by auto
  have row: "by_uid fp (at_uid t) = Some t" by (rule forward_pass_row_mem [OF assms(1) t(1)])
  have u: "at_uid t \<in> set (fp_order fp)" using t(1) rows(4) by (metis image_eqI set_map)
  have "fp_project_finish fp \<le> bp_project_late_finish bp" using late by simp
  from float_analysis_rows [OF assms(1-6) this, of thr] obtain fa where fa: "float_analysis sha n fp bp thr = Inr fa"
    and rel: "list_all2 (float_row_sound n fp bp thr) (fp_order fp) (fa_rows fa)" by blast
  from u obtain i where i: "i < length (fp_order fp)" "fp_order fp ! i = at_uid t" by (auto simp: in_set_conv_nth)
  note at = list_all2_nthD [OF rel i(1), unfolded i(2) float_row_sound_def row]
  have "total_float (fa_rows fa ! i) \<le> thr"
    using at late t(2) assms(8) measure_self by (smt (verit) option.inject)
  with at have "critical (fa_rows fa ! i)" by blast
  moreover have "fa_rows fa ! i \<in> set (fa_rows fa)" using i(1) list_all2_lengthD [OF rel] by simp
  ultimately have "af_uid (fa_rows fa ! i) \<in> set (critical_activities fa)" by (simp add: critical_activities_def)
  then have "at_uid t \<in> set (critical_activities fa)" using at by simp
  with fa row t(2) show ?thesis by blast
qed

theorem critical_activity_exists_witness:
  "\<exists>fa u t. float_analysis (\<lambda>_. []) sample_network sample_forward sample_late 0 = Inr fa
    \<and> u \<in> set (critical_activities fa) \<and> by_uid sample_forward u = Some t \<and> early_finish t = fp_project_finish sample_forward"
  by (rule critical_activity_exists [OF sample_forward_run sample_late_run sample_networks_wf(1) sample_untouched
        sample_no_boundaries sample_free]) (simp_all add: sample_network_def)

text \<open>
  The free float of an edge is measured to the greatest coordinate its predecessor may move
  to: within the predecessor's movement limit, on a working coordinate where the pass would place
  it on one, and with the lag landing no later than the successor's early coordinate.
\<close>

theorem edge_slack_exact:
  assumes "wf_calendar (lag_calendar_for r (pa_calendar q))" and "wf_calendar (pa_calendar a)"
    and "pr_inactive_boundary_uid r = None" and "activity_by_uid n (pr_successor_uid r) = Some q"
    and "fx_early cx (pr_successor_uid r) = Some s" and "fx_limits cx (pa_uid a) = Some l"
    and "edge_slack n cx a t r = Inr x"
  shows "\<exists>y. x = measure_float a (slack_anchor t r) y \<and> y \<le> slack_ceiling l r
    \<and> (slack_domain cx a r \<longrightarrow> contains_coordinate y (intervals (pa_calendar a)))
    \<and> (\<forall>z. shift_lag (lag_calendar_for r (pa_calendar q)) y (pr_lag r) = Inr (Some z) \<longrightarrow> z \<le> slack_available s r)
    \<and> (\<forall>y' z. y' \<le> slack_ceiling l r \<longrightarrow> (slack_domain cx a r \<longrightarrow> contains_coordinate y' (intervals (pa_calendar a))) \<longrightarrow>
         shift_lag (lag_calendar_for r (pa_calendar q)) y' (pr_lag r) = Inr (Some z) \<longrightarrow> z \<le> slack_available s r \<longrightarrow> y' \<le> y)"
  using edge_slack_greatest [OF assms] by (simp add: shift_lag_eq [OF assms(1)])

definition sample_float_context :: float_context where
  "sample_float_context = (case float_context_of sample_network sample_forward sample_late of Inr cx \<Rightarrow> cx | Inl _ \<Rightarrow> undefined)"

theorem edge_slack_exact_witness:
  "\<exists>y. 0 = measure_float (sample_activity 1 5) 5 y \<and> y \<le> 90"
proof -
  let ?r = "sample_edge 11 1 2 FS 2" and ?a = "sample_activity 1 5" and ?q = "sample_activity 2 6"
  obtain s t l where v: "fx_early sample_float_context 2 = Some s" "fx_early sample_float_context 1 = Some t"
    "fx_limits sample_float_context 1 = Some l" "early_finish t = 5" "l = (85, 90)"
    "edge_slack sample_network sample_float_context ?a t ?r = Inr 0"
  proof -
    have "case (fx_early sample_float_context 2, fx_early sample_float_context 1, fx_limits sample_float_context 1) of
        (Some s, Some t, Some l) \<Rightarrow> early_finish t = 5 \<and> l = (85, 90)
          \<and> edge_slack sample_network sample_float_context ?a t ?r = Inr 0
      | _ \<Rightarrow> False" by code_simp
    then show thesis using that by (auto split: option.splits)
  qed
  have k: "pr_successor_uid ?r = 2" "pa_uid ?a = 1" "pa_calendar ?q = sample_calendar" "pa_calendar ?a = sample_calendar"
    "lag_calendar_for ?r sample_calendar = sample_calendar" "pr_inactive_boundary_uid ?r = None"
    by (simp_all add: sample_edge_def sample_activity_def lag_calendar_for_def)
  have q: "activity_by_uid sample_network 2 = Some ?q" and f: "anchors_predecessor_finish ?r" by code_simp+
  from edge_slack_exact [where r = ?r and q = ?q and a = ?a and cx = sample_float_context and n = sample_network
      and s = s and l = l and t = t and x = 0, unfolded k, OF sample_calendar_wf sample_calendar_wf refl q v(1,3,6)]
  show ?thesis using v(4,5) f by auto
qed

end
