(* ===== verification/Rollup.thy ===== *)
theory Rollup
  imports Network_Facts
begin

section \<open>Summary rows (\<open>core/engine/rollup.py\<close>)\<close>

text \<open>
  A summary spans from the earliest start to the latest finish of the placed rows beneath it. The
  code walks the hierarchy depth first with a memo table, the stack of nodes under way and the set
  of nodes found to reach a cycle. The stack is an argument here: the code restores it before it
  returns. The walk is total because a node is only entered when it is not on the stack.
\<close>

definition ROLLUP_PROFILE :: string where "ROLLUP_PROFILE = ''sto-rollup-v1''"

record rolled_up =
  ru_uid :: uuid
  ru_start :: int
  ru_finish :: int
  ru_placed :: nat

record rollup =
  ro_spans :: "rolled_up list"
  ro_empty :: "uuid list"
  ro_cyclic :: "uuid list"

definition rollup_by_uid :: "rollup \<Rightarrow> uuid \<Rightarrow> rolled_up option" where
  "rollup_by_uid r = map_of (rev (map (\<lambda>s. (ru_uid s, s)) (ro_spans r)))"

text \<open>The dictionaries and the set the walk updates.\<close>

record rollup_state =
  rs_answered :: "uuid \<Rightarrow> (int \<times> int) option option"
  rs_leaves :: "uuid \<Rightarrow> uuid set option"
  rs_cyclic :: "uuid set"

text \<open>What the loop over the children of one node accumulates.\<close>

record child_acc =
  ca_starts :: "int list"
  ca_finishes :: "int list"
  ca_found :: "uuid set"
  ca_poisoned :: bool

type_synonym hierarchy = "(uuid \<times> uuid list) list"

definition rollup_child :: "uuid \<Rightarrow> (int \<times> int) option \<Rightarrow> rollup_state \<Rightarrow> child_acc \<Rightarrow> child_acc" where
  "rollup_child c span st acc =
     (let acc = (if c \<in> rs_cyclic st then acc\<lparr>ca_poisoned := True\<rparr> else acc) in
      case span of
        None \<Rightarrow> acc
      | Some (s, f) \<Rightarrow> acc\<lparr>ca_starts := ca_starts acc @ [s], ca_finishes := ca_finishes acc @ [f],
          ca_found := ca_found acc \<union> (case rs_leaves st c of None \<Rightarrow> {} | Some l \<Rightarrow> l)\<rparr>)"

definition rollup_finish :: "uuid \<Rightarrow> child_acc \<Rightarrow> rollup_state \<Rightarrow> (int \<times> int) option \<times> rollup_state" where
  "rollup_finish u acc st =
     (let st = (if ca_poisoned acc then st\<lparr>rs_cyclic := insert u (rs_cyclic st)\<rparr> else st) in
      if ca_poisoned acc \<or> ca_starts acc = []
      then (None, st\<lparr>rs_answered := (rs_answered st)(u \<mapsto> None), rs_leaves := (rs_leaves st)(u \<mapsto> {})\<rparr>)
      else (let span = Some (min_of 0 (ca_starts acc), max_of 0 (ca_finishes acc)) in
            (span, st\<lparr>rs_answered := (rs_answered st)(u \<mapsto> span),
                      rs_leaves := (rs_leaves st)(u \<mapsto> ca_found acc)\<rparr>)))"

definition child_acc_init :: child_acc where
  "child_acc_init = \<lparr> ca_starts = [], ca_finishes = [], ca_found = {}, ca_poisoned = False \<rparr>"

text \<open>Entering a node removes it from the nodes that can still be entered.\<close>

lemma unentered_less:
  assumes "map_of kids u = Some cs" and "u \<notin> set stack"
  shows "card (fst ` set kids - set (stack @ [u])) < card (fst ` set kids - set stack)"
proof (rule psubset_card_mono)
  have "u \<in> fst ` set kids" using assms(1) by (metis domI dom_map_of_conv_image_fst)
  with assms(2) show "fst ` set kids - set (stack @ [u]) \<subset> fst ` set kids - set stack" by auto
qed simp

function resolve ::
    "hierarchy \<Rightarrow> (uuid \<Rightarrow> (int \<times> int) option) \<Rightarrow> uuid list \<Rightarrow> uuid \<Rightarrow> rollup_state
     \<Rightarrow> (int \<times> int) option \<times> rollup_state"
  and resolve_children ::
    "hierarchy \<Rightarrow> (uuid \<Rightarrow> (int \<times> int) option) \<Rightarrow> uuid list \<Rightarrow> uuid list \<Rightarrow> child_acc \<Rightarrow> rollup_state
     \<Rightarrow> child_acc \<times> rollup_state"
where
  "resolve kids spans stack u st =
     (case rs_answered st u of
        Some span \<Rightarrow> (span, st)
      | None \<Rightarrow>
          if u \<in> set stack
          then (None, st\<lparr>rs_cyclic := rs_cyclic st \<union> set (dropWhile (\<lambda>v. v \<noteq> u) stack)\<rparr>)
          else (case map_of kids u of
                  None \<Rightarrow> (case spans u of
                      Some span \<Rightarrow> (Some span, st\<lparr>rs_leaves := (rs_leaves st)(u \<mapsto> {u}),
                                                  rs_answered := (rs_answered st)(u \<mapsto> Some span)\<rparr>)
                    | None \<Rightarrow> rollup_finish u child_acc_init st)
                | Some cs \<Rightarrow>
                    (case resolve_children kids spans (stack @ [u]) cs child_acc_init st of
                       (acc, st) \<Rightarrow> rollup_finish u acc st)))"
| "resolve_children kids spans stack [] acc st = (acc, st)"
| "resolve_children kids spans stack (c # cs) acc st =
     (case resolve kids spans stack c st of
        (span, st) \<Rightarrow> resolve_children kids spans stack cs (rollup_child c span st acc) st)"
  by pat_completeness auto

termination
  by (relation "measures [
      \<lambda>x. (case x of Inl (kids, _, stack, _) \<Rightarrow> card (fst ` set kids - set stack)
                   | Inr (kids, _, stack, _) \<Rightarrow> card (fst ` set kids - set stack)),
      \<lambda>x. (case x of Inl _ \<Rightarrow> 0 | Inr (_, _, _, cs, _) \<Rightarrow> length cs)]")
    (auto dest: unentered_less)

definition rollup_init :: rollup_state where
  "rollup_init = \<lparr> rs_answered = Map.empty, rs_leaves = Map.empty, rs_cyclic = {} \<rparr>"

definition rollup_node ::
    "hierarchy \<Rightarrow> (uuid \<Rightarrow> (int \<times> int) option) \<Rightarrow> uuid
     \<Rightarrow> rolled_up list \<times> uuid list \<times> rollup_state \<Rightarrow> (rolled_up list \<times> uuid list \<times> rollup_state)" where
  "rollup_node kids spans u s =
     (case s of (rolled, empties, st) \<Rightarrow>
      case resolve kids spans [] u st of (span, st) \<Rightarrow>
        if u \<in> rs_cyclic st then (rolled, empties, st)
        else case span of
               None \<Rightarrow> (rolled, empties @ [u], st)
             | Some (a, b) \<Rightarrow>
                 (rolled @ [\<lparr> ru_uid = u, ru_start = a, ru_finish = b,
                              ru_placed = card (case rs_leaves st u of None \<Rightarrow> {} | Some l \<Rightarrow> l) \<rparr>],
                  empties, st))"

definition roll_up :: "hierarchy \<Rightarrow> (uuid \<Rightarrow> (int \<times> int) option) \<Rightarrow> rollup" where
  "roll_up kids spans =
     (case fold (rollup_node kids spans) (map fst kids) ([], [], rollup_init) of
        (rolled, empties, st) \<Rightarrow>
          \<lparr> ro_spans = rolled, ro_empty = empties,
            ro_cyclic = sort_key uuid_text (sorted_list_of_set (rs_cyclic st)) \<rparr>)"

text \<open>A hierarchy with a shared subtree, a cycle and a node without placed leaves.\<close>

definition sample_hierarchy :: hierarchy where
  "sample_hierarchy = [(1, [2, 10]), (2, [11, 10]), (3, [4, 11]), (4, [3]), (6, [13])]"

definition sample_leaf_spans :: "uuid \<Rightarrow> (int \<times> int) option" where
  "sample_leaf_spans = map_of [(10, (4, 9)), (11, (2, 5)), (12, (3, 11))]"

lemma sample_rollup:
  "map (\<lambda>r. (ru_uid r, ru_start r, ru_finish r, ru_placed r)) (ro_spans (roll_up sample_hierarchy sample_leaf_spans))
     = [(1, 2, 9, 2), (2, 2, 9, 2)]"
  "ro_empty (roll_up sample_hierarchy sample_leaf_spans) = [6]"
  "ro_cyclic (roll_up sample_hierarchy sample_leaf_spans) = [3, 4]"
  by code_simp+

end
