(* ===== verification/Rollup_Facts.thy ===== *)
theory Rollup_Facts
  imports Rollup "HOL-Library.Multiset"
begin

section \<open>What the rollup answers\<close>

text \<open>
  The specification mentions no traversal: a node is unanswerable when a cycle can be reached from
  it, and otherwise spans the placed leaves reachable from it. The walk keeps an invariant on its
  memo table and its set of cyclic nodes that makes every answer the specified one, whatever was
  resolved before.
\<close>

subsection \<open>The specification\<close>

definition child_rel :: "hierarchy \<Rightarrow> (uuid \<times> uuid) set" where
  "child_rel kids = {(u, c). \<exists>cs. map_of kids u = Some cs \<and> c \<in> set cs}"

definition reaches_cycle :: "hierarchy \<Rightarrow> uuid \<Rightarrow> bool" where
  "reaches_cycle kids u \<longleftrightarrow> (\<exists>v. (u, v) \<in> (child_rel kids)\<^sup>* \<and> (v, v) \<in> (child_rel kids)\<^sup>+)"

definition placed_leaves :: "hierarchy \<Rightarrow> (uuid \<Rightarrow> (int \<times> int) option) \<Rightarrow> uuid \<Rightarrow> uuid set" where
  "placed_leaves kids spans u =
     {v. (u, v) \<in> (child_rel kids)\<^sup>* \<and> map_of kids v = None \<and> spans v \<noteq> None}"

definition span_over :: "(uuid \<Rightarrow> (int \<times> int) option) \<Rightarrow> uuid set \<Rightarrow> (int \<times> int) option" where
  "span_over spans vs = (if vs = {} then None
     else Some (Min ((\<lambda>v. fst (the (spans v))) ` vs), Max ((\<lambda>v. snd (the (spans v))) ` vs)))"

lemma span_over_empty [simp]: "span_over spans {} = None"
  by (simp add: span_over_def)

abbreviation rolled_span :: "hierarchy \<Rightarrow> (uuid \<Rightarrow> (int \<times> int) option) \<Rightarrow> uuid \<Rightarrow> (int \<times> int) option" where
  "rolled_span kids spans u \<equiv> span_over spans (placed_leaves kids spans u)"

lemma child_rel_finite: "finite (child_rel kids)"
proof -
  have "child_rel kids \<subseteq> (\<Union>(u, cs) \<in> set kids. {u} \<times> set cs)"
    by (auto simp: child_rel_def dest: map_of_SomeD)
  then show ?thesis by (rule finite_subset) auto
qed

lemma child_rel_leaf: "map_of kids u = None \<Longrightarrow> (u, v) \<notin> child_rel kids"
  by (simp add: child_rel_def)

lemma child_reach_leaf: "map_of kids u = None \<Longrightarrow> (u, v) \<in> (child_rel kids)\<^sup>* \<longleftrightarrow> v = u"
  using child_rel_leaf by (auto elim: converse_rtranclE)

lemma placed_leaves_finite: "finite (placed_leaves kids spans u)"
proof -
  have "v = u \<or> v \<in> snd ` child_rel kids" if "(u, v) \<in> (child_rel kids)\<^sup>*" for v
    using that by (rule rtranclE) force+
  then have "placed_leaves kids spans u \<subseteq> insert u (snd ` child_rel kids)"
    by (auto simp: placed_leaves_def)
  then show ?thesis by (rule finite_subset) (simp add: child_rel_finite)
qed

lemma reaches_cycle_step:
  "map_of kids u = Some cs \<Longrightarrow> reaches_cycle kids u \<longleftrightarrow> (\<exists>c \<in> set cs. reaches_cycle kids c)"
proof
  assume u: "map_of kids u = Some cs"
  show "\<exists>c \<in> set cs. reaches_cycle kids c" if "reaches_cycle kids u"
  proof -
    from that obtain v where v: "(u, v) \<in> (child_rel kids)\<^sup>*" "(v, v) \<in> (child_rel kids)\<^sup>+"
      by (auto simp: reaches_cycle_def)
    then have "(u, v) \<in> (child_rel kids)\<^sup>+" by (auto simp: rtrancl_eq_or_trancl)
    then obtain c where "(u, c) \<in> child_rel kids" "(c, v) \<in> (child_rel kids)\<^sup>*" by (meson tranclD)
    with u v(2) show ?thesis by (auto simp: child_rel_def reaches_cycle_def)
  qed
  show "reaches_cycle kids u" if "\<exists>c \<in> set cs. reaches_cycle kids c"
    using that u unfolding reaches_cycle_def child_rel_def
    by (metis (mono_tags, lifting) case_prodI converse_rtrancl_into_rtrancl mem_Collect_eq)
qed

lemma reaches_cycle_leaf: "map_of kids u = None \<Longrightarrow> \<not> reaches_cycle kids u"
  unfolding reaches_cycle_def using child_reach_leaf child_rel_leaf by (metis tranclD)

lemma placed_leaves_node:
  assumes "map_of kids u = Some cs"
  shows "placed_leaves kids spans u = (\<Union>c \<in> set cs. placed_leaves kids spans c)"
proof -
  have "(u, v) \<in> (child_rel kids)\<^sup>* \<longleftrightarrow> v = u \<or> (\<exists>c \<in> set cs. (c, v) \<in> (child_rel kids)\<^sup>*)" for v
    using assms by (subst rtrancl_eq_or_trancl) (auto simp: child_rel_def dest: tranclD intro: rtrancl_into_trancl2)
  with assms show ?thesis by (auto simp: placed_leaves_def)
qed

lemma placed_leaves_leaf:
  assumes "map_of kids u = None"
  shows "placed_leaves kids spans u = (if spans u = None then {} else {u})"
  using child_reach_leaf [OF assms] assms by (auto simp: placed_leaves_def)

text \<open>The span over a union is the span of the spans.\<close>

lemma span_over_Union:
  assumes "\<And>c. c \<in> C \<Longrightarrow> finite (L c)" and "finite C"
  shows "span_over spans (\<Union>c \<in> C. L c) = None \<longleftrightarrow> (\<forall>c \<in> C. span_over spans (L c) = None)"
    and "span_over spans (\<Union>c \<in> C. L c) \<noteq> None \<Longrightarrow>
      span_over spans (\<Union>c \<in> C. L c) = Some (Min {s. \<exists>c \<in> C. \<exists>f. span_over spans (L c) = Some (s, f)},
        Max {f. \<exists>c \<in> C. \<exists>s. span_over spans (L c) = Some (s, f)})"
proof -
  show "span_over spans (\<Union>c \<in> C. L c) = None \<longleftrightarrow> (\<forall>c \<in> C. span_over spans (L c) = None)"
    by (auto simp: span_over_def split: if_splits)
  assume some: "span_over spans (\<Union>c \<in> C. L c) \<noteq> None"
  let ?D = "{c \<in> C. L c \<noteq> {}}"
  let ?s = "\<lambda>v. fst (the (spans v))" and ?f = "\<lambda>v. snd (the (spans v))"
  have D: "finite ?D" "?D \<noteq> {}" using assms(2) some by (auto simp: span_over_def split: if_splits)
  have fin: "finite (L c)" if "c \<in> ?D" for c using assms(1) that by simp
  have union: "(\<Union>c \<in> C. L c) = (\<Union>c \<in> ?D. L c)" by auto
  have sets: "{s. \<exists>c \<in> C. \<exists>f. span_over spans (L c) = Some (s, f)} = (\<lambda>c. Min (?s ` L c)) ` ?D"
    "{f. \<exists>c \<in> C. \<exists>s. span_over spans (L c) = Some (s, f)} = (\<lambda>c. Max (?f ` L c)) ` ?D"
    by (auto simp: span_over_def split: if_splits)
  have "Min (?s ` (\<Union>c \<in> ?D. L c)) = Min ((\<lambda>c. Min (?s ` L c)) ` ?D)"
  proof (rule Min_eqI)
    show "finite (?s ` (\<Union>c \<in> ?D. L c))" using D(1) fin by auto
    show "Min ((\<lambda>c. Min (?s ` L c)) ` ?D) \<le> y" if y: "y \<in> ?s ` (\<Union>c \<in> ?D. L c)" for y
    proof -
      from y obtain c where c: "c \<in> ?D" "y \<in> ?s ` L c" by auto
      have "Min ((\<lambda>c. Min (?s ` L c)) ` ?D) \<le> Min (?s ` L c)" using D c(1) by (intro Min_le) auto
      also have "\<dots> \<le> y" using fin [OF c(1)] c(2) by (intro Min_le) auto
      finally show ?thesis .
    qed
    have "Min ((\<lambda>c. Min (?s ` L c)) ` ?D) \<in> (\<lambda>c. Min (?s ` L c)) ` ?D" using D by (intro Min_in) auto
    then obtain c where c: "c \<in> ?D" "Min ((\<lambda>c. Min (?s ` L c)) ` ?D) = Min (?s ` L c)" by auto
    moreover have "Min (?s ` L c) \<in> ?s ` L c" using fin [OF c(1)] c(1) by (intro Min_in) auto
    ultimately show "Min ((\<lambda>c. Min (?s ` L c)) ` ?D) \<in> ?s ` (\<Union>c \<in> ?D. L c)" by auto
  qed
  moreover have "Max (?f ` (\<Union>c \<in> ?D. L c)) = Max ((\<lambda>c. Max (?f ` L c)) ` ?D)"
  proof (rule Max_eqI)
    show "finite (?f ` (\<Union>c \<in> ?D. L c))" using D(1) fin by auto
    show "y \<le> Max ((\<lambda>c. Max (?f ` L c)) ` ?D)" if y: "y \<in> ?f ` (\<Union>c \<in> ?D. L c)" for y
    proof -
      from y obtain c where c: "c \<in> ?D" "y \<in> ?f ` L c" by auto
      have "y \<le> Max (?f ` L c)" using fin [OF c(1)] c(2) by (intro Max_ge) auto
      also have "\<dots> \<le> Max ((\<lambda>c. Max (?f ` L c)) ` ?D)" using D c(1) by (intro Max_ge) auto
      finally show ?thesis .
    qed
    have "Max ((\<lambda>c. Max (?f ` L c)) ` ?D) \<in> (\<lambda>c. Max (?f ` L c)) ` ?D" using D by (intro Max_in) auto
    then obtain c where c: "c \<in> ?D" "Max ((\<lambda>c. Max (?f ` L c)) ` ?D) = Max (?f ` L c)" by auto
    moreover have "Max (?f ` L c) \<in> ?f ` L c" using fin [OF c(1)] c(1) by (intro Max_in) auto
    ultimately show "Max ((\<lambda>c. Max (?f ` L c)) ` ?D) \<in> ?f ` (\<Union>c \<in> ?D. L c)" by auto
  qed
  moreover have "(\<Union>c \<in> C. L c) \<noteq> {}" using some unfolding span_over_def by argo
  ultimately show "span_over spans (\<Union>c \<in> C. L c) = Some (Min {s. \<exists>c \<in> C. \<exists>f. span_over spans (L c) = Some (s, f)},
        Max {f. \<exists>c \<in> C. \<exists>s. span_over spans (L c) = Some (s, f)})"
    unfolding sets union by (simp add: span_over_def)
qed

subsection \<open>The invariant of the walk\<close>

definition node_answer ::
    "hierarchy \<Rightarrow> (uuid \<Rightarrow> (int \<times> int) option) \<Rightarrow> rollup_state \<Rightarrow> uuid \<Rightarrow> (int \<times> int) option \<Rightarrow> bool" where
  "node_answer kids spans st u r \<longleftrightarrow>
     (if reaches_cycle kids u then r = None \<and> u \<in> rs_cyclic st
      else r = rolled_span kids spans u \<and> (r \<noteq> None \<longrightarrow> rs_leaves st u = Some (placed_leaves kids spans u)))"

definition rollup_inv :: "hierarchy \<Rightarrow> (uuid \<Rightarrow> (int \<times> int) option) \<Rightarrow> rollup_state \<Rightarrow> bool" where
  "rollup_inv kids spans st \<longleftrightarrow> rs_cyclic st \<subseteq> Collect (reaches_cycle kids)
     \<and> (\<forall>u r. rs_answered st u = Some r \<longrightarrow> node_answer kids spans st u r)"

abbreviation on_path :: "hierarchy \<Rightarrow> uuid list \<Rightarrow> bool" where
  "on_path kids \<equiv> successively (\<lambda>u c. (u, c) \<in> child_rel kids)"

lemma path_to_last: "successively (\<lambda>u c. (u, c) \<in> R) (xs @ [y]) \<Longrightarrow> v \<in> set xs \<Longrightarrow> (v, y) \<in> R\<^sup>+"
proof (induction xs arbitrary: v)
  case (Cons x xs)
  show ?case
  proof (cases "xs = []")
    case False
    then obtain z zs where xs: "xs = z # zs" by (cases xs) auto
    with Cons.prems Cons.IH [of z] have "(x, z) \<in> R" "(z, y) \<in> R\<^sup>+" by auto
    with Cons xs show ?thesis by (auto intro: trancl_into_trancl2)
  qed (use Cons in auto)
qed simp

lemma path_from_first: "successively (\<lambda>u c. (u, c) \<in> R) (x # xs) \<Longrightarrow> v \<in> set xs \<Longrightarrow> (x, v) \<in> R\<^sup>+"
proof (induction xs arbitrary: x)
  case (Cons y xs)
  then have "(x, y) \<in> R" by simp
  with Cons show ?case by (cases "v = y") (auto intro: trancl_into_trancl2)
qed simp

lemma dropWhile_mem: "u \<in> set xs \<Longrightarrow> u \<in> set (dropWhile (\<lambda>v. v \<noteq> u) xs)"
  by (induction xs) auto

lemma path_closes_cycle:
  assumes "on_path kids (stack @ [u])" and "u \<in> set stack" and "v \<in> set (dropWhile (\<lambda>v. v \<noteq> u) stack)"
  shows "reaches_cycle kids v"
proof -
  from assms(2) obtain pre post where split: "stack = pre @ u # post" "u \<notin> set pre" by (meson split_list_first)
  have "\<forall>x \<in> set pre. x \<noteq> u" using split(2) by blast
  then have "dropWhile (\<lambda>v. v \<noteq> u) stack = u # post" by (simp add: split(1) dropWhile_append2)
  with assms(3) have v: "v \<in> set (u # post)" by simp
  have p: "on_path kids ((u # post) @ [u])"
    using assms(1) unfolding split(1) append_assoc successively_append_iff by blast
  have "(v, u) \<in> (child_rel kids)\<^sup>+" by (rule path_to_last [OF p v])
  moreover have "(u, u) \<in> (child_rel kids)\<^sup>+" using path_from_first [of _ u "post @ [u]" u] p by simp
  ultimately show ?thesis unfolding reaches_cycle_def by (meson trancl_into_rtrancl)
qed

lemma node_answer_grows:
  assumes "node_answer kids spans st v r" and "rs_cyclic st \<subseteq> rs_cyclic st'" and "rs_leaves st' v = rs_leaves st v"
  shows "node_answer kids spans st' v r"
  using assms by (auto simp: node_answer_def split: if_splits)

lemma rollup_inv_answer:
  assumes "rollup_inv kids spans st" and "rs_cyclic st \<subseteq> rs_cyclic st'" and "rs_cyclic st' \<subseteq> Collect (reaches_cycle kids)"
    and "\<And>v. v \<noteq> u \<Longrightarrow> rs_answered st' v = rs_answered st v \<and> rs_leaves st' v = rs_leaves st v"
    and "\<And>r. rs_answered st' u = Some r \<Longrightarrow> node_answer kids spans st' u r"
  shows "rollup_inv kids spans st'"
  unfolding rollup_inv_def
proof (intro conjI allI impI)
  fix v r assume v: "rs_answered st' v = Some r"
  show "node_answer kids spans st' v r"
  proof (cases "v = u")
    case True
    with assms(5) v show ?thesis by simp
  next
    case False
    with assms(4) v have "rs_answered st v = Some r" "rs_leaves st' v = rs_leaves st v" by auto
    with assms(1,2) show ?thesis unfolding rollup_inv_def by (blast intro: node_answer_grows)
  qed
qed (rule assms(3))

text \<open>What the loop over the children has gathered.\<close>

definition gathered ::
    "hierarchy \<Rightarrow> (uuid \<Rightarrow> (int \<times> int) option) \<Rightarrow> uuid list \<Rightarrow> child_acc \<Rightarrow> child_acc \<Rightarrow> bool" where
  "gathered kids spans cs acc acc' \<longleftrightarrow>
     (ca_poisoned acc' \<longleftrightarrow> ca_poisoned acc \<or> (\<exists>c \<in> set cs. reaches_cycle kids c))
   \<and> (\<not> ca_poisoned acc' \<longrightarrow>
        set (ca_starts acc') = set (ca_starts acc) \<union> {s. \<exists>c \<in> set cs. \<exists>f. rolled_span kids spans c = Some (s, f)}
      \<and> set (ca_finishes acc') = set (ca_finishes acc) \<union> {f. \<exists>c \<in> set cs. \<exists>s. rolled_span kids spans c = Some (s, f)}
      \<and> ca_found acc' = ca_found acc \<union> (\<Union>c \<in> set cs. placed_leaves kids spans c))"

lemma gathered_child:
  assumes inv: "rollup_inv kids spans st" and ans: "node_answer kids spans st c r"
    and rest: "gathered kids spans cs (rollup_child c r st acc) acc'"
  shows "gathered kids spans (c # cs) acc acc'"
proof (cases "reaches_cycle kids c")
  case True
  with ans have "r = None" "c \<in> rs_cyclic st" by (auto simp: node_answer_def)
  then have "ca_poisoned (rollup_child c r st acc)" by (simp add: rollup_child_def)
  with rest True show ?thesis by (simp add: gathered_def)
next
  case False
  with inv have "c \<notin> rs_cyclic st" by (auto simp: rollup_inv_def)
  moreover from False ans have r: "r = rolled_span kids spans c"
    and l: "r \<noteq> None \<Longrightarrow> rs_leaves st c = Some (placed_leaves kids spans c)" by (auto simp: node_answer_def)
  moreover have "r = None \<longleftrightarrow> placed_leaves kids spans c = {}" using r by (simp add: span_over_def)
  ultimately show ?thesis
    using rest False by (cases r) (auto simp: gathered_def rollup_child_def r [symmetric] split: prod.splits)
qed

lemma finish_node:
  assumes inv: "rollup_inv kids spans st" and cs: "map_of kids u = Some cs"
    and acc: "gathered kids spans cs child_acc_init acc" and run: "rollup_finish u acc st = (r, st')"
  shows "rollup_inv kids spans st' \<and> node_answer kids spans st' u r"
proof (cases "ca_poisoned acc")
  case True
  then have u: "reaches_cycle kids u" using acc by (simp add: gathered_def child_acc_init_def reaches_cycle_step [OF cs])
  have r: "r = None" and st': "st' = st\<lparr>rs_cyclic := insert u (rs_cyclic st),
      rs_answered := (rs_answered st)(u \<mapsto> None), rs_leaves := (rs_leaves st)(u \<mapsto> {})\<rparr>"
    using run True by (auto simp: rollup_finish_def Let_def)
  have ans: "node_answer kids spans st' u r" using u by (simp add: node_answer_def r st')
  moreover have "rollup_inv kids spans st'"
    by (rule rollup_inv_answer [OF inv, where u = u]) (use inv u ans in \<open>auto simp: st' r rollup_inv_def\<close>)
  ultimately show ?thesis by blast
next
  case False
  then have u: "\<not> reaches_cycle kids u" using acc by (simp add: gathered_def child_acc_init_def reaches_cycle_step [OF cs])
  let ?S = "{s. \<exists>c \<in> set cs. \<exists>f. rolled_span kids spans c = Some (s, f)}"
    and ?F = "{f. \<exists>c \<in> set cs. \<exists>s. rolled_span kids spans c = Some (s, f)}"
  have sets: "set (ca_starts acc) = ?S" "set (ca_finishes acc) = ?F" "ca_found acc = placed_leaves kids spans u"
    using acc False by (simp_all add: gathered_def child_acc_init_def placed_leaves_node [OF cs])
  note union = span_over_Union [of "set cs" "placed_leaves kids spans" spans,
      folded placed_leaves_node [OF cs, of spans], OF placed_leaves_finite finite_set]
  have empty: "ca_starts acc = [] \<longleftrightarrow> rolled_span kids spans u = None"
    using sets(1) union(1) by (simp only: set_empty [symmetric]) fastforce
  have fins: "ca_finishes acc = [] \<longleftrightarrow> ca_starts acc = []"
    using sets(1,2) by (simp only: set_empty [symmetric]) fastforce
  have r: "r = rolled_span kids spans u"
  proof (cases "ca_starts acc = []")
    case True
    with run empty show ?thesis by (auto simp: rollup_finish_def Let_def)
  next
    case ne: False
    then have "r = Some (min_of 0 (ca_starts acc), max_of 0 (ca_finishes acc))"
      using run False by (auto simp: rollup_finish_def Let_def)
    with union(2) ne empty fins show ?thesis by (simp add: min_of_eq max_of_eq sets)
  qed
  have st': "rs_cyclic st' = rs_cyclic st" "rs_answered st' = (rs_answered st)(u \<mapsto> r)"
    "rs_leaves st' = (rs_leaves st)(u \<mapsto> if ca_starts acc = [] then {} else placed_leaves kids spans u)"
    using run False sets(3) by (auto simp: rollup_finish_def Let_def split: if_splits)
  have ans: "node_answer kids spans st' u r" using u r empty by (simp add: node_answer_def st')
  moreover have "rollup_inv kids spans st'"
    by (rule rollup_inv_answer [OF inv, where u = u]) (use inv ans in \<open>auto simp: st' rollup_inv_def\<close>)
  ultimately show ?thesis by blast
qed

lemma resolve_correct:
  "rollup_inv kids spans st \<Longrightarrow> on_path kids (stack @ [u]) \<Longrightarrow> resolve kids spans stack u st = (r, st') \<Longrightarrow>
    rollup_inv kids spans st' \<and> node_answer kids spans st' u r"
  "rollup_inv kids spans st \<Longrightarrow> \<forall>c \<in> set cs. on_path kids (stack @ [c]) \<Longrightarrow>
    resolve_children kids spans stack cs acc st = (acc', st') \<Longrightarrow>
    rollup_inv kids spans st' \<and> gathered kids spans cs acc acc'"
proof (induction kids spans stack u st and kids spans stack cs acc st arbitrary: r st' and acc' st'
    rule: resolve_resolve_children.induct)
  case (1 kids spans stack u st)
  note run = 1(4)
  show ?case
  proof (cases "rs_answered st u")
    case (Some span)
    with run 1(2) show ?thesis by (auto simp: rollup_inv_def)
  next
    case new: None
    show ?thesis
    proof (cases "u \<in> set stack")
      case True
      note cyc = path_closes_cycle [OF 1(3) True]
      have "u \<in> set (dropWhile (\<lambda>v. v \<noteq> u) stack)"
        by (rule dropWhile_mem [OF True])
      moreover have eq: "r = None" "st' = st\<lparr>rs_cyclic := rs_cyclic st \<union> set (dropWhile (\<lambda>v. v \<noteq> u) stack)\<rparr>"
        using run new True by auto
      ultimately have "node_answer kids spans st' u r" using cyc by (simp add: node_answer_def)
      moreover have "rollup_inv kids spans st'"
        by (rule rollup_inv_answer [OF 1(2), where u = u])
          (use 1(2) cyc new in \<open>auto simp: eq rollup_inv_def\<close>)
      ultimately show ?thesis by blast
    next
      case fresh: False
      show ?thesis
      proof (cases "map_of kids u")
        case leaf: None
        have no: "\<not> reaches_cycle kids u" by (rule reaches_cycle_leaf [OF leaf])
        show ?thesis
        proof (cases "spans u")
          case None
          then have eq: "r = None" "st' = st\<lparr>rs_answered := (rs_answered st)(u \<mapsto> None), rs_leaves := (rs_leaves st)(u \<mapsto> {})\<rparr>"
            using run new fresh leaf by (auto simp: rollup_finish_def child_acc_init_def)
          have ans: "node_answer kids spans st' u r"
            using no None by (simp add: node_answer_def eq span_over_def placed_leaves_leaf [OF leaf])
          moreover have "rollup_inv kids spans st'"
            by (rule rollup_inv_answer [OF 1(2), where u = u])
              (use 1(2) ans in \<open>auto simp: eq rollup_inv_def\<close>)
          ultimately show ?thesis by blast
        next
          case (Some span)
          then have eq: "r = Some span" "st' = st\<lparr>rs_leaves := (rs_leaves st)(u \<mapsto> {u}), rs_answered := (rs_answered st)(u \<mapsto> Some span)\<rparr>"
            using run new fresh leaf by auto
          have ans: "node_answer kids spans st' u r"
            using no Some by (simp add: node_answer_def eq span_over_def placed_leaves_leaf [OF leaf])
          moreover have "rollup_inv kids spans st'"
            by (rule rollup_inv_answer [OF 1(2), where u = u])
              (use 1(2) ans in \<open>auto simp: eq rollup_inv_def\<close>)
          ultimately show ?thesis by blast
        qed
      next
        case node: (Some cs)
        obtain acc st1 where kids: "resolve_children kids spans (stack @ [u]) cs child_acc_init st = (acc, st1)"
          by (cases "resolve_children kids spans (stack @ [u]) cs child_acc_init st")
        have "\<forall>c \<in> set cs. on_path kids ((stack @ [u]) @ [c])"
          using 1(3) node by (auto simp: successively_append_iff child_rel_def)
        from 1(1) [OF new fresh node 1(2) this kids] have
          "rollup_inv kids spans st1" "gathered kids spans cs child_acc_init acc" by auto
        moreover have "rollup_finish u acc st1 = (r, st')" using run new fresh node kids by simp
        ultimately show ?thesis using finish_node node by blast
      qed
    qed
  qed
next
  case (2 kids spans stack acc st)
  then show ?case by (simp add: gathered_def)
next
  case (3 kids spans stack c cs acc st)
  obtain span st1 where one: "resolve kids spans stack c st = (span, st1)" by (cases "resolve kids spans stack c st")
  have step: "rollup_inv kids spans st1 \<and> node_answer kids spans st1 c span"
    using 3(1) [OF 3(3) _ one] 3(4) by simp
  have "resolve_children kids spans stack cs (rollup_child c span st1 acc) st1 = (acc', st')"
    using 3(5) one by simp
  with 3(2) [OF one [symmetric]] step 3(4) have
    "rollup_inv kids spans st' \<and> gathered kids spans cs (rollup_child c span st1 acc) acc'" by simp
  with step gathered_child show ?case by blast
qed

lemma finish_grows: "rollup_finish u acc st = (r, st') \<Longrightarrow> rs_cyclic st \<subseteq> rs_cyclic st'"
  by (auto simp: rollup_finish_def Let_def split: if_splits)

lemma resolve_grows:
  "resolve kids spans stack u st = (r, st') \<Longrightarrow> rs_cyclic st \<subseteq> rs_cyclic st'"
  "resolve_children kids spans stack cs acc st = (acc', st') \<Longrightarrow> rs_cyclic st \<subseteq> rs_cyclic st'"
proof (induction kids spans stack u st and kids spans stack cs acc st arbitrary: r st' and acc' st'
    rule: resolve_resolve_children.induct)
  case (1 kids spans stack u st)
  show ?case
  proof (cases "\<exists>cs. rs_answered st u = None \<and> u \<notin> set stack \<and> map_of kids u = Some cs")
    case True
    then obtain cs where cs: "rs_answered st u = None" "u \<notin> set stack" "map_of kids u = Some cs" by blast
    obtain acc st1 where kids: "resolve_children kids spans (stack @ [u]) cs child_acc_init st = (acc, st1)"
      by (cases "resolve_children kids spans (stack @ [u]) cs child_acc_init st")
    from 1(1) [OF cs kids] finish_grows [of u acc st1 r st'] 1(2) cs kids show ?thesis by auto
  next
    case False
    with 1(2) finish_grows [of u child_acc_init st r st'] show ?thesis by (auto split: option.splits if_splits)
  qed
next
  case (3 kids spans stack c cs acc st)
  obtain span st1 where one: "resolve kids spans stack c st = (span, st1)" by (cases "resolve kids spans stack c st")
  with 3(1) [OF one] 3(2) [OF one [symmetric]] 3(3) show ?case by fastforce
qed simp

subsection \<open>The report\<close>

definition rolled_row :: "hierarchy \<Rightarrow> (uuid \<Rightarrow> (int \<times> int) option) \<Rightarrow> uuid \<Rightarrow> rolled_up" where
  "rolled_row kids spans u =
     \<lparr> ru_uid = u, ru_start = fst (the (rolled_span kids spans u)), ru_finish = snd (the (rolled_span kids spans u)),
       ru_placed = card (placed_leaves kids spans u) \<rparr>"

definition answerable :: "hierarchy \<Rightarrow> (uuid \<Rightarrow> (int \<times> int) option) \<Rightarrow> uuid \<Rightarrow> bool" where
  "answerable kids spans u \<longleftrightarrow> \<not> reaches_cycle kids u \<and> placed_leaves kids spans u \<noteq> {}"

definition unplaced :: "hierarchy \<Rightarrow> (uuid \<Rightarrow> (int \<times> int) option) \<Rightarrow> uuid \<Rightarrow> bool" where
  "unplaced kids spans u \<longleftrightarrow> \<not> reaches_cycle kids u \<and> placed_leaves kids spans u = {}"

lemma rollup_node_step:
  assumes inv: "rollup_inv kids spans st" and run: "rollup_node kids spans u (rolled, empties, st) = (rolled', empties', st')"
  shows "rollup_inv kids spans st' \<and> rs_cyclic st \<subseteq> rs_cyclic st'
    \<and> (reaches_cycle kids u \<longrightarrow> u \<in> rs_cyclic st')
    \<and> rolled' = rolled @ map (rolled_row kids spans) (filter (answerable kids spans) [u])
    \<and> empties' = empties @ filter (unplaced kids spans) [u]"
proof -
  obtain span st1 where one: "resolve kids spans [] u st = (span, st1)" by (cases "resolve kids spans [] u st")
  have ok: "rollup_inv kids spans st1" "node_answer kids spans st1 u span"
    using resolve_correct(1) [OF inv _ one] by auto
  have cyc: "u \<in> rs_cyclic st1 \<longleftrightarrow> reaches_cycle kids u"
    using ok by (auto simp: rollup_inv_def node_answer_def split: if_splits)
  have st': "st' = st1" using run one by (auto simp: rollup_node_def split: if_splits option.splits)
  show ?thesis
  proof (cases "reaches_cycle kids u")
    case True
    with cyc run one ok(1) resolve_grows(1) [OF one] show ?thesis
      by (auto simp: rollup_node_def answerable_def unplaced_def)
  next
    case False
    with ok(2) have span: "span = rolled_span kids spans u" "span \<noteq> None \<longrightarrow> rs_leaves st1 u = Some (placed_leaves kids spans u)"
      by (auto simp: node_answer_def)
    moreover have "span = None \<longleftrightarrow> placed_leaves kids spans u = {}" using span(1) by (simp add: span_over_def)
    ultimately show ?thesis
      using False cyc run one ok(1) resolve_grows(1) [OF one]
      by (auto simp: rollup_node_def answerable_def unplaced_def rolled_row_def split: option.splits)
  qed
qed

lemma rollup_fold:
  assumes "rollup_inv kids spans st" and "fold (rollup_node kids spans) us (rolled, empties, st) = (rolled', empties', st')"
  shows "rollup_inv kids spans st' \<and> rs_cyclic st \<subseteq> rs_cyclic st' \<and> {u \<in> set us. reaches_cycle kids u} \<subseteq> rs_cyclic st'
    \<and> rolled' = rolled @ map (rolled_row kids spans) (filter (answerable kids spans) us)
    \<and> empties' = empties @ filter (unplaced kids spans) us"
  using assms
proof (induction us arbitrary: rolled empties st)
  case (Cons u us)
  obtain ro em st1 where one: "rollup_node kids spans u (rolled, empties, st) = (ro, em, st1)"
    by (cases "rollup_node kids spans u (rolled, empties, st)")
  note step = rollup_node_step [OF Cons.prems(1) one]
  have rest: "fold (rollup_node kids spans) us (ro, em, st1) = (rolled', empties', st')"
    using Cons.prems(2) one by simp
  from Cons.IH [OF _ rest] step show ?case by auto
qed simp

subsection \<open>Properties\<close>

text \<open>
  (C11) The rollup is the specified one, whatever the shape of the hierarchy: the cyclic nodes are
  exactly those from which a cycle can be reached, every other node with a placed leaf beneath it
  spans from the earliest start to the latest finish of its placed leaves and counts each of them
  once, the remaining ones are reported empty, and the three lists keep the hierarchy's order (the
  cyclic one is sorted by text).
\<close>

theorem roll_up_correct:
  "roll_up kids spans =
     \<lparr> ro_spans = map (rolled_row kids spans) (filter (answerable kids spans) (map fst kids)),
       ro_empty = filter (unplaced kids spans) (map fst kids),
       ro_cyclic = sort_key uuid_text (sorted_list_of_set {u \<in> set (map fst kids). reaches_cycle kids u}) \<rparr>"
proof -
  obtain rolled empties st where run: "fold (rollup_node kids spans) (map fst kids) ([], [], rollup_init) = (rolled, empties, st)"
    by (cases "fold (rollup_node kids spans) (map fst kids) ([], [], rollup_init)")
  have init: "rollup_inv kids spans rollup_init" by (simp add: rollup_inv_def rollup_init_def)
  note res = rollup_fold [OF init run]
  have "u \<in> set (map fst kids)" if "reaches_cycle kids u" for u
    using that reaches_cycle_leaf [of kids u] by (auto simp: map_of_eq_None_iff)
  with res have "rs_cyclic st = {u \<in> set (map fst kids). reaches_cycle kids u}" by (auto simp: rollup_inv_def)
  with res run show ?thesis by (simp add: roll_up_def)
qed

text \<open>
  The report does not depend on the order in which the hierarchy is presented: two
  presentations of the same tree name the same cyclic nodes and report the same rows and the same
  empty nodes, up to their order.
\<close>

theorem roll_up_order_independent:
  assumes "mset kids = mset kids'" and "distinct (map fst kids)"
  shows "ro_cyclic (roll_up kids spans) = ro_cyclic (roll_up kids' spans)
    \<and> mset (ro_spans (roll_up kids spans)) = mset (ro_spans (roll_up kids' spans))
    \<and> mset (ro_empty (roll_up kids spans)) = mset (ro_empty (roll_up kids' spans))"
proof -
  have "distinct (map fst kids')" using assms by (metis mset_eq_imp_distinct_iff mset_map)
  then have maps: "map_of kids = map_of kids'"
    using assms mset_eq_setD [OF assms(1)] by (simp add: map_of_inject_set)
  then have rel: "child_rel kids = child_rel kids'" by (simp add: child_rel_def)
  have cyc: "reaches_cycle kids = reaches_cycle kids'" and leaves: "placed_leaves kids = placed_leaves kids'"
    by (simp_all add: fun_eq_iff reaches_cycle_def placed_leaves_def rel maps)
  have preds: "rolled_row kids spans = rolled_row kids' spans" "answerable kids spans = answerable kids' spans"
    "unplaced kids spans = unplaced kids' spans"
    by (simp_all add: fun_eq_iff rolled_row_def answerable_def unplaced_def cyc leaves)
  have keys: "mset (map fst kids) = mset (map fst kids')" using assms(1) by simp
  then have "set (map fst kids) = set (map fst kids')" by (rule mset_eq_setD)
  moreover have "mset (filter P (map fst kids)) = mset (filter P (map fst kids'))" for P
    using keys by (metis mset_filter)
  ultimately show ?thesis
    unfolding roll_up_correct preds cyc rollup.simps mset_map by simp
qed

theorem roll_up_order_independent_witness:
  "map (\<lambda>r. (ru_uid r, ru_start r, ru_finish r, ru_placed r)) (ro_spans (roll_up sample_hierarchy sample_leaf_spans))
     = [(1, 2, 9, 2), (2, 2, 9, 2)]
   \<and> ro_empty (roll_up sample_hierarchy sample_leaf_spans) = [6]
   \<and> ro_cyclic (roll_up (rev sample_hierarchy) sample_leaf_spans) = [3, 4]"
proof -
  have m: "mset sample_hierarchy = mset (rev sample_hierarchy)" "distinct (map fst sample_hierarchy)"
    by (simp_all add: sample_hierarchy_def)
  from roll_up_order_independent [OF m, of sample_leaf_spans] sample_rollup show ?thesis by simp
qed

end
