(* ===== verification/Dates.thy ===== *)
theory Dates
  imports Network
begin

section \<open>Dates, datetimes and integers in text\<close>

text \<open>
  What the code uses of Python's \<open>datetime\<close> and \<open>int\<close>. A date is its proleptic ordinal, a naive
  datetime the number of microseconds since ordinal zero; both have the library's range, and an
  operation that leaves it raises \<open>OverflowError\<close>. \<open>int_seconds\<close> is \<open>int(delta.total_seconds())\<close>:
  truncation toward zero. The library divides in binary floating point there, which is exact for
  every whole number of seconds and, with a fraction, for every difference below
  \<open>2 ^ 33\<close> seconds.
\<close>

type_synonym date = int
type_synonym moment = int

definition us_per_day :: int where "us_per_day = 86400000000"

definition max_ordinal :: int where "max_ordinal = 3652059"

definition date_ok :: "date \<Rightarrow> bool" where
  "date_ok d \<longleftrightarrow> 1 \<le> d \<and> d \<le> max_ordinal"

definition moment_ok :: "moment \<Rightarrow> bool" where
  "moment_ok m \<longleftrightarrow> date_ok (m div us_per_day)"

definition date_of :: "moment \<Rightarrow> date" where
  "date_of m = m div us_per_day"

definition midnight_of :: "date \<Rightarrow> moment" where
  "midnight_of d = d * us_per_day"

text \<open>\<open>date + timedelta(days=n)\<close>.\<close>

definition add_days :: "date \<Rightarrow> int \<Rightarrow> date result" where
  "add_days d n = (if \<bar>n\<bar> > 999999999 \<or> \<not> date_ok (d + n) then Inl OverflowError else Inr (d + n))"

text \<open>\<open>datetime + timedelta(...)\<close>, the delta in microseconds; a delta is bounded in whole days.\<close>

definition add_micros :: "moment \<Rightarrow> int \<Rightarrow> moment result" where
  "add_micros m us = (if \<bar>us div us_per_day\<bar> > 999999999 \<or> \<not> moment_ok (m + us) then Inl OverflowError else Inr (m + us))"

definition int_seconds :: "int \<Rightarrow> int" where
  "int_seconds us = (if 0 \<le> us then us div 1000000 else - ((- us) div 1000000))"

definition weekday :: "date \<Rightarrow> int" where
  "weekday d = (d + 6) mod 7"

text \<open>The calendar date of an ordinal and ISO text.\<close>

definition leap_year :: "int \<Rightarrow> bool" where
  "leap_year y \<longleftrightarrow> y mod 4 = 0 \<and> (y mod 100 \<noteq> 0 \<or> y mod 400 = 0)"

definition days_before_year :: "int \<Rightarrow> int" where
  "days_before_year y = (y - 1) * 365 + (y - 1) div 4 - (y - 1) div 100 + (y - 1) div 400"

definition month_lengths :: "int \<Rightarrow> int list" where
  "month_lengths y = [31, if leap_year y then 29 else 28, 31, 30, 31, 30, 31, 31, 30, 31, 30, 31]"

text \<open>The year holding an ordinal: an estimate that is never early, or one year early.\<close>

definition year_of :: "date \<Rightarrow> int" where
  "year_of d = (let y = (d * 400) div 146097 + 1 in
     if days_before_year y \<ge> d then y - 1 else if days_before_year (y + 1) < d then y + 1 else y)"

fun month_day :: "int \<Rightarrow> int \<Rightarrow> int list \<Rightarrow> int \<times> int" where
  "month_day m d [] = (m, d)"
| "month_day m d (l # ls) = (if d \<le> l then (m, d) else month_day (m + 1) (d - l) ls)"

definition civil :: "date \<Rightarrow> int \<times> int \<times> int" where
  "civil d = (let y = year_of d in (y, month_day 1 (d - days_before_year y) (month_lengths y)))"

fun pad_digits :: "nat \<Rightarrow> int \<Rightarrow> string" where
  "pad_digits 0 v = []"
| "pad_digits (Suc k) v = pad_digits k (v div 10) @ [''0123456789'' ! nat (v mod 10)]"

definition date_text :: "date \<Rightarrow> string" where
  "date_text d = (case civil d of (y, m, dd) \<Rightarrow> pad_digits 4 y @ ''-'' @ pad_digits 2 m @ ''-'' @ pad_digits 2 dd)"

definition moment_text :: "moment \<Rightarrow> string" where
  "moment_text m =
     (let us = m mod us_per_day; s = us div 1000000; f = us mod 1000000 in
      date_text (date_of m) @ ''T'' @ pad_digits 2 (s div 3600) @ '':'' @ pad_digits 2 (s div 60 mod 60)
      @ '':'' @ pad_digits 2 (s mod 60) @ (if f = 0 then [] else ''.'' @ pad_digits 6 f))"

subsection \<open>\<open>int(text)\<close>\<close>

definition is_space :: "char \<Rightarrow> bool" where
  "is_space c \<longleftrightarrow> (let n = of_char c :: nat in 9 \<le> n \<and> n \<le> 13 \<or> 28 \<le> n \<and> n \<le> 32 \<or> n = 133 \<or> n = 160)"

definition strip_space :: "string \<Rightarrow> string" where
  "strip_space s = rev (dropWhile is_space (rev (dropWhile is_space s)))"

definition digit_value :: "char \<Rightarrow> int option" where
  "digit_value c = (let n = of_char c :: nat in if 48 \<le> n \<and> n \<le> 57 then Some (int (n - 48)) else None)"

text \<open>
  Digits with single underscores between them; \<open>ready\<close> says that the previous character was a
  digit. The second component counts the digits, which Python bounds by 4300.
\<close>

fun digits_loop :: "int \<Rightarrow> nat \<Rightarrow> bool \<Rightarrow> string \<Rightarrow> (int \<times> nat) option" where
  "digits_loop acc k ready [] = (if ready then Some (acc, k) else None)"
| "digits_loop acc k ready (c # cs) =
     (case digit_value c of
        Some v \<Rightarrow> digits_loop (acc * 10 + v) (Suc k) True cs
      | None \<Rightarrow> (if ready \<and> c = CHR ''_'' then digits_loop acc k False cs else None))"

definition unsigned_int :: "string \<Rightarrow> int result" where
  "unsigned_int s = (case digits_loop 0 0 False s of
     None \<Rightarrow> Inl ValueError
   | Some (v, k) \<Rightarrow> (if k > 4300 then Inl ValueError else Inr v))"

definition parse_int :: "string \<Rightarrow> int result" where
  "parse_int s =
     (case strip_space s of
        [] \<Rightarrow> Inl ValueError
      | c # cs \<Rightarrow>
          (if c = CHR ''-'' then rbind (unsigned_int cs) (\<lambda>v. Inr (- v))
           else if c = CHR ''+'' then unsigned_int cs
           else unsigned_int (c # cs)))"

end
