(* ===== verification/Calendar_Compile.thy ===== *)
theory Calendar_Compile
  imports Dates Calendar_Spans "HOL-Library.AList"
begin

section \<open>Compiling a calendar (\<open>core/calendar/compile.py\<close>)\<close>

text \<open>
  From the canonical calendar model to sorted working intervals over a horizon: inheritance of
  the weekly pattern and of exception days, recurrence of exceptions, and one interval list for
  the days of the horizon. Dictionaries keyed by weekday or by date are association lists updated
  in place. The resolver's memo is threaded through as a map; the set of calendars under way is an
  argument, because the code removes a calendar from it whenever it leaves it.
\<close>

subsection \<open>The canonical model\<close>

record time_interval =
  start_second :: int
  finish_second :: int

record calendar_week_day =
  wd_day :: int
  wd_working :: bool
  wd_intervals :: "time_interval list"

record calendar_exception =
  ex_from_date :: moment
  ex_to_date :: moment
  ex_working :: bool
  ex_intervals :: "time_interval list"
  ex_recurrence :: "string \<Rightarrow> string option"

record calendar =
  cal_uid :: uuid
  cal_base_uid :: "uuid option"
  cal_week :: "calendar_week_day list"
  cal_exceptions :: "calendar_exception list"
  cal_source_fields :: "string \<Rightarrow> string option"

record compiled_calendar =
  cc_uid :: uuid
  cc_epoch :: moment
  cc_horizon :: "int \<times> int"
  cc_intervals :: compiled_intervals
  cc_fingerprint :: string
  cc_lineage :: "uuid list"
  cc_exception_days_applied :: nat
  cc_exception_days_outside_horizon :: nat

definition calendar_by_uid :: "calendar list \<Rightarrow> uuid \<Rightarrow> calendar option" where
  "calendar_by_uid cs = map_of (rev (map (\<lambda>c. (cal_uid c, c)) cs))"

definition SECONDS_PER_DAY :: int where "SECONDS_PER_DAY = 86400"

definition SUPPORTED_RECURRENCE_TYPES :: "string list" where
  "SUPPORTED_RECURRENCE_TYPES = [''1'', ''7'']"

abbreviation calendar_error :: "string \<Rightarrow> uuid \<Rightarrow> exc" where
  "calendar_error code u \<equiv> Coded CalendarCompileError code (Some u)"

definition to_seconds :: "compiled_calendar \<Rightarrow> moment \<Rightarrow> int" where
  "to_seconds cc m = int_seconds (m - cc_epoch cc)"

definition to_datetime :: "compiled_calendar \<Rightarrow> int \<Rightarrow> moment result" where
  "to_datetime cc x = add_micros (cc_epoch cc) (x * 1000000)"

subsection \<open>The intervals of a day\<close>

definition check_interval :: "uuid \<Rightarrow> time_interval \<Rightarrow> interval result" where
  "check_interval u i =
     (let start = start_second i;
          finish = (if finish_second i = 0 then SECONDS_PER_DAY else finish_second i);
          err = calendar_error ''CALENDAR_INTERVAL_INVALID'' u in
      raise_if (start = finish) err
     (raise_if (finish < start) err
     (raise_if (\<not> (0 \<le> start \<and> start < SECONDS_PER_DAY \<and> 0 < finish \<and> finish \<le> SECONDS_PER_DAY)) err
        (Inr (start, finish)))))"

text \<open>The merged tuple is kept reversed, as in \<open>normalise\<close>.\<close>

definition join_interval :: "uuid \<Rightarrow> interval \<Rightarrow> interval list \<Rightarrow> interval list result" where
  "join_interval u i merged =
     (case merged of
        [] \<Rightarrow> Inr [i]
      | (ps, pf) # ms \<Rightarrow>
          (if fst i < pf then Inl (calendar_error ''CALENDAR_INTERVAL_INVALID'' u)
           else if fst i = pf then Inr ((ps, snd i) # ms)
           else Inr (i # merged)))"

definition validate_intervals :: "uuid \<Rightarrow> time_interval list \<Rightarrow> interval list result" where
  "validate_intervals u raw =
     rbind (rmap (check_interval u) raw) (\<lambda>out.
     rbind (rfold (join_interval u) (sort out) []) (\<lambda>merged. Inr (rev merged)))"

subsection \<open>The dates of an exception\<close>

text \<open>\<open>int(recurrence.get(key) or 1)\<close>: an absent or empty text counts as one.\<close>

definition recurrence_int :: "calendar_exception \<Rightarrow> string \<Rightarrow> int result" where
  "recurrence_int e key =
     (case ex_recurrence e key of None \<Rightarrow> Inr 1 | Some s \<Rightarrow> (if s = [] then Inr 1 else parse_int s))"

text \<open>The loop over the range; the caller has refused a period below one.\<close>

function date_steps :: "date \<Rightarrow> date \<Rightarrow> int \<Rightarrow> date list result" where
  "date_steps cursor last_day period =
     (if cursor \<le> last_day \<and> 1 \<le> period
      then rbind (add_days cursor period) (\<lambda>next_day.
           rbind (date_steps (cursor + period) last_day period) (\<lambda>ds. Inr (cursor # ds)))
      else Inr [])"
  by pat_completeness auto
termination by (relation "measure (\<lambda>(cursor, last_day, period). nat (last_day + 1 - cursor))") auto

declare date_steps.simps [simp del]

definition exception_dates :: "calendar_exception \<Rightarrow> uuid \<Rightarrow> date list result" where
  "exception_dates e u =
     (let kind = (case ex_recurrence e ''type'' of None \<Rightarrow> ''1'' | Some s \<Rightarrow> s);
          first_day = date_of (ex_from_date e);
          last_day = date_of (ex_to_date e);
          invalid = calendar_error ''CALENDAR_EXCEPTION_RANGE_INVALID'' u in
      raise_if (kind \<notin> set SUPPORTED_RECURRENCE_TYPES)
        (calendar_error ''CALENDAR_EXCEPTION_RECURRENCE_UNSUPPORTED'' u)
     (raise_if (last_day < first_day) invalid
     (rbind (recurrence_int e ''period'') (\<lambda>period.
      raise_if (period < 1) invalid
       (if ex_recurrence e ''entered_by_occurrences'' = Some ''1''
        then rbind (recurrence_int e ''occurrences'') (\<lambda>count.
             rbind (rmap (\<lambda>k. add_days first_day (k * period)) [0..count - 1]) (\<lambda>dates.
             raise_if (dates \<noteq> [] \<and> last dates > last_day) invalid (Inr dates)))
        else date_steps first_day last_day period)))))"

subsection \<open>Resolving a calendar\<close>

record pattern =
  pt_week :: "(int \<times> interval list) list"
  pt_exception_days :: "(date \<times> interval list) list"
  pt_lineage :: "uuid list"
  pt_outside :: nat

definition empty_pattern :: pattern where
  "empty_pattern = \<lparr> pt_week = [], pt_exception_days = [], pt_lineage = [], pt_outside = 0 \<rparr>"

text \<open>One weekday of a calendar; the state is the week and the weekdays already seen.\<close>

definition week_step ::
    "uuid \<Rightarrow> calendar_week_day \<Rightarrow> (int \<times> interval list) list \<times> int list
     \<Rightarrow> ((int \<times> interval list) list \<times> int list) result" where
  "week_step u w s =
     (case s of (week, seen) \<Rightarrow>
      raise_if (wd_day w \<notin> {1, 2, 3, 4, 5, 6, 7}) (calendar_error ''CALENDAR_WEEKDAY_INVALID'' u)
     (raise_if (wd_day w \<in> set seen) (calendar_error ''CALENDAR_DUPLICATE_WEEKDAY'' u)
     (if wd_working w
      then rbind (validate_intervals u (wd_intervals w)) (\<lambda>ivs.
           raise_if (ivs = []) (calendar_error ''CALENDAR_WORKING_DAY_EMPTY'' u)
             (Inr (AList.update (wd_day w) ivs week, wd_day w # seen)))
      else raise_if (wd_intervals w \<noteq> []) (calendar_error ''CALENDAR_NONWORKING_DAY_HAS_INTERVALS'' u)
             (Inr (AList.update (wd_day w) [] week, wd_day w # seen)))))"

definition exception_step ::
    "date \<Rightarrow> date \<Rightarrow> uuid \<Rightarrow> calendar_exception \<Rightarrow> (date \<times> interval list) list \<times> nat
     \<Rightarrow> ((date \<times> interval list) list \<times> nat) result" where
  "exception_step first_day last_day u e s =
     rbind (if ex_working e
            then rbind (validate_intervals u (ex_intervals e)) (\<lambda>ivs.
                 raise_if (ivs = []) (calendar_error ''CALENDAR_WORKING_EXCEPTION_EMPTY'' u) (Inr ivs))
            else Inr []) (\<lambda>ivs.
     rbind (exception_dates e u) (\<lambda>dates.
     Inr (fold (\<lambda>d (days, outside). if first_day \<le> d \<and> d \<le> last_day
                   then (AList.update d ivs days, outside) else (days, Suc outside)) dates s)))"

text \<open>A calendar's own rows over the pattern it inherits.\<close>

definition own_pattern :: "date \<Rightarrow> date \<Rightarrow> calendar \<Rightarrow> pattern \<Rightarrow> pattern result" where
  "own_pattern first_day last_day c base =
     rbind (rfold (week_step (cal_uid c)) (cal_week c) (pt_week base, [])) (\<lambda>(week, seen).
     raise_if (set (map fst week) \<noteq> {1, 2, 3, 4, 5, 6, 7}) (calendar_error ''CALENDAR_WEEK_INCOMPLETE'' (cal_uid c))
     (rbind (rfold (exception_step first_day last_day (cal_uid c)) (cal_exceptions c)
               (pt_exception_days base, pt_outside base)) (\<lambda>(days, outside).
      Inr \<lparr> pt_week = week, pt_exception_days = days, pt_lineage = pt_lineage base @ [cal_uid c],
            pt_outside = outside \<rparr>)))"

type_synonym resolver_cache = "uuid \<Rightarrow> pattern option"

lemma calendar_by_uid_mem: "calendar_by_uid cs u = Some c \<Longrightarrow> c \<in> set cs \<and> cal_uid c = u"
  unfolding calendar_by_uid_def by (auto dest!: map_of_SomeD)

function resolve_calendar ::
    "calendar list \<Rightarrow> date \<Rightarrow> date \<Rightarrow> uuid list \<Rightarrow> uuid \<Rightarrow> resolver_cache \<Rightarrow> (pattern \<times> resolver_cache) result" where
  "resolve_calendar cs first_day last_day active u cache =
     (case cache u of
        Some p \<Rightarrow> Inr (p, cache)
      | None \<Rightarrow>
          if u \<in> set active then Inl (calendar_error ''CALENDAR_INHERITANCE_CYCLE'' u)
          else (case calendar_by_uid cs u of
                  None \<Rightarrow> Inl (calendar_error ''CALENDAR_NOT_FOUND'' u)
                | Some c \<Rightarrow>
                    rbind (case cal_base_uid c of
                             None \<Rightarrow> Inr (empty_pattern, cache)
                           | Some b \<Rightarrow> resolve_calendar cs first_day last_day (u # active) b cache) (\<lambda>(base, cache).
                    rbind (own_pattern first_day last_day c base) (\<lambda>p.
                    Inr (p, cache(u \<mapsto> p))))))"
  by pat_completeness auto

termination
proof (relation "measure (\<lambda>(cs, _, _, active, _, _). card (cal_uid ` set cs - set active))", simp_all)
  fix cs :: "calendar list" and active :: "uuid list" and u c
  assume "u \<notin> set active" "calendar_by_uid cs u = Some c"
  then have "u \<in> cal_uid ` set cs - set active" using calendar_by_uid_mem by blast
  then have "cal_uid ` set cs - insert u (set active) \<subset> cal_uid ` set cs - set active" by blast
  then show "card (cal_uid ` set cs - insert u (set active)) < card (cal_uid ` set cs - set active)"
    by (intro psubset_card_mono) auto
qed

declare resolve_calendar.simps [simp del]

subsection \<open>Compilation\<close>

definition day_type :: "date \<Rightarrow> int" where
  "day_type d = ((weekday d + 1) mod 7) + 1"

definition clip_day :: "int \<Rightarrow> int \<times> int \<Rightarrow> interval list \<Rightarrow> interval list" where
  "clip_day midnight hz ivs =
     filter (\<lambda>(lo, hi). lo < hi) (map (\<lambda>(s, f). (max (midnight + s) (fst hz), min (midnight + f) (snd hz))) ivs)"

text \<open>The loop over the days; stepping past the last representable date raises.\<close>

function compile_days ::
    "pattern \<Rightarrow> moment \<Rightarrow> int \<times> int \<Rightarrow> date \<Rightarrow> date \<Rightarrow> interval list \<Rightarrow> nat \<Rightarrow> (interval list \<times> nat) result" where
  "compile_days p epoch hz day last_day raw applied =
     (if day > last_day then Inr (raw, applied)
      else rbind (case map_of (pt_exception_days p) day of
                    Some ivs \<Rightarrow> Inr (ivs, Suc applied)
                  | None \<Rightarrow> (case map_of (pt_week p) (day_type day) of
                               None \<Rightarrow> Inl KeyError | Some ivs \<Rightarrow> Inr (ivs, applied))) (\<lambda>(ivs, applied).
           rbind (add_days day 1) (\<lambda>next_day.
             compile_days p epoch hz (day + 1) last_day
               (raw @ clip_day (int_seconds (midnight_of day - epoch)) hz ivs) applied)))"
  by pat_completeness auto
termination by (relation "measure (\<lambda>(_, _, _, day, last_day, _). nat (last_day + 1 - day))") auto

declare compile_days.simps [simp del]

text \<open>\<open>start.replace(hour=0, ...)\<close>.\<close>

definition default_epoch :: "moment \<Rightarrow> moment option \<Rightarrow> moment" where
  "default_epoch start epoch = (case epoch of Some e \<Rightarrow> e | None \<Rightarrow> midnight_of (date_of start))"

text \<open>A resolver is built from the horizon: its first and its last date.\<close>

definition resolver_window :: "moment \<times> moment \<Rightarrow> (date \<times> date) result" where
  "resolver_window h = rbind (add_micros (snd h) (- 1)) (\<lambda>m. Inr (date_of (fst h), date_of m))"

definition calendar_fingerprint :: "(json \<Rightarrow> string) \<Rightarrow> moment \<Rightarrow> int \<times> int \<Rightarrow> compiled_intervals \<Rightarrow> string" where
  "calendar_fingerprint sha epoch hz c =
     sha (JObj [(''epoch'', JStr (moment_text epoch)), (''horizon'', JList [JInt (fst hz), JInt (snd hz)]),
                (''intervals'', JList (map (\<lambda>(s, f). JList [JInt s, JInt f]) (intervals c)))])"

text \<open>One calendar, given the resolver's window and memo.\<close>

definition compile_with ::
    "(json \<Rightarrow> string) \<Rightarrow> calendar list \<Rightarrow> uuid \<Rightarrow> moment \<times> moment \<Rightarrow> moment \<Rightarrow> date \<times> date \<Rightarrow> resolver_cache
     \<Rightarrow> (compiled_calendar \<times> resolver_cache) result" where
  "compile_with sha cs u h epoch window cache =
     rbind (resolve_calendar cs (fst window) (snd window) [] u cache) (\<lambda>(p, cache).
     rbind (add_micros (snd h) (- 1)) (\<lambda>final.
     let hz = (int_seconds (fst h - epoch), int_seconds (snd h - epoch)) in
     rbind (compile_days p epoch hz (date_of (fst h)) (date_of final) [] 0) (\<lambda>(raw, applied).
     let compiled = ci_of raw in
     Inr (\<lparr> cc_uid = u, cc_epoch = epoch, cc_horizon = hz, cc_intervals = compiled,
            cc_fingerprint = calendar_fingerprint sha epoch hz compiled, cc_lineage = pt_lineage p,
            cc_exception_days_applied = applied, cc_exception_days_outside_horizon = pt_outside p \<rparr>, cache))))"

definition compile_calendar ::
    "(json \<Rightarrow> string) \<Rightarrow> calendar list \<Rightarrow> uuid \<Rightarrow> moment \<times> moment \<Rightarrow> moment option
     \<Rightarrow> ((date \<times> date) \<times> resolver_cache) option \<Rightarrow> (compiled_calendar \<times> resolver_cache) result" where
  "compile_calendar sha cs u h epoch resolver =
     raise_if (snd h \<le> fst h) (calendar_error ''CALENDAR_HORIZON_INVALID'' u)
     (rbind (case resolver of Some r \<Rightarrow> Inr r | None \<Rightarrow> rbind (resolver_window h) (\<lambda>w. Inr (w, Map.empty)))
       (\<lambda>(window, cache). compile_with sha cs u h (default_epoch (fst h) epoch) window cache))"

text \<open>Every calendar, sharing one resolver; a dictionary keyed by uid.\<close>

definition compile_step ::
    "(json \<Rightarrow> string) \<Rightarrow> calendar list \<Rightarrow> moment \<times> moment \<Rightarrow> moment \<Rightarrow> date \<times> date \<Rightarrow> calendar
     \<Rightarrow> (uuid \<times> compiled_calendar) list \<times> resolver_cache \<Rightarrow> ((uuid \<times> compiled_calendar) list \<times> resolver_cache) result" where
  "compile_step sha cs h epoch window c s =
     rbind (compile_calendar sha cs (cal_uid c) h (Some epoch) (Some (window, snd s))) (\<lambda>(cc, cache).
     Inr (AList.update (cal_uid c) cc (fst s), cache))"

definition compile_calendars ::
    "(json \<Rightarrow> string) \<Rightarrow> calendar list \<Rightarrow> moment \<times> moment \<Rightarrow> moment option \<Rightarrow> (uuid \<times> compiled_calendar) list result" where
  "compile_calendars sha cs h epoch =
     rbind (resolver_window h) (\<lambda>window.
     rbind (rfold (compile_step sha cs h (default_epoch (fst h) epoch) window) cs ([], Map.empty)) (\<lambda>s.
     Inr (fst s)))"

end
