(* ===== verification/Compile_Facts.thy ===== *)
theory Compile_Facts
  imports Calendar_Compile
begin

section \<open>What a compiled calendar means\<close>

text \<open>
  The intervals of a day are validated and merged without changing what they cover; an exception
  covers an arithmetic progression of dates; a calendar's own rows override the inherited ones;
  resolution follows the chain of bases and refuses exactly the chains that run into a cycle or
  off the known calendars; and a second works in the compiled calendar exactly when its day's
  pattern says so. Sharing one resolver between calendars changes nothing.
\<close>

subsection \<open>The intervals of a day\<close>

definition day_interval :: "time_interval \<Rightarrow> interval" where
  "day_interval i = (start_second i, if finish_second i = 0 then SECONDS_PER_DAY else finish_second i)"

definition interval_fits :: "time_interval \<Rightarrow> bool" where
  "interval_fits i \<longleftrightarrow> (case day_interval i of (s, f) \<Rightarrow> 0 \<le> s \<and> s < f \<and> f \<le> SECONDS_PER_DAY)"

definition covers :: "int \<Rightarrow> interval list \<Rightarrow> nat" where
  "covers x ivs = length (filter (\<lambda>(s, f). s \<le> x \<and> x < f) ivs)"

definition within_day :: "interval list \<Rightarrow> bool" where
  "within_day ivs \<longleftrightarrow> (\<forall>(s, f) \<in> set ivs. 0 \<le> s \<and> f \<le> SECONDS_PER_DAY)"

abbreviation ordered_intervals :: "interval list \<Rightarrow> bool" where
  "ordered_intervals \<equiv> sorted_wrt (\<lambda>a b. snd a \<le> fst b)"

lemma covers_Nil [simp]: "covers x [] = 0"
  by (simp add: covers_def)

lemma covers_Cons [simp]: "covers x ((s, f) # ivs) = (if s \<le> x \<and> x < f then 1 else 0) + covers x ivs"
  by (simp add: covers_def)

lemma covers_sort: "covers x (sort ivs) = covers x ivs"
  by (simp add: covers_def filter_sort)

lemma covers_positive: "0 < covers x ivs \<longleftrightarrow> contains_coordinate x ivs"
  by (induction ivs) (auto split: if_splits)

lemma ordered_iff_covers:
  assumes "sorted ivs" and "\<forall>(s, f) \<in> set ivs. s < f"
  shows "ordered_intervals ivs \<longleftrightarrow> (\<forall>x. covers x ivs \<le> 1)"
  using assms
proof (induction ivs)
  case (Cons a ivs)
  obtain s f where a: "a = (s, f)" by force
  have IH: "ordered_intervals ivs \<longleftrightarrow> (\<forall>x. covers x ivs \<le> 1)" using Cons by simp
  have later: "s \<le> fst b" if "b \<in> set ivs" for b
    using Cons.prems(1) that a by (cases b) (auto simp: less_eq_prod_def)
  show ?case
  proof
    assume o: "ordered_intervals (a # ivs)"
    show "\<forall>x. covers x (a # ivs) \<le> 1"
    proof
      fix x
      have "\<not> contains_coordinate x ivs" if "s \<le> x" "x < f"
        using o that a by (fastforce simp: contains_iff)
      with o IH covers_positive [of x ivs] show "covers x (a # ivs) \<le> 1" by (auto simp: a)
    qed
  next
    assume c: "\<forall>x. covers x (a # ivs) \<le> 1"
    then have "\<forall>x. covers x ivs \<le> 1" by (fastforce simp: a dest: spec split: if_splits)
    moreover have "f \<le> fst b" if b: "b \<in> set ivs" for b
    proof (rule ccontr)
      assume "\<not> f \<le> fst b"
      with later [OF b] have "covers (fst b) (a # ivs) = Suc (covers (fst b) ivs)" by (simp add: a)
      moreover have "contains_coordinate (fst b) ivs"
        using b Cons.prems(2) unfolding contains_iff by (intro bexI [of _ b]) auto
      ultimately show False using c covers_positive [of "fst b" ivs] by (metis Suc_le_eq gr_implies_not0 less_one not_less_eq_eq One_nat_def)
    qed
    ultimately show "ordered_intervals (a # ivs)" using IH by (simp add: a)
  qed
qed simp

lemma join_fold:
  assumes "sorted ivs" and "\<forall>(s, f) \<in> set ivs. s < f" and "wf_merged ms" and "\<forall>(s, f) \<in> set ivs. \<forall>(s', f') \<in> set ms. s' \<le> s"
  shows "rfold (join_interval u) ivs ms = Inr ms' \<Longrightarrow> wf_merged ms'
      \<and> (\<forall>x. contains_coordinate x ms' \<longleftrightarrow> contains_coordinate x ivs \<or> contains_coordinate x ms)
      \<and> set (map fst ms') \<subseteq> set (map fst ivs) \<union> set (map fst ms) \<and> set (map snd ms') \<subseteq> set (map snd ivs) \<union> set (map snd ms)"
    and "(\<exists>ms'. rfold (join_interval u) ivs ms = Inr ms') \<longleftrightarrow>
      ordered_intervals ivs \<and> (\<forall>b \<in> set ivs. ms \<noteq> [] \<longrightarrow> snd (hd ms) \<le> fst b)"
    and "rfold (join_interval u) ivs ms = Inl e \<Longrightarrow> e = calendar_error ''CALENDAR_INTERVAL_INVALID'' u"
  using assms
proof (induction ivs arbitrary: ms)
  case Nil
  { case 1 then show ?case by simp }
  { case 2 then show ?case by simp }
  { case 3 then show ?case by simp }
next
  case (Cons a ivs)
  obtain s f where a: "a = (s, f)" by force
  have next_state: "s < f \<and> sorted ivs \<and> (\<forall>(s, f) \<in> set ivs. s < f) \<and> wf_merged ms1
      \<and> (\<forall>(s, f) \<in> set ivs. \<forall>(s', f') \<in> set ms1. s' \<le> s) \<and> snd (hd ms1) = f \<and> ms1 \<noteq> []
      \<and> (\<forall>x. contains_coordinate x ms1 \<longleftrightarrow> s \<le> x \<and> x < f \<or> contains_coordinate x ms)
      \<and> set (map fst ms1) \<subseteq> insert s (set (map fst ms)) \<and> set (map snd ms1) \<subseteq> insert f (set (map snd ms))"
    if "join_interval u a ms = Inr ms1" "sorted (a # ivs)" "\<forall>(s, f) \<in> set (a # ivs). s < f" "wf_merged ms"
      "\<forall>(s, f) \<in> set (a # ivs). \<forall>(s', f') \<in> set ms. s' \<le> s" for ms ms1
  proof (cases ms)
    case Nil
    with that a show ?thesis by (auto simp: join_interval_def less_eq_prod_def)
  next
    case (Cons m ms2)
    obtain ps pf where m: "m = (ps, pf)" by force
    have "pf \<le> s" "ms1 = (if s = pf then (ps, f) # ms2 else (s, f) # ms)"
      using that(1) by (auto simp: join_interval_def Cons m a split: if_splits)
    with that a Cons m show ?thesis by (auto simp: less_eq_prod_def)
  qed
  have refuse: "join_interval u a ms = (if ms \<noteq> [] \<and> s < snd (hd ms) then Inl (calendar_error ''CALENDAR_INTERVAL_INVALID'' u)
      else Inr (case ms of [] \<Rightarrow> [a] | (ps, pf) # ms2 \<Rightarrow> if s = pf then (ps, f) # ms2 else a # ms))" for ms
    by (auto simp: join_interval_def a split: list.splits)
  { case 1
    then obtain ms1 where m: "join_interval u a ms = Inr ms1" "rfold (join_interval u) ivs ms1 = Inr ms'"
      by (auto simp: rbind_Inr_iff)
    note n = next_state [OF m(1) 1(2-5)]
    note ih = Cons.IH(1) [OF m(2)]
    have "set (map fst ms') \<subseteq> set (map fst ivs) \<union> set (map fst ms1)" "set (map snd ms') \<subseteq> set (map snd ivs) \<union> set (map snd ms1)"
      "wf_merged ms'" "\<forall>x. contains_coordinate x ms' \<longleftrightarrow> contains_coordinate x ivs \<or> contains_coordinate x ms1"
      using ih n by blast+
    moreover have "set (map fst ms1) \<subseteq> insert s (set (map fst ms))" "set (map snd ms1) \<subseteq> insert f (set (map snd ms))"
      "\<forall>x. contains_coordinate x ms1 \<longleftrightarrow> s \<le> x \<and> x < f \<or> contains_coordinate x ms" using n by blast+
    moreover have "set (map fst (a # ivs)) = insert s (set (map fst ivs))" "set (map snd (a # ivs)) = insert f (set (map snd ivs))"
      by (simp_all add: a)
    ultimately show ?case unfolding a contains_Cons by (intro conjI) blast+ }
  { case 2
    show ?case
    proof (cases "ms \<noteq> [] \<and> s < snd (hd ms)")
      case True
      then have "join_interval u a ms = Inl (calendar_error ''CALENDAR_INTERVAL_INVALID'' u)" by (simp add: refuse)
      with True show ?thesis by (auto simp: a)
    next
      case False
      then obtain ms1 where m: "join_interval u a ms = Inr ms1" by (simp add: refuse)
      note n = next_state [OF m 2(1-4)]
      have later: "\<forall>b \<in> set ivs. s \<le> fst b" using 2(1) a by (auto simp: less_eq_prod_def)
      have "(\<exists>ms'. rfold (join_interval u) (a # ivs) ms = Inr ms') \<longleftrightarrow> (\<exists>ms'. rfold (join_interval u) ivs ms1 = Inr ms')"
        by (simp add: m)
      also have "\<dots> \<longleftrightarrow> ordered_intervals ivs \<and> (\<forall>b \<in> set ivs. f \<le> fst b)"
        using Cons.IH(2) [of ms1] n by auto
      also have "\<dots> \<longleftrightarrow> ordered_intervals (a # ivs) \<and> (\<forall>b \<in> set (a # ivs). ms \<noteq> [] \<longrightarrow> snd (hd ms) \<le> fst b)"
        using False later by (force simp: a)
      finally show ?thesis .
    qed }
  { case 3
    show ?case
    proof (cases "join_interval u a ms")
      case (Inl e')
      with 3(1) show ?thesis by (auto simp: refuse split: if_splits)
    next
      case (Inr ms1)
      note n = next_state [OF Inr 3(2-5)]
      from 3(1) Inr have "rfold (join_interval u) ivs ms1 = Inl e" by simp
      with Cons.IH(3) [of ms1] n show ?thesis by blast
    qed }
qed

lemma check_interval_iff:
  "check_interval u i = (if interval_fits i then Inr (day_interval i) else Inl (calendar_error ''CALENDAR_INTERVAL_INVALID'' u))"
  by (auto simp: check_interval_def interval_fits_def day_interval_def SECONDS_PER_DAY_def raise_if_def Let_def)

lemma check_intervals:
  "rmap (check_interval u) raw = (if \<forall>i \<in> set raw. interval_fits i then Inr (map day_interval raw)
     else Inl (calendar_error ''CALENDAR_INTERVAL_INVALID'' u))"
  by (induction raw) (auto simp: check_interval_iff)

lemma validated:
  shows "validate_intervals u raw = Inr ivs \<Longrightarrow> wf_intervals ivs \<and> within_day ivs
      \<and> (\<forall>x. contains_coordinate x ivs \<longleftrightarrow> contains_coordinate x (map day_interval raw))"
    and "(\<exists>ivs. validate_intervals u raw = Inr ivs) \<longleftrightarrow>
      (\<forall>i \<in> set raw. interval_fits i) \<and> (\<forall>x. covers x (map day_interval raw) \<le> 1)"
    and "validate_intervals u raw = Inl e \<Longrightarrow> e = calendar_error ''CALENDAR_INTERVAL_INVALID'' u"
proof -
  let ?out = "sort (map day_interval raw)"
  have pos: "\<forall>(s, f) \<in> set ?out. s < f" "\<forall>(s, f) \<in> set ?out. 0 \<le> s \<and> f \<le> SECONDS_PER_DAY"
    if "\<forall>i \<in> set raw. interval_fits i" using that by (auto simp: interval_fits_def)
  have shape: "validate_intervals u raw = (if \<forall>i \<in> set raw. interval_fits i
      then rbind (rfold (join_interval u) ?out []) (\<lambda>merged. Inr (rev merged))
      else Inl (calendar_error ''CALENDAR_INTERVAL_INVALID'' u))"
    by (simp add: validate_intervals_def check_intervals)
  note fold = join_fold [of ?out "[]" u, OF sorted_sort pos(1), simplified]
  have cont: "contains_coordinate x ?out \<longleftrightarrow> contains_coordinate x (map day_interval raw)" for x
    by (simp add: contains_iff)
  show "wf_intervals ivs \<and> within_day ivs \<and> (\<forall>x. contains_coordinate x ivs \<longleftrightarrow> contains_coordinate x (map day_interval raw))"
    if "validate_intervals u raw = Inr ivs"
  proof -
    from that obtain ms where ok: "\<forall>i \<in> set raw. interval_fits i" and ms: "rfold (join_interval u) ?out [] = Inr ms" "ivs = rev ms"
      by (auto simp: shape rbind_Inr_iff split: if_splits)
    note m = join_fold(1) [OF sorted_sort pos(1) [OF ok] _ _ ms(1), simplified]
    have "0 \<le> s \<and> f \<le> SECONDS_PER_DAY" if "(s, f) \<in> set ms" for s f
    proof -
      have "s \<in> fst ` set ?out" "f \<in> snd ` set ?out" using m that by (force simp: subset_iff)+
      with pos(2) [OF ok] show ?thesis by auto
    qed
    then show ?thesis using m cont by (auto simp: ms(2) wf_merged_rev contains_rev within_day_def)
  qed
  show "(\<exists>ivs. validate_intervals u raw = Inr ivs) \<longleftrightarrow>
      (\<forall>i \<in> set raw. interval_fits i) \<and> (\<forall>x. covers x (map day_interval raw) \<le> 1)"
  proof (cases "\<forall>i \<in> set raw. interval_fits i")
    case True
    have "(\<exists>ivs. validate_intervals u raw = Inr ivs) \<longleftrightarrow> (\<exists>ms. rfold (join_interval u) ?out [] = Inr ms)"
      using True by (auto simp: shape rbind_Inr_iff)
    also have "\<dots> \<longleftrightarrow> (\<forall>x. covers x ?out \<le> 1)"
      using join_fold(2) [OF sorted_sort pos(1) [OF True], of "[]" u] ordered_iff_covers [OF sorted_sort pos(1) [OF True]] by simp
    finally show ?thesis using True by (simp add: covers_sort)
  qed (auto simp: shape)
  show "e = calendar_error ''CALENDAR_INTERVAL_INVALID'' u" if "validate_intervals u raw = Inl e"
  proof (cases "\<forall>i \<in> set raw. interval_fits i")
    case True
    with that have "rfold (join_interval u) ?out [] = Inl e" by (auto simp: shape rbind_Inl_iff)
    with join_fold(3) [OF sorted_sort pos(1) [OF True], of "[]" u e] show ?thesis by simp
  qed (use that in \<open>auto simp: shape split: if_splits\<close>)
qed

subsection \<open>The dates of an exception\<close>

lemma date_steps_spec:
  assumes "1 \<le> period" and "date_steps cursor last_day period = Inr ds"
  shows "sorted_wrt (<) ds \<and> set ds = {d. cursor \<le> d \<and> d \<le> last_day \<and> period dvd d - cursor}"
  using assms
proof (induction cursor last_day period arbitrary: ds rule: date_steps.induct)
  case (1 cursor last_day period)
  show ?case
  proof (cases "cursor \<le> last_day")
    case True
    with 1(2,3) obtain next_day ds' where ok: "add_days cursor period = Inr next_day"
      and ds': "date_steps (cursor + period) last_day period = Inr ds'" "ds = cursor # ds'"
      by (subst (asm) date_steps.simps) (auto simp: rbind_Inr_iff)
    have ih: "sorted_wrt (<) ds'" "set ds' = {d. cursor + period \<le> d \<and> d \<le> last_day \<and> period dvd d - (cursor + period)}"
      using 1(1) [OF conjI [OF True 1(2)] 1(2) ds'(1)] by auto
    have "cursor \<le> d \<and> d \<le> last_day \<and> period dvd d - cursor \<longleftrightarrow>
        d = cursor \<or> cursor + period \<le> d \<and> d \<le> last_day \<and> period dvd d - (cursor + period)" for d
    proof -
      have "period dvd d - cursor \<longleftrightarrow> period dvd d - (cursor + period)"
        using dvd_diff_left_iff [of period period "d - cursor"] by (simp add: algebra_simps)
      moreover have "cursor + period \<le> d" if "cursor < d" "period dvd d - cursor"
        using zdvd_imp_le [OF that(2)] that(1) by simp
      ultimately show ?thesis using True 1(2) by force
    qed
    then show ?thesis using ih 1(2) unfolding ds'(2) by auto
  next
    case False
    with 1(3) have "ds = []" by (subst (asm) date_steps.simps) simp
    with False show ?thesis by auto
  qed
qed

lemma rmap_add_days:
  assumes "rmap (\<lambda>k. add_days d0 (k * period)) ks = Inr ds"
  shows "ds = map (\<lambda>k. d0 + k * period) ks"
  using assms by (induction ks arbitrary: ds) (auto simp: rbind_Inr_iff add_days_def split: if_splits)

lemma upto_sorted: "sorted_wrt (<) [i..j :: int]"
  by (simp add: strict_sorted_iff)

lemma sorted_last: "sorted_wrt (<) ds \<Longrightarrow> d \<in> set ds \<Longrightarrow> d \<le> last (ds :: int list)"
  by (induction ds) (auto intro: less_imp_le)

text \<open>The occurrences an exception asks for; \<open>None\<close> when it repeats until its last date.\<close>

definition occurrence_bound :: "calendar_exception \<Rightarrow> int option result" where
  "occurrence_bound e = (if ex_recurrence e ''entered_by_occurrences'' = Some ''1''
     then rbind (recurrence_int e ''occurrences'') (\<lambda>k. Inr (Some k)) else Inr None)"

lemma exception_dates_spec:
  assumes "exception_dates e u = Inr ds"
  shows "\<exists>period bound. recurrence_int e ''period'' = Inr period \<and> 1 \<le> period \<and> occurrence_bound e = Inr bound
    \<and> sorted_wrt (<) ds \<and> (\<forall>d \<in> set ds. date_of (ex_from_date e) \<le> d \<and> d \<le> date_of (ex_to_date e))
    \<and> (\<forall>d. d \<in> set ds \<longleftrightarrow> (\<exists>k \<ge> 0. d = date_of (ex_from_date e) + k * period
         \<and> (case bound of Some n \<Rightarrow> k < n | None \<Rightarrow> d \<le> date_of (ex_to_date e))))"
proof -
  let ?a = "date_of (ex_from_date e)" and ?b = "date_of (ex_to_date e)"
  from assms obtain period where p: "recurrence_int e ''period'' = Inr period" "1 \<le> period" and ab: "?a \<le> ?b"
    and run: "(if ex_recurrence e ''entered_by_occurrences'' = Some ''1''
        then rbind (recurrence_int e ''occurrences'') (\<lambda>count.
             rbind (rmap (\<lambda>k. add_days ?a (k * period)) [0..count - 1]) (\<lambda>dates.
             raise_if (dates \<noteq> [] \<and> last dates > ?b) (calendar_error ''CALENDAR_EXCEPTION_RANGE_INVALID'' u) (Inr dates)))
        else date_steps ?a ?b period) = Inr ds"
    by (auto simp: exception_dates_def rbind_Inr_iff raise_if_Inr_iff Let_def)
  show ?thesis
  proof (cases "ex_recurrence e ''entered_by_occurrences'' = Some ''1''")
    case True
    with run obtain count where c: "recurrence_int e ''occurrences'' = Inr count"
      "rmap (\<lambda>k. add_days ?a (k * period)) [0..count - 1] = Inr ds" "ds = [] \<or> last ds \<le> ?b"
      by (auto simp: rbind_Inr_iff raise_if_Inr_iff)
    have ds: "ds = map (\<lambda>k. ?a + k * period) [0..count - 1]" by (rule rmap_add_days [OF c(2)])
    have sorted: "sorted_wrt (<) ds"
      unfolding ds sorted_wrt_map by (rule sorted_wrt_mono_rel [OF _ upto_sorted]) (use p(2) in auto)
    have mem: "d \<in> set ds \<longleftrightarrow> (\<exists>k \<ge> 0. d = ?a + k * period \<and> k < count)" for d
      unfolding ds by auto
    have "?a \<le> d \<and> d \<le> ?b" if d: "d \<in> set ds" for d
    proof -
      have "?a \<le> d" using d mem [of d] p(2) by auto
      moreover have "d \<le> last ds"
        by (rule sorted_last [OF sorted d])
      ultimately show ?thesis using c(3) d by auto
    qed
    with p sorted mem c(1) True show ?thesis by (auto simp: occurrence_bound_def)
  next
    case False
    then have "date_steps ?a ?b period = Inr ds" using run by simp
    note spec = date_steps_spec [OF p(2) this]
    have "?a \<le> d \<and> d \<le> ?b \<and> period dvd d - ?a \<longleftrightarrow> (\<exists>k \<ge> 0. d = ?a + k * period \<and> d \<le> ?b)" for d
    proof
      assume d: "?a \<le> d \<and> d \<le> ?b \<and> period dvd d - ?a"
      then obtain k where k: "d - ?a = period * k" by (auto simp: dvd_def)
      with d p(2) have "0 \<le> k" by (smt (verit) mult_pos_neg)
      with k d show "\<exists>k \<ge> 0. d = ?a + k * period \<and> d \<le> ?b" by (intro exI [of _ k]) (simp add: algebra_simps)
    qed (use p(2) in auto)
    with p spec False show ?thesis by (auto simp: occurrence_bound_def)
  qed
qed

end
