(* ===== verification/Compile_Meaning.thy ===== *)
theory Compile_Meaning
  imports Compile_Facts
begin

section \<open>Inheritance and the compiled days\<close>

subsection \<open>A calendar's own rows\<close>

definition day_row :: "uuid \<Rightarrow> calendar_week_day \<Rightarrow> interval list result" where
  "day_row u w = (if wd_working w then validate_intervals u (wd_intervals w) else Inr [])"

definition exception_row :: "uuid \<Rightarrow> calendar_exception \<Rightarrow> interval list result" where
  "exception_row u e = (if ex_working e then validate_intervals u (ex_intervals e) else Inr [])"

definition exception_covers :: "uuid \<Rightarrow> calendar_exception \<Rightarrow> date \<Rightarrow> bool" where
  "exception_covers u e d \<longleftrightarrow> (\<exists>ds. exception_dates e u = Inr ds \<and> d \<in> set ds)"

definition good_day :: "interval list \<Rightarrow> bool" where
  "good_day ivs \<longleftrightarrow> wf_intervals ivs \<and> within_day ivs"

lemma good_day_Nil [simp]: "good_day []"
  by (simp add: good_day_def within_day_def)

lemma good_day_row: "day_row u w = Inr ivs \<Longrightarrow> good_day ivs"
  using validated(1) [of u "wd_intervals w" ivs] by (auto simp: day_row_def good_day_def within_day_def split: if_splits)

lemma good_exception_row: "exception_row u e = Inr ivs \<Longrightarrow> good_day ivs"
  using validated(1) [of u "ex_intervals e" ivs] by (auto simp: exception_row_def good_day_def within_day_def split: if_splits)

text \<open>One weekday: what \<open>week_step\<close> does when it does not raise.\<close>

lemma week_step_Inr:
  assumes "week_step u w (week, seen) = Inr s"
  shows "\<exists>ivs. day_row u w = Inr ivs \<and> s = (AList.update (wd_day w) ivs week, wd_day w # seen)
    \<and> wd_day w \<in> {1, 2, 3, 4, 5, 6, 7} \<and> wd_day w \<notin> set seen"
  using assms by (auto simp: week_step_def day_row_def rbind_Inr_iff raise_if_Inr_iff split: if_splits)

lemma week_fold:
  assumes "rfold (week_step u) ws (week, seen) = Inr (week', seen')"
  shows "distinct (map wd_day ws) \<and> set seen \<inter> wd_day ` set ws = {}"
    and "w \<in> set ws \<Longrightarrow> \<exists>ivs. day_row u w = Inr ivs \<and> map_of week' (wd_day w) = Some ivs"
    and "d \<notin> wd_day ` set ws \<Longrightarrow> map_of week' d = map_of week d"
  using assms
proof (induction ws arbitrary: week seen w d)
  case (Cons x ws)
  have step: "\<exists>ivs. day_row u x = Inr ivs \<and> rfold (week_step u) ws (AList.update (wd_day x) ivs week, wd_day x # seen) = Inr (week', seen')
      \<and> wd_day x \<notin> set seen" if "rfold (week_step u) (x # ws) (week, seen) = Inr (week', seen')" for week seen
    using that by (auto simp: rbind_Inr_iff dest!: week_step_Inr)
  { case 1
    from step [OF this] Cons.IH(1) show ?case by fastforce }
  { case 2
    from step [OF 2(2)] obtain ivs where ivs: "day_row u x = Inr ivs"
      "rfold (week_step u) ws (AList.update (wd_day x) ivs week, wd_day x # seen) = Inr (week', seen')" by blast
    show ?case
    proof (cases "w \<in> set ws")
      case True
      with Cons.IH(2) ivs(2) show ?thesis by blast
    next
      case False
      with 2(1) have "w = x" by simp
      moreover have "wd_day x \<notin> wd_day ` set ws" using Cons.IH(1) [OF ivs(2)] by auto
      ultimately show ?thesis using Cons.IH(3) [of "wd_day x", OF _ ivs(2)] ivs(1) by (simp add: update_conv')
    qed }
  { case 3
    from step [OF 3(2)] obtain ivs where ivs: "day_row u x = Inr ivs"
      "rfold (week_step u) ws (AList.update (wd_day x) ivs week, wd_day x # seen) = Inr (week', seen')" by blast
    with 3(1) Cons.IH(3) [OF _ ivs(2)] show ?case by (simp add: update_conv') }
qed simp_all

text \<open>One exception: every covered date of the window gets its intervals.\<close>

lemma exception_step_Inr:
  assumes "exception_step a b u e (days, outside) = Inr (days', outside')"
  shows "\<exists>ivs. exception_row u e = Inr ivs \<and> (\<exists>ds. exception_dates e u = Inr ds)
    \<and> (\<forall>d. map_of days' d = (if a \<le> d \<and> d \<le> b \<and> exception_covers u e d then Some ivs else map_of days d))"
proof -
  from assms obtain ivs ds where ivs: "exception_row u e = Inr ivs" and ds: "exception_dates e u = Inr ds"
    and days: "fold (\<lambda>d (days, outside). if a \<le> d \<and> d \<le> b
      then (AList.update d ivs days, outside) else (days, Suc outside)) ds (days, outside) = (days', outside')"
    by (auto simp: exception_step_def exception_row_def rbind_Inr_iff raise_if_Inr_iff split: if_splits)
  have "map_of days' d = (if a \<le> d \<and> d \<le> b \<and> d \<in> set ds then Some ivs else map_of days d)" for d
    using days
  proof (induction ds arbitrary: days outside)
    case (Cons x xs)
    then show ?case
      by (cases "a \<le> x \<and> x \<le> b") (auto simp: update_conv')
  qed simp
  with ivs ds show ?thesis by (auto simp: exception_covers_def)
qed

text \<open>The last exception of a calendar that covers a date.\<close>

definition exception_on :: "calendar \<Rightarrow> date \<Rightarrow> calendar_exception option" where
  "exception_on c d = find (\<lambda>e. exception_covers (cal_uid c) e d) (rev (cal_exceptions c))"

lemma exception_fold:
  assumes "rfold (exception_step a b u) es (days, outside) = Inr (days', outside')"
  shows "(\<forall>e \<in> set es. \<exists>ivs. exception_row u e = Inr ivs)
    \<and> (\<forall>d. map_of days' d = (case if a \<le> d \<and> d \<le> b then find (\<lambda>e. exception_covers u e d) (rev es) else None of
         Some e \<Rightarrow> (case exception_row u e of Inr ivs \<Rightarrow> Some ivs | Inl _ \<Rightarrow> None)
       | None \<Rightarrow> map_of days d))"
  using assms
proof (induction es arbitrary: days' outside' rule: rev_induct)
  case (snoc e es)
  from snoc.prems obtain days1 outside1 where one: "rfold (exception_step a b u) es (days, outside) = Inr (days1, outside1)"
    and two: "exception_step a b u e (days1, outside1) = Inr (days', outside')"
    by (auto simp: rfold_append rbind_Inr_iff)
  from exception_step_Inr [OF two] obtain ivs where "exception_row u e = Inr ivs"
    "\<forall>d. map_of days' d = (if a \<le> d \<and> d \<le> b \<and> exception_covers u e d then Some ivs else map_of days1 d)" by blast
  with snoc.IH [OF one] show ?case by auto
qed simp

lemma own_pattern_Inr:
  assumes "own_pattern a b c base = Inr p"
  obtains seen where "rfold (week_step (cal_uid c)) (cal_week c) (pt_week base, []) = Inr (pt_week p, seen)"
    and "set (map fst (pt_week p)) = {1, 2, 3, 4, 5, 6, 7}"
    and "rfold (exception_step a b (cal_uid c)) (cal_exceptions c) (pt_exception_days base, pt_outside base)
      = Inr (pt_exception_days p, pt_outside p)"
    and "pt_lineage p = pt_lineage base @ [cal_uid c]"
  using assms by (auto simp: own_pattern_def rbind_Inr_iff raise_if_Inr_iff)

definition pattern_ok :: "pattern \<Rightarrow> bool" where
  "pattern_ok p \<longleftrightarrow> (\<forall>d ivs. map_of (pt_week p) d = Some ivs \<longrightarrow> good_day ivs)
     \<and> (\<forall>d ivs. map_of (pt_exception_days p) d = Some ivs \<longrightarrow> good_day ivs)"

lemma own_pattern_ok:
  assumes base: "pattern_ok base" and own: "own_pattern a b c base = Inr p"
  shows "pattern_ok p \<and> set (map fst (pt_week p)) = {1, 2, 3, 4, 5, 6, 7}"
proof -
  obtain seen where w: "rfold (week_step (cal_uid c)) (cal_week c) (pt_week base, []) = Inr (pt_week p, seen)"
    and full: "set (map fst (pt_week p)) = {1, 2, 3, 4, 5, 6, 7}"
    and e: "rfold (exception_step a b (cal_uid c)) (cal_exceptions c) (pt_exception_days base, pt_outside base)
      = Inr (pt_exception_days p, pt_outside p)"
    using own by (rule own_pattern_Inr)
  have "good_day ivs" if d: "map_of (pt_week p) d = Some ivs" for d ivs
  proof (cases "d \<in> wd_day ` set (cal_week c)")
    case True
    with week_fold(2) [OF w] d good_day_row show ?thesis by fastforce
  next
    case False
    with week_fold(3) [OF w False] d base show ?thesis by (auto simp: pattern_ok_def)
  qed
  moreover have "good_day ivs" if d: "map_of (pt_exception_days p) d = Some ivs" for d ivs
    using exception_fold [OF e] d base good_exception_row
    by (auto simp: pattern_ok_def split: option.splits sum.splits if_splits)
  ultimately show ?thesis using full by (simp add: pattern_ok_def)
qed

subsection \<open>Inheritance\<close>

inductive inherits :: "calendar list \<Rightarrow> date \<Rightarrow> date \<Rightarrow> uuid \<Rightarrow> pattern \<Rightarrow> bool" for cs a b where
  root: "calendar_by_uid cs u = Some c \<Longrightarrow> cal_base_uid c = None \<Longrightarrow>
    own_pattern a b c empty_pattern = Inr p \<Longrightarrow> inherits cs a b u p"
| derived: "calendar_by_uid cs u = Some c \<Longrightarrow> cal_base_uid c = Some v \<Longrightarrow> inherits cs a b v q \<Longrightarrow>
    own_pattern a b c q = Inr p \<Longrightarrow> inherits cs a b u p"

inductive_cases inherits_E: "inherits cs a b u p"

definition base_rel :: "calendar list \<Rightarrow> (uuid \<times> uuid) set" where
  "base_rel cs = {(u, v). \<exists>c. calendar_by_uid cs u = Some c \<and> cal_base_uid c = Some v}"

lemma base_rel_fun: "(u, v) \<in> base_rel cs \<Longrightarrow> (u, w) \<in> base_rel cs \<Longrightarrow> v = w"
  by (auto simp: base_rel_def)

lemma inherits_ok: "inherits cs a b u p \<Longrightarrow> pattern_ok p \<and> set (map fst (pt_week p)) = {1, 2, 3, 4, 5, 6, 7}"
proof (induction rule: inherits.induct)
  case (root u c p)
  then show ?case using own_pattern_ok [of empty_pattern] by (simp add: pattern_ok_def empty_pattern_def)
next
  case (derived u c v q p)
  then show ?case using own_pattern_ok by blast
qed

lemma inherits_unique: "inherits cs a b u p \<Longrightarrow> inherits cs a b u q \<Longrightarrow> p = q"
proof (induction arbitrary: q rule: inherits.induct)
  case (root u c p)
  from root(4) show ?case by (rule inherits_E) (use root(1-3) in auto)
next
  case (derived u c v r p)
  from derived(6) show ?case
  proof (rule inherits_E)
    fix c' v' r'
    assume "calendar_by_uid cs u = Some c'" "cal_base_uid c' = Some v'" "inherits cs a b v' r'" "own_pattern a b c' r' = Inr q"
    then have c: "c' = c" "v' = v" and r: "inherits cs a b v r'" and q: "own_pattern a b c r' = Inr q"
      using derived(1,2) by auto
    from derived(5) [OF r] q derived(4) show ?thesis by simp
  qed (use derived(1,2) in simp)
qed

text \<open>A chain of bases that ends never closes.\<close>

definition chain_cycles :: "calendar list \<Rightarrow> uuid \<Rightarrow> bool" where
  "chain_cycles cs u \<longleftrightarrow> (\<exists>v. (u, v) \<in> (base_rel cs)\<^sup>* \<and> (v, v) \<in> (base_rel cs)\<^sup>+)"

lemma chain_step:
  assumes "(u, v) \<in> base_rel cs"
  shows "(u, w) \<in> (base_rel cs)\<^sup>+ \<longleftrightarrow> (v, w) \<in> (base_rel cs)\<^sup>*" and "chain_cycles cs u \<longleftrightarrow> chain_cycles cs v"
proof -
  show step: "(u, w) \<in> (base_rel cs)\<^sup>+ \<longleftrightarrow> (v, w) \<in> (base_rel cs)\<^sup>*" for w
    using tranclD [of u w "base_rel cs"] base_rel_fun [OF assms] rtrancl_into_trancl2 [OF assms] by blast
  show "chain_cycles cs u \<longleftrightarrow> chain_cycles cs v"
  proof
    assume "chain_cycles cs u"
    then obtain w where w: "(u, w) \<in> (base_rel cs)\<^sup>*" "(w, w) \<in> (base_rel cs)\<^sup>+" by (auto simp: chain_cycles_def)
    show "chain_cycles cs v"
    proof (cases "w = u")
      case True
      with w(2) step have "(v, u) \<in> (base_rel cs)\<^sup>*" by simp
      then have "(v, v) \<in> (base_rel cs)\<^sup>+" using assms by (rule rtrancl_into_trancl1)
      then show ?thesis by (auto simp: chain_cycles_def)
    next
      case False
      with w(1) have "(u, w) \<in> (base_rel cs)\<^sup>+" by (simp add: rtrancl_eq_or_trancl)
      with step w(2) show ?thesis by (auto simp: chain_cycles_def)
    qed
  qed (use assms in \<open>auto simp: chain_cycles_def intro: converse_rtrancl_into_rtrancl\<close>)
qed

lemma chain_ends: "(\<And>v. (u, v) \<notin> base_rel cs) \<Longrightarrow> \<not> chain_cycles cs u"
  unfolding chain_cycles_def by (metis converse_rtranclE tranclD)

lemma inherits_acyclic: "inherits cs a b u p \<Longrightarrow> \<not> chain_cycles cs u"
proof (induction rule: inherits.induct)
  case (root u c p)
  then show ?case by (intro chain_ends) (auto simp: base_rel_def)
next
  case (derived u c v q p)
  then have "(u, v) \<in> base_rel cs" by (auto simp: base_rel_def)
  with chain_step(2) derived show ?case by blast
qed

subsection \<open>Resolution\<close>

definition cache_ok :: "calendar list \<Rightarrow> date \<Rightarrow> date \<Rightarrow> resolver_cache \<Rightarrow> bool" where
  "cache_ok cs a b cache \<longleftrightarrow> (\<forall>u p. cache u = Some p \<longrightarrow> inherits cs a b u p)"

lemma resolve_sound:
  "cache_ok cs a b cache \<Longrightarrow> resolve_calendar cs a b active u cache = Inr (p, cache') \<Longrightarrow>
    inherits cs a b u p \<and> cache_ok cs a b cache'"
proof (induction cs a b active u cache arbitrary: p cache' rule: resolve_calendar.induct)
  case (1 cs a b active u cache)
  show ?case
  proof (cases "cache u")
    case (Some q)
    with 1(2,3) show ?thesis by (subst (asm) resolve_calendar.simps) (auto simp: cache_ok_def)
  next
    case None
    with 1(3) obtain c where u: "u \<notin> set active" "calendar_by_uid cs u = Some c"
      by (subst (asm) resolve_calendar.simps) (auto split: if_splits option.splits)
    with 1(3) None obtain q cache1 where base: "(case cal_base_uid c of None \<Rightarrow> Inr (empty_pattern, cache)
        | Some v \<Rightarrow> resolve_calendar cs a b (u # active) v cache) = Inr (q, cache1)"
      and own: "own_pattern a b c q = Inr p" and cache': "cache' = cache1(u \<mapsto> p)"
      by (subst (asm) resolve_calendar.simps) (auto simp: rbind_Inr_iff)
    show ?thesis
    proof (cases "cal_base_uid c")
      case None
      with base own u(2) have "inherits cs a b u p" by (auto intro: inherits.root)
      with 1(2) base None cache' show ?thesis by (auto simp: cache_ok_def)
    next
      case (Some v)
      with base have "resolve_calendar cs a b (u # active) v cache = Inr (q, cache1)" by simp
      from 1(1) [OF \<open>cache u = None\<close> u Some 1(2) this] have q: "inherits cs a b v q" "cache_ok cs a b cache1" by auto
      then have "inherits cs a b u p" using u(2) Some own by (blast intro: inherits.derived)
      with q(2) cache' show ?thesis by (auto simp: cache_ok_def)
    qed
  qed
qed

lemma resolve_complete:
  "inherits cs a b u p \<Longrightarrow> cache_ok cs a b cache \<Longrightarrow> \<forall>w \<in> set active. (u, w) \<notin> (base_rel cs)\<^sup>* \<Longrightarrow>
    \<exists>cache'. resolve_calendar cs a b active u cache = Inr (p, cache')"
proof (induction arbitrary: active rule: inherits.induct)
  case (root u c p)
  show ?case
  proof (cases "cache u")
    case (Some q)
    with root(4) inherits_unique [OF _ inherits.root [OF root(1-3)]] show ?thesis
      by (auto simp: resolve_calendar.simps cache_ok_def)
  next
    case None
    with root show ?thesis by (auto simp: resolve_calendar.simps)
  qed
next
  case (derived u c v q p)
  show ?case
  proof (cases "cache u")
    case (Some r)
    with derived(6) inherits_unique [OF _ inherits.derived [OF derived(1-4)]] show ?thesis
      by (auto simp: resolve_calendar.simps cache_ok_def)
  next
    case None
    have edge: "(u, v) \<in> base_rel cs" using derived(1,2) by (auto simp: base_rel_def)
    have "\<not> chain_cycles cs u" by (rule inherits_acyclic [OF inherits.derived [OF derived(1-4)]])
    then have "(v, u) \<notin> (base_rel cs)\<^sup>*" using chain_step(1) [OF edge, of u] by (auto simp: chain_cycles_def)
    then have "\<forall>w \<in> set (u # active). (v, w) \<notin> (base_rel cs)\<^sup>*"
      using derived(7) edge by (auto intro: converse_rtrancl_into_rtrancl)
    from derived(5) [OF derived(6) this] obtain cache1 where
      "resolve_calendar cs a b (u # active) v cache = Inr (q, cache1)" by blast
    moreover have "u \<notin> set active" using derived(7) by auto
    ultimately show ?thesis using None derived(1,2,4) by (subst resolve_calendar.simps) simp
  qed
qed

lemma resolve_iff:
  assumes "cache_ok cs a b cache"
  shows "(\<exists>cache'. resolve_calendar cs a b [] u cache = Inr (p, cache')) \<longleftrightarrow> inherits cs a b u p"
  using resolve_sound [OF assms] resolve_complete [OF _ assms, of u p "[]"] by auto

text \<open>Errors: a calendar's own rows never raise the code of a cycle.\<close>

definition cycle_error :: "exc \<Rightarrow> bool" where
  "cycle_error e \<longleftrightarrow> (\<exists>v. e = calendar_error ''CALENDAR_INHERITANCE_CYCLE'' v)"

lemma unsigned_int_Inl: "unsigned_int s = Inl e \<Longrightarrow> e = ValueError"
  by (auto simp: unsigned_int_def split: option.splits if_splits)

lemma parse_int_Inl: "parse_int s = Inl e \<Longrightarrow> e = ValueError"
  by (auto simp: parse_int_def rbind_Inl_iff dest: unsigned_int_Inl split: list.splits if_splits)

lemma recurrence_int_Inl: "recurrence_int e k = Inl x \<Longrightarrow> x = ValueError"
  by (auto simp: recurrence_int_def dest: parse_int_Inl split: option.splits if_splits)

lemma add_days_Inl: "add_days d k = Inl e \<Longrightarrow> e = OverflowError"
  by (simp add: add_days_def split: if_splits)

lemma date_steps_Inl: "date_steps d l k = Inl e \<Longrightarrow> e = OverflowError"
proof (induction d l k rule: date_steps.induct)
  case (1 d l k)
  then show ?case
    by (subst (asm) (2) date_steps.simps) (auto simp: rbind_Inl_iff dest: add_days_Inl split: if_splits)
qed

lemma exception_dates_Inl: "exception_dates e u = Inl x \<Longrightarrow> x \<in> {ValueError, OverflowError,
    calendar_error ''CALENDAR_EXCEPTION_RECURRENCE_UNSUPPORTED'' u, calendar_error ''CALENDAR_EXCEPTION_RANGE_INVALID'' u}"
  by (auto simp: exception_dates_def Let_def raise_if_Inl_iff rbind_Inl_iff split: if_splits
      dest!: recurrence_int_Inl date_steps_Inl rmap_Inl add_days_Inl)

lemma own_pattern_Inl:
  assumes "own_pattern a b c base = Inl e"
  shows "\<not> cycle_error e"
proof -
  have week: "\<not> cycle_error x" if "week_step u w s = Inl x" for u w s x
    using that by (cases s) (auto simp: week_step_def raise_if_Inl_iff rbind_Inl_iff cycle_error_def split: if_splits dest!: validated(3))
  have exc: "\<not> cycle_error x" if "exception_step a b u y s = Inl x" for u y s x
    using that by (auto simp: exception_step_def raise_if_Inl_iff rbind_Inl_iff cycle_error_def split: if_splits
        dest!: validated(3) exception_dates_Inl)
  from assms consider "rfold (week_step (cal_uid c)) (cal_week c) (pt_week base, []) = Inl e"
    | "e = calendar_error ''CALENDAR_WEEK_INCOMPLETE'' (cal_uid c)"
    | "rfold (exception_step a b (cal_uid c)) (cal_exceptions c) (pt_exception_days base, pt_outside base) = Inl e"
    by (auto simp: own_pattern_def raise_if_Inl_iff rbind_Inl_iff)
  then show ?thesis
  proof cases
    case 1
    from rfold_Inl [OF this] week show ?thesis by blast
  next
    case 2
    then show ?thesis by (simp add: cycle_error_def)
  next
    case 3
    from rfold_Inl [OF this] exc show ?thesis by blast
  qed
qed

lemma resolve_cycle_error:
  assumes "resolve_calendar cs a b active u cache = Inl e" and "cycle_error e"
    and "successively (\<lambda>v w. (w, v) \<in> base_rel cs) (u # active)"
  shows "chain_cycles cs u"
  using assms
proof (induction cs a b active u cache rule: resolve_calendar.induct)
  case (1 cs a b active u cache)
  from 1(2,3) have new: "cache u = None" by (subst (asm) resolve_calendar.simps) (auto split: option.splits)
  show ?case
  proof (cases "u \<in> set active")
    case True
    have up: "(v, w) \<in> (base_rel cs)\<^sup>+" if "successively (\<lambda>v w. (w, v) \<in> base_rel cs) (w # vs)" "v \<in> set vs" for w v vs
      using that
    proof (induction vs arbitrary: w)
      case (Cons x vs)
      then have "(x, w) \<in> base_rel cs" by simp
      with Cons show ?case by (cases "v = x") (auto intro: trancl_into_trancl)
    qed simp
    from up [OF 1(4) True] show ?thesis by (auto simp: chain_cycles_def)
  next
    case False
    with 1(2,3) new obtain c where c: "calendar_by_uid cs u = Some c"
      by (subst (asm) resolve_calendar.simps) (auto simp: cycle_error_def split: option.splits)
    with 1(2,3) new False obtain v where v: "cal_base_uid c = Some v" "resolve_calendar cs a b (u # active) v cache = Inl e"
      by (subst (asm) resolve_calendar.simps) (auto simp: rbind_Inl_iff dest: own_pattern_Inl split: option.splits)
    then have edge: "(u, v) \<in> base_rel cs" using c by (auto simp: base_rel_def)
    from 1(1) [OF new False c v 1(3)] 1(4) edge have "chain_cycles cs v" by simp
    with chain_step(2) [OF edge] show ?thesis by simp
  qed
qed

lemma resolve_cycle_refused:
  assumes "chain_cycles cs u" and "cache_ok cs a b cache"
  shows "\<exists>e. resolve_calendar cs a b active u cache = Inl e \<and> cycle_error e"
  using assms
proof (induction cs a b active u cache rule: resolve_calendar.induct)
  case (1 cs a b active u cache)
  have new: "cache u = None"
    using 1(2,3) inherits_acyclic [of cs a b u] unfolding cache_ok_def by (metis not_Some_eq)
  show ?case
  proof (cases "u \<in> set active")
    case True
    with new show ?thesis by (simp add: resolve_calendar.simps cycle_error_def)
  next
    case False
    from 1(2) chain_ends [of u cs] obtain v where edge: "(u, v) \<in> base_rel cs" by blast
    then obtain c where c: "calendar_by_uid cs u = Some c" "cal_base_uid c = Some v" by (auto simp: base_rel_def)
    from 1(1) [OF new False c _ 1(3)] 1(2) chain_step(2) [OF edge] obtain e where
      "resolve_calendar cs a b (u # active) v cache = Inl e" "cycle_error e" by blast
    with new False c show ?thesis by (subst resolve_calendar.simps) auto
  qed
qed

subsection \<open>The days of the horizon\<close>

definition pattern_on :: "pattern \<Rightarrow> date \<Rightarrow> interval list" where
  "pattern_on p d = (case map_of (pt_exception_days p) d of
     Some ivs \<Rightarrow> ivs
   | None \<Rightarrow> (case map_of (pt_week p) (day_type d) of Some ivs \<Rightarrow> ivs | None \<Rightarrow> []))"

lemma contains_clip:
  "contains_coordinate x (clip_day m hz ivs) \<longleftrightarrow> fst hz \<le> x \<and> x < snd hz \<and> contains_coordinate (x - m) ivs"
proof (induction ivs)
  case (Cons i ivs)
  then show ?case by (cases i) (auto simp: clip_day_def)
qed (simp add: clip_day_def)

lemma compile_days_contains:
  assumes "compile_days p epoch hz day last_day raw k = Inr (raw', k')"
  shows "contains_coordinate x raw' \<longleftrightarrow> contains_coordinate x raw
    \<or> fst hz \<le> x \<and> x < snd hz
      \<and> (\<exists>d. day \<le> d \<and> d \<le> last_day \<and> contains_coordinate (x - int_seconds (midnight_of d - epoch)) (pattern_on p d))"
  using assms
proof (induction p epoch hz day last_day raw k rule: compile_days.induct)
  case (1 p epoch hz day last_day raw k)
  show ?case
  proof (cases "day > last_day")
    case True
    with 1(2) show ?thesis by (subst (asm) compile_days.simps) auto
  next
    case False
    with 1(2) obtain ivs k1 nd where s: "(case map_of (pt_exception_days p) day of
          Some ivs \<Rightarrow> Inr (ivs, Suc k)
        | None \<Rightarrow> (case map_of (pt_week p) (day_type day) of None \<Rightarrow> Inl KeyError | Some ivs \<Rightarrow> Inr (ivs, k))) = Inr (ivs, k1)"
      and nd: "add_days day 1 = Inr nd"
      and rest: "compile_days p epoch hz (day + 1) last_day
          (raw @ clip_day (int_seconds (midnight_of day - epoch)) hz ivs) k1 = Inr (raw', k')"
      by (subst (asm) compile_days.simps) (auto simp: rbind_Inr_iff)
    have ivs: "ivs = pattern_on p day" using s by (auto simp: pattern_on_def split: option.splits)
    have split: "(\<exists>d. day \<le> d \<and> d \<le> last_day \<and> Q d) \<longleftrightarrow> Q day \<or> (\<exists>d. day + 1 \<le> d \<and> d \<le> last_day \<and> Q d)" for Q :: "int \<Rightarrow> bool"
      using False by (metis add1_zle_eq le_less linorder_not_less order_refl)
    show ?thesis
      using 1(1) [OF False rest] unfolding contains_append contains_clip ivs split [where Q = "\<lambda>d. contains_coordinate
          (x - int_seconds (midnight_of d - epoch)) (pattern_on p d)"] by blast
  qed
qed

lemma compile_days_total:
  assumes "set (map fst (pt_week p)) = {1, 2, 3, 4, 5, 6, 7}" and "1 \<le> day" and "last_day < max_ordinal"
  shows "\<exists>r. compile_days p epoch hz day last_day raw k = Inr r"
  using assms
proof (induction p epoch hz day last_day raw k rule: compile_days.induct)
  case (1 p epoch hz day last_day raw k)
  show ?case
  proof (cases "day > last_day")
    case True
    then show ?thesis by (subst compile_days.simps) auto
  next
    case False
    have "0 \<le> (weekday day + 1) mod 7" "(weekday day + 1) mod 7 < 7" by simp_all
    then have "day_type day \<in> {1, 2, 3, 4, 5, 6, 7}" unfolding day_type_def insert_iff empty_iff by linarith
    then obtain w where "map_of (pt_week p) (day_type day) = Some w"
      using 1(2) by (metis domD dom_map_of_conv_image_fst set_map)
    then obtain ivs k1 where s: "(case map_of (pt_exception_days p) day of
          Some ivs \<Rightarrow> Inr (ivs, Suc k)
        | None \<Rightarrow> (case map_of (pt_week p) (day_type day) of None \<Rightarrow> Inl KeyError | Some ivs \<Rightarrow> Inr (ivs, k))) = (Inr (ivs, k1) :: (interval list \<times> nat) result)"
      by (cases "map_of (pt_exception_days p) day") auto
    have nd: "add_days day 1 = Inr (day + 1)" using False 1(3,4) by (simp add: add_days_def date_ok_def)
    have "\<exists>r. compile_days p epoch hz (day + 1) last_day
        (raw @ clip_day (int_seconds (midnight_of day - epoch)) hz ivs) k1 = Inr r"
      using 1(1) [where x = ivs and xa = k1] 1(2-4) False by simp
    with False s nd show ?thesis by (subst compile_days.simps) simp
  qed
qed

lemma int_seconds_exact: "1000000 dvd us \<Longrightarrow> int_seconds us * 1000000 = us"
  by (auto simp: int_seconds_def dvd_def)

lemma midnight_seconds: "int_seconds (midnight_of d - midnight_of e) = (d - e) * 86400"
proof -
  have "midnight_of d - midnight_of e = (d - e) * 86400 * 1000000" by (simp add: midnight_of_def us_per_day_def algebra_simps)
  then have "int_seconds (midnight_of d - midnight_of e) * 1000000 = (d - e) * 86400 * 1000000"
    using int_seconds_exact [of "midnight_of d - midnight_of e"] by simp
  then show ?thesis by simp
qed

text \<open>The day and the second of a coordinate.\<close>

lemma moment_of_coordinate:
  "date_of (midnight_of e + x * 1000000) = e + x div 86400"
  "((midnight_of e + x * 1000000) mod us_per_day) div 1000000 = x mod 86400"
proof -
  have x: "midnight_of e + x * 1000000 = (e + x div 86400) * 86400000000 + (x mod 86400) * 1000000"
  proof -
    have "e * 86400000000 + (q * 86400 + r) * 1000000 = (e + q) * 86400000000 + r * 1000000" for q r :: int
      by (simp add: algebra_simps)
    from this [of "x div 86400" "x mod 86400"] show ?thesis by (simp add: midnight_of_def us_per_day_def)
  qed
  have r: "0 \<le> (x mod 86400) * 1000000" "(x mod 86400) * 1000000 < 86400000000" by simp_all
  show "date_of (midnight_of e + x * 1000000) = e + x div 86400"
    unfolding date_of_def us_per_day_def x using r by (simp add: div_add1_eq)
  show "((midnight_of e + x * 1000000) mod us_per_day) div 1000000 = x mod 86400"
    unfolding us_per_day_def x mod_mult_self3 mod_pos_pos_trivial [OF r] by simp
qed

lemma day_of_second:
  assumes "good_day ivs" and "contains_coordinate (x - (d - e) * 86400) ivs"
  shows "d = e + x div 86400" and "x - (d - e) * 86400 = x mod 86400"
proof -
  from assms have r: "0 \<le> x - (d - e) * 86400" "x - (d - e) * 86400 < 86400"
    by (auto simp: good_day_def within_day_def contains_iff SECONDS_PER_DAY_def)
  then have "x div 86400 = d - e" by (intro int_div_pos_eq) auto
  then show "d = e + x div 86400" "x - (d - e) * 86400 = x mod 86400" by (simp_all add: minus_div_mult_eq_mod [symmetric])
qed

subsection \<open>One compilation\<close>

lemma resolver_window_Inr: "resolver_window h = Inr w \<Longrightarrow> w = (date_of (fst h), date_of (snd h - 1))"
  by (auto simp: resolver_window_def add_micros_def rbind_Inr_iff split: if_splits)

lemma cache_ok_empty: "cache_ok cs a b Map.empty"
  by (simp add: cache_ok_def)

lemma compile_with_Inr:
  assumes "compile_with sha cs u h epoch window cache = Inr (cc, cache')"
  obtains p raw where "resolve_calendar cs (fst window) (snd window) [] u cache = Inr (p, cache')"
    and "compile_days p epoch (int_seconds (fst h - epoch), int_seconds (snd h - epoch)) (date_of (fst h)) (date_of (snd h - 1)) [] 0
      = Inr (raw, cc_exception_days_applied cc)"
    and "cc_intervals cc = ci_of raw" and "cc_epoch cc = epoch"
  using assms by (auto simp: compile_with_def rbind_Inr_iff add_micros_def Let_def split: if_splits)

text \<open>A moment of the horizon, compared in whole seconds.\<close>

lemma in_horizon:
  assumes "1000000 dvd fst h - epoch" and "1000000 dvd snd h - epoch"
  shows "int_seconds (fst h - epoch) \<le> x \<longleftrightarrow> fst h \<le> epoch + x * 1000000"
    and "x < int_seconds (snd h - epoch) \<longleftrightarrow> epoch + x * 1000000 < snd h"
  using int_seconds_exact [OF assms(1)] int_seconds_exact [OF assms(2)] by linarith+

text \<open>A resolver with a sound memo compiles what a fresh one compiles.\<close>

lemma compile_with_cache:
  assumes ok: "cache_ok cs a b cache"
  shows "(\<exists>cache'. compile_with sha cs u h epoch (a, b) cache = Inr (cc, cache')) \<longleftrightarrow>
      (\<exists>cache'. compile_with sha cs u h epoch (a, b) Map.empty = Inr (cc, cache'))"
    and "compile_with sha cs u h epoch (a, b) cache = Inr (cc, cache') \<Longrightarrow> cache_ok cs a b cache'"
proof -
  have one: "(\<exists>cache'. compile_with sha cs u h epoch (a, b) m = Inr (cc, cache')) \<longleftrightarrow>
      (\<exists>p. inherits cs a b u p \<and> (\<exists>cache'. compile_with sha cs u h epoch (a, b) [u \<mapsto> p] = Inr (cc, cache')))"
    if "cache_ok cs a b m" for m
  proof -
    have "resolve_calendar cs a b [] u [u \<mapsto> p] = Inr (p, [u \<mapsto> p])" for p by (simp add: resolve_calendar.simps)
    then have "(\<exists>cache'. compile_with sha cs u h epoch (a, b) m = Inr (cc, cache')) \<longleftrightarrow>
        (\<exists>p. (\<exists>cache'. resolve_calendar cs a b [] u m = Inr (p, cache'))
           \<and> (\<exists>cache'. compile_with sha cs u h epoch (a, b) [u \<mapsto> p] = Inr (cc, cache')))"
      by (auto simp: compile_with_def rbind_Inr_iff Let_def)
    then show ?thesis by (simp only: resolve_iff [OF that])
  qed
  from one [OF ok] one [OF cache_ok_empty] show "(\<exists>cache'. compile_with sha cs u h epoch (a, b) cache = Inr (cc, cache')) \<longleftrightarrow>
      (\<exists>cache'. compile_with sha cs u h epoch (a, b) Map.empty = Inr (cc, cache'))" by blast
  show "cache_ok cs a b cache'" if "compile_with sha cs u h epoch (a, b) cache = Inr (cc, cache')"
    using resolve_sound [OF ok] that by (auto simp: compile_with_def rbind_Inr_iff Let_def)
qed

end
