(* ===== verification/Compile_Properties.thy ===== *)
theory Compile_Properties
  imports Compile_Meaning
begin

section \<open>Properties of the compiled calendars\<close>

subsection \<open>Sample calendars\<close>

text \<open>
  A standard week, and a shutdown calendar based on it that works Saturday mornings, has a day off
  every second day of a range and a working exception, with Monday 2026-01-05 as ordinal 739621.
\<close>

definition shift_day :: "int \<Rightarrow> calendar_week_day" where
  "shift_day d = \<lparr> wd_day = d, wd_working = True, wd_intervals =
     [\<lparr> start_second = 46800, finish_second = 61200 \<rparr>, \<lparr> start_second = 28800, finish_second = 43200 \<rparr>] \<rparr>"

definition rest_day :: "int \<Rightarrow> calendar_week_day" where
  "rest_day d = \<lparr> wd_day = d, wd_working = False, wd_intervals = [] \<rparr>"

definition standard_calendar :: calendar where
  "standard_calendar = \<lparr> cal_uid = 100, cal_base_uid = None,
     cal_week = [rest_day 1, shift_day 2, shift_day 3, shift_day 4, shift_day 5, shift_day 6, rest_day 7],
     cal_exceptions = [], cal_source_fields = Map.empty \<rparr>"

definition days_off :: calendar_exception where
  "days_off = \<lparr> ex_from_date = midnight_of 739622, ex_to_date = midnight_of 739625, ex_working = False,
     ex_intervals = [], ex_recurrence = [''type'' \<mapsto> ''7'', ''period'' \<mapsto> ''2''] \<rparr>"

definition night_shift :: calendar_exception where
  "night_shift = \<lparr> ex_from_date = midnight_of 739624, ex_to_date = midnight_of 739624, ex_working = True,
     ex_intervals = [\<lparr> start_second = 64800, finish_second = 0 \<rparr>], ex_recurrence = Map.empty \<rparr>"

definition shutdown_calendar :: calendar where
  "shutdown_calendar = \<lparr> cal_uid = 101, cal_base_uid = Some 100,
     cal_week = [\<lparr> wd_day = 7, wd_working = True, wd_intervals = [\<lparr> start_second = 28800, finish_second = 43200 \<rparr>] \<rparr>],
     cal_exceptions = [days_off, night_shift], cal_source_fields = Map.empty \<rparr>"

definition sample_calendars :: "calendar list" where
  "sample_calendars = [shutdown_calendar, standard_calendar]"

definition looping_calendars :: "calendar list" where
  "looping_calendars = [shutdown_calendar, standard_calendar\<lparr>cal_base_uid := Some 101\<rparr>]"

definition sample_horizon :: "moment \<times> moment" where
  "sample_horizon = (midnight_of 739621 + 7 * 3600000000, midnight_of 739628)"

definition sample_compiled :: compiled_calendar where
  "sample_compiled = (case compile_calendar (\<lambda>_. []) sample_calendars 101 sample_horizon None None of
     Inr (cc, _) \<Rightarrow> cc | Inl _ \<Rightarrow> undefined)"

lemma sample_compiled_intervals:
  "case compile_calendar (\<lambda>_. []) sample_calendars 101 sample_horizon None None of
     Inr (cc, _) \<Rightarrow> intervals (cc_intervals cc) =
         [(28800, 43200), (46800, 61200), (201600, 216000), (219600, 234000), (324000, 345600),
          (374400, 388800), (392400, 406800), (460800, 475200)]
       \<and> cc_lineage cc = [100, 101] \<and> cc_exception_days_applied cc = 2
   | Inl _ \<Rightarrow> False"
  by code_simp

lemma sample_compiled_run:
  "\<exists>cache. compile_calendar (\<lambda>_. []) sample_calendars 101 sample_horizon None None = Inr (sample_compiled, cache)"
  using sample_compiled_intervals unfolding sample_compiled_def by (auto split: sum.splits)

text \<open>
  (C10) A compiled calendar means its pattern: when a calendar compiles from an epoch at a midnight
  over a horizon in whole seconds, the calendar resolves along its chain of bases, the result is a
  well-formed interval list, and a coordinate works exactly when its moment lies in the horizon
  and its second of the day is in an interval of its date, the exception's where one applies and
  the weekday's otherwise.
\<close>

theorem compile_calendar_meaning:
  assumes "compile_calendar sha cs u h epoch None = Inr (cc, cache)"
    and "default_epoch (fst h) epoch = midnight_of e" and "1000000 dvd fst h" and "1000000 dvd snd h"
  shows "\<exists>p. inherits cs (date_of (fst h)) (date_of (snd h - 1)) u p \<and> wf_calendar (cc_intervals cc)
    \<and> (\<forall>x. let m = midnight_of e + x * 1000000 in contains_coordinate x (intervals (cc_intervals cc)) \<longleftrightarrow>
         fst h \<le> m \<and> m < snd h \<and> contains_coordinate ((m mod us_per_day) div 1000000) (pattern_on p (date_of m)))"
proof -
  let ?w = "(date_of (fst h), date_of (snd h - 1))"
  from assms(1) have run: "compile_with sha cs u h (midnight_of e) ?w Map.empty = Inr (cc, cache)"
    by (auto simp: compile_calendar_def raise_if_Inr_iff rbind_Inr_iff assms(2) dest!: resolver_window_Inr)
  then obtain p raw where res: "resolve_calendar cs (fst ?w) (snd ?w) [] u Map.empty = Inr (p, cache)"
    and days: "compile_days p (midnight_of e) (int_seconds (fst h - midnight_of e), int_seconds (snd h - midnight_of e))
      (date_of (fst h)) (date_of (snd h - 1)) [] 0 = Inr (raw, cc_exception_days_applied cc)"
    and ivs: "cc_intervals cc = ci_of raw" by (rule compile_with_Inr)
  have p: "inherits cs (date_of (fst h)) (date_of (snd h - 1)) u p"
    using resolve_sound [OF cache_ok_empty res] by simp
  have good: "good_day (pattern_on p d)" for d
    using inherits_ok [OF p] by (auto simp: pattern_on_def pattern_ok_def split: option.splits)
  have "1000000 dvd midnight_of e" by (simp add: midnight_of_def us_per_day_def)
  then have dvd: "1000000 dvd fst h - midnight_of e" "1000000 dvd snd h - midnight_of e"
    using assms(3,4) by (simp_all add: dvd_diff)
  have "contains_coordinate x (intervals (cc_intervals cc)) \<longleftrightarrow> fst h \<le> midnight_of e + x * 1000000
      \<and> midnight_of e + x * 1000000 < snd h
      \<and> contains_coordinate (x mod 86400) (pattern_on p (e + x div 86400))" for x
  proof -
    let ?m = "midnight_of e + x * 1000000"
    have "contains_coordinate x (intervals (cc_intervals cc)) \<longleftrightarrow> fst h \<le> ?m \<and> ?m < snd h
      \<and> (\<exists>d. date_of (fst h) \<le> d \<and> d \<le> date_of (snd h - 1) \<and> contains_coordinate (x - (d - e) * 86400) (pattern_on p d))"
      using compile_days_contains [OF days, of x] in_horizon [OF dvd]
      by (simp add: ivs ci_of_contains midnight_seconds)
    also have "\<dots> \<longleftrightarrow> fst h \<le> ?m \<and> ?m < snd h \<and> contains_coordinate (x mod 86400) (pattern_on p (e + x div 86400))"
    proof (intro conj_cong refl iffI)
      assume "\<exists>d. date_of (fst h) \<le> d \<and> d \<le> date_of (snd h - 1) \<and> contains_coordinate (x - (d - e) * 86400) (pattern_on p d)"
      then obtain d where d: "contains_coordinate (x - (d - e) * 86400) (pattern_on p d)" by blast
      with day_of_second [OF good d] show "contains_coordinate (x mod 86400) (pattern_on p (e + x div 86400))" by simp
    next
      assume h: "fst h \<le> ?m" "?m < snd h" and c: "contains_coordinate (x mod 86400) (pattern_on p (e + x div 86400))"
      have "date_of (fst h) \<le> date_of ?m" "date_of ?m \<le> date_of (snd h - 1)"
        using h unfolding date_of_def us_per_day_def by (simp_all add: zdiv_mono1)
      with c show "\<exists>d. date_of (fst h) \<le> d \<and> d \<le> date_of (snd h - 1) \<and> contains_coordinate (x - (d - e) * 86400) (pattern_on p d)"
        by (intro exI [of _ "e + x div 86400"]) (simp add: moment_of_coordinate minus_div_mult_eq_mod)
    qed
    finally show ?thesis .
  qed
  with p ivs ci_of_wf show ?thesis by (auto simp: Let_def moment_of_coordinate)
qed

theorem compile_calendar_meaning_witness:
  "\<exists>p. inherits sample_calendars 739621 739627 101 p
    \<and> contains_coordinate 330000 (intervals (cc_intervals sample_compiled))
    \<and> contains_coordinate 70800 (pattern_on p 739624)"
proof -
  obtain cache where run: "compile_calendar (\<lambda>_. []) sample_calendars 101 sample_horizon None None = Inr (sample_compiled, cache)"
    using sample_compiled_run by blast
  have e: "default_epoch (fst sample_horizon) None = midnight_of 739621" "1000000 dvd fst sample_horizon" "1000000 dvd snd sample_horizon"
    by code_simp+
  have d: "date_of (fst sample_horizon) = 739621" "date_of (snd sample_horizon - 1) = 739627" by code_simp+
  obtain p where p: "inherits sample_calendars 739621 739627 101 p"
    and c: "\<forall>x. let m = midnight_of 739621 + x * 1000000 in
      contains_coordinate x (intervals (cc_intervals sample_compiled)) \<longleftrightarrow>
         fst sample_horizon \<le> m \<and> m < snd sample_horizon \<and> contains_coordinate ((m mod us_per_day) div 1000000) (pattern_on p (date_of m))"
    using compile_calendar_meaning [OF run e] unfolding d by blast
  have "contains_coordinate 330000 (intervals (cc_intervals sample_compiled))"
    using sample_compiled_intervals run by simp
  moreover have "((midnight_of 739621 + 330000 * 1000000) mod us_per_day) div 1000000 = 70800"
    "date_of (midnight_of 739621 + 330000 * 1000000) = 739624" by code_simp+
  ultimately show ?thesis using p c [rule_format, of 330000] by (auto simp: Let_def)
qed

text \<open>
  (C19) Inheritance is exactly refused when it loops: for a horizon of representable moments that is
  not empty, compiling a calendar raises \<open>CALENDAR_INHERITANCE_CYCLE\<close> if and only if its chain of
  bases runs into a cycle, and otherwise the compilation never meets that error.
\<close>

theorem inheritance_cycle_refused:
  assumes "moment_ok (fst h)" and "moment_ok (snd h)" and "fst h < snd h"
  shows "(\<exists>v. compile_calendar sha cs u h epoch None = Inl (calendar_error ''CALENDAR_INHERITANCE_CYCLE'' v)) \<longleftrightarrow> chain_cycles cs u"
proof -
  let ?a = "date_of (fst h)" and ?b = "date_of (snd h - 1)"
  have "fst h div us_per_day \<le> (snd h - 1) div us_per_day" "(snd h - 1) div us_per_day \<le> snd h div us_per_day"
    using assms(3) by (simp_all add: zdiv_mono1 us_per_day_def)
  then have "moment_ok (snd h - 1)" using assms(1,2) by (simp add: moment_ok_def date_ok_def)
  then have final: "add_micros (snd h) (- 1) = Inr (snd h - 1)" by (simp add: add_micros_def us_per_day_def)
  have run: "compile_calendar sha cs u h epoch None
      = compile_with sha cs u h (default_epoch (fst h) epoch) (?a, ?b) Map.empty"
    using assms(3) final by (simp add: compile_calendar_def raise_if_def resolver_window_def)
  have days: "e \<in> {KeyError, OverflowError}" if "compile_days p epoch hz day last_day raw k = Inl e" for p epoch hz day last_day raw k e
    using that
  proof (induction p epoch hz day last_day raw k rule: compile_days.induct)
    case (1 p epoch hz day last_day raw k)
    from 1(2) show ?case
      by (subst (asm) compile_days.simps)
        (auto simp: rbind_Inl_iff dest: add_days_Inl 1(1) split: if_splits option.splits)
  qed
  have "(\<exists>v. compile_calendar sha cs u h epoch None = Inl (calendar_error ''CALENDAR_INHERITANCE_CYCLE'' v))
      \<longleftrightarrow> (\<exists>e. resolve_calendar cs ?a ?b [] u Map.empty = Inl e \<and> cycle_error e)"
    unfolding run by (auto simp: compile_with_def rbind_Inl_iff final cycle_error_def Let_def dest: days)
  also have "\<dots> \<longleftrightarrow> chain_cycles cs u"
    using resolve_cycle_error [of cs ?a ?b "[]" u Map.empty] resolve_cycle_refused [of cs u ?a ?b Map.empty "[]"] cache_ok_empty
    by auto
  finally show ?thesis .
qed

theorem inheritance_cycle_refused_witness:
  "\<exists>v. compile_calendar (\<lambda>_. []) looping_calendars 100 sample_horizon None None
     = Inl (calendar_error ''CALENDAR_INHERITANCE_CYCLE'' v)"
proof -
  have m: "moment_ok (fst sample_horizon)" "moment_ok (snd sample_horizon)" "fst sample_horizon < snd sample_horizon"
    by code_simp+
  have "(100, 101) \<in> base_rel looping_calendars" "(101, 100) \<in> base_rel looping_calendars"
    by (simp_all add: base_rel_def looping_calendars_def calendar_by_uid_def shutdown_calendar_def standard_calendar_def)
  then have "chain_cycles looping_calendars 100"
    unfolding chain_cycles_def by (meson r_into_trancl rtrancl.rtrancl_refl trancl_trans)
  with inheritance_cycle_refused [OF m] show ?thesis by blast
qed

text \<open>A calendar compiled alone, with a resolver of its own.\<close>

definition compiles_alone ::
    "(json \<Rightarrow> string) \<Rightarrow> calendar list \<Rightarrow> moment \<times> moment \<Rightarrow> moment option \<Rightarrow> uuid \<Rightarrow> compiled_calendar \<Rightarrow> bool" where
  "compiles_alone sha cs h epoch u cc \<longleftrightarrow> (\<exists>cache. compile_calendar sha cs u h epoch None = Inr (cc, cache))"

lemma compile_shared_one:
  fixes sha :: "json \<Rightarrow> string" and epoch :: "moment option"
  assumes w: "resolver_window h = Inr w" and ok: "cache_ok cs (fst w) (snd w) cache"
  defines "e \<equiv> default_epoch (fst h) epoch"
  shows "(\<exists>cache'. compile_calendar sha cs u h (Some e) (Some (w, cache)) = Inr (cc, cache')) \<longleftrightarrow> compiles_alone sha cs h epoch u cc"
    and "compile_calendar sha cs u h (Some e) (Some (w, cache)) = Inr (cc, cache') \<Longrightarrow> cache_ok cs (fst w) (snd w) cache'"
proof -
  show "(\<exists>cache'. compile_calendar sha cs u h (Some e) (Some (w, cache)) = Inr (cc, cache')) \<longleftrightarrow> compiles_alone sha cs h epoch u cc"
    using compile_with_cache(1) [OF ok, of sha u h e cc] w
    by (cases "snd h \<le> fst h") (auto simp: compiles_alone_def compile_calendar_def raise_if_def default_epoch_def e_def split: option.splits)
  show "cache_ok cs (fst w) (snd w) cache'"
    if "compile_calendar sha cs u h (Some e) (Some (w, cache)) = Inr (cc, cache')"
    using compile_with_cache(2) [OF ok, of sha u h e cc cache'] that
    by (auto simp: compile_calendar_def raise_if_Inr_iff default_epoch_def split: option.splits)
qed

lemma compile_fold:
  fixes sha :: "json \<Rightarrow> string" and epoch :: "moment option"
  assumes "resolver_window h = Inr w" and "cache_ok cs (fst w) (snd w) (snd s)"
  defines "step \<equiv> compile_step sha cs h (default_epoch (fst h) epoch) w"
  shows "(\<exists>s'. rfold step xs s = Inr s') \<longleftrightarrow> (\<forall>c \<in> set xs. \<exists>cc. compiles_alone sha cs h epoch (cal_uid c) cc)"
    and "rfold step xs s = Inr s' \<Longrightarrow>
      (u \<in> cal_uid ` set xs \<longrightarrow> (\<exists>cc. map_of (fst s') u = Some cc \<and> compiles_alone sha cs h epoch u cc))
      \<and> (u \<notin> cal_uid ` set xs \<longrightarrow> map_of (fst s') u = map_of (fst s) u)"
  using assms(2)
proof (induction xs arbitrary: s)
  case (Cons c xs)
  note one = compile_shared_one [OF assms(1), where sha = sha and epoch = epoch and u = "cal_uid c"]
  have next_state: "rfold step (c # xs) s = rfold step xs (AList.update (cal_uid c) cc (fst s), cache1)"
    "cache_ok cs (fst w) (snd w) cache1" "compiles_alone sha cs h epoch (cal_uid c) cc"
    if "cache_ok cs (fst w) (snd w) (snd s)"
      "compile_calendar sha cs (cal_uid c) h (Some (default_epoch (fst h) epoch)) (Some (w, snd s)) = Inr (cc, cache1)" for s cc cache1
    using one(1) [OF that(1), of cc] one(2) [OF that] that(2) by (auto simp: step_def compile_step_def)
  { case 1
    show ?case
    proof (cases "\<exists>cc. compiles_alone sha cs h epoch (cal_uid c) cc")
      case False
      then have "\<not> (\<exists>s'. step c s = Inr s')"
        using one(1) [OF 1] by (auto simp: step_def compile_step_def rbind_Inr_iff)
      with False show ?thesis by (auto simp: rbind_Inr_iff)
    next
      case True
      then obtain cc cache1 where "compile_calendar sha cs (cal_uid c) h (Some (default_epoch (fst h) epoch)) (Some (w, snd s)) = Inr (cc, cache1)"
        using one(1) [OF 1] by blast
      note n = next_state [OF 1 this]
      show ?thesis unfolding n(1) using Cons.IH(1) [of "(AList.update (cal_uid c) cc (fst s), cache1)"] n(2) True by simp
    qed }
  { case 2
    then obtain cc cache1 where "compile_calendar sha cs (cal_uid c) h (Some (default_epoch (fst h) epoch)) (Some (w, snd s)) = Inr (cc, cache1)"
      by (auto simp: step_def compile_step_def rbind_Inr_iff)
    note n = next_state [OF 2(2) this]
    from Cons.IH(2) [of "(AList.update (cal_uid c) cc (fst s), cache1)"] n 2(1) show ?case
      by (auto simp: update_conv') }
qed simp_all

text \<open>
  Sharing one resolver changes nothing: all calendars of a schedule compile together exactly
  when each of them compiles alone with a resolver of its own, and to the same results.
\<close>

theorem compile_calendars_shared:
  assumes "cs \<noteq> []"
  shows "((\<exists>rows. compile_calendars sha cs h epoch = Inr rows) \<longleftrightarrow>
       (\<forall>c \<in> set cs. \<exists>cc. compiles_alone sha cs h epoch (cal_uid c) cc))
    \<and> (\<forall>rows. compile_calendars sha cs h epoch = Inr rows \<longrightarrow> (\<forall>c \<in> set cs. \<exists>cc.
         map_of rows (cal_uid c) = Some cc \<and> compiles_alone sha cs h epoch (cal_uid c) cc))"
proof (cases "\<exists>w. resolver_window h = Inr w")
  case False
  then have "\<not> (\<exists>rows. compile_calendars sha cs h epoch = Inr rows)" "\<not> compiles_alone sha cs h epoch u cc" for u cc
    by (auto simp: compile_calendars_def compiles_alone_def compile_calendar_def rbind_Inr_iff raise_if_Inr_iff)
  with assms show ?thesis by (meson list.set_sel(1))
next
  case True
  then obtain w where w: "resolver_window h = Inr w" by blast
  let ?fold = "rfold (compile_step sha cs h (default_epoch (fst h) epoch) w) cs ([], Map.empty)"
  have run: "compile_calendars sha cs h epoch = rbind ?fold (\<lambda>s. Inr (fst s))" by (simp add: compile_calendars_def w)
  have "cache_ok cs (fst w) (snd w) (snd ([], Map.empty))" by (simp add: cache_ok_empty)
  note all = compile_fold [OF w this, of sha epoch cs]
  have "(\<exists>rows. compile_calendars sha cs h epoch = Inr rows) \<longleftrightarrow> (\<exists>s. ?fold = Inr s)"
    unfolding run by (auto simp: rbind_Inr_iff)
  moreover have "\<exists>cc. map_of rows (cal_uid c) = Some cc \<and> compiles_alone sha cs h epoch (cal_uid c) cc"
    if "compile_calendars sha cs h epoch = Inr rows" "c \<in> set cs" for rows c
    using that all(2) [of _ "cal_uid c"] unfolding run by (auto simp: rbind_Inr_iff)
  ultimately show ?thesis using all(1) by blast
qed

theorem compile_calendars_shared_witness:
  "\<exists>rows. compile_calendars (\<lambda>_. []) sample_calendars sample_horizon None = Inr rows
    \<and> map_of rows 101 = Some sample_compiled"
proof -
  have ne: "sample_calendars \<noteq> []" by (simp add: sample_calendars_def)
  have "case compile_calendars (\<lambda>_. []) sample_calendars sample_horizon None of Inr _ \<Rightarrow> True | Inl _ \<Rightarrow> False" by code_simp
  then obtain rows where rows: "compile_calendars (\<lambda>_. []) sample_calendars sample_horizon None = Inr rows"
    by (auto split: sum.splits)
  have "shutdown_calendar \<in> set sample_calendars" "cal_uid shutdown_calendar = 101"
    by (simp_all add: sample_calendars_def shutdown_calendar_def)
  with compile_calendars_shared [OF ne, of "\<lambda>_. []" sample_horizon None] rows obtain cc where
    "map_of rows 101 = Some cc" "compiles_alone (\<lambda>_. []) sample_calendars sample_horizon None 101 cc" by metis
  with rows sample_compiled_run show ?thesis by (auto simp: compiles_alone_def)
qed

text \<open>
  A calendar's own rows override what it inherits: in the pattern of a calendar, each weekday
  it defines has its own validated intervals and every other weekday the base's; a date of the
  window covered by one of its exceptions has the intervals of the last such exception, and every
  other date what the base has; the week is complete and every interval list well formed.
\<close>

theorem own_pattern_overrides:
  assumes "pattern_ok base" and "own_pattern a b c base = Inr p"
  shows "pattern_ok p \<and> set (map fst (pt_week p)) = {1, 2, 3, 4, 5, 6, 7} \<and> pt_lineage p = pt_lineage base @ [cal_uid c]
    \<and> (\<forall>w \<in> set (cal_week c). \<exists>ivs. day_row (cal_uid c) w = Inr ivs \<and> map_of (pt_week p) (wd_day w) = Some ivs)
    \<and> (\<forall>d. d \<notin> wd_day ` set (cal_week c) \<longrightarrow> map_of (pt_week p) d = map_of (pt_week base) d)
    \<and> (\<forall>d. map_of (pt_exception_days p) d = (case if a \<le> d \<and> d \<le> b then exception_on c d else None of
         Some e \<Rightarrow> (case exception_row (cal_uid c) e of Inr ivs \<Rightarrow> Some ivs | Inl _ \<Rightarrow> None)
       | None \<Rightarrow> map_of (pt_exception_days base) d))"
proof -
  obtain seen where w: "rfold (week_step (cal_uid c)) (cal_week c) (pt_week base, []) = Inr (pt_week p, seen)"
    and e: "rfold (exception_step a b (cal_uid c)) (cal_exceptions c) (pt_exception_days base, pt_outside base)
      = Inr (pt_exception_days p, pt_outside p)"
    and l: "pt_lineage p = pt_lineage base @ [cal_uid c]"
    using assms(2) by (rule own_pattern_Inr)
  show ?thesis
    unfolding exception_on_def
    using own_pattern_ok [OF assms] week_fold(2,3) [OF w] exception_fold [OF e] l by (intro conjI) blast+
qed

definition standard_pattern :: pattern where
  "standard_pattern = (case own_pattern 739621 739627 standard_calendar empty_pattern of Inr p \<Rightarrow> p | Inl _ \<Rightarrow> undefined)"

definition shutdown_pattern :: pattern where
  "shutdown_pattern = (case own_pattern 739621 739627 shutdown_calendar standard_pattern of Inr p \<Rightarrow> p | Inl _ \<Rightarrow> undefined)"

lemma sample_patterns:
  "own_pattern 739621 739627 standard_calendar empty_pattern = Inr standard_pattern"
  "own_pattern 739621 739627 shutdown_calendar standard_pattern = Inr shutdown_pattern"
proof -
  have "case own_pattern 739621 739627 standard_calendar empty_pattern of Inr _ \<Rightarrow> True | Inl _ \<Rightarrow> False"
    "case own_pattern 739621 739627 shutdown_calendar standard_pattern of Inr _ \<Rightarrow> True | Inl _ \<Rightarrow> False" by code_simp+
  then show "own_pattern 739621 739627 standard_calendar empty_pattern = Inr standard_pattern"
    "own_pattern 739621 739627 shutdown_calendar standard_pattern = Inr shutdown_pattern"
    unfolding standard_pattern_def shutdown_pattern_def by (auto split: sum.splits)
qed

theorem own_pattern_overrides_witness:
  "map_of (pt_week shutdown_pattern) 3 = map_of (pt_week standard_pattern) 3
   \<and> map_of (pt_week shutdown_pattern) 7 = Some [(28800, 43200)]"
proof -
  have ok: "pattern_ok standard_pattern"
    using own_pattern_ok [OF _ sample_patterns(1)] by (simp add: pattern_ok_def empty_pattern_def)
  have "map_of (pt_week shutdown_pattern) 7 = Some [(28800, 43200)]" by code_simp
  moreover have "3 \<notin> wd_day ` set (cal_week shutdown_calendar)" by (simp add: shutdown_calendar_def)
  ultimately show ?thesis using own_pattern_overrides [OF ok sample_patterns(2)] by blast
qed

text \<open>
  Validation of a day's intervals decides exactly whether they are proper intervals of one day
  no second of which lies in two of them; it refuses with \<open>CALENDAR_INTERVAL_INVALID\<close> and nothing
  else; and what it answers is sorted, disjoint, not adjacent and covers the same seconds, an end
  at midnight written zero being the end of the day.
\<close>

theorem validate_intervals_exact:
  "((\<exists>ivs. validate_intervals u raw = Inr ivs) \<longleftrightarrow>
      (\<forall>i \<in> set raw. interval_fits i) \<and> (\<forall>x. covers x (map day_interval raw) \<le> 1))
   \<and> (\<forall>e. validate_intervals u raw = Inl e \<longrightarrow> e = calendar_error ''CALENDAR_INTERVAL_INVALID'' u)
   \<and> (\<forall>ivs. validate_intervals u raw = Inr ivs \<longrightarrow> wf_intervals ivs \<and> within_day ivs
        \<and> (\<forall>x. contains_coordinate x ivs \<longleftrightarrow> contains_coordinate x (map day_interval raw)))"
  using validated [of u raw] by blast

theorem validate_intervals_exact_witness:
  "validate_intervals 5 [\<lparr> start_second = 50000, finish_second = 0 \<rparr>, \<lparr> start_second = 100, finish_second = 50000 \<rparr>]
     = Inr [(100, 86400)] \<and> within_day [(100, 86400)]
   \<and> validate_intervals 5 [\<lparr> start_second = 50, finish_second = 150 \<rparr>, \<lparr> start_second = 100, finish_second = 200 \<rparr>]
     = Inl (calendar_error ''CALENDAR_INTERVAL_INVALID'' 5)"
proof -
  have v: "validate_intervals 5 [\<lparr> start_second = 50000, finish_second = 0 \<rparr>, \<lparr> start_second = 100, finish_second = 50000 \<rparr>]
     = Inr [(100, 86400)]" by code_simp
  have "covers 100 (map day_interval [\<lparr> start_second = 50, finish_second = 150 \<rparr>, \<lparr> start_second = 100, finish_second = 200 \<rparr>]) = 2"
    by code_simp
  then have "\<not> (\<forall>x. covers x (map day_interval [\<lparr> start_second = 50, finish_second = 150 \<rparr>, \<lparr> start_second = 100, finish_second = 200 \<rparr>]) \<le> 1)"
    by (metis numeral_le_one_iff semiring_norm(69))
  with validate_intervals_exact [of 5 "[\<lparr> start_second = 50, finish_second = 150 \<rparr>, \<lparr> start_second = 100, finish_second = 200 \<rparr>]"]
  have "validate_intervals 5 [\<lparr> start_second = 50, finish_second = 150 \<rparr>, \<lparr> start_second = 100, finish_second = 200 \<rparr>]
     = Inl (calendar_error ''CALENDAR_INTERVAL_INVALID'' 5)" by (metis sum.exhaust)
  moreover have "within_day [(100, 86400)]"
    using validate_intervals_exact [of 5 "[\<lparr> start_second = 50000, finish_second = 0 \<rparr>, \<lparr> start_second = 100, finish_second = 50000 \<rparr>]"] v
    by blast
  ultimately show ?thesis using v by blast
qed

text \<open>
  (C20) The dates of an exception are exactly its occurrences: its first date and every \<open>period\<close> days
  after it, as many as it was entered by or up to its last date; they are strictly increasing and
  never leave the range of the exception.
\<close>

theorem exception_dates_exact:
  assumes "exception_dates e u = Inr ds"
  shows "\<exists>period bound. recurrence_int e ''period'' = Inr period \<and> 1 \<le> period \<and> occurrence_bound e = Inr bound
    \<and> sorted_wrt (<) ds \<and> (\<forall>d \<in> set ds. date_of (ex_from_date e) \<le> d \<and> d \<le> date_of (ex_to_date e))
    \<and> (\<forall>d. d \<in> set ds \<longleftrightarrow> (\<exists>k \<ge> 0. d = date_of (ex_from_date e) + k * period
         \<and> (case bound of Some n \<Rightarrow> k < n | None \<Rightarrow> d \<le> date_of (ex_to_date e))))"
  by (rule exception_dates_spec [OF assms])

theorem exception_dates_exact_witness:
  "exception_dates days_off 101 = Inr [739622, 739624] \<and> sorted_wrt (<) [739622, 739624 :: int]"
proof -
  have v: "exception_dates days_off 101 = Inr [739622, 739624]" by code_simp
  from exception_dates_exact [OF v] v show ?thesis by blast
qed

text \<open>
  Coordinates and datetimes are inverse: a coordinate turned into a datetime of the calendar's
  epoch turns back into itself, and a representable datetime a whole number of seconds from the
  epoch is recovered from its coordinate.
\<close>

theorem coordinate_roundtrip:
  "(\<forall>m. to_datetime cc x = Inr m \<longrightarrow> to_seconds cc m = x)
   \<and> (\<forall>m. moment_ok m \<longrightarrow> moment_ok (cc_epoch cc) \<longrightarrow> 1000000 dvd m - cc_epoch cc \<longrightarrow>
        to_datetime cc (to_seconds cc m) = Inr m)"
proof (intro conjI allI impI)
  fix m assume "to_datetime cc x = Inr m"
  then have "m - cc_epoch cc = x * 1000000" by (auto simp: to_datetime_def add_micros_def split: if_splits)
  then have "int_seconds (m - cc_epoch cc) * 1000000 = x * 1000000" using int_seconds_exact [of "m - cc_epoch cc"] by simp
  then show "to_seconds cc m = x" by (simp add: to_seconds_def)
next
  fix m assume m: "moment_ok m" "moment_ok (cc_epoch cc)" "1000000 dvd m - cc_epoch cc"
  have lim: "us_per_day \<le> v \<and> v < (max_ordinal + 1) * us_per_day" if "moment_ok v" for v
    using that by (auto simp: moment_ok_def date_ok_def us_per_day_def max_ordinal_def)
  have "- 999999999 \<le> (m - cc_epoch cc) div us_per_day \<and> (m - cc_epoch cc) div us_per_day \<le> 999999999"
    using lim [OF m(1)] lim [OF m(2)] by (auto simp: us_per_day_def max_ordinal_def)
  then have "\<bar>(m - cc_epoch cc) div us_per_day\<bar> \<le> 999999999" by linarith
  then show "to_datetime cc (to_seconds cc m) = Inr m"
    using m(1) int_seconds_exact [OF m(3)] by (simp add: to_datetime_def to_seconds_def add_micros_def)
qed

theorem coordinate_roundtrip_witness:
  "to_datetime sample_compiled 3600 = Inr (midnight_of 739621 + 3600000000)
   \<and> to_seconds sample_compiled (midnight_of 739621 + 3600000000) = 3600"
proof -
  have v: "to_datetime sample_compiled 3600 = Inr (midnight_of 739621 + 3600000000)" by code_simp
  from coordinate_roundtrip [of sample_compiled 3600] v show ?thesis by blast
qed

end
