(* ===== verification/Incremental.thy ===== *)
theory Incremental
  imports Backward Sample
begin

section \<open>Component recalculation (\<open>core/engine/incremental.py\<close>)\<close>

text \<open>
  After a progress change to one activity, \<open>recalculate_network\<close> runs the two passes on the graph
  component of that activity alone and merges the answer with the previous passes. A changed
  window, topology, project finish or explicit late finish, and a component that is the whole
  network, fall back to the full passes (\<open>full_recalculation\<close>).
\<close>

datatype recalculation_mode = INCREMENTAL | FULL_FALLBACK

record recalculation =
  rc_forward :: forward_pass_result
  rc_backward :: backward_pass_result
  rc_mode :: recalculation_mode
  recalculated_activities :: nat

definition explicit_late_finish :: "forward_pass_result \<Rightarrow> backward_pass_result \<Rightarrow> bool" where
  "explicit_late_finish fp bp \<longleftrightarrow>
     project_late_finish_explicit bp \<or> bp_project_late_finish bp \<noteq> fp_project_finish fp"

definition full_recalculation ::
    "(json \<Rightarrow> string) \<Rightarrow> network \<Rightarrow> forward_pass_result \<Rightarrow> backward_pass_result \<Rightarrow> recalculation result" where
  "full_recalculation sha current fp bp =
     rbind (forward_pass sha current (fp_snap_milestones fp) (fp_progress_policy fp)) (\<lambda>f.
     rbind (backward_pass sha current f None
              (if explicit_late_finish fp bp then Some (bp_project_late_finish bp) else None) None) (\<lambda>b.
     Inr \<lparr> rc_forward = f, rc_backward = b, rc_mode = FULL_FALLBACK,
           recalculated_activities = length (activities current) \<rparr>))"

text \<open>What rules the bounded path out before anything is computed.\<close>

definition needs_full ::
    "(json \<Rightarrow> string) \<Rightarrow> network \<Rightarrow> network \<Rightarrow> forward_pass_result \<Rightarrow> backward_pass_result \<Rightarrow> uuid \<Rightarrow> bool" where
  "needs_full sha previous current fp bp changed \<longleftrightarrow>
     fp_network_fingerprint fp \<noteq> network_fingerprint sha previous
   \<or> bp_network_fingerprint bp \<noteq> network_fingerprint sha previous
   \<or> bp_progress_policy bp \<noteq> fp_progress_policy fp
   \<or> bp_snap_milestones bp \<noteq> fp_snap_milestones fp
   \<or> explicit_late_finish fp bp
   \<or> project_start previous \<noteq> project_start current
   \<or> horizon previous \<noteq> horizon current
   \<or> status_time previous \<noteq> status_time current
   \<or> relationships previous \<noteq> relationships current
   \<or> activity_uids previous \<noteq> activity_uids current
   \<or> activity_by_uid current changed = None
   \<or> list_ex (\<lambda>(a, b). pa_uid a \<noteq> changed \<and> a \<noteq> b) (zip (activities previous) (activities current))"

subsection \<open>The component of the changed activity\<close>

text \<open>
  The neighbours of an activity and the work list that closes over them. The code keeps sets, whose
  iteration order is unspecified; only membership and size of the result are read.
\<close>

definition neighbours :: "planned_relationship list \<Rightarrow> uuid \<Rightarrow> uuid list" where
  "neighbours rs u = remdups (concat (map (\<lambda>r.
     (if pr_predecessor_uid r = u then [pr_successor_uid r] else [])
     @ (if pr_successor_uid r = u then [pr_predecessor_uid r] else [])) rs))"

definition edge_ends :: "planned_relationship list \<Rightarrow> uuid set" where
  "edge_ends rs = pr_predecessor_uid ` set rs \<union> pr_successor_uid ` set rs"

lemma neighbours_iff:
  "v \<in> set (neighbours rs u) \<longleftrightarrow> (\<exists>r \<in> set rs. pr_predecessor_uid r = u \<and> pr_successor_uid r = v
     \<or> pr_successor_uid r = u \<and> pr_predecessor_uid r = v)"
  by (auto simp: neighbours_def split: if_splits)

lemma neighbours_ends: "set (neighbours rs u) \<subseteq> edge_ends rs"
  by (auto simp: neighbours_iff edge_ends_def)

lemma fresh_measure:
  assumes "x \<in> set (neighbours rs u)" and "x \<notin> set found"
  shows "card (edge_ends rs - (set found \<union> set (neighbours rs u))) < card (edge_ends rs - set found)"
  using assms neighbours_ends [of rs u] by (intro psubset_card_mono) (auto simp: edge_ends_def)

function component_loop :: "planned_relationship list \<Rightarrow> uuid list \<Rightarrow> uuid list \<Rightarrow> uuid list" where
  "component_loop rs found pending =
     (if pending = [] then found
      else let fresh = filter (\<lambda>v. v \<notin> set found) (neighbours rs (last pending))
           in component_loop rs (found @ fresh) (butlast pending @ fresh))"
  by pat_completeness auto

termination
proof (relation "measures [\<lambda>(rs, found, _). card (edge_ends rs - set found), \<lambda>(_, _, pending). length pending]", simp)
  fix rs found pending fresh
  assume ne: "pending \<noteq> []" and fresh: "fresh = filter (\<lambda>v. v \<notin> set found) (neighbours rs (last pending))"
  show "((rs, found @ fresh, butlast pending @ fresh), rs, found, pending)
      \<in> measures [\<lambda>(rs, found, _). card (edge_ends rs - set found), \<lambda>(_, _, pending). length pending]"
  proof (cases "fresh = []")
    case False
    then obtain x where "x \<in> set (neighbours rs (last pending))" "x \<notin> set found"
      unfolding fresh filter_empty_conv by auto
    moreover have "set found \<union> set fresh = set found \<union> set (neighbours rs (last pending))" unfolding fresh by auto
    ultimately show ?thesis using fresh_measure by simp
  qed (simp add: ne)
qed

declare component_loop.simps [simp del]

definition component_of :: "network \<Rightarrow> uuid \<Rightarrow> uuid list result" where
  "component_of n changed =
     raise_if (list_ex (\<lambda>r. pr_predecessor_uid r \<notin> set (activity_uids n)
                          \<or> pr_successor_uid r \<notin> set (activity_uids n)) (relationships n)) KeyError
       (Inr (component_loop (relationships n) [changed] [changed]))"

definition subnetwork :: "network \<Rightarrow> uuid set \<Rightarrow> network" where
  "subnetwork n C = n\<lparr>
     activities := filter (\<lambda>a. pa_uid a \<in> C) (activities n),
     relationships := filter (\<lambda>r. pr_predecessor_uid r \<in> C \<and> pr_successor_uid r \<in> C) (relationships n)\<rparr>"

subsection \<open>Merging with the previous passes\<close>

definition merge_rows ::
    "(uuid \<Rightarrow> 'a option) \<Rightarrow> (uuid \<Rightarrow> 'a option) \<Rightarrow> uuid list \<Rightarrow> 'a list result" where
  "merge_rows old new order =
     rmap (\<lambda>u. case old u of
              None \<Rightarrow> Inl KeyError
            | Some t \<Rightarrow> Inr (case new u of Some t' \<Rightarrow> t' | None \<Rightarrow> t)) order"

definition order_positions :: "uuid list \<Rightarrow> uuid \<Rightarrow> nat option" where
  "order_positions order = map_of (rev (zip order [0..<length order]))"

text \<open>
  \<open>ordered\<close>: the old rows outside the component and the new ones, sorted stably by the traversal
  position of their activity; \<open>reverse\<close> sorts downwards, still stably.
\<close>

definition ordered ::
    "uuid list \<Rightarrow> uuid set \<Rightarrow> ('a \<Rightarrow> uuid) \<Rightarrow> bool \<Rightarrow> 'a list \<Rightarrow> 'a list \<Rightarrow> 'a list result" where
  "ordered order C key reverse old new =
     rbind (rmap (\<lambda>x. case order_positions order (key x) of
                     None \<Rightarrow> Inl KeyError
                   | Some i \<Rightarrow> Inr (int i, x)) (filter (\<lambda>x. key x \<notin> C) old @ new)) (\<lambda>rows.
       Inr (map snd (sort_key (\<lambda>(i, x). if reverse then - i else i) rows)))"

definition merged_forward ::
    "(json \<Rightarrow> string) \<Rightarrow> network \<Rightarrow> uuid set \<Rightarrow> forward_pass_result \<Rightarrow> forward_pass_result
     \<Rightarrow> activity_times list \<Rightarrow> int \<Rightarrow> forward_pass_result result" where
  "merged_forward sha current C fp part rows finish =
     rbind (ordered (fp_order fp) C dc_activity_uid False (deferred_constraints fp) (deferred_constraints part)) (\<lambda>deferred.
     rbind (ordered (fp_order fp) C cv_activity_uid False (constraint_violations fp) (constraint_violations part)) (\<lambda>violations.
     rbind (ordered (fp_order fp) C (\<lambda>u. u) False (unbounded_starts fp) (unbounded_starts part)) (\<lambda>unbounded.
     Inr (fp\<lparr>fp_times := rows, fp_project_finish := finish, deferred_constraints := deferred,
             constraint_violations := violations, unbounded_starts := unbounded,
             fp_fingerprint := forward_fingerprint sha rows (project_start current) finish (fp_snap_milestones fp),
             fp_network_fingerprint := network_fingerprint sha current\<rparr>))))"

definition merged_backward ::
    "(json \<Rightarrow> string) \<Rightarrow> network \<Rightarrow> uuid set \<Rightarrow> forward_pass_result \<Rightarrow> backward_pass_result
     \<Rightarrow> backward_pass_result \<Rightarrow> int \<Rightarrow> backward_pass_result result" where
  "merged_backward sha current C fp bp part finish =
     rbind (merge_rows (late_by_uid bp) (late_by_uid part) (fp_order fp)) (\<lambda>rows.
     rbind (overridden_edges current (fp_progress_policy fp)) (\<lambda>released.
     rbind (ordered (fp_order fp) C dl_activity_uid True (bp_deferred_constraints bp) (bp_deferred_constraints part)) (\<lambda>deferred.
     Inr (bp\<lparr>bp_times := rows, bp_deferred_constraints := deferred, overridden_relationships := released,
             bp_fingerprint := backward_fingerprint sha rows finish released (fp_progress_policy fp) (fp_snap_milestones fp),
             bp_network_fingerprint := network_fingerprint sha current\<rparr>))))"

text \<open>The path that recalculates the component \<open>found\<close> only.\<close>

definition bounded_recalculation ::
    "(json \<Rightarrow> string) \<Rightarrow> network \<Rightarrow> forward_pass_result \<Rightarrow> backward_pass_result \<Rightarrow> uuid list
     \<Rightarrow> recalculation result" where
  "bounded_recalculation sha current fp bp found =
     (let subset = subnetwork current (set found) in
      rbind (forward_pass sha subset (fp_snap_milestones fp) (fp_progress_policy fp)) (\<lambda>part.
      rbind (merge_rows (by_uid fp) (by_uid part) (fp_order fp)) (\<lambda>rows.
      let finish = max_of (project_start current) (map early_finish rows) in
      if finish \<noteq> fp_project_finish fp then full_recalculation sha current fp bp
      else
        rbind (merged_forward sha current (set found) fp part rows finish) (\<lambda>f.
        rbind (backward_pass sha subset part None (Some finish) None) (\<lambda>part_backward.
        rbind (merged_backward sha current (set found) fp bp part_backward finish) (\<lambda>b.
        Inr \<lparr> rc_forward = f, rc_backward = b, rc_mode = INCREMENTAL,
              recalculated_activities = length found \<rparr>))))))"

definition recalculate_network ::
    "(json \<Rightarrow> string) \<Rightarrow> network \<Rightarrow> network \<Rightarrow> forward_pass_result \<Rightarrow> backward_pass_result \<Rightarrow> uuid
     \<Rightarrow> recalculation result" where
  "recalculate_network sha previous current fp bp changed =
     (if needs_full sha previous current fp bp changed then full_recalculation sha current fp bp
      else rbind (component_of current changed) (\<lambda>found.
        if length found = length (activities current) then full_recalculation sha current fp bp
        else bounded_recalculation sha current fp bp found))"

text \<open>
  Two independent chains; the third activity has started since, without moving the project finish.
\<close>

definition sample_chains :: network where
  "sample_chains = sample_network\<lparr>relationships := [sample_edge 11 1 2 FS 2]\<rparr>"

definition sample_update :: network where
  "sample_update = sample_chains\<lparr>activities := [sample_activity 1 5, sample_activity 2 6,
     (sample_activity 3 4)\<lparr>pa_actual_start := Some 1, pa_remaining_duration := Some 3\<rparr>]\<rparr>"

definition sample_chains_forward :: forward_pass_result where
  "sample_chains_forward = (case forward_pass (\<lambda>_. []) sample_chains False RETAINED_LOGIC of
     Inr fp \<Rightarrow> fp | Inl _ \<Rightarrow> undefined)"

definition sample_chains_backward :: backward_pass_result where
  "sample_chains_backward = (case backward_pass (\<lambda>_. []) sample_chains sample_chains_forward None None None of
     Inr bp \<Rightarrow> bp | Inl _ \<Rightarrow> undefined)"

definition sample_recalculation :: recalculation where
  "sample_recalculation = (case recalculate_network (\<lambda>_. []) sample_chains sample_update sample_chains_forward
     sample_chains_backward 3 of Inr r \<Rightarrow> r | Inl _ \<Rightarrow> undefined)"

lemma sample_recalculation_run:
  "forward_pass (\<lambda>_. []) sample_chains False RETAINED_LOGIC = Inr sample_chains_forward"
  "backward_pass (\<lambda>_. []) sample_chains sample_chains_forward None None None = Inr sample_chains_backward"
  "recalculate_network (\<lambda>_. []) sample_chains sample_update sample_chains_forward sample_chains_backward 3
    = Inr sample_recalculation"
  "rc_mode sample_recalculation = INCREMENTAL" "recalculated_activities sample_recalculation = 1"
proof -
  have "case forward_pass (\<lambda>_. []) sample_chains False RETAINED_LOGIC of Inr _ \<Rightarrow> True | Inl _ \<Rightarrow> False"
    "case backward_pass (\<lambda>_. []) sample_chains sample_chains_forward None None None of Inr _ \<Rightarrow> True | Inl _ \<Rightarrow> False"
    "case recalculate_network (\<lambda>_. []) sample_chains sample_update sample_chains_forward sample_chains_backward 3 of
       Inr _ \<Rightarrow> True | Inl _ \<Rightarrow> False"
    by code_simp+
  then show "forward_pass (\<lambda>_. []) sample_chains False RETAINED_LOGIC = Inr sample_chains_forward"
    "backward_pass (\<lambda>_. []) sample_chains sample_chains_forward None None None = Inr sample_chains_backward"
    "recalculate_network (\<lambda>_. []) sample_chains sample_update sample_chains_forward sample_chains_backward 3
      = Inr sample_recalculation"
    unfolding sample_chains_forward_def sample_chains_backward_def sample_recalculation_def
    by (auto split: sum.splits)
  show "rc_mode sample_recalculation = INCREMENTAL" "recalculated_activities sample_recalculation = 1" by code_simp+
qed

end
