(* ===== verification/Incremental_Facts.thy ===== *)
theory Incremental_Facts
  imports Incremental Backward_Facts
begin

section \<open>Component recalculation is the full recalculation\<close>

subsection \<open>The component\<close>

definition linked :: "planned_relationship list \<Rightarrow> (uuid \<times> uuid) set" where
  "linked rs = {(u, v). v \<in> set (neighbours rs u)}"

lemma component_loop_spec:
  assumes "distinct found" and "set pending \<subseteq> set found"
    and "\<forall>x \<in> set found - set pending. set (neighbours rs x) \<subseteq> set found"
  shows "distinct (component_loop rs found pending) \<and> set found \<subseteq> set (component_loop rs found pending)
    \<and> (\<forall>x \<in> set (component_loop rs found pending). set (neighbours rs x) \<subseteq> set (component_loop rs found pending))
    \<and> set (component_loop rs found pending) \<subseteq> (linked rs)\<^sup>* `` set found"
  using assms
proof (induction rs found pending rule: component_loop.induct)
  case (1 rs found pending)
  show ?case
  proof (cases "pending = []")
    case True
    with "1.prems" show ?thesis by (subst (1 2 3 4 5) component_loop.simps) auto
  next
    case False
    define fresh where "fresh = filter (\<lambda>v. v \<notin> set found) (neighbours rs (last pending))"
    let ?found = "found @ fresh" and ?pending = "butlast pending @ fresh"
    have step: "component_loop rs found pending = component_loop rs ?found ?pending"
      using False by (subst component_loop.simps) (simp add: fresh_def Let_def)
    have split: "set pending = insert (last pending) (set (butlast pending))"
      using False by (metis append_butlast_last_id list.simps(15) rotate1.simps(2) set_rotate1)
    have d: "distinct ?found" using "1.prems"(1) by (auto simp: fresh_def neighbours_def)
    have s: "set ?pending \<subseteq> set ?found" using "1.prems"(2) split by auto
    have near: "set fresh \<subseteq> linked rs `` set found"
      using "1.prems"(2) split by (auto simp: fresh_def linked_def)
    have c: "\<forall>x \<in> set ?found - set ?pending. set (neighbours rs x) \<subseteq> set ?found"
    proof
      fix x assume x: "x \<in> set ?found - set ?pending"
      show "set (neighbours rs x) \<subseteq> set ?found"
      proof (cases "x = last pending")
        case False
        with x split "1.prems"(3) show ?thesis by auto
      qed (auto simp: fresh_def)
    qed
    have "(linked rs)\<^sup>* `` set ?found \<subseteq> (linked rs)\<^sup>* `` set found"
      using near by (auto intro: converse_rtrancl_into_rtrancl)
    with "1.IH" [OF False fresh_def d s c] show ?thesis unfolding step by auto
  qed
qed

lemma linked_sym: "(u, v) \<in> linked rs \<Longrightarrow> (v, u) \<in> linked rs"
  by (auto simp: linked_def neighbours_iff)

text \<open>The component is the set of the activities connected with the changed one.\<close>

lemma component_loop_connected:
  shows "set (component_loop rs [u] [u]) = {v. (u, v) \<in> (linked rs)\<^sup>*}" (is "set ?c = _")
  and "distinct (component_loop rs [u] [u])"
proof -
  have spec: "distinct ?c \<and> {u} \<subseteq> set ?c \<and> (\<forall>x \<in> set ?c. set (neighbours rs x) \<subseteq> set ?c)
      \<and> set ?c \<subseteq> (linked rs)\<^sup>* `` {u}"
    using component_loop_spec [of "[u]" "[u]" rs] by simp
  have "v \<in> set ?c" if "(u, v) \<in> (linked rs)\<^sup>*" for v
    using that by induction (use spec in \<open>auto simp: linked_def\<close>)
  with spec show "set ?c = {v. (u, v) \<in> (linked rs)\<^sup>*}" "distinct ?c" by auto
qed

definition closed_component :: "network \<Rightarrow> uuid set \<Rightarrow> bool" where
  "closed_component n C \<longleftrightarrow> (\<forall>r \<in> set (relationships n). pr_predecessor_uid r \<in> C \<longleftrightarrow> pr_successor_uid r \<in> C)"

lemma component_of_closed:
  assumes "component_of n u = Inr found"
  shows "closed_component n (set found)" and "u \<in> set found"
proof -
  have found: "found = component_loop (relationships n) [u] [u]"
    using assms by (simp add: component_of_def raise_if_Inr_iff)
  show "u \<in> set found" unfolding found component_loop_connected(1) by simp
  show "closed_component n (set found)"
    unfolding closed_component_def found component_loop_connected(1)
  proof
    fix r assume r: "r \<in> set (relationships n)"
    then have "(pr_predecessor_uid r, pr_successor_uid r) \<in> linked (relationships n)"
      "(pr_successor_uid r, pr_predecessor_uid r) \<in> linked (relationships n)"
      by (auto simp: linked_def neighbours_iff)
    then show "pr_predecessor_uid r \<in> {v. (u, v) \<in> (linked (relationships n))\<^sup>*}
        \<longleftrightarrow> pr_successor_uid r \<in> {v. (u, v) \<in> (linked (relationships n))\<^sup>*}"
      by (auto intro: rtrancl_into_rtrancl)
  qed
qed

subsection \<open>Networks that agree on some activities\<close>

definition agree_on :: "uuid set \<Rightarrow> network \<Rightarrow> network \<Rightarrow> bool" where
  "agree_on C n n' \<longleftrightarrow> project_start n = project_start n' \<and> horizon n = horizon n' \<and> status_time n = status_time n'
     \<and> (\<forall>u \<in> C. activity_by_uid n u = activity_by_uid n' u \<and> incoming_of n u = incoming_of n' u
            \<and> outgoing_of n u = outgoing_of n' u)"

lemma agree_on_sym: "agree_on C n n' \<Longrightarrow> agree_on C n' n"
  by (simp add: agree_on_def)

lemma subnetwork_simps [simp]:
  "project_start (subnetwork n C) = project_start n" "horizon (subnetwork n C) = horizon n"
  "status_time (subnetwork n C) = status_time n"
  "relationships (subnetwork n C) = filter (\<lambda>r. pr_predecessor_uid r \<in> C \<and> pr_successor_uid r \<in> C) (relationships n)"
  "activities (subnetwork n C) = filter (\<lambda>a. pa_uid a \<in> C) (activities n)"
  by (simp_all add: subnetwork_def)

lemma subnetwork_uids: "activity_uids (subnetwork n C) = filter (\<lambda>u. u \<in> C) (activity_uids n)"
  by (simp add: activity_uids_def filter_map comp_def)

lemma subnetwork_activity:
  assumes "u \<in> C"
  shows "activity_by_uid (subnetwork n C) u = activity_by_uid n u"
proof -
  have *: "map_of (filter (\<lambda>(k, a). k \<in> C) xs) u = map_of xs u" for xs :: "(uuid \<times> planned_activity) list"
    using assms by (induction xs) auto
  have "rev (map (\<lambda>a. (pa_uid a, a)) (activities (subnetwork n C)))
      = filter (\<lambda>(k, a). k \<in> C) (rev (map (\<lambda>a. (pa_uid a, a)) (activities n)))"
    by (simp add: rev_filter [symmetric] filter_map comp_def)
  then show ?thesis unfolding activity_by_uid_def by (simp add: *)
qed

lemma agree_subnetwork:
  assumes "closed_component n C"
  shows "agree_on C (subnetwork n C) n"
  using assms unfolding agree_on_def closed_component_def
  by (auto simp: subnetwork_activity incoming_of_def outgoing_of_def subnetwork_uids incoming_edges_def
      outgoing_edges_def intro!: filter_cong)

lemma agree_unchanged:
  assumes bounded: "\<not> needs_full sha previous current fp bp changed"
    and d: "distinct (activity_uids previous)" and C: "changed \<in> C"
  shows "agree_on (- C) previous current"
proof -
  have same: "relationships previous = relationships current" "activity_uids previous = activity_uids current"
    "project_start previous = project_start current" "horizon previous = horizon current"
    "status_time previous = status_time current"
    and rows: "list_all (\<lambda>(a, b). pa_uid a = changed \<or> a = b) (zip (activities previous) (activities current))"
    using bounded by (auto simp: needs_full_def list_ex_iff list_all_iff)
  have "activity_by_uid previous u = activity_by_uid current u" if "u \<notin> C" for u
  proof -
    have u: "u \<noteq> changed" using that C by blast
    have "map_of (map (\<lambda>a. (pa_uid a, a)) ps) u = map_of (map (\<lambda>a. (pa_uid a, a)) cs) u"
      if "map pa_uid ps = map pa_uid cs" "list_all (\<lambda>(a, b). pa_uid a = changed \<or> a = b) (zip ps cs)" for ps cs
      using that u
    proof (induction ps arbitrary: cs)
      case (Cons p ps)
      then obtain c cs' where "cs = c # cs'" by (cases cs) auto
      with Cons show ?case by auto
    qed simp
    moreover have "activity_by_uid n = map_of (map (\<lambda>a. (pa_uid a, a)) (activities n))"
      if "distinct (activity_uids n)" for n
      using that unfolding activity_by_uid_def activity_uids_def
      by (subst map_of_inject_set) (simp_all add: comp_def rev_map [symmetric])
    ultimately show ?thesis using d same(2) rows by (simp add: activity_uids_def)
  qed
  with same show ?thesis
    by (simp add: agree_on_def incoming_of_def outgoing_of_def incoming_edges_def outgoing_edges_def)
qed

subsection \<open>Validity\<close>

lemma topological_order_cong:
  assumes "relationships n = relationships n'" and "activity_uids n = activity_uids n'"
  shows "topological_order n = topological_order n'"
proof -
  have len: "length (activities n) = length (activities n')" using assms(2) by (metis activity_uids_def length_map)
  show ?thesis
    unfolding topological_order_def successors_def indegrees_def position_def assms len ..
qed

lemma activity_of_uid: "network_ok n \<Longrightarrow> a \<in> set (activities n) \<Longrightarrow> activity_by_uid n (pa_uid a) = Some a"
  using activity_by_uid_iff [OF network_ok_distinct] by blast

lemma activity_by_uid_in: "activity_by_uid n u = Some a \<Longrightarrow> a \<in> set (activities n) \<and> pa_uid a = u"
  by (blast dest: activity_by_uid_mem)

text \<open>A closed part of a valid network is valid; the two parts make the whole valid.\<close>

lemma boundary_rows_closed:
  assumes "closed_component n C" and "boundaries_ok (relationships n)"
  shows "boundaries_ok (relationships (subnetwork n C))"
  unfolding boundaries_ok_def
proof (rule conjI, goal_cases)
  case 1
  have "\<forall>r \<in> set (relationships n). \<forall>r' \<in> set (relationships n). \<forall>b b'. pr_inactive_boundary_uid r = Some b \<longrightarrow>
      pr_inactive_boundary_uid r' = Some b' \<longrightarrow> pr_predecessor_uid r = pr_predecessor_uid r' \<longrightarrow> b = b'"
    using assms(2) unfolding boundaries_ok_def by (rule conjunct1)
  then show ?case unfolding subnetwork_simps set_filter by blast
next
  case 2
  show ?case
  proof (intro conjI allI ballI impI)
    fix b
    let ?P = "\<lambda>r. pr_predecessor_uid r \<in> C \<and> pr_successor_uid r \<in> C"
    have sub: "boundary_rows b (relationships (subnetwork n C)) = filter ?P (boundary_rows b (relationships n))"
      by (auto simp: boundary_rows_def intro: filter_cong)
    assume "boundary_rows b (relationships (subnetwork n C)) \<noteq> []"
    then have "boundary_rows b (relationships n) \<noteq> []" unfolding sub by auto
    with assms(2) have ok: "length (boundary_rows b (relationships n)) \<le> 2"
      "\<forall>r \<in> set (boundary_rows b (relationships n)). \<forall>r' \<in> set (boundary_rows b (relationships n)).
         pr_predecessor_uid r = pr_predecessor_uid r'"
      "distinct (map pr_successor_uid (boundary_rows b (relationships n)))"
      unfolding boundaries_ok_def by blast+
    show "length (boundary_rows b (relationships (subnetwork n C))) \<le> 2"
      unfolding sub by (rule le_trans [OF length_filter_le ok(1)])
    show "distinct (map pr_successor_uid (boundary_rows b (relationships (subnetwork n C))))"
      unfolding sub using ok(3) by (rule distinct_map_filter)
    show "pr_predecessor_uid r = pr_predecessor_uid r'"
      if "r \<in> set (boundary_rows b (relationships (subnetwork n C)))"
        "r' \<in> set (boundary_rows b (relationships (subnetwork n C)))" for r r'
      using ok(2) that unfolding sub set_filter by blast
  qed
qed

lemma subnetwork_ok:
  assumes "closed_component n C" and "network_ok n"
  shows "network_ok (subnetwork n C)"
proof -
  have "edge_ok (subnetwork n C) r" if "r \<in> set (relationships (subnetwork n C))" for r
  proof -
    from that assms(2) have "edge_ok n r" by (simp add: network_ok_def)
    with that show ?thesis by (auto simp: edge_ok_def subnetwork_uids)
  qed
  moreover have "window_ok (subnetwork n C)" using assms(2) by (simp add: network_ok_def window_ok_def)
  moreover have "distinct (map pr_uid (relationships (subnetwork n C)))" "distinct (activity_uids (subnetwork n C))"
    "\<forall>a \<in> set (activities (subnetwork n C)). activity_ok a"
    using assms(2) by (simp_all add: network_ok_def subnetwork_uids distinct_map_filter)
  ultimately show ?thesis
    using boundary_rows_closed [OF assms(1)] assms(2) unfolding network_ok_def by blast
qed

lemma activity_either:
  assumes "a \<in> set (activities n)" and agree: "agree_on (- C) p n" and "network_ok p" and "distinct (activity_uids n)"
  shows "pa_uid a \<in> C \<and> a \<in> set (activities (subnetwork n C)) \<or> pa_uid a \<notin> C \<and> a \<in> set (activities p)"
proof (cases "pa_uid a \<in> C")
  case False
  have "activity_by_uid n (pa_uid a) = Some a" using assms(1,4) activity_by_uid_iff by blast
  with False agree have "activity_by_uid p (pa_uid a) = Some a" by (simp add: agree_on_def)
  with False activity_by_uid_in show ?thesis by blast
qed (use assms(1) in simp)

lemma glued_ok:
  assumes p: "network_ok p" and sub: "network_ok (subnetwork n C)" and agree: "agree_on (- C) p n"
    and C: "closed_component n C" and rel: "relationships p = relationships n" and uids: "activity_uids p = activity_uids n"
  shows "network_ok n"
proof -
  have d: "distinct (activity_uids n)" using p uids by (simp add: network_ok_def)
  note either = activity_either [OF _ agree p d]
  have "edge_ok n r" if r: "r \<in> set (relationships n)" for r
  proof (cases "pr_predecessor_uid r \<in> C")
    case True
    with C r have both: "pr_successor_uid r \<in> C" by (auto simp: closed_component_def)
    then have "edge_ok (subnetwork n C) r" using True r sub by (simp add: network_ok_def)
    then show ?thesis using True both by (auto simp: edge_ok_def subnetwork_uids)
  next
    case False
    with C r have both: "pr_successor_uid r \<notin> C" by (auto simp: closed_component_def)
    have "edge_ok p r" using r p rel by (simp add: network_ok_def)
    moreover have "a \<in> set (activities p)" if "a \<in> set (activities n)"
      "pa_uid a \<in> {pr_predecessor_uid r, pr_successor_uid r}" for a
      using either [OF that(1)] that(2) False both by auto
    ultimately show ?thesis using uids unfolding edge_ok_def by metis
  qed
  moreover have "window_ok n" using p agree by (simp add: network_ok_def window_ok_def agree_on_def)
  moreover have "activity_ok a" if "a \<in> set (activities n)" for a
    using either [OF that] p sub by (auto simp: network_ok_def)
  ultimately show ?thesis using p rel d by (simp add: network_ok_def)
qed

lemma progressed_parts:
  "is_progressed (subnetwork n C) \<Longrightarrow> is_progressed n"
  "is_progressed n \<Longrightarrow> agree_on (- C) p n \<Longrightarrow> network_ok p \<Longrightarrow> distinct (activity_uids n) \<Longrightarrow>
     is_progressed (subnetwork n C) \<or> is_progressed p"
  using activity_either [of _ n C p] by (fastforce simp: is_progressed_def list_ex_iff)+

lemma subnetwork_order:
  assumes "network_ok n" and "closed_component n C" and "topological_order n = Inr order"
  shows "\<exists>order'. topological_order (subnetwork n C) = Inr order'"
proof -
  note ok = subnetwork_ok [OF assms(2,1)]
  have "acyclic (edge_rel n)"
    using topological_order_Inr [OF network_ok_distinct [OF assms(1)] network_ok_known [OF assms(1)] assms(3)] by blast
  then have "acyclic (edge_rel (subnetwork n C))"
    by (rule acyclic_subset) (auto simp: edge_rel_def)
  then show ?thesis
    using topological_order_acyclic [OF network_ok_distinct [OF ok] network_ok_known [OF ok]] by blast
qed

subsection \<open>A pass is determined by the rows that solve its equations\<close>

definition forward_at ::
    "network \<Rightarrow> bool \<Rightarrow> progress_policy \<Rightarrow> (uuid \<Rightarrow> activity_times option) \<Rightarrow> uuid \<Rightarrow> forward_result" where
  "forward_at n snap policy m u =
     (case forward_row n snap policy (incoming_of n) u m of Inr r \<Rightarrow> r | Inl _ \<Rightarrow> undefined)"

definition forward_solves ::
    "network \<Rightarrow> bool \<Rightarrow> progress_policy \<Rightarrow> uuid set \<Rightarrow> (uuid \<Rightarrow> activity_times option) \<Rightarrow> bool" where
  "forward_solves n snap policy U m \<longleftrightarrow> (\<forall>u \<in> U.
     \<exists>r. forward_row n snap policy (incoming_of n) u m = Inr r \<and> m u = Some (fr_times r))"

definition forward_collected ::
    "network \<Rightarrow> bool \<Rightarrow> progress_policy \<Rightarrow> (uuid \<Rightarrow> activity_times option) \<Rightarrow> uuid list \<Rightarrow> forward_state" where
  "forward_collected n snap policy m us =
     \<lparr> fs_placed = m |` set us,
       fs_deferred = concat (map (\<lambda>u. fr_deferred (forward_at n snap policy m u)) us),
       fs_violations = concat (map (\<lambda>u. fr_violations (forward_at n snap policy m u)) us),
       fs_unbounded = concat (map (\<lambda>u. fr_unbounded (forward_at n snap policy m u)) us) \<rparr>"

definition forward_solution ::
    "(json \<Rightarrow> string) \<Rightarrow> network \<Rightarrow> bool \<Rightarrow> progress_policy \<Rightarrow> uuid list \<Rightarrow> (uuid \<Rightarrow> activity_times option)
     \<Rightarrow> forward_pass_result" where
  "forward_solution sha n snap policy order m =
     forward_answer sha n snap policy order (forward_collected n snap policy m order) (map (\<lambda>u. the (m u)) order)"

lemma forward_solves_at:
  assumes "forward_solves n snap policy U m" and "u \<in> U"
  shows "forward_row n snap policy (incoming_of n) u m = Inr (forward_at n snap policy m u)"
    and "m u = Some (fr_times (forward_at n snap policy m u))"
  using assms by (auto simp: forward_solves_def forward_at_def)

lemma forward_fold_solution:
  assumes "deps_before (pred_uids n) order" and "forward_solves n snap policy (set order) m"
  shows "rfold (forward_step n snap policy (incoming_of n)) order forward_init
    = Inr (forward_collected n snap policy m order)"
  using assms
proof (induction order rule: rev_induct)
  case Nil
  then show ?case by (simp add: forward_collected_def forward_init_def restrict_map_def)
next
  case (snoc u us)
  have IH: "rfold (forward_step n snap policy (incoming_of n)) us forward_init = Inr (forward_collected n snap policy m us)"
    using snoc.prems by (intro snoc.IH) (auto dest: deps_before_prefix simp: forward_solves_def)
  have u: "u \<in> set (us @ [u])" by simp
  note at = forward_solves_at [OF snoc.prems(2) u]
  have "pred_uids n u \<subseteq> set us" using deps_before_split [of "pred_uids n" us u "[]"] snoc.prems(1) by simp
  then have row: "forward_row n snap policy (incoming_of n) u (m |` set us) = Inr (forward_at n snap policy m u)"
    unfolding at(1) [symmetric] by (intro forward_row_cong) (auto simp: restrict_map_def)
  have m: "(m |` set us)(u \<mapsto> fr_times (forward_at n snap policy m u)) = m |` set (us @ [u])"
    using at(2) by (auto simp: restrict_map_def)
  show ?case
    unfolding rfold_append IH using row m by (simp add: forward_step_def forward_collected_def)
qed

lemma forward_pass_solution:
  assumes ok: "network_ok n" and policy: "\<not> (policy = ACTUAL_DATES \<and> is_progressed n)"
    and o: "topological_order n = Inr order" and solves: "forward_solves n snap policy (set order) m"
  shows "forward_pass sha n snap policy = Inr (forward_solution sha n snap policy order m)"
proof -
  have valid: "validate n = Inr ()" "require_supported policy (is_progressed n) = Inr ()"
    using ok policy by (simp_all add: validate_iff require_supported_iff)
  have prec: "precedence_order n order"
    using topological_order_Inr [OF network_ok_distinct [OF ok] network_ok_known [OF ok] o] by blast
  have "rmap (\<lambda>u. case fs_placed (forward_collected n snap policy m order) u of None \<Rightarrow> Inl KeyError | Some t \<Rightarrow> Inr t) us
      = Inr (map (\<lambda>u. the (m u)) us)" if "set us \<subseteq> set order" for us
    using that solves by (induction us) (auto simp: forward_collected_def forward_solves_def split: option.splits)
  then show ?thesis
    by (simp add: forward_pass_def valid o predecessors_incoming [OF ok]
        forward_fold_solution [OF precedence_deps [OF prec] solves] forward_solution_def)
qed

lemma forward_pass_solved:
  assumes "forward_pass sha n snap policy = Inr fp"
  shows "forward_solves n snap policy (set (activity_uids n)) (by_uid fp)"
    and "fp = forward_solution sha n snap policy (fp_order fp) (by_uid fp)"
proof -
  note rows = forward_pass_rows [OF assms]
  obtain ok: "network_ok n" "\<not> (policy = ACTUAL_DATES \<and> is_progressed n)" "topological_order n = Inr (fp_order fp)"
    using assms by (rule forward_pass_run)
  show solves: "forward_solves n snap policy (set (activity_uids n)) (by_uid fp)"
    using rows(6) by (fastforce simp: forward_solves_def rbind_Inr_iff)
  have "forward_solves n snap policy (set (fp_order fp)) (by_uid fp)" using solves rows(2) by simp
  from forward_pass_solution [OF ok this, of sha] assms
  show "fp = forward_solution sha n snap policy (fp_order fp) (by_uid fp)" by simp
qed

lemma by_uid_solution:
  assumes "forward_pass sha n snap policy = Inr (forward_solution sha n snap policy order m)"
    and "forward_solves n snap policy (set order) m" and "u \<in> set order"
  shows "by_uid (forward_solution sha n snap policy order m) u = m u"
proof -
  have order: "fp_order (forward_solution sha n snap policy order m) = order"
    and times: "fp_times (forward_solution sha n snap policy order m) = map (\<lambda>u. the (m u)) order"
    by (simp_all add: forward_solution_def forward_answer_def Let_def)
  note rows = forward_pass_rows [OF assms(1), unfolded order times]
  have uid: "at_uid (the (m v)) = v" if "v \<in> set order" for v
    using rows(4) that unfolding map_map by (metis (no_types, lifting) comp_apply list.map_ident map_eq_conv)
  have "the (m u) \<in> set (map (\<lambda>u. the (m u)) order)" using assms(3) by simp
  from map_of_rev_mem [of at_uid, OF _ this] rows(1,4)
  have "by_uid (forward_solution sha n snap policy order m) (at_uid (the (m u))) = Some (the (m u))"
    unfolding by_uid_def times by simp
  then show ?thesis using uid [OF assms(3)] assms(2,3) by (auto simp: forward_solves_def)
qed

text \<open>The backward pass likewise.\<close>

definition backward_solves ::
    "network \<Rightarrow> bool \<Rightarrow> (uuid \<Rightarrow> activity_times option) \<Rightarrow> uuid set \<Rightarrow> int \<Rightarrow> uuid set
     \<Rightarrow> (uuid \<Rightarrow> activity_late_times option) \<Rightarrow> bool" where
  "backward_solves n snap early released late U m \<longleftrightarrow> (\<forall>u \<in> U.
     \<exists>t. m u = Some t \<and> backward_row n snap early released late (outgoing_of n) u m = Inr t)"

definition late_reports :: "network \<Rightarrow> uuid \<Rightarrow> deferred_late_constraint list" where
  "late_reports n u = (case activity_by_uid n u of None \<Rightarrow> [] | Some a \<Rightarrow> late_deferred a)"

lemma backward_fold_solution:
  assumes "deps_before (succ_uids n) us" and "backward_solves n snap early released late (set us) m"
  shows "rfold (backward_step n snap early released late (outgoing_of n)) us late_init
    = Inr \<lparr> ls_placed = m |` set us, ls_deferred = concat (map (late_reports n) us) \<rparr>"
  using assms
proof (induction us rule: rev_induct)
  case Nil
  then show ?case by (simp add: restrict_map_def)
next
  case (snoc u us)
  have IH: "rfold (backward_step n snap early released late (outgoing_of n)) us late_init
      = Inr \<lparr> ls_placed = m |` set us, ls_deferred = concat (map (late_reports n) us) \<rparr>"
    using snoc.prems by (intro snoc.IH) (auto dest: deps_before_prefix simp: backward_solves_def)
  obtain t where t: "m u = Some t" "backward_row n snap early released late (outgoing_of n) u m = Inr t"
    using snoc.prems(2) by (auto simp: backward_solves_def)
  have "succ_uids n u \<subseteq> set us" using deps_before_split [of "succ_uids n" us u "[]"] snoc.prems(1) by simp
  then have row: "backward_row n snap early released late (outgoing_of n) u (m |` set us) = Inr t"
    unfolding t(2) [symmetric] by (intro bwd.row_local) (auto simp: restrict_map_def)
  have m: "(m |` set us)(u \<mapsto> t) = m |` set (us @ [u])" using t(1) by (auto simp: restrict_map_def)
  show ?case
    unfolding rfold_append IH using row m by (simp add: backward_step_def late_reports_def [symmetric])
qed

definition backward_solution ::
    "(json \<Rightarrow> string) \<Rightarrow> network \<Rightarrow> forward_pass_result \<Rightarrow> int option \<Rightarrow> uuid list
     \<Rightarrow> (uuid \<Rightarrow> activity_late_times option) \<Rightarrow> backward_pass_result" where
  "backward_solution sha n fp late_arg over m =
     (let late = (case late_arg of None \<Rightarrow> fp_project_finish fp | Some x \<Rightarrow> x);
          rows = map (\<lambda>u. the (m u)) (fp_order fp)
      in \<lparr> bp_times = rows, bp_order = rev (fp_order fp), bp_project_late_finish = late,
           bp_deferred_constraints = concat (map (late_reports n) (rev (fp_order fp))),
           bp_fingerprint = backward_fingerprint sha rows late over (fp_progress_policy fp) (fp_snap_milestones fp),
           overridden_relationships = over, bp_network_fingerprint = network_fingerprint sha n,
           bp_progress_policy = fp_progress_policy fp, bp_snap_milestones = fp_snap_milestones fp,
           project_late_finish_explicit = (late_arg \<noteq> None) \<rparr>)"

lemma backward_pass_solution:
  assumes fwd: "forward_pass sha n snap policy = Inr fp"
    and over: "overridden_edges n policy = Inr over"
    and late: "late = (case late_arg of None \<Rightarrow> fp_project_finish fp | Some x \<Rightarrow> x)" and hz: "late \<le> horizon n"
    and solves: "backward_solves n snap (by_uid fp) (set over) late (set (activity_uids n)) m"
  shows "backward_pass sha n fp None late_arg None = Inr (backward_solution sha n fp late_arg over m)"
proof -
  obtain ok: "network_ok n" and fp: "fp_network_fingerprint fp = network_fingerprint sha n"
      "fp_progress_policy fp = policy" "fp_snap_milestones fp = snap"
    using fwd by (rule forward_pass_run)
  note rows = forward_pass_rows [OF fwd]
  have valid: "validate n = Inr ()" using ok by (simp add: validate_iff)
  have deps: "deps_before (succ_uids n) (rev (fp_order fp))"
    by (rule precedence_deps_rev [OF rows(3,1) network_ok_known [OF ok] rows(2)])
  have sol: "backward_solves n snap (by_uid fp) (set over) late (set (rev (fp_order fp))) m"
    using solves rows(2) by simp
  have "rmap (\<lambda>u. case (m |` set (fp_order fp)) u of None \<Rightarrow> Inl KeyError | Some t \<Rightarrow> Inr t) us
      = Inr (map (\<lambda>u. the (m u)) us)" if "set us \<subseteq> set (fp_order fp)" for us
    using that solves rows(2) by (induction us) (auto simp: backward_solves_def split: option.splits)
  then show ?thesis
    using hz unfolding backward_pass_def late
    by (simp add: valid check_forward_def fp successors_outgoing [OF ok] over raise_if_def Let_def
        backward_fold_solution [OF deps sol, unfolded late] backward_solution_def)
qed

lemma backward_pass_solved:
  assumes fwd: "forward_pass sha n snap policy = Inr fp" and bwd: "backward_pass sha n fp None late_arg None = Inr bp"
  shows "overridden_edges n policy = Inr (overridden_relationships bp)"
    and "backward_solves n snap (by_uid fp) (set (overridden_relationships bp)) (bp_project_late_finish bp)
      (set (activity_uids n)) (late_by_uid bp)"
    and "bp = backward_solution sha n fp late_arg (overridden_relationships bp) (late_by_uid bp)"
    and "bp_project_late_finish bp = (case late_arg of None \<Rightarrow> fp_project_finish fp | Some x \<Rightarrow> x)"
    and "bp_project_late_finish bp \<le> horizon n"
proof -
  have policy: "fp_progress_policy fp = policy" using fwd by (rule forward_pass_run)
  show over: "overridden_edges n policy = Inr (overridden_relationships bp)"
    and late: "bp_project_late_finish bp = (case late_arg of None \<Rightarrow> fp_project_finish fp | Some x \<Rightarrow> x)"
    and hz: "bp_project_late_finish bp \<le> horizon n"
    unfolding policy [symmetric] by (rule backward_pass_run [OF bwd], simp)+
  show solves: "backward_solves n snap (by_uid fp) (set (overridden_relationships bp)) (bp_project_late_finish bp)
      (set (activity_uids n)) (late_by_uid bp)"
    using backward_pass_rows(2) [OF fwd bwd] by (auto simp: backward_solves_def)
  from backward_pass_solution [OF fwd over late hz solves] bwd
  show "bp = backward_solution sha n fp late_arg (overridden_relationships bp) (late_by_uid bp)" by simp
qed

lemma late_by_uid_solution:
  assumes fwd: "forward_pass sha n snap policy = Inr fp"
    and bwd: "backward_pass sha n fp None late_arg None = Inr (backward_solution sha n fp late_arg over m)"
    and solves: "backward_solves n snap (by_uid fp) (set over) late (set (activity_uids n)) m"
    and u: "u \<in> set (activity_uids n)"
  shows "late_by_uid (backward_solution sha n fp late_arg over m) u = m u"
proof -
  note rows = forward_pass_rows [OF fwd]
  have times: "bp_times (backward_solution sha n fp late_arg over m) = map (\<lambda>u. the (m u)) (fp_order fp)"
    by (simp add: backward_solution_def Let_def)
  have uid: "lt_uid (the (m v)) = v" if "v \<in> set (activity_uids n)" for v
  proof -
    from solves that obtain t where "m v = Some t" "backward_row n snap (by_uid fp) (set over) late (outgoing_of n) v m = Inr t"
      by (auto simp: backward_solves_def)
    then show ?thesis by (auto dest: backward_row_uid)
  qed
  have "the (m u) \<in> set (map (\<lambda>u. the (m u)) (fp_order fp))" using u rows(2) by simp
  from map_of_rev_mem [of lt_uid, OF _ this] backward_pass_rows(3) [OF fwd bwd] rows(1)
  have "late_by_uid (backward_solution sha n fp late_arg over m) (lt_uid (the (m u))) = Some (the (m u))"
    unfolding late_by_uid_def times by simp
  then show ?thesis using uid [OF u] solves u by (auto simp: backward_solves_def)
qed

end
