(* ===== verification/Merge_Order.thy ===== *)
theory Merge_Order
  imports Incremental
begin

section \<open>Merging lists by traversal position\<close>

text \<open>
  The pass metadata are lists of rows keyed by an activity, in traversal order. Sorting the old rows
  outside the component together with the new ones by position gives the list that one traversal
  over the old and new rows writes (\<open>ordered_merge\<close>), upwards and downwards.
\<close>

lemma sort_key_map: "sort_key f (map g xs) = map g (sort_key (\<lambda>x. f (g x)) xs)"
proof -
  have insort: "insort_key f (g x) (map g ys) = map g (insort_key (\<lambda>x. f (g x)) x ys)" for x ys
    by (induction ys) simp_all
  show ?thesis by (induction xs) (simp_all add: insort)
qed

lemma sorted_key_unique:
  assumes "sorted (map f xs)" and "sorted (map f ys)"
    and "\<And>k. filter (\<lambda>x. f x = k) xs = filter (\<lambda>x. f x = k) ys"
  shows "xs = ys"
  using assms
proof (induction xs arbitrary: ys)
  case Nil
  show ?case
  proof (rule ccontr)
    assume "[] \<noteq> ys"
    then have "filter (\<lambda>x. f x = f (hd ys)) ys \<noteq> []" by (cases ys) simp_all
    with Nil.prems(3) [of "f (hd ys)"] show False by simp
  qed
next
  case (Cons x xs)
  have mem: "z \<in> set (x # xs) \<longleftrightarrow> z \<in> set ys" for z
  proof -
    have "{w \<in> set (x # xs). f w = f z} = {w \<in> set ys. f w = f z}" using Cons.prems(3) by (metis set_filter)
    then show ?thesis by blast
  qed
  then obtain y ys' where ys: "ys = y # ys'" by (cases ys) auto
  have "f x \<le> f y" using mem [of y] Cons.prems(1) unfolding ys by auto
  moreover have "f y \<le> f x" using mem [of x] Cons.prems(2) unfolding ys by auto
  ultimately have key: "f y = f x" by simp
  have "x = y" using Cons.prems(3) [of "f x"] key unfolding ys by simp
  moreover have "filter (\<lambda>z. f z = k) xs = filter (\<lambda>z. f z = k) ys'" for k
    using Cons.prems(3) [of k] \<open>x = y\<close> unfolding ys by (cases "f x = k") simp_all
  then have "xs = ys'" using Cons.prems(1,2) unfolding ys by (intro Cons.IH) simp_all
  ultimately show ?case unfolding ys by simp
qed

definition keyed :: "('a \<Rightarrow> uuid) \<Rightarrow> uuid set \<Rightarrow> (uuid \<Rightarrow> 'a list) \<Rightarrow> bool" where
  "keyed key V g \<longleftrightarrow> (\<forall>u \<in> V. \<forall>x \<in> set (g u). key x = u)"

lemma keyed_filter:
  assumes "keyed key (set vs) g" and "distinct vs"
  shows "filter (\<lambda>x. key x = u) (concat (map g vs)) = (if u \<in> set vs then g u else [])"
  using assms
proof (induction vs)
  case (Cons v vs)
  have "filter (\<lambda>x. key x = u) (g v) = (if v = u then g u else [])"
    using Cons.prems(1) by (auto simp: keyed_def filter_id_conv filter_empty_conv)
  then show ?case using Cons by (auto simp: keyed_def)
qed simp

lemma keyed_sorted:
  fixes p :: "uuid \<Rightarrow> int"
  assumes "keyed key (set vs) g" and "sorted (map p vs)"
  shows "sorted (map (\<lambda>x. p (key x)) (concat (map g vs)))"
  using assms
proof (induction vs)
  case (Cons v vs)
  have "key x = v" if "x \<in> set (g v)" for x using Cons.prems(1) that by (simp add: keyed_def)
  moreover from this have "map (\<lambda>x. p (key x)) (g v) = replicate (length (g v)) (p v)"
    by (simp add: map_replicate_const [symmetric])
  moreover have "p v \<le> p (key x)" if "w \<in> set vs" "x \<in> set (g w)" for w x
    using that Cons.prems by (auto simp: keyed_def)
  ultimately show ?case using Cons by (auto simp: sorted_append keyed_def)
qed simp

lemma order_positions_map:
  assumes "distinct order"
  shows "map (order_positions order) order = map Some [0..<length order]"
proof (rule nth_equalityI)
  fix i assume "i < length (map (order_positions order) order)"
  then have i: "i < length order" by simp
  have "map_of (rev (zip order [0..<length order])) = map_of (zip order [0..<length order])"
    using assms by (subst map_of_inject_set) (simp_all add: rev_map [symmetric])
  then show "map (order_positions order) order ! i = map Some [0..<length order] ! i"
    using i map_of_zip_nth [of order "[0..<length order]" i] assms by (simp add: order_positions_def)
qed simp

definition order_key :: "uuid list \<Rightarrow> bool \<Rightarrow> uuid \<Rightarrow> int" where
  "order_key order reverse u =
     (let i = int (the (order_positions order u)) in if reverse then - i else i)"

lemma order_key_facts:
  assumes d: "distinct order"
  shows "u \<in> set order \<Longrightarrow> \<exists>i. order_positions order u = Some i \<and> order_key order False u = int i"
    and "inj_on (order_key order reverse) (set order)"
    and "sorted (map (order_key order reverse) (if reverse then rev order else order))"
proof -
  show "\<exists>i. order_positions order u = Some i \<and> order_key order False u = int i" if "u \<in> set order"
  proof -
    have "Some ` set [0..<length order] = order_positions order ` set order"
      using arg_cong [OF order_positions_map [OF d], of set] by simp
    moreover have "order_positions order u \<in> order_positions order ` set order" using that by simp
    ultimately have "order_positions order u \<in> Some ` set [0..<length order]" by simp
    then show ?thesis by (auto simp: order_key_def)
  qed
  have "map (order_key order False) order = map int [0..<length order]"
    using arg_cong [OF order_positions_map [OF d], of "map (\<lambda>i. int (the i))"]
    by (simp add: order_key_def [abs_def] Let_def comp_def)
  then have up: "sorted (map (order_key order False) order)" "distinct (map (order_key order False) order)"
    by (simp_all add: sorted_wrt_map distinct_map inj_on_def)
  have flip: "order_key order True u = - order_key order False u" for u by (simp add: order_key_def Let_def)
  show "inj_on (order_key order reverse) (set order)"
    using up(2) by (cases reverse) (auto simp: flip inj_on_def distinct_map)
  have "sorted_wrt (\<lambda>x y. y \<le> x) (rev (map (order_key order False) order))" using up(1) by (simp add: sorted_wrt_rev)
  with up(1) show "sorted (map (order_key order reverse) (if reverse then rev order else order))"
    by (cases reverse) (simp_all add: flip sorted_wrt_map rev_map)
qed

text \<open>Rows compared activity by activity are rows compared by any key that separates the activities.\<close>

lemma filter_by_key:
  assumes "inj_on q (set order)" and "\<And>x. x \<in> set xs \<union> set ys \<Longrightarrow> key x \<in> set order"
    and "\<And>u. filter (\<lambda>x. key x = u) xs = filter (\<lambda>x. key x = u) ys"
  shows "filter (\<lambda>x. q (key x) = c) xs = filter (\<lambda>x. q (key x) = c) ys"
proof (cases "\<exists>u \<in> set order. q u = c")
  case True
  then obtain u where u: "u \<in> set order" "q u = c" by blast
  have "filter (\<lambda>x. q (key x) = c) zs = filter (\<lambda>x. key x = u) zs" if "\<forall>x \<in> set zs. key x \<in> set order" for zs
    using that u assms(1) by (intro filter_cong) (auto simp: inj_on_def)
  with assms(2,3) show ?thesis by simp
next
  case False
  then have "filter (\<lambda>x. q (key x) = c) zs = []" if "\<forall>x \<in> set zs. key x \<in> set order" for zs
    using that by (auto simp: filter_empty_conv)
  with assms(2) show ?thesis by simp
qed

lemma merged_filter:
  assumes us: "distinct us" "set us = set vs \<inter> C" and vs: "distinct vs" and g: "keyed key (set vs) g" and h: "keyed key (set us) h"
  shows "filter (\<lambda>x. key x = u) (filter (\<lambda>x. key x \<notin> C) (concat (map g vs)) @ concat (map h us))
    = filter (\<lambda>x. key x = u) (concat (map (\<lambda>u. if u \<in> C then h u else g u) vs))"
proof -
  have k: "keyed key (set vs) (\<lambda>u. if u \<in> C then h u else g u)" using g h us(2) by (simp add: keyed_def)
  show ?thesis
  proof (cases "u \<in> C")
    case True
    have "filter (\<lambda>x. key x = u) (filter (\<lambda>x. key x \<notin> C) (concat (map g vs))) = []"
      using True by (auto simp: filter_empty_conv)
    then show ?thesis
      using True keyed_filter [OF h us(1)] keyed_filter [OF k vs] us(2) by simp
  next
    case False
    have "filter (\<lambda>x. key x = u) (filter (\<lambda>x. key x \<notin> C) (concat (map g vs))) = filter (\<lambda>x. key x = u) (concat (map g vs))"
      unfolding filter_filter using False by (intro filter_cong) auto
    then show ?thesis
      using False keyed_filter [OF h us(1)] keyed_filter [OF g vs] keyed_filter [OF k vs] us(2) by simp
  qed
qed

lemma ordered_merge:
  assumes d: "distinct order" and us: "distinct us" "set us = set order \<inter> C"
    and vs: "vs = (if reverse then rev order else order)" and g: "keyed key (set order) g" and h: "keyed key (set us) h"
  shows "ordered order C key reverse (concat (map g vs)) (concat (map h us))
    = Inr (concat (map (\<lambda>u. if u \<in> C then h u else g u) vs))"
proof -
  let ?k = "\<lambda>u. if u \<in> C then h u else g u" and ?q = "order_key order reverse"
  define xs where "xs = filter (\<lambda>x. key x \<notin> C) (concat (map g vs)) @ concat (map h us)"
  have vs_set: "set vs = set order" "distinct vs" using d by (simp_all add: vs)
  have k: "keyed key (set vs) ?k" using g h us(2) vs_set(1) by (simp add: keyed_def)
  note facts = order_key_facts [OF d]
  have keys: "key x \<in> set order" if "x \<in> set xs \<union> set (concat (map ?k vs))" for x
    using that g h us vs_set by (auto simp: xs_def keyed_def split: if_splits)
  have same: "filter (\<lambda>x. ?q (key x) = c) xs = filter (\<lambda>x. ?q (key x) = c) (concat (map ?k vs))" for c
    by (rule filter_by_key [OF facts(2) keys])
      (simp_all only: xs_def merged_filter [OF us(1) us(2) [folded vs_set(1)] vs_set(2) g [folded vs_set(1)] h])
  have sorted: "sorted (map (\<lambda>x. ?q (key x)) (concat (map ?k vs)))"
    by (rule keyed_sorted [OF k]) (unfold vs, rule facts(3))
  have sort: "sort_key (\<lambda>x. ?q (key x)) xs = concat (map ?k vs)"
    by (rule sorted_key_unique [OF sorted_sort_key sorted], unfold sort_key_stable, rule same)
  have "rmap (\<lambda>x. case order_positions order (key x) of None \<Rightarrow> Inl KeyError | Some i \<Rightarrow> Inr (int i, x)) xs
      = Inr (map (\<lambda>x. (order_key order False (key x), x)) xs)"
    unfolding rmap_Inr_iff list_all2_map2 list_all2_same
  proof
    fix x assume "x \<in> set xs"
    with keys facts(1) [of "key x"] obtain i where "order_positions order (key x) = Some i"
      "order_key order False (key x) = int i" by blast
    then show "(case order_positions order (key x) of None \<Rightarrow> Inl KeyError | Some i \<Rightarrow> Inr (int i, x))
        = Inr (order_key order False (key x), x)" by simp
  qed
  moreover have "(\<lambda>x. if reverse then - order_key order False (key x) else order_key order False (key x))
      = (\<lambda>x. ?q (key x))"
    by (simp add: order_key_def Let_def fun_eq_iff)
  ultimately show ?thesis
    using sort by (simp add: ordered_def xs_def [symmetric] sort_key_map comp_def)
qed

end
