(* ===== verification/Incremental_Exact.thy ===== *)
theory Incremental_Exact
  imports Incremental_Facts Merge_Order
begin

section \<open>Recalculating one component gives the full answer\<close>

subsection \<open>Rows inside and outside a component\<close>

lemma forward_row_agree:
  assumes "agree_on C n n'" and "u \<in> C"
  shows "forward_row n snap policy (incoming_of n) u m = forward_row n' snap policy (incoming_of n') u m"
proof -
  have eq: "activity_by_uid n u = activity_by_uid n' u" "incoming_of n u = incoming_of n' u"
    "project_start n = project_start n'" "horizon n = horizon n'" "status_time n = status_time n'"
    using assms by (auto simp: agree_on_def)
  show ?thesis
    unfolding forward_row_def forward_base_def reported_row_def place_reported_def untouched_row_def eq ..
qed

lemma closed_pred: "closed_component n C \<Longrightarrow> u \<in> C \<Longrightarrow> pred_uids n u \<subseteq> C"
  by (auto simp: closed_component_def pred_uids_def incoming_edges_def)

lemma closed_succ: "closed_component n C \<Longrightarrow> u \<in> C \<Longrightarrow> succ_uids n u \<subseteq> C"
  by (auto simp: closed_component_def succ_uids_def outgoing_edges_def)

lemma closed_compl: "closed_component n C \<Longrightarrow> closed_component n (- C)"
  by (simp add: closed_component_def)

text \<open>A closed part of the rows solves its equations in either of two networks that agree on it.\<close>

lemma forward_row_transfer:
  assumes "agree_on C n n'" and "closed_component n' C" and "\<And>u. u \<in> C \<Longrightarrow> m u = m' u" and "u \<in> C"
  shows "forward_row n snap policy (incoming_of n) u m = forward_row n' snap policy (incoming_of n') u m'"
  unfolding forward_row_agree [OF assms(1,4)]
  using closed_pred [OF assms(2,4)] assms(3) by (intro forward_row_cong) blast

lemma forward_at_transfer:
  assumes "agree_on C n n'" and "closed_component n' C" and "\<And>u. u \<in> C \<Longrightarrow> m u = m' u" and "u \<in> C"
  shows "forward_at n snap policy m u = forward_at n' snap policy m' u"
  using forward_row_transfer [OF assms(1,2) _ assms(4), of m m'] assms(3) by (simp add: forward_at_def)

lemma forward_transfer:
  assumes "agree_on C n n'" and "closed_component n' C" and "\<And>u. u \<in> C \<Longrightarrow> m u = m' u" and "U \<subseteq> C"
  shows "forward_solves n snap policy U m \<longleftrightarrow> forward_solves n' snap policy U m'"
  using assms(3,4) forward_row_transfer [where m = m and m' = m', OF assms(1-3)] by (auto simp: forward_solves_def subset_iff)

lemma boundary_groups_cong:
  "(\<And>r. r \<in> set rs \<Longrightarrow> pr_uid r \<in> rel \<longleftrightarrow> pr_uid r \<in> rel') \<Longrightarrow>
     boundary_groups_of rel rs = boundary_groups_of rel' rs \<and> selected_edges rel m rs = selected_edges rel' m rs"
proof -
  assume "\<And>r. r \<in> set rs \<Longrightarrow> pr_uid r \<in> rel \<longleftrightarrow> pr_uid r \<in> rel'"
  then have "filter (\<lambda>r. pr_uid r \<notin> rel) rs = filter (\<lambda>r. pr_uid r \<notin> rel') rs"
    "filter (\<lambda>r. pr_uid r \<notin> rel \<and> pr_inactive_boundary_uid r = None) rs
      = filter (\<lambda>r. pr_uid r \<notin> rel' \<and> pr_inactive_boundary_uid r = None) rs"
    by (auto intro: filter_cong)
  then show ?thesis by (simp add: selected_edges_def boundary_groups_of_def)
qed

lemma backward_row_transfer:
  assumes agree: "agree_on C n n'" and C: "closed_component n' C" and u: "u \<in> C"
    and m: "\<And>v. v \<in> C \<Longrightarrow> m v = m' v" and early: "\<And>v. v \<in> C \<Longrightarrow> early v = early' v"
    and rel: "\<And>r. r \<in> set (outgoing_edges n' u) \<Longrightarrow> pr_uid r \<in> rel \<longleftrightarrow> pr_uid r \<in> rel'"
  shows "backward_row n snap early rel late (outgoing_of n) u m = backward_row n' snap early' rel' late (outgoing_of n') u m'"
proof -
  have eq: "activity_by_uid n u = activity_by_uid n' u" "outgoing_of n u = outgoing_of n' u" "horizon n = horizon n'"
    using agree u by (auto simp: agree_on_def)
  let ?rs = "outgoing_edges n' u"
  have "late_bounds n early rel late ?rs m = late_bounds n early rel late ?rs m'"
    using closed_succ [OF C u] m by (intro late_bounds_cong) (auto simp: succ_uids_def)
  also have "\<dots> = late_bounds n' early' rel' late ?rs m'"
  proof (cases "selected_edges rel' m' ?rs")
    case (Inr sel)
    have "late_bound_step n early m' r b = late_bound_step n' early' m' r b" if r: "r \<in> set sel" for r b
    proof -
      have "r \<in> set ?rs" using selected_mem [OF Inr r] .
      then have "pr_predecessor_uid r = u" "pr_successor_uid r \<in> C"
        using closed_succ [OF C u] by (auto simp: outgoing_edges_def succ_uids_def)
      with agree early u have act: "activity_by_uid n (pr_successor_uid r) = activity_by_uid n' (pr_successor_uid r)"
        and pred: "early (pr_predecessor_uid r) = early' (pr_predecessor_uid r)"
        by (auto simp: agree_on_def)
      have anchor: "late_anchor early c r s = late_anchor early' c r s" for c s
        unfolding late_anchor_def pred ..
      show ?thesis unfolding late_bound_step_def anchor act eq(3) ..
    qed
    then have "rfold (late_bound_step n early m') sel x = rfold (late_bound_step n' early' m') sel x" for x
      by (intro rfold_cong refl)
    then show ?thesis
      using boundary_groups_cong [of ?rs rel rel'] rel Inr by (simp add: late_bounds_def)
  qed (use boundary_groups_cong [of ?rs rel rel'] rel in \<open>simp add: late_bounds_def\<close>)
  finally show ?thesis
    unfolding backward_row_def eq by (auto simp: outgoing_of_def split: option.splits)
qed

lemma late_reports_agree: "agree_on C n n' \<Longrightarrow> u \<in> C \<Longrightarrow> late_reports n u = late_reports n' u"
  by (simp add: late_reports_def agree_on_def)

subsection \<open>Released edges\<close>

lemma overridden_total:
  assumes "network_ok n"
  shows "\<exists>over. overridden_edges n policy = Inr over"
proof -
  have "\<exists>y. (case activity_by_uid n (pr_successor_uid r) of
                    None \<Rightarrow> Inl KeyError
                  | Some q \<Rightarrow> Inr (if relationship_binds policy (state_of q) (status_time n) then [] else [pr_uid r])) = Inr y"
    if "r \<in> set (relationships n)" for r
    using assms that activity_by_uid_known [of "pr_successor_uid r" n]
    by (auto simp: network_ok_def edge_ok_def split: option.splits)
  from rmap_total [OF this] show ?thesis by (auto simp: overridden_edges_def rbind_Inr_iff)
qed

lemma overridden_mem:
  assumes ok: "network_ok n" and over: "overridden_edges n policy = Inr over"
    and r: "r \<in> set (relationships n)" and q: "activity_by_uid n (pr_successor_uid r) = Some q"
  shows "pr_uid r \<in> set over \<longleftrightarrow> \<not> relationship_binds policy (state_of q) (status_time n)"
proof -
  define released where "released = (\<lambda>r :: planned_relationship. case activity_by_uid n (pr_successor_uid r) of
      None \<Rightarrow> Inl KeyError
    | Some q \<Rightarrow> Inr (if relationship_binds policy (state_of q) (status_time n) then [] else [pr_uid r]))"
  from over obtain xs where xs: "over = concat xs" "rmap released (relationships n) = Inr xs"
    by (auto simp: overridden_edges_def rbind_Inr_iff released_def)
  have own: "released r = Inr (if relationship_binds policy (state_of q) (status_time n) then [] else [pr_uid r])"
    by (simp add: released_def q)
  have uid: "u = pr_uid r'" if "released r' = Inr y" "u \<in> set y" for r' y u
    using that by (auto simp: released_def split: option.splits if_splits)
  have unique: "r' = r" if "r' \<in> set (relationships n)" "pr_uid r' = pr_uid r" for r'
    using ok that r by (auto simp: network_ok_def distinct_map inj_on_def)
  show ?thesis
  proof
    assume "pr_uid r \<in> set over"
    then obtain y where y: "y \<in> set xs" "pr_uid r \<in> set y" by (auto simp: xs(1))
    then obtain r' where r': "r' \<in> set (relationships n)" "released r' = Inr y" using rmap_mem [OF xs(2)] by blast
    then have "r' = r" using uid [OF r'(2) y(2)] by (intro unique) simp_all
    with r'(2) own y(2) show "\<not> relationship_binds policy (state_of q) (status_time n)" by auto
  next
    assume "\<not> relationship_binds policy (state_of q) (status_time n)"
    with own have "released r = Inr [pr_uid r]" by simp
    with rmap_covers [OF xs(2) r] show "pr_uid r \<in> set over" by (force simp: xs(1))
  qed
qed

lemma overridden_agree:
  assumes "network_ok n" "overridden_edges n policy = Inr over" and "network_ok n'" "overridden_edges n' policy = Inr over'"
    and agree: "agree_on C n n'" and "closed_component n' C" and u: "u \<in> C" and r: "r \<in> set (outgoing_edges n' u)"
    and mem: "u \<in> set (activity_uids n)"
  shows "pr_uid r \<in> set over \<longleftrightarrow> pr_uid r \<in> set over'"
proof -
  have out: "outgoing_of n u = outgoing_of n' u" using agree u by (simp add: agree_on_def)
  with mem r have "r \<in> set (outgoing_edges n u)" by (auto simp: outgoing_of_def split: if_splits)
  with r have rels: "r \<in> set (relationships n)" "r \<in> set (relationships n')" by (auto simp: outgoing_edges_def)
  have succ: "pr_successor_uid r \<in> C" using closed_succ [OF assms(6) u] r by (auto simp: succ_uids_def)
  obtain q where q: "activity_by_uid n (pr_successor_uid r) = Some q"
    using activity_by_uid_known rels(1) assms(1) by (metis edge_ok_def network_ok_def)
  with succ agree have "activity_by_uid n' (pr_successor_uid r) = Some q" "status_time n = status_time n'"
    by (simp_all add: agree_on_def)
  with overridden_mem [OF assms(1,2) rels(1) q] overridden_mem [OF assms(3,4) rels(2)] show ?thesis by simp
qed

subsection \<open>Putting the forward pass together\<close>

definition either :: "uuid set \<Rightarrow> (uuid \<Rightarrow> 'a option) \<Rightarrow> (uuid \<Rightarrow> 'a option) \<Rightarrow> uuid \<Rightarrow> 'a option" where
  "either C new old = (\<lambda>u. if u \<in> C then new u else old u)"

lemma subnetwork_members: "set (activity_uids (subnetwork n C)) = set (activity_uids n) \<inter> C"
  by (auto simp: subnetwork_uids)

lemma glued_forward:
  assumes prev: "forward_pass sha p snap policy = Inr fp"
    and part: "forward_pass sha (subnetwork n C) snap policy = Inr part"
    and agree: "agree_on (- C) p n" and C: "closed_component n C"
    and rel: "relationships p = relationships n" and uids: "activity_uids p = activity_uids n"
  defines "m \<equiv> either C (by_uid part) (by_uid fp)"
  shows "network_ok n"
    and "forward_solves n snap policy (set (activity_uids n)) m"
    and "forward_pass sha n snap policy = Inr (forward_solution sha n snap policy (fp_order fp) m)"
    and "u \<in> C \<Longrightarrow> forward_at n snap policy m u = forward_at (subnetwork n C) snap policy (by_uid part) u"
    and "u \<notin> C \<Longrightarrow> forward_at n snap policy m u = forward_at p snap policy (by_uid fp) u"
proof -
  obtain ok: "network_ok p" "\<not> (policy = ACTUAL_DATES \<and> is_progressed p)" "topological_order p = Inr (fp_order fp)"
    using prev by (rule forward_pass_run)
  obtain sub: "network_ok (subnetwork n C)" "\<not> (policy = ACTUAL_DATES \<and> is_progressed (subnetwork n C))"
    using part by (rule forward_pass_run)
  show n: "network_ok n" by (rule glued_ok [OF ok(1) sub(1) agree C rel uids])
  have pol: "\<not> (policy = ACTUAL_DATES \<and> is_progressed n)"
    using progressed_parts(2) [OF _ agree ok(1) network_ok_distinct [OF n]] ok(2) sub(2) by blast
  have m: "by_uid part v = m v" if "v \<in> C" for v using that by (simp add: m_def either_def)
  have m': "by_uid fp v = m v" if "v \<in> - C" for v using that by (simp add: m_def either_def)
  note inside = forward_transfer [where m = "by_uid part" and m' = m, OF agree_subnetwork [OF C] C m]
  note outside = forward_transfer [where m = "by_uid fp" and m' = m, OF agree closed_compl [OF C] m']
  show "forward_at n snap policy m u = forward_at (subnetwork n C) snap policy (by_uid part) u" if "u \<in> C"
    by (rule forward_at_transfer [symmetric, where m = "by_uid part" and m' = m, OF agree_subnetwork [OF C] C m that])
  show "forward_at n snap policy m u = forward_at p snap policy (by_uid fp) u" if "u \<notin> C"
    by (rule forward_at_transfer [symmetric, where m = "by_uid fp" and m' = m, OF agree closed_compl [OF C] m']) (simp_all add: that)
  have "forward_solves n snap policy (set (activity_uids n) \<inter> C) m"
    using inside [of "set (activity_uids n) \<inter> C"] forward_pass_solved(1) [OF part] by (simp add: subnetwork_members)
  moreover have "forward_solves n snap policy (set (activity_uids n) - C) m"
  proof -
    have "forward_solves p snap policy (set (activity_uids n) - C) (by_uid fp)"
      using forward_pass_solved(1) [OF prev] uids by (auto simp: forward_solves_def)
    then show ?thesis using outside [of "set (activity_uids n) - C"] by auto
  qed
  ultimately show solves: "forward_solves n snap policy (set (activity_uids n)) m"
    by (auto simp: forward_solves_def)
  have o: "topological_order n = Inr (fp_order fp)" using ok(3) topological_order_cong [OF rel uids] by simp
  then have "set (fp_order fp) = set (activity_uids n)"
    using topological_order_Inr [OF network_ok_distinct [OF n] network_ok_known [OF n]] by blast
  with forward_pass_solution [OF n pol o, of snap m sha] solves
  show "forward_pass sha n snap policy = Inr (forward_solution sha n snap policy (fp_order fp) m)" by simp
qed

lemma restricted_forward:
  assumes full: "forward_pass sha n snap policy = Inr f" and C: "closed_component n C"
  shows "\<exists>part. forward_pass sha (subnetwork n C) snap policy = Inr part"
proof -
  obtain ok: "network_ok n" "\<not> (policy = ACTUAL_DATES \<and> is_progressed n)" "topological_order n = Inr (fp_order f)"
    using full by (rule forward_pass_run)
  note sub = subnetwork_ok [OF C ok(1)]
  obtain order where o: "topological_order (subnetwork n C) = Inr order" using subnetwork_order [OF ok(1) C ok(3)] by blast
  then have set: "set order = set (activity_uids n) \<inter> C"
    using topological_order_Inr [OF network_ok_distinct [OF sub] network_ok_known [OF sub]] by (simp add: subnetwork_members)
  have "forward_solves n snap policy (set order) (by_uid f)"
    using forward_pass_solved(1) [OF full] by (auto simp: forward_solves_def set)
  then have "forward_solves (subnetwork n C) snap policy (set order) (by_uid f)"
    using forward_transfer [OF agree_subnetwork [OF C] C, of "by_uid f" "by_uid f" "set order"] set by simp
  moreover have "\<not> (policy = ACTUAL_DATES \<and> is_progressed (subnetwork n C))"
    using ok(2) progressed_parts(1) by blast
  ultimately show ?thesis using forward_pass_solution [OF sub _ o] by blast
qed

lemma by_uid_dom:
  assumes "forward_pass sha n snap policy = Inr fp" and "u \<notin> set (activity_uids n)"
  shows "by_uid fp u = None"
  using forward_pass_rows(5) [OF assms(1)] assms(2) by blast

lemma glued_rows:
  assumes prev: "forward_pass sha p snap policy = Inr fp"
    and part: "forward_pass sha (subnetwork n C) snap policy = Inr part"
    and full: "forward_pass sha n snap policy = Inr f"
    and agree: "agree_on (- C) p n" and C: "closed_component n C"
    and rel: "relationships p = relationships n" and uids: "activity_uids p = activity_uids n"
  shows "by_uid f = either C (by_uid part) (by_uid fp)"
proof
  fix u
  let ?m = "either C (by_uid part) (by_uid fp)"
  note glue = glued_forward [OF prev part agree C rel uids]
  have f: "f = forward_solution sha n snap policy (fp_order fp) ?m" using glue(3) full by simp
  have order: "set (fp_order fp) = set (activity_uids n)" using forward_pass_rows(2) [OF prev] uids by simp
  show "by_uid f u = ?m u"
  proof (cases "u \<in> set (activity_uids n)")
    case True
    with by_uid_solution [OF glue(3), of u] glue(2) order show ?thesis unfolding f by simp
  next
    case False
    then have "?m u = None"
      using by_uid_dom [OF prev, of u] by_uid_dom [OF part, of u] uids by (simp add: either_def subnetwork_uids)
    with by_uid_dom [OF full False] show ?thesis by simp
  qed
qed

subsection \<open>Putting the backward pass together\<close>

lemma glued_backward:
  assumes prev: "forward_pass sha p snap policy = Inr fp"
    and part: "forward_pass sha (subnetwork n C) snap policy = Inr part"
    and full: "forward_pass sha n snap policy = Inr f"
    and agree: "agree_on (- C) p n" and C: "closed_component n C"
    and rel: "relationships p = relationships n" and uids: "activity_uids p = activity_uids n"
    and late: "backward_pass sha p fp None late_arg None = Inr bp"
    and part_late: "backward_pass sha (subnetwork n C) part None (Some (bp_project_late_finish bp)) None = Inr pb"
    and over: "overridden_edges n policy = Inr over"
  shows "backward_solves n snap (by_uid f) (set over) (bp_project_late_finish bp) (set (activity_uids n))
      (either C (late_by_uid pb) (late_by_uid bp))" (is "backward_solves n snap _ _ ?late _ ?m")
  unfolding backward_solves_def
proof
  fix u assume u: "u \<in> set (activity_uids n)"
  obtain ok: "network_ok p" using prev by (rule forward_pass_run)
  obtain sub: "network_ok (subnetwork n C)" using part by (rule forward_pass_run)
  obtain n: "network_ok n" using full by (rule forward_pass_run)
  note rows = glued_rows [OF prev part full agree C rel uids]
  note old = backward_pass_solved [OF prev late] and new = backward_pass_solved [OF part part_late]
  show "\<exists>t. ?m u = Some t \<and> backward_row n snap (by_uid f) (set over) ?late (outgoing_of n) u ?m = Inr t"
  proof (cases "u \<in> C")
    case True
    with u have mem: "u \<in> set (activity_uids (subnetwork n C))" by (simp add: subnetwork_uids)
    have "backward_row (subnetwork n C) snap (by_uid part) (set (overridden_relationships pb)) ?late
        (outgoing_of (subnetwork n C)) u (late_by_uid pb) = backward_row n snap (by_uid f) (set over) ?late (outgoing_of n) u ?m"
      by (rule backward_row_transfer [OF agree_subnetwork [OF C] C True])
        (simp_all add: either_def rows overridden_agree [OF sub new(1) n over agree_subnetwork [OF C] C True _ mem])
    moreover have "bp_project_late_finish pb = ?late" using new(4) by simp
    ultimately show ?thesis using new(2) mem True by (auto simp: backward_solves_def either_def)
  next
    case False
    then have out: "u \<in> - C" and mem: "u \<in> set (activity_uids p)" using u uids by simp_all
    have "backward_row p snap (by_uid fp) (set (overridden_relationships bp)) ?late
        (outgoing_of p) u (late_by_uid bp) = backward_row n snap (by_uid f) (set over) ?late (outgoing_of n) u ?m"
      by (rule backward_row_transfer [OF agree closed_compl [OF C] out])
        (simp_all add: either_def rows overridden_agree [OF ok old(1) n over agree closed_compl [OF C] out _ mem])
    then show ?thesis using old(2) mem False by (auto simp: backward_solves_def either_def)
  qed
qed

lemma restricted_backward:
  assumes part: "forward_pass sha (subnetwork n C) snap policy = Inr part"
    and full: "forward_pass sha n snap policy = Inr f" and C: "closed_component n C"
    and rows: "\<And>u. u \<in> C \<Longrightarrow> by_uid part u = by_uid f u"
    and bwd: "backward_pass sha n f None late_arg None = Inr b"
  shows "\<exists>pb. backward_pass sha (subnetwork n C) part None (Some (bp_project_late_finish b)) None = Inr pb"
proof -
  obtain sub: "network_ok (subnetwork n C)" using part by (rule forward_pass_run)
  obtain n: "network_ok n" using full by (rule forward_pass_run)
  note sol = backward_pass_solved [OF full bwd]
  obtain over where over: "overridden_edges (subnetwork n C) policy = Inr over" using overridden_total [OF sub] by blast
  have "backward_solves (subnetwork n C) snap (by_uid part) (set over) (bp_project_late_finish b)
      (set (activity_uids (subnetwork n C))) (late_by_uid b)"
    unfolding backward_solves_def
  proof
    fix u assume mem: "u \<in> set (activity_uids (subnetwork n C))"
    then have u: "u \<in> C" "u \<in> set (activity_uids n)" by (simp_all add: subnetwork_uids)
    have "backward_row (subnetwork n C) snap (by_uid part) (set over) (bp_project_late_finish b) (outgoing_of (subnetwork n C)) u
        (late_by_uid b) = backward_row n snap (by_uid f) (set (overridden_relationships b)) (bp_project_late_finish b)
        (outgoing_of n) u (late_by_uid b)"
      by (rule backward_row_transfer [OF agree_subnetwork [OF C] C u(1)])
        (simp_all add: rows overridden_agree [OF sub over n sol(1) agree_subnetwork [OF C] C u(1) _ mem])
    with sol(2) u show "\<exists>t. late_by_uid b u = Some t \<and> backward_row (subnetwork n C) snap (by_uid part) (set over)
        (bp_project_late_finish b) (outgoing_of (subnetwork n C)) u (late_by_uid b) = Inr t"
      by (auto simp: backward_solves_def)
  qed
  with backward_pass_solution [OF part over, of "bp_project_late_finish b" "Some (bp_project_late_finish b)"] sol(5)
  show ?thesis by auto
qed

end
