(* ===== verification/Recalculation.thy ===== *)
theory Recalculation
  imports Incremental_Exact Forward_Optimal
begin

section \<open>Recalculation against the full passes\<close>

text \<open>
  \<open>recalculate_network\<close> answers exactly what the full passes answer on the changed network, whichever
  path it takes, and refuses exactly when they do.
\<close>

subsection \<open>What a row reports is keyed by its activity\<close>

lemma untouched_row_keys:
  assumes "untouched_row n snap a fl b0 = Inr r"
  shows "(\<forall>x \<in> set (fr_deferred r). dc_activity_uid x = pa_uid a) \<and> (\<forall>x \<in> set (fr_violations r). cv_activity_uid x = pa_uid a)
    \<and> (\<forall>x \<in> set (fr_unbounded r). x = pa_uid a)"
  using assms unfolding untouched_row_def Let_def
  by (clarsimp simp: rbind_Inr_iff split: option.split) (metis constraint_violation.select_convs(1))

lemma forward_row_keys:
  assumes "forward_row n snap policy (incoming_of n) u m = Inr r"
  shows "\<forall>x \<in> set (fr_deferred r). dc_activity_uid x = u" and "\<forall>x \<in> set (fr_violations r). cv_activity_uid x = u"
    and "\<forall>x \<in> set (fr_unbounded r). x = u"
proof -
  have "(\<forall>x \<in> set (fr_deferred r). dc_activity_uid x = u) \<and> (\<forall>x \<in> set (fr_violations r). cv_activity_uid x = u)
      \<and> (\<forall>x \<in> set (fr_unbounded r). x = u)"
    using assms
  proof (rule forward_row_Inr)
    fix a sb fb sd fd
    assume uid: "pa_uid a = u" and row: "if state_of a \<noteq> NOT_STARTED then reported_row n snap policy a sb fb sd fd = Inr r
      else untouched_row n snap a
        (case forward_base n a (incoming_edges n u) of Some x \<Rightarrow> x | None \<Rightarrow> calendar_floor a)
        \<lparr> cb_start = sb, cb_finish = fb, cb_start_driver = sd, cb_finish_driver = fd,
          cb_pinned = None, cb_constrained = False,
          cb_rests_on_fallback = (binding_edges n policy a \<noteq> [] \<and> sd = None \<and> sb = project_start n) \<rparr> = Inr r"
    show ?thesis
    proof (cases "state_of a = NOT_STARTED")
      case True
      with row show ?thesis using untouched_row_keys unfolding uid [symmetric] by simp
    next
      case False
      with row show ?thesis by (auto simp: reported_row_def rbind_Inr_iff uid)
    qed
  qed
  then show "\<forall>x \<in> set (fr_deferred r). dc_activity_uid x = u" and "\<forall>x \<in> set (fr_violations r). cv_activity_uid x = u"
    and "\<forall>x \<in> set (fr_unbounded r). x = u" by blast+
qed

lemma forward_keyed:
  assumes "forward_solves n snap policy V m"
  shows "keyed dc_activity_uid V (\<lambda>u. fr_deferred (forward_at n snap policy m u))"
    and "keyed cv_activity_uid V (\<lambda>u. fr_violations (forward_at n snap policy m u))"
    and "keyed (\<lambda>u. u) V (\<lambda>u. fr_unbounded (forward_at n snap policy m u))"
  using forward_row_keys [OF forward_solves_at(1) [OF assms]] by (auto simp: keyed_def)

lemma late_keyed: "keyed dl_activity_uid V (late_reports n)"
  using activity_by_uid_in by (force simp: keyed_def late_reports_def late_deferred_def split: option.splits)

lemma merge_rows_either:
  assumes "\<And>u. u \<in> set order \<Longrightarrow> old u \<noteq> None" and "\<And>u. u \<in> set order \<Longrightarrow> new u \<noteq> None \<longleftrightarrow> u \<in> C"
  shows "merge_rows old new order = Inr (map (\<lambda>u. the (either C new old u)) order)"
  unfolding merge_rows_def rmap_Inr_iff list_all2_map2 list_all2_same
  using assms by (fastforce simp: either_def split: option.splits)

subsection \<open>The bounded path\<close>

lemma merged_forward_exact:
  assumes prev: "forward_pass sha p snap policy = Inr fp"
    and part: "forward_pass sha (subnetwork n C) snap policy = Inr part"
    and agree: "agree_on (- C) p n" and C: "closed_component n C"
    and rel: "relationships p = relationships n" and uids: "activity_uids p = activity_uids n"
  defines "m \<equiv> either C (by_uid part) (by_uid fp)"
  defines "rows \<equiv> map (\<lambda>u. the (m u)) (fp_order fp)"
  shows "merge_rows (by_uid fp) (by_uid part) (fp_order fp) = Inr rows"
    and "forward_pass sha n snap policy = Inr (forward_solution sha n snap policy (fp_order fp) m)"
    and "max_of (project_start n) (map early_finish rows) = fp_project_finish (forward_solution sha n snap policy (fp_order fp) m)"
    and "max_of (project_start n) (map early_finish rows) = fp_project_finish fp \<Longrightarrow>
      merged_forward sha n C fp part rows (fp_project_finish fp)
      = Inr (forward_solution sha n snap policy (fp_order fp) m)"
proof -
  note glue = glued_forward [OF prev part agree C rel uids, folded m_def]
  note old = forward_pass_rows [OF prev] and new = forward_pass_rows [OF part]
  note sol = forward_pass_solved [OF prev] and sub = forward_pass_solved [OF part]
  have us: "distinct (fp_order part)" "set (fp_order part) = set (fp_order fp) \<inter> C"
    using new(1,2) old(2) uids by (simp_all add: subnetwork_members)
  show "merge_rows (by_uid fp) (by_uid part) (fp_order fp) = Inr rows"
    unfolding rows_def m_def
    by (rule merge_rows_either) (use old(2,5) new(5) uids in \<open>auto simp: subnetwork_members domIff set_eq_iff\<close>)
  show "forward_pass sha n snap policy = Inr (forward_solution sha n snap policy (fp_order fp) m)" by (rule glue(3))
  show "max_of (project_start n) (map early_finish rows) = fp_project_finish (forward_solution sha n snap policy (fp_order fp) m)"
    by (simp add: forward_solution_def forward_answer_def Let_def rows_def)
  have old_at: "forward_solves p snap policy (set (fp_order fp)) (by_uid fp)" using sol(1) old(2) by simp
  have new_at: "forward_solves (subnetwork n C) snap policy (set (fp_order part)) (by_uid part)" using sub(1) new(2) by simp
  have merged: "ordered (fp_order fp) C key False (concat (map (\<lambda>u. g (forward_at p snap policy (by_uid fp) u)) (fp_order fp)))
        (concat (map (\<lambda>u. g (forward_at (subnetwork n C) snap policy (by_uid part) u)) (fp_order part)))
      = Inr (concat (map (\<lambda>u. g (forward_at n snap policy m u)) (fp_order fp)))"
    if "keyed key (set (fp_order fp)) (\<lambda>u. g (forward_at p snap policy (by_uid fp) u))"
      "keyed key (set (fp_order part)) (\<lambda>u. g (forward_at (subnetwork n C) snap policy (by_uid part) u))"
    for key :: "'a \<Rightarrow> uuid" and g
  proof -
    have "(\<lambda>u. if u \<in> C then g (forward_at (subnetwork n C) snap policy (by_uid part) u)
        else g (forward_at p snap policy (by_uid fp) u)) = (\<lambda>u. g (forward_at n snap policy m u))"
      using glue(4,5) by (simp add: fun_eq_iff)
    with ordered_merge [where reverse = False, OF old(1) us _ that] show ?thesis by simp
  qed
  show "merged_forward sha n C fp part rows (fp_project_finish fp)
      = Inr (forward_solution sha n snap policy (fp_order fp) m)"
    if finish: "max_of (project_start n) (map early_finish rows) = fp_project_finish fp"
  proof -
    obtain s s' where fp: "deferred_constraints fp = concat (map (\<lambda>u. fr_deferred (forward_at p snap policy (by_uid fp) u)) (fp_order fp))"
        "constraint_violations fp = concat (map (\<lambda>u. fr_violations (forward_at p snap policy (by_uid fp) u)) (fp_order fp))"
        "unbounded_starts fp = concat (map (\<lambda>u. fr_unbounded (forward_at p snap policy (by_uid fp) u)) (fp_order fp))"
      and pt: "deferred_constraints part = concat (map (\<lambda>u. fr_deferred (forward_at (subnetwork n C) snap policy (by_uid part) u)) (fp_order part))"
        "constraint_violations part = concat (map (\<lambda>u. fr_violations (forward_at (subnetwork n C) snap policy (by_uid part) u)) (fp_order part))"
        "unbounded_starts part = concat (map (\<lambda>u. fr_unbounded (forward_at (subnetwork n C) snap policy (by_uid part) u)) (fp_order part))"
      using arg_cong [OF sol(2), of deferred_constraints] arg_cong [OF sol(2), of constraint_violations]
        arg_cong [OF sol(2), of unbounded_starts] arg_cong [OF sub(2), of deferred_constraints]
        arg_cong [OF sub(2), of constraint_violations] arg_cong [OF sub(2), of unbounded_starts]
      by (simp add: forward_solution_def forward_answer_def forward_collected_def Let_def)
    note merge = merged [OF forward_keyed(1) [OF old_at] forward_keyed(1) [OF new_at]]
      merged [OF forward_keyed(2) [OF old_at] forward_keyed(2) [OF new_at]]
      merged [OF forward_keyed(3) [OF old_at] forward_keyed(3) [OF new_at]]
    obtain "fp_project_start fp = project_start p" "fp_progress_policy fp = policy" "fp_snap_milestones fp = snap"
      using prev by (rule forward_pass_run)
    moreover have "project_start p = project_start n" using agree by (simp add: agree_on_def)
    ultimately show ?thesis
      using finish unfolding merged_forward_def fp pt merge
      by (simp add: forward_solution_def forward_answer_def forward_collected_def Let_def rows_def)
  qed
qed

lemma merged_backward_exact:
  assumes prev: "forward_pass sha p snap policy = Inr fp"
    and part: "forward_pass sha (subnetwork n C) snap policy = Inr part"
    and full: "forward_pass sha n snap policy = Inr f"
    and agree: "agree_on (- C) p n" and C: "closed_component n C"
    and rel: "relationships p = relationships n" and uids: "activity_uids p = activity_uids n"
    and late: "backward_pass sha p fp None None None = Inr bp"
    and part_late: "backward_pass sha (subnetwork n C) part None (Some (bp_project_late_finish bp)) None = Inr pb"
    and finish: "fp_project_finish f = fp_project_finish fp"
  shows "\<exists>b. merged_backward sha n C fp bp pb (fp_project_finish fp) = Inr b \<and> backward_pass sha n f None None None = Inr b"
proof -
  let ?m = "either C (late_by_uid pb) (late_by_uid bp)"
  obtain n: "network_ok n" using full by (rule forward_pass_run)
  obtain over where over: "overridden_edges n policy = Inr over" using overridden_total [OF n] by blast
  note old = backward_pass_solved [OF prev late] and new = backward_pass_solved [OF part part_late]
  note rows = forward_pass_rows [OF prev] and sub = forward_pass_rows [OF part]
  note solves = glued_backward [OF prev part full agree C rel uids late part_late over]
  obtain fp: "fp_progress_policy fp = policy" "fp_snap_milestones fp = snap"
    and o: "topological_order p = Inr (fp_order fp)" using prev by (rule forward_pass_run)
  obtain f: "fp_progress_policy f = policy" "fp_snap_milestones f = snap"
    and o': "topological_order n = Inr (fp_order f)" using full by (rule forward_pass_run)
  have order: "fp_order f = fp_order fp" using o o' topological_order_cong [OF rel uids] by simp
  have bp_late: "bp_project_late_finish bp = fp_project_finish fp" using old(4) by simp
  have hz: "bp_project_late_finish bp \<le> horizon n" using old(5) agree by (simp add: agree_on_def)
  let ?b = "backward_solution sha n f None over ?m"
  have pass: "backward_pass sha n f None None None = Inr ?b"
    by (rule backward_pass_solution [OF full over _ hz solves]) (simp add: bp_late finish)
  have us: "distinct (rev (fp_order part))" "set (rev (fp_order part)) = set (fp_order fp) \<inter> C"
    using sub(1,2) rows(2) uids by (simp_all add: subnetwork_members)
  have "(\<lambda>u. if u \<in> C then late_reports (subnetwork n C) u else late_reports p u) = late_reports n"
    using late_reports_agree [OF agree_subnetwork [OF C]] late_reports_agree [OF agree] by (auto simp: fun_eq_iff)
  with ordered_merge [where reverse = True, OF rows(1) us refl late_keyed late_keyed, of p "subnetwork n C"]
  have "ordered (fp_order fp) C dl_activity_uid True (concat (map (late_reports p) (rev (fp_order fp))))
      (concat (map (late_reports (subnetwork n C)) (rev (fp_order part))))
    = Inr (concat (map (late_reports n) (rev (fp_order fp))))" by simp
  moreover have "bp_deferred_constraints bp = concat (map (late_reports p) (rev (fp_order fp)))"
    "bp_deferred_constraints pb = concat (map (late_reports (subnetwork n C)) (rev (fp_order part)))"
    using arg_cong [OF old(3), of bp_deferred_constraints] arg_cong [OF new(3), of bp_deferred_constraints]
    by (simp_all add: backward_solution_def Let_def)
  moreover have "merge_rows (late_by_uid bp) (late_by_uid pb) (fp_order fp) = Inr (map (\<lambda>u. the (?m u)) (fp_order fp))"
    by (rule merge_rows_either)
      (use rows(2) uids backward_pass_rows(1) [OF prev late] backward_pass_rows(1) [OF part part_late] in
        \<open>auto simp: subnetwork_members domIff set_eq_iff\<close>)
  moreover have "bp_order bp = rev (fp_order fp)" "bp_progress_policy bp = policy" "bp_snap_milestones bp = snap"
    "project_late_finish_explicit bp = False"
    using arg_cong [OF old(3), of bp_order] arg_cong [OF old(3), of bp_progress_policy]
      arg_cong [OF old(3), of bp_snap_milestones] arg_cong [OF old(3), of project_late_finish_explicit]
    by (simp_all add: backward_solution_def Let_def fp)
  ultimately have "merged_backward sha n C fp bp pb (fp_project_finish fp) = Inr ?b"
    by (simp add: merged_backward_def over fp f order backward_solution_def Let_def finish bp_late)
  with pass show ?thesis by blast
qed

lemma backward_pass_args:
  assumes "backward_pass sha n fp snap_arg late_arg policy_arg = Inr bp"
  shows "backward_pass sha n fp None late_arg None = Inr bp"
  using assms by (auto simp: backward_pass_def check_forward_def rbind_Inr_iff raise_if_Inr_iff)

text \<open>The bounded path answers what the full one does.\<close>

lemma bounded_exact:
  assumes prev: "forward_pass sha p snap policy = Inr fp"
    and agree: "agree_on (- C) p n" and C: "closed_component n C"
    and rel: "relationships p = relationships n" and uids: "activity_uids p = activity_uids n"
    and late: "backward_pass sha p fp None None None = Inr bp"
    and found: "C = set found"
  shows "(\<exists>mode k. bounded_recalculation sha n fp bp found
        = Inr \<lparr> rc_forward = f, rc_backward = b, rc_mode = mode, recalculated_activities = k \<rparr>)
    \<longleftrightarrow> forward_pass sha n snap policy = Inr f \<and> backward_pass sha n f None None None = Inr b"
proof (cases "forward_pass sha (subnetwork n C) snap policy")
  case (Inl e)
  moreover obtain "fp_snap_milestones fp = snap" "fp_progress_policy fp = policy" using prev by (rule forward_pass_run)
  moreover have "forward_pass sha n snap policy \<noteq> Inr f" using restricted_forward [OF _ C] Inl by fastforce
  ultimately show ?thesis by (simp add: bounded_recalculation_def found [symmetric] Let_def)
next
  case (Inr part)
  let ?m = "either C (by_uid part) (by_uid fp)"
  let ?rows = "map (\<lambda>u. the (?m u)) (fp_order fp)" and ?f = "forward_solution sha n snap policy (fp_order fp) ?m"
  note fwd = merged_forward_exact [OF prev Inr agree C rel uids]
  have bp: "bp_project_late_finish bp = fp_project_finish fp" "project_late_finish_explicit bp = False"
    using backward_pass_solved(4) [OF prev late] arg_cong [OF backward_pass_solved(3) [OF prev late], of project_late_finish_explicit]
    by (simp_all add: backward_solution_def Let_def)
  obtain fp: "fp_snap_milestones fp = snap" "fp_progress_policy fp = policy" using prev by (rule forward_pass_run)
  show ?thesis
  proof (cases "max_of (project_start n) (map early_finish ?rows) = fp_project_finish fp")
    case False
    then have "bounded_recalculation sha n fp bp found = full_recalculation sha n fp bp"
      unfolding bounded_recalculation_def found [symmetric] by (simp only: fp Inr fwd(1) rbind.simps Let_def if_True simp_thms)
    then show ?thesis by (auto simp: full_recalculation_def fp explicit_late_finish_def bp rbind_Inr_iff)
  next
    case True
    then have finish: "fp_project_finish ?f = fp_project_finish fp" using fwd(3) by simp
    have merged: "merged_forward sha n C fp part ?rows (fp_project_finish fp) = Inr ?f" using fwd(4) True by simp
    have answer: "bounded_recalculation sha n fp bp found = rbind (backward_pass sha (subnetwork n C) part None (Some (fp_project_finish fp)) None) (\<lambda>pb.
        rbind (merged_backward sha n C fp bp pb (fp_project_finish fp)) (\<lambda>b.
        Inr \<lparr> rc_forward = ?f, rc_backward = b, rc_mode = INCREMENTAL, recalculated_activities = length found \<rparr>))"
      unfolding bounded_recalculation_def found [symmetric]
      by (simp only: fp Inr fwd(1) rbind.simps Let_def if_False True simp_thms merged)
    show ?thesis
    proof (cases "backward_pass sha (subnetwork n C) part None (Some (fp_project_finish fp)) None")
      case (Inl e)
      have "backward_pass sha n ?f None None None \<noteq> Inr b"
      proof
        assume b: "backward_pass sha n ?f None None None = Inr b"
        have rows: "by_uid part u = by_uid ?f u" if "u \<in> C" for u
          using glued_rows [OF prev Inr fwd(2) agree C rel uids] that by (simp add: either_def)
        have "bp_project_late_finish b = fp_project_finish fp" using backward_pass_solved(4) [OF fwd(2) b] finish by simp
        with restricted_backward [OF Inr fwd(2) C rows b] Inl show False by simp
      qed
      with Inl fwd(2) show ?thesis by (auto simp: answer)
    next
      fix pb assume pb: "backward_pass sha (subnetwork n C) part None (Some (fp_project_finish fp)) None = Inr pb"
      from merged_backward_exact [OF prev Inr fwd(2) agree C rel uids late pb [folded bp(1)] finish]
      obtain b' where "merged_backward sha n C fp bp pb (fp_project_finish fp) = Inr b'"
        "backward_pass sha n ?f None None None = Inr b'" by blast
      with pb fwd(2) show ?thesis by (auto simp: answer)
    qed
  qed
qed

lemma component_known:
  assumes "network_ok n"
  shows "component_of n u = Inr (component_loop (relationships n) [u] [u])"
  using network_ok_known [OF assms] by (auto simp: component_of_def raise_if_Inr_iff known_edges_def list_ex_iff)

lemma component_of_cong:
  "relationships p = relationships n \<Longrightarrow> activity_uids p = activity_uids n \<Longrightarrow> component_of p u = component_of n u"
  by (simp add: component_of_def)

text \<open>Both paths together: what the previous passes were computed with decides what is answered.\<close>

lemma recalculation_agrees:
  assumes "forward_pass sha previous snap policy = Inr fp"
    and "backward_pass sha previous fp snap_arg late_arg policy_arg = Inr bp"
  shows "(\<exists>mode k. recalculate_network sha previous current fp bp changed
        = Inr \<lparr> rc_forward = f, rc_backward = b, rc_mode = mode, recalculated_activities = k \<rparr>)
    \<longleftrightarrow> forward_pass sha current snap policy = Inr f
      \<and> backward_pass sha current f None
          (if explicit_late_finish fp bp then Some (bp_project_late_finish bp) else None) None = Inr b"
proof -
  note late = backward_pass_args [OF assms(2)]
  obtain ok: "network_ok previous" and fp: "fp_snap_milestones fp = snap" "fp_progress_policy fp = policy"
    using assms(1) by (rule forward_pass_run)
  have full: "(\<exists>mode k. full_recalculation sha current fp bp
        = Inr \<lparr> rc_forward = f, rc_backward = b, rc_mode = mode, recalculated_activities = k \<rparr>)
    \<longleftrightarrow> forward_pass sha current snap policy = Inr f
      \<and> backward_pass sha current f None
          (if explicit_late_finish fp bp then Some (bp_project_late_finish bp) else None) None = Inr b"
    by (auto simp: full_recalculation_def fp rbind_Inr_iff)
  show ?thesis
  proof (cases "needs_full sha previous current fp bp changed")
    case True
    with full show ?thesis by (simp add: recalculate_network_def)
  next
    case False
    then have same: "relationships previous = relationships current" "activity_uids previous = activity_uids current"
      and implicit: "\<not> explicit_late_finish fp bp" by (simp_all add: needs_full_def)
    obtain found where found: "component_of current changed = Inr found"
      using component_known [OF ok] component_of_cong [OF same] by metis
    show ?thesis
    proof (cases "length found = length (activities current)")
      case True
      with full False found show ?thesis by (simp add: recalculate_network_def)
    next
      case bounded: False
      have "late_arg = None"
        using implicit arg_cong [OF backward_pass_solved(3) [OF assms(1) late], of project_late_finish_explicit]
        by (simp add: explicit_late_finish_def backward_solution_def Let_def)
      with late have late: "backward_pass sha previous fp None None None = Inr bp" by simp
      note closed = component_of_closed [OF found]
      note agree = agree_unchanged [OF False network_ok_distinct [OF ok] closed(2)]
      show ?thesis
        using bounded_exact [OF assms(1) agree closed(1) same late refl, of f b] False bounded found
        by (simp add: recalculate_network_def implicit)
    qed
  qed
qed

subsection \<open>Properties\<close>

text \<open>
  (C21) Recalculation is the full recalculation: given the passes of the previous network,
  \<open>recalculate_network\<close> answers two passes on the changed network exactly when \<open>forward_pass\<close> and
  \<open>backward_pass\<close> (with the same explicit late finish) succeed there, and they are those passes, down
  to metadata, order and fingerprints, whichever path was taken and whatever was changed.
\<close>

theorem recalculation_exact:
  assumes "forward_pass sha previous snap policy = Inr fp"
    and "backward_pass sha previous fp snap_arg late_arg policy_arg = Inr bp"
  shows "(\<exists>mode k. recalculate_network sha previous current fp bp changed
        = Inr \<lparr> rc_forward = f, rc_backward = b, rc_mode = mode, recalculated_activities = k \<rparr>)
    \<longleftrightarrow> forward_pass sha current snap policy = Inr f
      \<and> backward_pass sha current f None
          (if explicit_late_finish fp bp then Some (bp_project_late_finish bp) else None) None = Inr b"
  using assms by (rule recalculation_agrees)

theorem recalculation_exact_witness:
  "rc_mode sample_recalculation = INCREMENTAL \<and> recalculated_activities sample_recalculation = 1
   \<and> forward_pass (\<lambda>_. []) sample_update False RETAINED_LOGIC = Inr (rc_forward sample_recalculation)"
proof -
  have "\<exists>mode k. recalculate_network (\<lambda>_. []) sample_chains sample_update sample_chains_forward sample_chains_backward 3
      = Inr \<lparr> rc_forward = rc_forward sample_recalculation, rc_backward = rc_backward sample_recalculation,
              rc_mode = mode, recalculated_activities = k \<rparr>"
    unfolding sample_recalculation_run(3) by (metis recalculation.surjective old.unit.exhaust)
  then show ?thesis
    using recalculation_exact [OF sample_recalculation_run(1,2)] sample_recalculation_run(4,5) by blast
qed

text \<open>
  (C40) The bounded path recalculates exactly the activities connected with the changed one: on a
  valid network the work list ends, lists no activity twice, and what it lists is what edges in
  either direction connect to the start.
\<close>

theorem component_is_connected_part:
  assumes "network_ok n" and "u \<in> set (activity_uids n)"
  shows "\<exists>found. component_of n u = Inr found \<and> distinct found \<and> set found \<subseteq> set (activity_uids n)
    \<and> set found = {v. (u, v) \<in> (edge_rel n \<union> (edge_rel n)\<inverse>)\<^sup>*}"
proof -
  have linked: "linked (relationships n) = edge_rel n \<union> (edge_rel n)\<inverse>"
    by (force simp: linked_def neighbours_iff edge_rel_def)
  let ?found = "component_loop (relationships n) [u] [u]"
  have known: "v \<in> set (activity_uids n)" if "(u, v) \<in> (edge_rel n \<union> (edge_rel n)\<inverse>)\<^sup>*" for v
    using that
  proof induction
    case (step v w)
    from step.hyps(2) network_ok_known [OF assms(1)] show ?case by (auto simp: known_edges_def edge_rel_def)
  qed (rule assms(2))
  have "distinct ?found" and found: "set ?found = {v. (u, v) \<in> (edge_rel n \<union> (edge_rel n)\<inverse>)\<^sup>*}"
    by (simp_all add: component_loop_connected linked)
  moreover have "set ?found \<subseteq> set (activity_uids n)" unfolding found using known by blast
  ultimately show ?thesis using component_known [OF assms(1)] by metis
qed

theorem component_is_connected_part_witness:
  "component_of sample_chains 2 = Inr [2, 1]
   \<and> (\<exists>found. component_of sample_chains 2 = Inr found \<and> set found = {v. (2, v) \<in> (edge_rel sample_chains \<union> (edge_rel sample_chains)\<inverse>)\<^sup>*})"
proof -
  have v: "component_of sample_chains 2 = Inr [2, 1]" by code_simp
  obtain ok: "network_ok sample_chains" using sample_recalculation_run(1) by (rule forward_pass_run)
  show ?thesis
    using component_is_connected_part [OF ok, of 2] v
    by (simp add: sample_chains_def sample_network_def activity_uids_def sample_activity_def)
qed

end
