(* ===== verification/Validator.thy ===== *)
theory Validator
  imports Criticality
begin

section \<open>The independent check of a result (\<open>core/engine/validate.py\<close>)\<close>

text \<open>
  \<open>validate_result\<close> reads the rows of the three passes and reports what they claim and do not
  support: which network they describe, that every activity is answered once, that spans consume
  the remaining work, that floats are the gaps between the spans, that free float can be applied
  and not exceeded, and that every binding edge and constraint is honoured. It calls none of the
  passes; it counts working time between coordinates. A violation keeps its code and the identifier
  it is about; the free-text detail is not modelled.
\<close>

definition VALIDATOR_PROFILE :: string where
  "VALIDATOR_PROFILE = ''sto-validator-v6''"

record violation =
  vl_code :: string
  vl_uid :: "uuid option"

definition flag :: "bool \<Rightarrow> string \<Rightarrow> uuid option \<Rightarrow> violation list" where
  "flag c code u = (if c then [\<lparr> vl_code = code, vl_uid = u \<rparr>] else [])"

definition UNCHECKED_CONSTRAINTS :: "constraint_type list" where
  "UNCHECKED_CONSTRAINTS = [ASAP, ALAP]"

definition signed_between :: "compiled_intervals \<Rightarrow> int \<Rightarrow> int \<Rightarrow> int" where
  "signed_between c earlier later =
     (if later \<ge> earlier then working_between c earlier later else - working_between c later earlier)"

subsection \<open>The result as a whole\<close>

definition network_violations ::
    "(json \<Rightarrow> string) \<Rightarrow> network \<Rightarrow> forward_pass_result \<Rightarrow> backward_pass_result \<Rightarrow> violation list" where
  "network_violations sha n fp bp =
     flag (fp_network_fingerprint fp \<noteq> network_fingerprint sha n) ''FORWARD_NETWORK_MISMATCH'' None
     @ flag (bp_network_fingerprint bp \<noteq> network_fingerprint sha n) ''BACKWARD_NETWORK_MISMATCH'' None"

definition project_violations ::
    "network \<Rightarrow> forward_pass_result \<Rightarrow> backward_pass_result \<Rightarrow> float_analysis_result \<Rightarrow> violation list" where
  "project_violations n fp bp fa =
     flag (fp_project_start fp \<noteq> project_start n) ''PROJECT_START_MISMATCH'' None
     @ flag (fp_times fp \<noteq> [] \<and> fp_project_finish fp \<noteq> max_of 0 (map early_finish (fp_times fp)))
         ''PROJECT_FINISH_MISMATCH'' None
     @ flag (fa_project_late_finish fa \<noteq> bp_project_late_finish bp) ''PROJECT_LATE_FINISH_MISMATCH'' None"

definition duplicate_violations :: "string \<Rightarrow> uuid list \<Rightarrow> violation list" where
  "duplicate_violations code rows =
     concat (map (\<lambda>u. flag (count_list rows u > 1) code (Some u)) (dict_keys rows))"

text \<open>Sets are read in the order of their text form, as \<open>sorted(..., key=str)\<close> does.\<close>

definition answer_violations :: "string \<Rightarrow> string \<Rightarrow> uuid list \<Rightarrow> uuid list \<Rightarrow> violation list" where
  "answer_violations missing unknown known answered =
     map (\<lambda>u. \<lparr> vl_code = missing, vl_uid = Some u \<rparr>)
       (sort_key uuid_text (dict_keys (filter (\<lambda>u. u \<notin> set answered) known)))
     @ map (\<lambda>u. \<lparr> vl_code = unknown, vl_uid = Some u \<rparr>)
       (sort_key uuid_text (dict_keys (filter (\<lambda>u. u \<notin> set known) answered)))"

definition row_violations ::
    "network \<Rightarrow> forward_pass_result \<Rightarrow> backward_pass_result \<Rightarrow> float_analysis_result \<Rightarrow> violation list" where
  "row_violations n fp bp fa =
     (let known = activity_uids n; f = map at_uid (fp_times fp); b = map lt_uid (bp_times bp); a = map af_uid (fa_rows fa) in
      duplicate_violations ''FORWARD_DUPLICATE_ACTIVITY'' f @ duplicate_violations ''BACKWARD_DUPLICATE_ACTIVITY'' b
      @ duplicate_violations ''FLOAT_DUPLICATE_ACTIVITY'' a
      @ answer_violations ''FORWARD_MISSING_ACTIVITY'' ''FORWARD_UNKNOWN_ACTIVITY'' known f
      @ answer_violations ''BACKWARD_MISSING_ACTIVITY'' ''BACKWARD_UNKNOWN_ACTIVITY'' known b
      @ answer_violations ''FLOAT_MISSING_ACTIVITY'' ''FLOAT_UNKNOWN_ACTIVITY'' known a)"

subsection \<open>Spans\<close>

definition span_start :: "activity_times \<Rightarrow> int" where
  "span_start t = (case remaining_start t of None \<Rightarrow> early_start t | Some x \<Rightarrow> x)"

definition late_span_start :: "activity_late_times \<Rightarrow> int" where
  "late_span_start l = (case lt_remaining_start l of None \<Rightarrow> late_start l | Some x \<Rightarrow> x)"

definition order_violations :: "uuid \<Rightarrow> activity_times \<Rightarrow> activity_late_times \<Rightarrow> violation list" where
  "order_violations u t l =
     flag (early_finish t < early_start t) ''EARLY_SPAN_INVERTED'' (Some u)
     @ flag (late_finish l < late_span_start l) ''LATE_SPAN_INVERTED'' (Some u)"

text \<open>The early and the late span of one assignment; \<open>None\<close> when it cannot hold its work.\<close>

definition early_assignment_span :: "int \<Rightarrow> assignment_placement \<Rightarrow> (int \<times> int) option result" where
  "early_assignment_span begins p =
     (case next_working (ap_calendar p) begins of
        None \<Rightarrow> Inr None
      | Some s \<Rightarrow> rbind (add_working (ap_calendar p) s (ap_work_duration p)) (\<lambda>f. Inr (case f of
            None \<Rightarrow> None
          | Some f \<Rightarrow> (if working_between (ap_calendar p) s f = ap_work_duration p then Some (s, f) else None))))"

definition late_assignment_span :: "int \<Rightarrow> assignment_placement \<Rightarrow> (int \<times> int) option result" where
  "late_assignment_span finish p =
     rbind (sub_working (ap_calendar p) finish (ap_work_duration p)) (\<lambda>s.
       case s of
         None \<Rightarrow> Inr None
       | Some s \<Rightarrow> rbind (add_working (ap_calendar p) s (ap_work_duration p)) (\<lambda>f. Inr (case f of
             None \<Rightarrow> None
           | Some f \<Rightarrow> (if working_between (ap_calendar p) s f = ap_work_duration p then Some (s, f) else None))))"

definition assignment_step ::
    "uuid \<Rightarrow> int \<Rightarrow> int \<Rightarrow> assignment_placement \<Rightarrow> violation list \<times> (int \<times> int) list \<times> (int \<times> int) list
     \<Rightarrow> (violation list \<times> (int \<times> int) list \<times> (int \<times> int) list) result" where
  "assignment_step u begins finish p s =
     (case s of (vs, es, ls) \<Rightarrow>
        rbind (early_assignment_span begins p) (\<lambda>e.
        rbind (late_assignment_span finish p) (\<lambda>l.
        Inr (vs @ flag (e = None) ''EARLY_ASSIGNMENT_SPAN_INVALID'' (Some u)
                @ flag (l = None) ''LATE_ASSIGNMENT_SPAN_INVALID'' (Some u),
             es @ (case e of None \<Rightarrow> [] | Some x \<Rightarrow> [x]), ls @ (case l of None \<Rightarrow> [] | Some x \<Rightarrow> [x])))))"

text \<open>The task around its assignments; the extrema of no assignment at all raise.\<close>

definition envelope_mismatch :: "nat \<Rightarrow> (int \<times> int) list \<Rightarrow> int \<times> int \<Rightarrow> bool result" where
  "envelope_mismatch k spans claimed =
     (if length spans \<noteq> k then Inr True
      else raise_if (spans = []) ValueError
        (Inr ((min_of 0 (map fst spans), max_of 0 (map snd spans)) \<noteq> claimed)))"

definition envelope_violations ::
    "uuid \<Rightarrow> assignment_placement list \<Rightarrow> activity_times \<Rightarrow> activity_late_times \<Rightarrow> violation list result" where
  "envelope_violations u rows t l =
     rbind (rfold (assignment_step u (span_start t) (late_finish l)) rows ([], [], [])) (\<lambda>(vs, es, ls).
     rbind (envelope_mismatch (length rows) es (span_start t, early_finish t)) (\<lambda>e.
     rbind (envelope_mismatch (length rows) ls (late_span_start l, late_finish l)) (\<lambda>b.
     Inr (vs @ flag e ''EARLY_ASSIGNMENT_ENVELOPE_INVALID'' (Some u)
             @ flag b ''LATE_ASSIGNMENT_ENVELOPE_INVALID'' (Some u)))))"

definition length_violations ::
    "planned_activity \<Rightarrow> activity_times \<Rightarrow> activity_late_times \<Rightarrow> violation list result" where
  "length_violations a t l =
     (case pa_assignment_envelope a of
        Some rows \<Rightarrow> envelope_violations (pa_uid a) rows t l
      | None \<Rightarrow> Inr
          (flag (working_between (pa_calendar a) (span_start t) (early_finish t) \<noteq> remaining a)
             ''EARLY_SPAN_WRONG_LENGTH'' (Some (pa_uid a))
           @ flag (working_between (pa_calendar a) (late_span_start l) (late_finish l) \<noteq> remaining a)
             ''LATE_SPAN_WRONG_LENGTH'' (Some (pa_uid a))))"

text \<open>The floor the policy gives remaining work.\<close>

definition floor_violations :: "network \<Rightarrow> planned_activity \<Rightarrow> activity_times \<Rightarrow> violation list" where
  "floor_violations n a t =
     (case (if state_of a = IN_PROGRESS then remaining_start t else None) of
        None \<Rightarrow> []
      | Some rem \<Rightarrow>
          (case (case (status_time n, pa_actual_start a) of
                   (None, s) \<Rightarrow> s | (Some st, None) \<Rightarrow> Some st | (Some st, Some s) \<Rightarrow> Some (max s st)) of
             None \<Rightarrow> []
           | Some fl \<Rightarrow> flag (rem < fl) ''REMAINING_START_BEFORE_ITS_FLOOR'' (Some (pa_uid a))))"

definition span_violations ::
    "network \<Rightarrow> planned_activity \<Rightarrow> activity_times \<Rightarrow> activity_late_times \<Rightarrow> violation list result" where
  "span_violations n a t l =
     (if state_of a = COMPLETE then Inr []
      else rbind (length_violations a t l) (\<lambda>vs. Inr (vs @ floor_violations n a t)))"

subsection \<open>Reported work\<close>

text \<open>A coordinate that differs from the actual date it must repeat.\<close>

definition moved_off :: "int \<Rightarrow> int option \<Rightarrow> bool" where
  "moved_off x actual = (case actual of None \<Rightarrow> False | Some y \<Rightarrow> x \<noteq> y)"

definition progress_violations :: "planned_activity \<Rightarrow> activity_times \<Rightarrow> activity_late_times \<Rightarrow> violation list" where
  "progress_violations a t l =
     (let u = Some (pa_uid a); st = state_of a in
      flag (at_state t \<noteq> st) ''PROGRESS_STATE_MISMATCH'' u
      @ (if st = COMPLETE then
           flag (moved_off (late_start l) (pa_actual_start a)) ''COMPLETED_LATE_START_NOT_ITS_ACTUAL'' u
           @ flag (moved_off (late_finish l) (pa_actual_finish a)) ''COMPLETED_LATE_FINISH_NOT_ITS_ACTUAL'' u
           @ flag (moved_off (early_start t) (pa_actual_start a)) ''COMPLETED_START_NOT_ITS_ACTUAL'' u
           @ flag (moved_off (early_finish t) (pa_actual_finish a)) ''COMPLETED_FINISH_NOT_ITS_ACTUAL'' u
         else if st = IN_PROGRESS then
           flag (remaining_start t = None) ''REMAINING_START_MISSING'' u
           @ flag (moved_off (early_start t) (pa_actual_start a)) ''STARTED_WORK_MOVED_OFF_ITS_ACTUAL'' u
           @ flag (lt_remaining_start l = None) ''LATE_REMAINING_START_MISSING'' u
           @ flag (moved_off (late_start l) (pa_actual_start a)) ''STARTED_LATE_START_NOT_ITS_ACTUAL'' u
         else [])
      @ flag (st \<noteq> IN_PROGRESS \<and> lt_remaining_start l \<noteq> None) ''LATE_REMAINING_START_UNEXPECTED'' u)"

text \<open>A root begins no earlier than the project.\<close>

definition into_edges :: "network \<Rightarrow> uuid \<Rightarrow> planned_relationship list" where
  "into_edges n u = filter (\<lambda>r. pr_successor_uid r = u) (relationships n)"

definition out_edges :: "network \<Rightarrow> uuid \<Rightarrow> planned_relationship list" where
  "out_edges n u = filter (\<lambda>r. pr_predecessor_uid r = u) (relationships n)"

definition root_violations :: "network \<Rightarrow> planned_activity \<Rightarrow> activity_times \<Rightarrow> violation list" where
  "root_violations n a t =
     flag (state_of a = NOT_STARTED \<and> into_edges n (pa_uid a) = [] \<and> pa_constraint_coordinate a = None
           \<and> early_start t < project_start n) ''EARLY_START_BEFORE_PROJECT_START'' (Some (pa_uid a))"

subsection \<open>Floats, drivers, constraints\<close>

definition gap :: "planned_activity \<Rightarrow> int \<Rightarrow> int \<Rightarrow> int" where
  "gap a x y = (if pa_float_basis a = ''elapsed'' then y - x else signed_between (float_calendar a) x y)"

definition float_violations ::
    "int \<Rightarrow> planned_activity \<Rightarrow> activity_times \<Rightarrow> activity_late_times \<Rightarrow> activity_float \<Rightarrow> violation list" where
  "float_violations thr a t l f =
     (let u = Some (pa_uid a); st = state_of a;
          start_gap = gap a (span_start t) (late_span_start l);
          finish_gap = gap a (early_finish t) (late_finish l) in
      flag (total_float f \<noteq> min start_gap finish_gap) ''TOTAL_FLOAT_MISMATCH'' u
      @ flag (start_float f \<noteq> start_gap) ''START_FLOAT_MISMATCH'' u
      @ flag (finish_float f \<noteq> finish_gap) ''FINISH_FLOAT_MISMATCH'' u
      @ flag (af_complete f \<noteq> (st = COMPLETE)) ''COMPLETE_FLAG_MISMATCH'' u
      @ flag (critical f \<noteq> (total_float f \<le> thr \<and> st \<noteq> COMPLETE)) ''CRITICALITY_MISMATCH'' u)"

definition driver_violations :: "string \<Rightarrow> uuid \<Rightarrow> uuid option \<Rightarrow> planned_relationship list \<Rightarrow> violation list" where
  "driver_violations code u drv edges =
     (case drv of None \<Rightarrow> [] | Some d \<Rightarrow> flag (d \<notin> set (map pr_uid edges)) code (Some u))"

definition constraint_holds :: "constraint_type \<Rightarrow> int \<Rightarrow> activity_times \<Rightarrow> activity_late_times \<Rightarrow> bool" where
  "constraint_holds ct c t l = (case ct of
      SNET \<Rightarrow> span_start t \<ge> c | FNET \<Rightarrow> early_finish t \<ge> c
    | SNLT \<Rightarrow> late_start l \<le> c | FNLT \<Rightarrow> late_finish l \<le> c
    | MSO \<Rightarrow> span_start t = c | MFO \<Rightarrow> early_finish t = c | _ \<Rightarrow> True)"

definition constraint_violations_of ::
    "planned_activity \<Rightarrow> activity_times \<Rightarrow> activity_late_times \<Rightarrow> violation list" where
  "constraint_violations_of a t l =
     (case pa_constraint_coordinate a of
        None \<Rightarrow> []
      | Some c \<Rightarrow>
          flag (pa_constraint_type a \<notin> set UNCHECKED_CONSTRAINTS \<and> \<not> has_started a
                \<and> \<not> constraint_holds (pa_constraint_type a) c t l) ''CONSTRAINT_NOT_HONOURED'' (Some (pa_uid a)))"

text \<open>One activity; a missing row was already reported.\<close>

definition activity_violations ::
    "network \<Rightarrow> forward_pass_result \<Rightarrow> backward_pass_result \<Rightarrow> float_analysis_result \<Rightarrow> int \<Rightarrow> planned_activity
     \<Rightarrow> violation list result" where
  "activity_violations n fp bp fa thr a =
     (let u = pa_uid a in
      case (by_uid fp u, late_by_uid bp u) of
        (Some t, Some l) \<Rightarrow>
          rbind (span_violations n a t l) (\<lambda>spans.
            Inr (order_violations u t l @ spans @ progress_violations a t l @ root_violations n a t
              @ (case float_by_uid fa u of
                   None \<Rightarrow> []
                 | Some f \<Rightarrow> float_violations thr a t l f
                     @ driver_violations ''FORWARD_DRIVER_NOT_INCIDENT'' u (driving_relationship_uid t) (into_edges n u)
                     @ driver_violations ''BACKWARD_DRIVER_NOT_INCIDENT'' u (lt_driving_relationship_uid l) (out_edges n u)
                     @ constraint_violations_of a t l)))
      | _ \<Rightarrow> Inr [])"

subsection \<open>Free float, applied\<close>

definition slipped :: "compiled_intervals \<Rightarrow> int \<Rightarrow> int \<Rightarrow> int option result" where
  "slipped c x amount =
     (if amount = 0 then Inr (Some x)
      else if amount > 0 then add_working c x amount
      else sub_working c x (- amount))"

definition edge_calendar :: "network \<Rightarrow> planned_relationship \<Rightarrow> compiled_intervals result" where
  "edge_calendar n r =
     (case pr_lag_calendar r of
        Some c \<Rightarrow> Inr c
      | None \<Rightarrow> (case activity_by_uid n (pr_successor_uid r) of
          None \<Rightarrow> Inl KeyError | Some q \<Rightarrow> Inr (pa_calendar q)))"

text \<open>Whether the counted time between two ends meets a lag.\<close>

definition lag_met :: "compiled_intervals \<Rightarrow> int \<Rightarrow> int \<Rightarrow> int \<Rightarrow> bool" where
  "lag_met c anchor bound lag \<longleftrightarrow> signed_between c anchor bound \<ge> lag \<and> \<not> (lag = 0 \<and> bound < anchor)"

text \<open>
  The loop over the outgoing edges after a slip; \<open>None\<close> when the question cannot be asked, and
  \<open>start\<close>, \<open>finish\<close> are \<open>None\<close> when no placement exists.
\<close>

fun edges_hold ::
    "network \<Rightarrow> (uuid \<Rightarrow> activity_times option) \<Rightarrow> planned_activity \<Rightarrow> activity_times \<Rightarrow> int \<Rightarrow> int option \<Rightarrow> int option
     \<Rightarrow> planned_relationship list \<Rightarrow> bool option result" where
  "edges_hold n early a t slip start finish [] = Inr (Some True)"
| "edges_hold n early a t slip start finish (r # rs) =
     (case early (pr_successor_uid r) of
        None \<Rightarrow> Inr None
      | Some s \<Rightarrow>
          if (has_started a \<and> \<not> anchors_predecessor_finish r \<or> at_state t = COMPLETE) \<and> slip \<noteq> 0 then Inr (Some False)
          else (case (if anchors_predecessor_finish r then finish else start) of
                  None \<Rightarrow> Inr (Some False)
                | Some anchor \<Rightarrow>
                    rbind (edge_calendar n r) (\<lambda>c.
                      if lag_met c anchor (if bounds_successor_start r then span_start s else early_finish s) (pr_lag r)
                      then edges_hold n early a t slip start finish rs
                      else Inr (Some False))))"

definition edges_hold_after ::
    "network \<Rightarrow> (uuid \<Rightarrow> activity_times option) \<Rightarrow> bool \<Rightarrow> int \<Rightarrow> planned_activity \<Rightarrow> activity_times
     \<Rightarrow> planned_relationship list \<Rightarrow> bool option result" where
  "edges_hold_after n early snap slip a t rs =
     (let move = (\<lambda>x. if pa_float_basis a = ''elapsed'' then Inr (Some (x + slip)) else slipped (float_calendar a) x slip);
          pinned = (at_state t = NOT_STARTED \<and> pa_constraint_type a \<in> {MSO, MFO});
          zero = (snap \<and> remaining a = 0 \<and> at_state t \<noteq> COMPLETE \<and> \<not> pinned) in
      rbind (if has_started a then Inr (Some (early_start t)) else move (early_start t)) (\<lambda>start.
      rbind (if at_state t = COMPLETE then Inr (Some (early_finish t)) else move (early_finish t)) (\<lambda>finish.
      case (start, finish) of
        (Some s, Some f) \<Rightarrow>
          edges_hold n early a t slip
            (if at_state t = NOT_STARTED \<and> \<not> pinned \<and> (remaining a > 0 \<or> zero) then next_working (pa_calendar a) s else Some s)
            (if zero then next_working (pa_calendar a) f else Some f) rs
      | _ \<Rightarrow> Inr None)))"

definition free_float_violations ::
    "network \<Rightarrow> forward_pass_result \<Rightarrow> backward_pass_result \<Rightarrow> float_analysis_result \<Rightarrow> planned_activity
     \<Rightarrow> violation list result" where
  "free_float_violations n fp bp fa a =
     (let u = pa_uid a in
      case (by_uid fp u, float_by_uid fa u) of
        (Some t, Some f) \<Rightarrow>
          (let rs = filter (\<lambda>r. pr_uid r \<notin> set (overridden_relationships bp)) (out_edges n u);
               reported = free_float_of f in
           if at_state t = COMPLETE then Inr (flag (reported \<noteq> 0) ''FREE_FLOAT_MISMATCH'' (Some u))
           else if rs = [] then
             Inr (flag (reported \<noteq> gap a (early_finish t) (bp_project_late_finish bp)) ''FREE_FLOAT_MISMATCH'' (Some u))
           else if list_ex (\<lambda>r. pr_inactive_boundary_uid r \<noteq> None) rs then
             Inr (flag (reported \<noteq> 0) ''FREE_FLOAT_INACTIVE_BOUNDARY_MISMATCH'' (Some u))
           else
             rbind (edges_hold_after n (by_uid fp) (fp_snap_milestones fp) reported a t rs) (\<lambda>holds.
             rbind (edges_hold_after n (by_uid fp) (fp_snap_milestones fp) (reported + 1) a t rs) (\<lambda>further.
             Inr (if further = Some True then flag True ''FREE_FLOAT_TOO_SMALL'' (Some u)
                  else if holds = Some False then flag True ''FREE_FLOAT_TOO_LARGE'' (Some u)
                  else flag (holds = None) ''FREE_FLOAT_UNANSWERABLE'' (Some u)))))
      | _ \<Rightarrow> Inr [])"

subsection \<open>Edges\<close>

definition edge_violations ::
    "network \<Rightarrow> forward_pass_result \<Rightarrow> progress_policy \<Rightarrow> planned_relationship \<Rightarrow> violation list result" where
  "edge_violations n fp policy r =
     (case (by_uid fp (pr_predecessor_uid r), by_uid fp (pr_successor_uid r)) of
        (Some p, Some s) \<Rightarrow>
          if pr_successor_uid r \<in> cv_activity_uid ` set (constraint_violations fp) then Inr []
          else (case activity_by_uid n (pr_successor_uid r) of
             None \<Rightarrow> Inl KeyError
           | Some q \<Rightarrow>
               if \<not> relationship_binds policy (state_of q) (status_time n) then Inr []
               else Inr (flag (\<not> lag_met (lag_calendar_for r (pa_calendar q))
                   (if anchors_predecessor_finish r then early_finish p else early_start p)
                   (if bounds_successor_start r then span_start s else early_finish s) (pr_lag r))
                 ''RELATIONSHIP_NOT_HONOURED'' (Some (pr_uid r))))
      | _ \<Rightarrow> Inr [])"

subsection \<open>The report\<close>

text \<open>The activities as the dict the code builds: one per identifier, the last row of a repeated one.\<close>

definition known_activities :: "network \<Rightarrow> planned_activity list" where
  "known_activities n = concat (map (\<lambda>u. case activity_by_uid n u of None \<Rightarrow> [] | Some a \<Rightarrow> [a]) (dict_keys (activity_uids n)))"

definition validate_result ::
    "(json \<Rightarrow> string) \<Rightarrow> network \<Rightarrow> forward_pass_result \<Rightarrow> backward_pass_result \<Rightarrow> float_analysis_result
     \<Rightarrow> int option \<Rightarrow> progress_policy option \<Rightarrow> violation list result" where
  "validate_result sha n fp bp fa threshold policy_arg =
     (let thr = (case threshold of None \<Rightarrow> fa_threshold fa | Some x \<Rightarrow> x);
          policy = (case policy_arg of None \<Rightarrow> fp_progress_policy fp | Some p \<Rightarrow> p) in
      if policy \<noteq> fp_progress_policy fp then Inr (flag True ''SCHEDULE_POLICY_MISMATCH'' None)
      else if network_violations sha n fp bp \<noteq> [] then Inr (network_violations sha n fp bp)
      else
        rbind (rmap (activity_violations n fp bp fa thr) (known_activities n)) (\<lambda>acts.
        rbind (rmap (free_float_violations n fp bp fa) (known_activities n)) (\<lambda>frees.
        rbind (rmap (edge_violations n fp policy) (relationships n)) (\<lambda>edges.
        Inr (project_violations n fp bp fa @ row_violations n fp bp fa
             @ concat acts @ concat frees @ concat edges)))))"

end
