(* ===== verification/Validator_Facts.thy ===== *)
theory Validator_Facts
  imports Validator Criticality_Facts
begin

section \<open>What a clean report means\<close>

text \<open>
  The report is empty exactly when every check is, so an empty report can be read off as facts
  about the result: which rows it has, what its floats measure, where its edges land. The counted
  working time of the checks is related to the shift the passes place with.
\<close>

subsection \<open>Reports\<close>

lemma flag_Nil [simp]: "flag c code u = [] \<longleftrightarrow> \<not> c"
  by (simp add: flag_def)

lemma rmap_concat_Nil: "rmap f xs = Inr ys \<Longrightarrow> concat ys = [] \<longleftrightarrow> (\<forall>x \<in> set xs. f x = Inr [])"
  unfolding rmap_Inr_iff by (induction rule: list_all2_induct) auto

lemma rmap_all_Nil: "(\<And>x. x \<in> set xs \<Longrightarrow> f x = Inr []) \<Longrightarrow> rmap f xs = Inr (map (\<lambda>_. []) xs)"
  by (induction xs) auto

lemma rmap_map_Inr: "(\<And>x. x \<in> set xs \<Longrightarrow> f x = Inr (g x)) \<Longrightarrow> rmap f xs = Inr (map g xs)"
  by (induction xs) auto

lemma concat_map_Nil: "concat (map (\<lambda>_. []) xs) = []"
  by (induction xs) simp_all

lemma duplicate_violations_Nil: "duplicate_violations code us = [] \<longleftrightarrow> distinct us"
proof -
  have "(\<forall>u \<in> set us. \<not> count_list us u > 1) \<longleftrightarrow> distinct us"
    by (induction us) (auto simp: count_list_0_iff [symmetric] dest: count_list_0_iff [THEN iffD1])
  then show ?thesis by (auto simp: duplicate_violations_def)
qed

lemma answer_violations_Nil: "answer_violations m u known answered = [] \<longleftrightarrow> set known = set answered"
proof -
  have key: "sort_key k ys = [] \<longleftrightarrow> ys = []" for k :: "uuid \<Rightarrow> string" and ys
    by (metis length_0_conv length_sort)
  have "dict_keys ys = [] \<longleftrightarrow> ys = []" for ys :: "uuid list"
    by (simp only: set_empty [symmetric] set_dict_keys)
  then show ?thesis by (auto simp: answer_violations_def key filter_empty_conv)
qed

lemma set_known_activities:
  assumes "distinct (activity_uids n)"
  shows "set (known_activities n) = set (activities n)"
proof -
  have "a \<in> set (known_activities n) \<longleftrightarrow> (\<exists>u \<in> set (activity_uids n). activity_by_uid n u = Some a)" for a
    by (auto simp: known_activities_def split: option.splits intro: sym)
  then show ?thesis using activity_by_uid_iff [OF assms] activity_uid_mem by blast
qed

text \<open>An empty report, check by check.\<close>

lemma validate_result_clean:
  assumes "distinct (activity_uids n)"
  shows "validate_result sha n fp bp fa None None = Inr [] \<longleftrightarrow>
      fp_network_fingerprint fp = network_fingerprint sha n \<and> bp_network_fingerprint bp = network_fingerprint sha n
    \<and> project_violations n fp bp fa = [] \<and> row_violations n fp bp fa = []
    \<and> (\<forall>a \<in> set (activities n). activity_violations n fp bp fa (fa_threshold fa) a = Inr [])
    \<and> (\<forall>a \<in> set (activities n). free_float_violations n fp bp fa a = Inr [])
    \<and> (\<forall>r \<in> set (relationships n). edge_violations n fp (fp_progress_policy fp) r = Inr [])"
    (is "?report = Inr [] \<longleftrightarrow> ?clean")
proof
  assume "?report = Inr []"
  then show ?clean
    using set_known_activities [OF assms]
    by (auto simp: validate_result_def network_violations_def Let_def rbind_Inr_iff rmap_concat_Nil split: if_splits
        simp del: concat_eq_Nil_conv)
next
  assume c: ?clean
  then have "rmap (activity_violations n fp bp fa (fa_threshold fa)) (known_activities n) = Inr (map (\<lambda>_. []) (known_activities n))"
    "rmap (free_float_violations n fp bp fa) (known_activities n) = Inr (map (\<lambda>_. []) (known_activities n))"
    "rmap (edge_violations n fp (fp_progress_policy fp)) (relationships n) = Inr (map (\<lambda>_. []) (relationships n))"
    using set_known_activities [OF assms] by (auto intro: rmap_all_Nil)
  with c show "?report = Inr []" by (simp add: validate_result_def network_violations_def)
qed

lemma row_violations_Nil:
  "row_violations n fp bp fa = [] \<longleftrightarrow>
     distinct (map at_uid (fp_times fp)) \<and> distinct (map lt_uid (bp_times bp)) \<and> distinct (map af_uid (fa_rows fa))
   \<and> set (map at_uid (fp_times fp)) = set (activity_uids n) \<and> set (map lt_uid (bp_times bp)) = set (activity_uids n)
   \<and> set (map af_uid (fa_rows fa)) = set (activity_uids n)"
  by (auto simp: row_violations_def Let_def duplicate_violations_Nil answer_violations_Nil simp del: set_map)

lemma project_violations_Nil:
  "project_violations n fp bp fa = [] \<longleftrightarrow> fp_project_start fp = project_start n
     \<and> (fp_times fp \<noteq> [] \<longrightarrow> fp_project_finish fp = max_of 0 (map early_finish (fp_times fp)))
     \<and> fa_project_late_finish fa = bp_project_late_finish bp"
  by (auto simp: project_violations_def)

subsection \<open>Counting against shifting\<close>

lemma signed_between_eq: "signed_between c x y = signed_working c x y"
  by (simp add: signed_between_def signed_working_def)

lemma gap_eq: "gap a x y = measure_float a x y"
  by (simp add: gap_def measure_float_def span_float_def signed_between_eq)

lemma slipped_shift: "slipped c x k = shift_lag c x k"
  by (simp add: slipped_def shift_lag_def)

text \<open>The counted lag of a check and the shifted lag of a pass agree on every lag that is not a lead.\<close>

lemma lag_met_iff: "wf_calendar c \<Longrightarrow> 0 \<le> lag \<Longrightarrow> lag_met c x y lag \<longleftrightarrow> lands c lag y x"
  using cal.W_mono [of c x y]
  by (cases "lag = 0") (auto simp: lag_met_def lands_zero lands_pos signed_between_eq signed_working_eq)

text \<open>A lead that lands is met too; the counted check asks less of a lead than the shift does.\<close>

lemma lag_met_lands:
  assumes wf: "wf_calendar c" and land: "lands c lag y x"
  shows "lag_met c x y lag"
proof (cases "0 \<le> lag")
  case True
  with lag_met_iff [OF wf] land show ?thesis by simp
next
  case False
  then have lead: "0 < - lag" by simp
  have "work (intervals c) x < work (intervals c) (y + 1) - lag"
    using land lands_neg [OF wf lead] by simp
  moreover have "work (intervals c) (y + 1) \<le> work (intervals c) y + 1"
    using work_step [of "intervals c" y] wf by (simp add: wf_calendar_def)
  ultimately show ?thesis using False by (simp add: lag_met_def signed_between_eq signed_working_eq wf)
qed

lemma lands_shift: "wf_calendar c \<Longrightarrow> lands c lag y x \<longleftrightarrow> (\<exists>z. shift_lag c x lag = Inr (Some z) \<and> z \<le> y)"
  by (auto simp: lands_iff shift_lag_eq)

text \<open>The probe over the kept edges.\<close>

definition probe_end :: "planned_relationship \<Rightarrow> int option \<Rightarrow> int option \<Rightarrow> int option" where
  "probe_end r start finish = (if anchors_predecessor_finish r then finish else start)"

definition probed :: "activity_times \<Rightarrow> planned_relationship \<Rightarrow> int" where
  "probed s r = (if bounds_successor_start r then span_start s else early_finish s)"

definition edge_kept ::
    "network \<Rightarrow> (uuid \<Rightarrow> activity_times option) \<Rightarrow> int option \<Rightarrow> int option \<Rightarrow> planned_relationship \<Rightarrow> bool" where
  "edge_kept n early start finish r \<longleftrightarrow> (\<exists>s q x. early (pr_successor_uid r) = Some s
     \<and> activity_by_uid n (pr_successor_uid r) = Some q \<and> probe_end r start finish = Some x
     \<and> lag_met (lag_calendar_for r (pa_calendar q)) x (probed s r) (pr_lag r))"

lemma edge_calendar_eq:
  "activity_by_uid n (pr_successor_uid r) = Some q \<Longrightarrow> edge_calendar n r = Inr (lag_calendar_for r (pa_calendar q))"
  by (simp add: edge_calendar_def lag_calendar_for_def split: option.splits)

lemma edges_hold_iff:
  assumes "\<not> has_started a" and "at_state t \<noteq> COMPLETE"
    and "\<And>r. r \<in> set rs \<Longrightarrow> \<exists>s q. early (pr_successor_uid r) = Some s \<and> activity_by_uid n (pr_successor_uid r) = Some q"
  shows "edges_hold n early a t slip start finish rs = Inr (Some (\<forall>r \<in> set rs. edge_kept n early start finish r))"
  using assms(3)
proof (induction rs)
  case (Cons r rs)
  from Cons.prems [of r] obtain s q where s: "early (pr_successor_uid r) = Some s"
    and q: "activity_by_uid n (pr_successor_uid r) = Some q" by auto
  show ?case
    using Cons s q assms(1,2)
    by (auto simp: edge_kept_def probe_end_def probed_def edge_calendar_eq [OF q] split: option.splits)
qed simp

text \<open>The slip of work that has not started, read declaratively.\<close>

definition moved :: "planned_activity \<Rightarrow> int \<Rightarrow> int \<Rightarrow> int option" where
  "moved a x k = (if pa_float_basis a = ''elapsed'' then Some (x + k) else shifted (float_calendar a) x k)"

definition placed_start :: "planned_activity \<Rightarrow> bool \<Rightarrow> int \<Rightarrow> int option" where
  "placed_start a snap x = (if remaining a > 0 \<or> snap \<and> remaining a = 0 then next_working (pa_calendar a) x else Some x)"

definition placed_finish :: "planned_activity \<Rightarrow> bool \<Rightarrow> int \<Rightarrow> int option" where
  "placed_finish a snap x = (if snap \<and> remaining a = 0 then next_working (pa_calendar a) x else Some x)"

definition slip_keeps ::
    "network \<Rightarrow> (uuid \<Rightarrow> activity_times option) \<Rightarrow> bool \<Rightarrow> int \<Rightarrow> planned_activity \<Rightarrow> activity_times
     \<Rightarrow> planned_relationship list \<Rightarrow> bool" where
  "slip_keeps n early snap k a t rs \<longleftrightarrow> (\<exists>s f. moved a (early_start t) k = Some s \<and> moved a (early_finish t) k = Some f
     \<and> (\<forall>r \<in> set rs. edge_kept n early (placed_start a snap s) (placed_finish a snap f) r))"

lemma edges_hold_after_eq:
  assumes "wf_calendar (float_calendar a)" and "at_state t = NOT_STARTED" and "\<not> has_started a"
    and "pa_constraint_type a \<notin> {MSO, MFO}"
    and known: "\<And>r. r \<in> set rs \<Longrightarrow> \<exists>s q. early (pr_successor_uid r) = Some s \<and> activity_by_uid n (pr_successor_uid r) = Some q"
  shows "edges_hold_after n early snap k a t rs = Inr (case (moved a (early_start t) k, moved a (early_finish t) k) of
      (Some s, Some f) \<Rightarrow> Some (\<forall>r \<in> set rs. edge_kept n early (placed_start a snap s) (placed_finish a snap f) r)
    | _ \<Rightarrow> None)"
proof -
  have move: "(if pa_float_basis a = ''elapsed'' then Inr (Some (x + k)) else slipped (float_calendar a) x k)
      = Inr (moved a x k)" for x
    using assms(1) by (simp add: moved_def slipped_shift shift_lag_eq)
  have live: "at_state t \<noteq> COMPLETE" using assms(2) by simp
  have hold: "edges_hold n early a t k (placed_start a snap s) (placed_finish a snap f) rs
      = Inr (Some (\<forall>r \<in> set rs. edge_kept n early (placed_start a snap s) (placed_finish a snap f) r))" for s f
    by (rule edges_hold_iff [OF assms(3) live known])
  show ?thesis
    using assms(2-4) hold unfolding edges_hold_after_def Let_def move
    by (cases "moved a (early_start t) k"; cases "moved a (early_finish t) k")
      (simp_all add: placed_start_def placed_finish_def)
qed

definition kept_edges :: "network \<Rightarrow> backward_pass_result \<Rightarrow> uuid \<Rightarrow> planned_relationship list" where
  "kept_edges n bp u = filter (\<lambda>r. pr_uid r \<notin> set (overridden_relationships bp)) (out_edges n u)"

text \<open>What the checker may say of the free float of work with outgoing edges.\<close>

definition FREE_FLOAT_OBJECTIONS :: "string list" where
  "FREE_FLOAT_OBJECTIONS = [''FREE_FLOAT_TOO_SMALL'', ''FREE_FLOAT_TOO_LARGE'', ''FREE_FLOAT_UNANSWERABLE'']"

lemma free_float_report:
  assumes "wf_calendar (float_calendar a)" and "at_state t = NOT_STARTED" and "\<not> has_started a"
    and "pa_constraint_type a \<notin> {MSO, MFO}"
    and t: "by_uid fp (pa_uid a) = Some t" and f: "float_by_uid fa (pa_uid a) = Some f"
    and some: "kept_edges n bp (pa_uid a) \<noteq> []"
    and plain: "\<forall>r \<in> set (kept_edges n bp (pa_uid a)). pr_inactive_boundary_uid r = None"
    and known: "\<And>r. r \<in> set (kept_edges n bp (pa_uid a)) \<Longrightarrow>
      \<exists>s q. by_uid fp (pr_successor_uid r) = Some s \<and> activity_by_uid n (pr_successor_uid r) = Some q"
  defines "keeps k \<equiv> slip_keeps n (by_uid fp) (fp_snap_milestones fp) k a t (kept_edges n bp (pa_uid a))"
  obtains vs where "free_float_violations n fp bp fa a = Inr vs"
    and "vs = [] \<longleftrightarrow> keeps (free_float_of f) \<and> \<not> keeps (free_float_of f + 1)"
    and "\<lparr> vl_code = ''FREE_FLOAT_TOO_SMALL'', vl_uid = Some (pa_uid a) \<rparr> \<in> set vs \<longleftrightarrow> keeps (free_float_of f + 1)"
    and "\<forall>v \<in> set vs. vl_uid v = Some (pa_uid a) \<and> vl_code v \<in> set FREE_FLOAT_OBJECTIONS"
proof -
  let ?after = "\<lambda>k. edges_hold_after n (by_uid fp) (fp_snap_milestones fp) k a t (kept_edges n bp (pa_uid a))"
  have after: "\<exists>b. ?after k = Inr b \<and> (b = Some True \<longleftrightarrow> keeps k)" for k
    using edges_hold_after_eq [where rs = "kept_edges n bp (pa_uid a)" and early = "by_uid fp" and n = n and k = k
        and snap = "fp_snap_milestones fp", OF assms(1-4) known]
    by (auto simp: keeps_def slip_keeps_def split: option.splits)
  obtain b where b: "?after (free_float_of f) = Inr b" "b = Some True \<longleftrightarrow> keeps (free_float_of f)" using after by blast
  obtain b' where b': "?after (free_float_of f + 1) = Inr b'" "b' = Some True \<longleftrightarrow> keeps (free_float_of f + 1)" using after by blast
  have nb: "\<not> list_ex (\<lambda>r. pr_inactive_boundary_uid r \<noteq> None) (kept_edges n bp (pa_uid a))"
    using plain by (auto simp: list_ex_iff)
  let ?vs = "if b' = Some True then flag True ''FREE_FLOAT_TOO_SMALL'' (Some (pa_uid a))
     else if b = Some False then flag True ''FREE_FLOAT_TOO_LARGE'' (Some (pa_uid a))
     else flag (b = None) ''FREE_FLOAT_UNANSWERABLE'' (Some (pa_uid a))"
  have "free_float_violations n fp bp fa a = Inr ?vs"
    using t f some nb b(1) b'(1) assms(2) by (simp add: free_float_violations_def kept_edges_def [symmetric] Let_def)
  then show thesis
    by (rule that) (cases b; auto simp: b(2) [symmetric] b'(2) [symmetric] flag_def FREE_FLOAT_OBJECTIONS_def)+
qed

lemma free_float_violations_Nil:
  assumes "wf_calendar (float_calendar a)" and "at_state t = NOT_STARTED" and "\<not> has_started a"
    and "pa_constraint_type a \<notin> {MSO, MFO}"
    and t: "by_uid fp (pa_uid a) = Some t" and f: "float_by_uid fa (pa_uid a) = Some f"
    and some: "kept_edges n bp (pa_uid a) \<noteq> []"
    and plain: "\<forall>r \<in> set (kept_edges n bp (pa_uid a)). pr_inactive_boundary_uid r = None"
    and known: "\<And>r. r \<in> set (kept_edges n bp (pa_uid a)) \<Longrightarrow>
      \<exists>s q. by_uid fp (pr_successor_uid r) = Some s \<and> activity_by_uid n (pr_successor_uid r) = Some q"
  shows "free_float_violations n fp bp fa a = Inr [] \<longleftrightarrow>
      slip_keeps n (by_uid fp) (fp_snap_milestones fp) (free_float_of f) a t (kept_edges n bp (pa_uid a))
    \<and> \<not> slip_keeps n (by_uid fp) (fp_snap_milestones fp) (free_float_of f + 1) a t (kept_edges n bp (pa_uid a))"
  by (rule free_float_report [OF assms]) auto

subsection \<open>Properties\<close>

text \<open>
  A result with a clean report describes this network and answers every activity exactly
  once in each of its three parts: both passes carry the network's fingerprint, the forward pass
  starts where the project does, and the rows of either pass and of the floats are one per
  activity.
\<close>

theorem clean_report_rows:
  assumes "network_ok n" and "validate_result sha n fp bp fa None None = Inr []"
  shows "fp_network_fingerprint fp = network_fingerprint sha n \<and> bp_network_fingerprint bp = network_fingerprint sha n
    \<and> fp_project_start fp = project_start n \<and> fa_project_late_finish fa = bp_project_late_finish bp
    \<and> distinct (map at_uid (fp_times fp)) \<and> set (map at_uid (fp_times fp)) = set (activity_uids n)
    \<and> distinct (map lt_uid (bp_times bp)) \<and> set (map lt_uid (bp_times bp)) = set (activity_uids n)
    \<and> distinct (map af_uid (fa_rows fa)) \<and> set (map af_uid (fa_rows fa)) = set (activity_uids n)"
  using assms(2) unfolding validate_result_clean [OF network_ok_distinct [OF assms(1)]] row_violations_Nil project_violations_Nil
  by blast

definition sample_floats :: float_analysis_result where
  "sample_floats = (case float_analysis (\<lambda>_. []) sample_network sample_forward sample_late 0 of
     Inr fa \<Rightarrow> fa | Inl _ \<Rightarrow> undefined)"

lemma sample_clean: "validate_result (\<lambda>_. []) sample_network sample_forward sample_late sample_floats None None = Inr []"
  by code_simp

lemma sample_ok: "network_ok sample_network"
  using sample_forward_run by (rule forward_pass_run)

theorem clean_report_rows_witness:
  "set (map at_uid (fp_times sample_forward)) = {1, 2, 3} \<and> distinct (map af_uid (fa_rows sample_floats))"
proof -
  have "set (activity_uids sample_network) = {1, 2, 3}" by code_simp
  with clean_report_rows [OF sample_ok sample_clean] show ?thesis by simp
qed

lemma map_of_rows_known: "u \<in> set (map f rows) \<Longrightarrow> \<exists>t. map_of (rev (map (\<lambda>t. (f t, t)) rows)) u = Some t"
  by (cases "map_of (rev (map (\<lambda>t. (f t, t)) rows)) u") (force simp: map_of_eq_None_iff)+

lemma clean_rows_found:
  assumes "row_violations n fp bp fa = []" and "u \<in> set (activity_uids n)"
  shows "\<exists>t l f. by_uid fp u = Some t \<and> late_by_uid bp u = Some l \<and> float_by_uid fa u = Some f"
proof -
  have "u \<in> set (map at_uid (fp_times fp))" "u \<in> set (map lt_uid (bp_times bp))" "u \<in> set (map af_uid (fa_rows fa))"
    using assms unfolding row_violations_Nil by blast+
  then show ?thesis
    unfolding by_uid_def late_by_uid_def float_by_uid_def by (blast dest: map_of_rows_known)
qed

lemma slack_available_eq: "slack_available s r = probed s r"
  by (simp add: available_span_def probed_def span_start_def)

text \<open>
  (C24) In a result with a clean report every edge the policy keeps, into an activity that no
  must-date displaced, is honoured: the working time between the ends it connects is at least its
  lag, and a lag that is not a lead lands, where the forward pass would shift it, no later than the
  end it bounds.
\<close>

theorem clean_report_edges:
  assumes ok: "network_ok n" and wf: "wf_network n" and clean: "validate_result sha n fp bp fa None None = Inr []"
    and r: "r \<in> set (relationships n)" and q: "q \<in> set (activities n)" "pa_uid q = pr_successor_uid r"
    and "pr_successor_uid r \<notin> cv_activity_uid ` set (constraint_violations fp)"
    and "relationship_binds (fp_progress_policy fp) (state_of q) (status_time n)"
  shows "\<exists>p s. by_uid fp (pr_predecessor_uid r) = Some p \<and> by_uid fp (pr_successor_uid r) = Some s
    \<and> pr_lag r \<le> signed_working (lag_calendar_for r (pa_calendar q)) (slack_anchor p r) (slack_available s r)
    \<and> (0 \<le> pr_lag r \<longrightarrow> (\<exists>z. shift_lag (lag_calendar_for r (pa_calendar q)) (slack_anchor p r) (pr_lag r) = Inr (Some z)
         \<and> z \<le> slack_available s r))"
proof -
  note d = network_ok_distinct [OF ok]
  note parts = clean [unfolded validate_result_clean [OF d]]
  have known: "pr_predecessor_uid r \<in> set (activity_uids n)" "pr_successor_uid r \<in> set (activity_uids n)"
    using network_ok_known [OF ok] r by (auto simp: known_edges_def)
  obtain p s where p: "by_uid fp (pr_predecessor_uid r) = Some p" and s: "by_uid fp (pr_successor_uid r) = Some s"
    using clean_rows_found [of n fp bp fa] parts known by metis
  have look: "activity_by_uid n (pr_successor_uid r) = Some q" using activity_by_uid_iff [OF d] q by blast
  have "edge_violations n fp (fp_progress_policy fp) r = Inr []" using parts r by blast
  then have met: "lag_met (lag_calendar_for r (pa_calendar q)) (slack_anchor p r) (slack_available s r) (pr_lag r)"
    using p s look assms(7,8) unfolding slack_available_eq by (simp add: edge_violations_def probed_def)
  note wfl = wf_networkD(4) [OF wf q(1) r]
  from met have "pr_lag r \<le> signed_working (lag_calendar_for r (pa_calendar q)) (slack_anchor p r) (slack_available s r)"
    by (simp add: lag_met_def signed_between_eq)
  moreover have "\<exists>z. shift_lag (lag_calendar_for r (pa_calendar q)) (slack_anchor p r) (pr_lag r) = Inr (Some z)
      \<and> z \<le> slack_available s r" if "0 \<le> pr_lag r"
    using met lag_met_iff [OF wfl that] lands_shift [OF wfl] by blast
  ultimately show ?thesis using p s by blast
qed

theorem clean_report_edges_witness:
  "\<exists>p s. by_uid sample_forward 1 = Some p \<and> by_uid sample_forward 2 = Some s
    \<and> 2 \<le> signed_working sample_calendar (early_finish p) (early_start s)"
proof -
  let ?r = "sample_edge 11 1 2 FS 2" and ?q = "sample_activity 2 6"
  have m: "?r \<in> set (relationships sample_network)" "?q \<in> set (activities sample_network)" by (simp_all add: sample_network_def)
  have u: "pr_successor_uid ?r = 2" "pa_uid ?q = 2" "pr_predecessor_uid ?r = 1" "pr_lag ?r = 2"
    "lag_calendar_for ?r (pa_calendar ?q) = sample_calendar" "pr_type ?r = FS"
    by (simp_all add: sample_edge_def sample_activity_def lag_calendar_for_def)
  have c: "2 \<notin> cv_activity_uid ` set (constraint_violations sample_forward)" by code_simp
  have b: "relationship_binds (fp_progress_policy sample_forward) (state_of ?q) (status_time sample_network)" by code_simp
  have s: "\<forall>s. by_uid sample_forward 2 = Some s \<longrightarrow> fst (available_span s) = early_start s"
  proof -
    have "case by_uid sample_forward 2 of None \<Rightarrow> True | Some s \<Rightarrow> fst (available_span s) = early_start s" by code_simp
    then show ?thesis by (auto split: option.splits)
  qed
  have k: "anchors_predecessor_finish ?r" "bounds_successor_start ?r" by code_simp+
  from clean_report_edges [where r = ?r and q = ?q, OF sample_ok sample_networks_wf(1) sample_clean m(1) m(2), unfolded u, OF refl c b]
    s k show ?thesis by auto
qed

lemma clean_activity:
  assumes ok: "network_ok n" and clean: "validate_result sha n fp bp fa None None = Inr []"
    and a: "a \<in> set (activities n)"
  obtains t l f where "by_uid fp (pa_uid a) = Some t" and "late_by_uid bp (pa_uid a) = Some l"
    and "float_by_uid fa (pa_uid a) = Some f" and "span_violations n a t l = Inr []"
    and "order_violations (pa_uid a) t l = []" and "progress_violations a t l = []"
    and "float_violations (fa_threshold fa) a t l f = []" and "constraint_violations_of a t l = []"
    and "free_float_violations n fp bp fa a = Inr []"
proof -
  note parts = clean [unfolded validate_result_clean [OF network_ok_distinct [OF ok]]]
  obtain t l f where rows: "by_uid fp (pa_uid a) = Some t" "late_by_uid bp (pa_uid a) = Some l"
    "float_by_uid fa (pa_uid a) = Some f"
    using clean_rows_found [OF _ activity_uid_mem [OF a]] parts by blast
  have "activity_violations n fp bp fa (fa_threshold fa) a = Inr []" using parts a by blast
  with rows have "span_violations n a t l = Inr []" "order_violations (pa_uid a) t l = []"
    "progress_violations a t l = []" "float_violations (fa_threshold fa) a t l f = []" "constraint_violations_of a t l = []"
    by (simp_all add: activity_violations_def Let_def rbind_Inr_iff)
  with rows parts a that show thesis by blast
qed

text \<open>
  (C25) In a result with a clean report the numbers of every activity are what its spans say: the
  spans are ordered, a span without assignments consumes exactly the remaining work, the floats
  are the gaps between the early and the late span, the activity is critical exactly when it is not
  complete and its total float is within the threshold, and the constraint of work that has not
  started holds.
\<close>

theorem clean_report_floats:
  assumes "network_ok n" and "validate_result sha n fp bp fa None None = Inr []" and "a \<in> set (activities n)"
  shows "\<exists>t l f. by_uid fp (pa_uid a) = Some t \<and> late_by_uid bp (pa_uid a) = Some l \<and> float_by_uid fa (pa_uid a) = Some f
    \<and> early_start t \<le> early_finish t \<and> late_span_start l \<le> late_finish l \<and> at_state t = state_of a
    \<and> (state_of a \<noteq> COMPLETE \<and> pa_assignment_envelope a = None \<longrightarrow>
         working_between (pa_calendar a) (span_start t) (early_finish t) = remaining a
       \<and> working_between (pa_calendar a) (late_span_start l) (late_finish l) = remaining a)
    \<and> start_float f = measure_float a (span_start t) (late_span_start l)
    \<and> finish_float f = measure_float a (early_finish t) (late_finish l)
    \<and> total_float f = min (start_float f) (finish_float f)
    \<and> (critical f \<longleftrightarrow> total_float f \<le> fa_threshold fa \<and> state_of a \<noteq> COMPLETE)
    \<and> (\<forall>c. pa_constraint_coordinate a = Some c \<and> \<not> has_started a \<longrightarrow> constraint_holds (pa_constraint_type a) c t l)"
proof -
  obtain t l f where rows: "by_uid fp (pa_uid a) = Some t" "late_by_uid bp (pa_uid a) = Some l"
    "float_by_uid fa (pa_uid a) = Some f" and v: "span_violations n a t l = Inr []"
    "order_violations (pa_uid a) t l = []" "progress_violations a t l = []"
    "float_violations (fa_threshold fa) a t l f = []" "constraint_violations_of a t l = []"
    using assms by (rule clean_activity)
  have spans: "early_start t \<le> early_finish t" "late_span_start l \<le> late_finish l"
    using v(2) by (auto simp: order_violations_def)
  have state: "at_state t = state_of a" using v(3) by (simp add: progress_violations_def Let_def)
  have len: "state_of a \<noteq> COMPLETE \<and> pa_assignment_envelope a = None \<longrightarrow>
      working_between (pa_calendar a) (span_start t) (early_finish t) = remaining a
    \<and> working_between (pa_calendar a) (late_span_start l) (late_finish l) = remaining a"
    using v(1) by (auto simp: span_violations_def length_violations_def rbind_Inr_iff)
  have fl: "start_float f = measure_float a (span_start t) (late_span_start l)"
    "finish_float f = measure_float a (early_finish t) (late_finish l)" "total_float f = min (start_float f) (finish_float f)"
    "critical f \<longleftrightarrow> total_float f \<le> fa_threshold fa \<and> state_of a \<noteq> COMPLETE"
    using v(4) by (simp_all add: float_violations_def Let_def gap_eq)
  have "constraint_holds (pa_constraint_type a) c t l" if "pa_constraint_coordinate a = Some c" "\<not> has_started a" for c
    using v(5) that by (cases "pa_constraint_type a") (simp_all add: constraint_violations_of_def UNCHECKED_CONSTRAINTS_def constraint_holds_def)
  with rows spans state len fl show ?thesis by blast
qed

theorem clean_report_floats_witness:
  "\<exists>t l f. by_uid sample_forward 1 = Some t \<and> late_by_uid sample_late 1 = Some l \<and> float_by_uid sample_floats 1 = Some f
    \<and> total_float f = min (start_float f) (finish_float f) \<and> start_float f = measure_float (sample_activity 1 5) (span_start t) (late_span_start l)"
proof -
  have m: "sample_activity 1 5 \<in> set (activities sample_network)" by (simp add: sample_network_def)
  have "pa_uid (sample_activity 1 5) = 1" by (simp add: sample_activity_def)
  with clean_report_floats [OF sample_ok sample_clean m] show ?thesis by auto
qed

text \<open>
  (C26) In a result with a clean report the free float is what the successors leave. Complete work has
  none. Work without a kept edge has the gap from its early finish to the late finish of the
  project. Work with a kept edge over an inactive boundary reports none. Any other work that has not
  started and is not pinned may slip by exactly its free float and every kept edge still finds its
  lag, and one unit more either leaves the calendar or breaks an edge.
\<close>

theorem clean_report_free_float:
  assumes ok: "network_ok n" and wf: "wf_network n" and clean: "validate_result sha n fp bp fa None None = Inr []"
    and a: "a \<in> set (activities n)"
  shows "\<exists>t f. by_uid fp (pa_uid a) = Some t \<and> float_by_uid fa (pa_uid a) = Some f
    \<and> (if state_of a = COMPLETE then free_float_of f = 0
       else if kept_edges n bp (pa_uid a) = [] then
         free_float_of f = measure_float a (early_finish t) (bp_project_late_finish bp)
       else if \<exists>r \<in> set (kept_edges n bp (pa_uid a)). pr_inactive_boundary_uid r \<noteq> None then free_float_of f = 0
       else state_of a = NOT_STARTED \<and> pa_constraint_type a \<notin> {MSO, MFO} \<longrightarrow>
         slip_keeps n (by_uid fp) (fp_snap_milestones fp) (free_float_of f) a t (kept_edges n bp (pa_uid a))
         \<and> \<not> slip_keeps n (by_uid fp) (fp_snap_milestones fp) (free_float_of f + 1) a t (kept_edges n bp (pa_uid a)))"
proof -
  let ?kept = "kept_edges n bp (pa_uid a)"
  obtain t l f where rows: "by_uid fp (pa_uid a) = Some t" "float_by_uid fa (pa_uid a) = Some f"
    and v: "progress_violations a t l = []" "free_float_violations n fp bp fa a = Inr []"
    using ok clean a by (rule clean_activity)
  have state: "at_state t = state_of a" using v(1) by (simp add: progress_violations_def Let_def)
  note parts = clean [unfolded validate_result_clean [OF network_ok_distinct [OF ok]]]
  have known: "\<exists>s q. by_uid fp (pr_successor_uid r) = Some s \<and> activity_by_uid n (pr_successor_uid r) = Some q"
    if "r \<in> set ?kept" for r
  proof -
    have "pr_successor_uid r \<in> set (activity_uids n)"
      using network_ok_known [OF ok] that by (auto simp: kept_edges_def out_edges_def known_edges_def)
    then show ?thesis using clean_rows_found [of n fp bp fa] parts activity_by_uid_known by blast
  qed
  have read: "free_float_violations n fp bp fa a
      = (if state_of a = COMPLETE then Inr (flag (free_float_of f \<noteq> 0) ''FREE_FLOAT_MISMATCH'' (Some (pa_uid a)))
         else if ?kept = [] then Inr (flag (free_float_of f \<noteq> gap a (early_finish t) (bp_project_late_finish bp))
           ''FREE_FLOAT_MISMATCH'' (Some (pa_uid a)))
         else if \<exists>r \<in> set ?kept. pr_inactive_boundary_uid r \<noteq> None
         then Inr (flag (free_float_of f \<noteq> 0) ''FREE_FLOAT_INACTIVE_BOUNDARY_MISMATCH'' (Some (pa_uid a)))
         else free_float_violations n fp bp fa a)"
    using rows state by (simp add: free_float_violations_def kept_edges_def [symmetric] Let_def list_ex_iff)
  have slip: "slip_keeps n (by_uid fp) (fp_snap_milestones fp) (free_float_of f) a t ?kept
      \<and> \<not> slip_keeps n (by_uid fp) (fp_snap_milestones fp) (free_float_of f + 1) a t ?kept"
    if some: "?kept \<noteq> []" and plain: "\<forall>r \<in> set ?kept. pr_inactive_boundary_uid r = None"
      and fresh: "state_of a = NOT_STARTED" "pa_constraint_type a \<notin> {MSO, MFO}"
    using free_float_violations_Nil [OF wf_networkD(2) [OF wf a] _ untouched_unstarted [OF fresh(1)] fresh(2) rows some plain known]
      v(2) state fresh(1) by simp
  from read v(2) slip rows show ?thesis
    by (intro exI [of _ t] exI [of _ f]) (auto simp: gap_eq flag_def split: if_splits)
qed

theorem clean_report_free_float_witness:
  "\<exists>t. by_uid sample_forward 1 = Some t
    \<and> slip_keeps sample_network (by_uid sample_forward) False 0 (sample_activity 1 5) t [sample_edge 11 1 2 FS 2, sample_edge 12 1 3 SS 0]
    \<and> \<not> slip_keeps sample_network (by_uid sample_forward) False 1 (sample_activity 1 5) t [sample_edge 11 1 2 FS 2, sample_edge 12 1 3 SS 0]"
proof -
  let ?a = "sample_activity 1 5"
  have m: "?a \<in> set (activities sample_network)" by (simp add: sample_network_def)
  have k: "kept_edges sample_network sample_late 1 = [sample_edge 11 1 2 FS 2, sample_edge 12 1 3 SS 0]" by code_simp
  have v: "pa_uid ?a = 1" "state_of ?a = NOT_STARTED" "pa_constraint_type ?a \<notin> {MSO, MFO}" "fp_snap_milestones sample_forward = False"
    by code_simp+
  have f: "\<forall>f. float_by_uid sample_floats 1 = Some f \<longrightarrow> free_float_of f = 0"
  proof -
    have "case float_by_uid sample_floats 1 of None \<Rightarrow> True | Some f \<Rightarrow> free_float_of f = 0" by code_simp
    then show ?thesis by (auto split: option.splits)
  qed
  have "kept_edges sample_network sample_late (pa_uid ?a) \<noteq> []"
    "\<forall>r \<in> set (kept_edges sample_network sample_late (pa_uid ?a)). pr_inactive_boundary_uid r = None"
    unfolding v(1) k by (simp_all add: sample_edge_def)
  with clean_report_free_float [OF sample_ok sample_networks_wf(1) sample_clean m] v(2,3) f show ?thesis
    unfolding v(1,4) k by fastforce
qed

text \<open>
  Two activities on a calendar that runs past the horizon, joined by a lead. The float of the first
  is capped by the horizon; the probe of the checker is not.
\<close>

definition capped_network :: network where
  "capped_network = \<lparr>
     activities = [(sample_activity 1 10)\<lparr>pa_calendar := ci_of [(0, 200)]\<rparr>,
                   (sample_activity 2 2)\<lparr>pa_calendar := ci_of [(0, 200)], pa_constraint_type := SNET,
                     pa_constraint_coordinate := Some 98\<rparr>],
     relationships = [sample_edge 11 1 2 FS (-5)], project_start = 0, horizon = 100, status_time = None \<rparr>"

definition pass_report :: "network \<Rightarrow> violation list result" where
  "pass_report n =
     rbind (forward_pass (\<lambda>_. []) n False RETAINED_LOGIC) (\<lambda>fp.
     rbind (backward_pass (\<lambda>_. []) n fp None None None) (\<lambda>bp.
     rbind (float_analysis (\<lambda>_. []) n fp bp 0) (\<lambda>fa. validate_result (\<lambda>_. []) n fp bp fa None None)))"

end
