(* ===== verification/Validator_Complete.thy ===== *)
theory Validator_Complete
  imports Validator_Facts
begin

section \<open>The checker accepts what the passes compute\<close>

text \<open>
  The passes place spans and shift lags; the checker counts. Where calendars end by the horizon and
  no edge carries a lead the two routes agree: a result of the three passes over work that has not
  started has a clean report. Elsewhere the report names exactly the free floats that are not exact. The free float is the delicate part. The pass finds the greatest
  coordinate each edge permits within the movement limit of its predecessor; the checker slips the
  span by the number and asks the edges again. The lemmas on slips relate a shifted and snapped
  end to those coordinates by the work count alone.
\<close>

subsection \<open>A slip of one end\<close>

definition snapped_end :: "planned_activity \<Rightarrow> bool \<Rightarrow> planned_relationship \<Rightarrow> bool" where
  "snapped_end a snap r \<longleftrightarrow> snap \<and> remaining a = 0 \<or> \<not> anchors_predecessor_finish r \<and> 0 < remaining a"

definition landed :: "compiled_intervals \<Rightarrow> bool \<Rightarrow> int \<Rightarrow> int option" where
  "landed c snp x = (if snp then next_working c x else Some x)"

lemma probe_end_landed:
  "probe_end r (placed_start a snap s) (placed_finish a snap f)
     = landed (pa_calendar a) (snapped_end a snap r) (if anchors_predecessor_finish r then f else s)"
  by (auto simp: probe_end_def placed_start_def placed_finish_def landed_def snapped_end_def)

text \<open>A slip that counts no more work than a permitted coordinate lands at or before it.\<close>

lemma slip_reaches:
  assumes wf: "wf_calendar c" and k: "0 \<le> k" and occ: "snp \<Longrightarrow> contains_coordinate x (intervals c)"
    and y: "x \<le> y" "snp \<Longrightarrow> contains_coordinate y (intervals c)" "work (intervals c) x + k \<le> work (intervals c) y"
  shows "\<exists>m z. shifted c x k = Some m \<and> landed c snp m = Some z \<and> z \<le> y"
proof (cases "k = 0")
  case True
  have "next_working c x = Some x" if snp using cal.nxt_iff [OF wf, of x x] occ [OF that] by simp
  with True y(1) show ?thesis by (simp add: landed_def)
next
  case False
  then have pos: "0 < k" using k by simp
  have "work (intervals c) y \<le> tot (intervals c)" using cal.W_bounds [OF wf] by simp
  then obtain m where m: "add_positive c x k = Some m" "shifted c x k = Some m"
    using cal.add_None [OF wf pos, of x] y(3) by (cases "add_positive c x k") (auto simp: shifted_pos [OF wf pos])
  note at = cal.add_Some [OF wf pos m(1)]
  show ?thesis
  proof (cases snp)
    case False
    with m(2) at y(3) cal.working_below [OF wf, of m y] show ?thesis by (simp add: landed_def)
  next
    case True
    note py = y(2) [OF True]
    have "work (intervals c) m < tot (intervals c)" using at y(3) cal.working_end [OF wf py] by simp
    then obtain z where z: "next_working c m = Some z" using cal.nxt_None [OF wf, of m] by (cases "next_working c m") auto
    have "z \<le> y" using cal.nxt_Some [OF wf z] at y(3) cal.working_above [OF wf py, of z] by simp
    with True m(2) z show ?thesis by (simp add: landed_def)
  qed
qed

lemma slip_counts:
  assumes wf: "wf_calendar c" and k: "0 < k" and m: "shifted c x k = Some m" and z: "landed c snp m = Some z"
  shows "work (intervals c) z = work (intervals c) x + k"
    and "if snp then contains_coordinate z (intervals c) else contains_coordinate (z - 1) (intervals c)"
proof -
  have at: "work (intervals c) m = work (intervals c) x + k \<and> contains_coordinate (m - 1) (intervals c)"
    using m cal.add_Some [OF wf k, of x m] by (simp add: shifted_pos [OF wf k])
  show "work (intervals c) z = work (intervals c) x + k"
    using z at cal.nxt_Some [OF wf, of m z] by (auto simp: landed_def split: if_splits)
  show "if snp then contains_coordinate z (intervals c) else contains_coordinate (z - 1) (intervals c)"
    using z at cal.nxt_Some [OF wf, of m z] by (auto simp: landed_def split: if_splits)
qed

subsection \<open>A slip against the movement limit\<close>

definition ends_by :: "compiled_intervals \<Rightarrow> int \<Rightarrow> bool" where
  "ends_by c h \<longleftrightarrow> (\<forall>(s, f) \<in> set (intervals c). f \<le> h)"

lemma ends_by_contains: "ends_by c h \<Longrightarrow> contains_coordinate x (intervals c) \<Longrightarrow> x < h"
  by (force simp: ends_by_def contains_iff)

text \<open>What the limit of untouched work is: the latest placement by the horizon.\<close>

definition latest_limit :: "planned_activity \<Rightarrow> bool \<Rightarrow> int \<Rightarrow> int \<times> int \<Rightarrow> bool" where
  "latest_limit a snap h l \<longleftrightarrow>
     (if remaining a = 0 then fst l = snd l \<and> (if snap then prev_working_start (pa_calendar a) h = Some (fst l) else fst l = h)
      else is_span (pa_calendar a) (remaining a) (fst l) (snd l)
        \<and> (\<forall>s f. is_span (pa_calendar a) (remaining a) s f \<longrightarrow> f \<le> h \<longrightarrow> s \<le> fst l \<and> f \<le> snd l))"

lemma limit_of_span:
  assumes wf: "wf_calendar (pa_calendar a)" and end_by: "ends_by (pa_calendar a) h" and l: "latest_limit a snap h l"
    and d: "0 < remaining a" and s: "contains_coordinate s (intervals (pa_calendar a))"
    and f: "contains_coordinate (f - 1) (intervals (pa_calendar a))"
    and count: "work (intervals (pa_calendar a)) f = work (intervals (pa_calendar a)) s + remaining a"
  shows "s \<le> fst l \<and> f \<le> snd l"
proof -
  have "is_span (pa_calendar a) (remaining a) s f" using s f count d by (simp add: is_span_def)
  moreover have "f \<le> h" using ends_by_contains [OF end_by f] by simp
  ultimately show ?thesis using l d by (auto simp: latest_limit_def)
qed

lemma limit_of_point:
  assumes wf: "wf_calendar (pa_calendar a)" and end_by: "ends_by (pa_calendar a) h" and l: "latest_limit a snap h l"
    and d: "remaining a = 0"
    and z: "if snap then contains_coordinate z (intervals (pa_calendar a)) else contains_coordinate (z - 1) (intervals (pa_calendar a))"
  shows "z \<le> fst l" and "z \<le> snd l"
proof -
  have "z \<le> h" using z ends_by_contains [OF end_by, of z] ends_by_contains [OF end_by, of "z - 1"] by (auto split: if_splits)
  then have "z \<le> fst l"
    using l d z prev_working_start_greatest [OF wf, of h "fst l" z] by (auto simp: latest_limit_def split: if_splits)
  then show "z \<le> fst l" "z \<le> snd l" using l d by (simp_all add: latest_limit_def)
qed

subsection \<open>The room of one edge\<close>

lemma lands_below:
  "wf_calendar c \<Longrightarrow> 0 \<le> lag \<Longrightarrow> lands c lag b y \<Longrightarrow> x \<le> y \<Longrightarrow> lands c lag b x"
  using cal.W_mono [of c x y] by (cases "lag = 0") (auto simp: lands_zero lands_pos)

definition edge_room ::
    "network \<Rightarrow> (uuid \<Rightarrow> activity_times option) \<Rightarrow> bool \<Rightarrow> planned_activity \<Rightarrow> activity_times \<Rightarrow> int \<times> int
     \<Rightarrow> planned_relationship \<Rightarrow> int \<Rightarrow> bool" where
  "edge_room n early snap a t l r x \<longleftrightarrow> (\<exists>s q y. early (pr_successor_uid r) = Some s
     \<and> activity_by_uid n (pr_successor_uid r) = Some q \<and> wf_calendar (lag_calendar_for r (pa_calendar q)) \<and> 0 \<le> pr_lag r
     \<and> work (intervals (pa_calendar a)) y = work (intervals (pa_calendar a)) (slack_anchor t r) + x
     \<and> slack_anchor t r \<le> y \<and> y \<le> slack_ceiling l r
     \<and> (snapped_end a snap r \<longrightarrow> contains_coordinate y (intervals (pa_calendar a)))
     \<and> lands (lag_calendar_for r (pa_calendar q)) (pr_lag r) (probed s r) y
     \<and> (\<forall>y'. y' \<le> slack_ceiling l r \<longrightarrow> (snapped_end a snap r \<longrightarrow> contains_coordinate y' (intervals (pa_calendar a)))
          \<longrightarrow> lands (lag_calendar_for r (pa_calendar q)) (pr_lag r) (probed s r) y' \<longrightarrow> y' \<le> y))"

text \<open>The ends of an early span where the calendar decides them.\<close>

lemma span_occupies:
  assumes "activity_span a (remaining a) snap (early_start t) (early_finish t)" and "0 \<le> remaining a" and "snapped_end a snap r"
  shows "contains_coordinate (slack_anchor t r) (intervals (pa_calendar a))"
  using assms by (auto simp: activity_span_def snapped_end_def is_span_def split: if_splits)

lemma room_both_move:
  assumes wf: "wf_calendar (pa_calendar a)" and span: "activity_span a (remaining a) snap (early_start t) (early_finish t)"
    and d: "0 \<le> remaining a" and l: "latest_limit a snap h l" and k: "0 \<le> k" "k \<le> x"
    and room: "edge_room n early snap a t l r x"
  shows "\<exists>s f. shifted (pa_calendar a) (early_start t) k = Some s \<and> shifted (pa_calendar a) (early_finish t) k = Some f"
proof (cases "k = 0")
  case False
  then have pos: "0 < k" using k by simp
  let ?W = "work (intervals (pa_calendar a))" and ?T = "tot (intervals (pa_calendar a))"
  obtain y where y: "?W y = ?W (slack_anchor t r) + x" "y \<le> slack_ceiling l r" using room by (auto simp: edge_room_def)
  have "?W y \<le> ?T" using cal.W_bounds [OF wf] by simp
  have "?W (early_finish t) + k \<le> ?T \<and> ?W (early_start t) + k \<le> ?T"
  proof (cases "remaining a = 0")
    case True
    then have "early_finish t = early_start t" using span by (simp add: activity_span_def)
    with y(1) k \<open>?W y \<le> ?T\<close> show ?thesis by (simp split: if_splits)
  next
    case False
    then have fin: "?W (early_finish t) = ?W (early_start t) + remaining a" using span by (simp add: activity_span_def is_span_def)
    have lim: "?W (snd l) = ?W (fst l) + remaining a" using l False by (simp add: latest_limit_def is_span_def)
    have "?W (snd l) \<le> ?T" using cal.W_bounds [OF wf] by simp
    moreover have "?W y \<le> ?W (slack_ceiling l r)" using cal.W_mono [OF wf y(2)] .
    ultimately show ?thesis using y(1) k fin lim d \<open>?W y \<le> ?T\<close> by (cases "anchors_predecessor_finish r") simp_all
  qed
  then show ?thesis
    using cal.add_None [OF wf pos, of "early_start t"] cal.add_None [OF wf pos, of "early_finish t"]
    by (auto simp: shifted_pos [OF wf pos])
qed simp

lemma room_kept:
  assumes wf: "wf_calendar (pa_calendar a)" and span: "activity_span a (remaining a) snap (early_start t) (early_finish t)"
    and d: "0 \<le> remaining a" and k: "0 \<le> k" "k \<le> x"
    and s: "shifted (pa_calendar a) (early_start t) k = Some s" and f: "shifted (pa_calendar a) (early_finish t) k = Some f"
    and room: "edge_room n early snap a t l r x"
  shows "edge_kept n early (placed_start a snap s) (placed_finish a snap f) r"
proof -
  let ?W = "work (intervals (pa_calendar a))"
  from room obtain u q y where u: "early (pr_successor_uid r) = Some u" "activity_by_uid n (pr_successor_uid r) = Some q"
    and wfl: "wf_calendar (lag_calendar_for r (pa_calendar q))" and lag: "0 \<le> pr_lag r"
    and y: "?W y = ?W (slack_anchor t r) + x" "slack_anchor t r \<le> y"
      "snapped_end a snap r \<Longrightarrow> contains_coordinate y (intervals (pa_calendar a))"
    and land: "lands (lag_calendar_for r (pa_calendar q)) (pr_lag r) (probed u r) y"
    by (auto simp: edge_room_def)
  have count: "?W (slack_anchor t r) + k \<le> ?W y" using y(1) k by simp
  obtain m z where m: "shifted (pa_calendar a) (slack_anchor t r) k = Some m"
    and z: "landed (pa_calendar a) (snapped_end a snap r) m = Some z" "z \<le> y"
    using slip_reaches [OF wf k(1) span_occupies [OF span d] y(2,3) count] by blast
  have "m = (if anchors_predecessor_finish r then f else s)" using m s f by (simp split: if_splits)
  then have "probe_end r (placed_start a snap s) (placed_finish a snap f) = Some z" using z(1) by (simp add: probe_end_landed)
  moreover have "lag_met (lag_calendar_for r (pa_calendar q)) z (probed u r) (pr_lag r)"
    unfolding lag_met_iff [OF wfl lag] by (rule lands_below [OF wfl lag land z(2)])
  ultimately show ?thesis using u by (auto simp: edge_kept_def)
qed

lemma room_broken:
  assumes wf: "wf_calendar (pa_calendar a)" and span: "activity_span a (remaining a) snap (early_start t) (early_finish t)"
    and d: "0 \<le> remaining a" and end_by: "ends_by (pa_calendar a) h" and l: "latest_limit a snap h l" and x: "0 \<le> x"
    and s: "shifted (pa_calendar a) (early_start t) (x + 1) = Some s"
    and f: "shifted (pa_calendar a) (early_finish t) (x + 1) = Some f"
    and room: "edge_room n early snap a t l r x"
  shows "\<not> edge_kept n early (placed_start a snap s) (placed_finish a snap f) r"
proof
  let ?W = "work (intervals (pa_calendar a))" and ?m = "if anchors_predecessor_finish r then f else s"
  assume kept: "edge_kept n early (placed_start a snap s) (placed_finish a snap f) r"
  from room obtain u q y where u: "early (pr_successor_uid r) = Some u" "activity_by_uid n (pr_successor_uid r) = Some q"
    and wfl: "wf_calendar (lag_calendar_for r (pa_calendar q))" and lag: "0 \<le> pr_lag r"
    and y: "?W y = ?W (slack_anchor t r) + x"
    and top: "\<And>y'. y' \<le> slack_ceiling l r \<Longrightarrow> (snapped_end a snap r \<Longrightarrow> contains_coordinate y' (intervals (pa_calendar a)))
      \<Longrightarrow> lands (lag_calendar_for r (pa_calendar q)) (pr_lag r) (probed u r) y' \<Longrightarrow> y' \<le> y"
    by (auto simp: edge_room_def)
  from kept u obtain z where z: "landed (pa_calendar a) (snapped_end a snap r) ?m = Some z"
    and met: "lag_met (lag_calendar_for r (pa_calendar q)) z (probed u r) (pr_lag r)"
    unfolding edge_kept_def probe_end_landed by auto
  have pos: "0 < x + 1" using x by simp
  have m: "shifted (pa_calendar a) (slack_anchor t r) (x + 1) = Some ?m" using s f by simp
  note at = slip_counts [OF wf pos m z]
  have "z \<le> slack_ceiling l r"
  proof (cases "remaining a = 0")
    case True
    then have "snapped_end a snap r \<longleftrightarrow> snap" by (auto simp: snapped_end_def)
    with limit_of_point [OF wf end_by l True] at(2) show ?thesis by simp
  next
    case False
    then have rem: "0 < remaining a" using d by simp
    have fin: "?W (early_finish t) = ?W (early_start t) + remaining a" using span False by (simp add: activity_span_def is_span_def)
    have f': "landed (pa_calendar a) False f = Some f" by (simp add: landed_def)
    note atf = slip_counts [OF wf pos f f']
    have Ws: "?W s = ?W (early_start t) + (x + 1)"
      using s cal.add_Some [OF wf pos, of "early_start t" s] by (simp add: shifted_pos [OF wf pos])
    have "?W f \<le> tot (intervals (pa_calendar a))" using cal.W_bounds [OF wf] by simp
    then have "next_working (pa_calendar a) s \<noteq> None"
      using cal.nxt_None [OF wf, of s] Ws atf(1) fin rem by auto
    then obtain s' where s': "landed (pa_calendar a) True s = Some s'" by (auto simp: landed_def)
    note ats = slip_counts [OF wf pos s s']
    have lim: "s' \<le> fst l \<and> f \<le> snd l"
      using limit_of_span [OF wf end_by l rem, of s' f] ats atf fin by simp
    show ?thesis
    proof (cases "anchors_predecessor_finish r")
      case True
      then have "z = f" using z False by (simp add: landed_def snapped_end_def)
      with True lim show ?thesis by simp
    next
      case nf: False
      then have "z = s'" using z s' rem by (simp add: landed_def snapped_end_def)
      with nf lim show ?thesis by simp
    qed
  qed
  moreover have "lands (lag_calendar_for r (pa_calendar q)) (pr_lag r) (probed u r) z"
    using met unfolding lag_met_iff [OF wfl lag] .
  ultimately have "z \<le> y" using top at(2) by simp
  with cal.W_mono [OF wf this] at(1) y show False by simp
qed

subsection \<open>The free float of one activity\<close>

lemma slip_exact:
  assumes wf: "wf_calendar (pa_calendar a)" and span: "activity_span a (remaining a) snap (early_start t) (early_finish t)"
    and d: "0 \<le> remaining a" and end_by: "ends_by (pa_calendar a) h" and l: "latest_limit a snap h l"
    and basis: "pa_float_basis a \<noteq> ''elapsed''" "float_calendar a = pa_calendar a"
    and room: "\<And>r. r \<in> set rs \<Longrightarrow> edge_room n early snap a t l r (g r) \<and> 0 \<le> g r"
    and least: "k \<in> g ` set rs" "\<And>r. r \<in> set rs \<Longrightarrow> k \<le> g r"
  shows "slip_keeps n early snap k a t rs" and "\<not> slip_keeps n early snap (k + 1) a t rs"
proof -
  have moved: "moved a x j = shifted (pa_calendar a) x j" for x j using basis by (simp add: moved_def)
  obtain r0 where r0: "r0 \<in> set rs" "g r0 = k" using least(1) by auto
  have k: "0 \<le> k" using room [OF r0(1)] r0(2) by simp
  obtain s f where sf: "shifted (pa_calendar a) (early_start t) k = Some s" "shifted (pa_calendar a) (early_finish t) k = Some f"
    using room_both_move [OF wf span d l k _ conjunct1 [OF room [OF r0(1)]]] r0(2) by auto
  have "edge_kept n early (placed_start a snap s) (placed_finish a snap f) r" if "r \<in> set rs" for r
    by (rule room_kept [OF wf span d k least(2) [OF that] sf conjunct1 [OF room [OF that]]])
  with sf show "slip_keeps n early snap k a t rs" by (auto simp: slip_keeps_def moved)
  have "\<not> edge_kept n early (placed_start a snap s') (placed_finish a snap f') r0"
    if "shifted (pa_calendar a) (early_start t) (k + 1) = Some s'" "shifted (pa_calendar a) (early_finish t) (k + 1) = Some f'" for s' f'
    using room_broken [OF wf span d end_by l k that] room [OF r0(1)] r0(2) by simp
  with r0(1) show "\<not> slip_keeps n early snap (k + 1) a t rs" by (auto simp: slip_keeps_def moved)
qed

lemma movement_limit_latest:
  assumes wf: "wf_calendar (pa_calendar a)" and d: "0 \<le> remaining a"
    and lim: "movement_limit n early snapped a = Inr (u, l)"
    and t: "early (pa_uid a) = Some t" "at_state t = NOT_STARTED" and fresh: "\<not> has_started a"
    and snp: "remaining a = 0 \<Longrightarrow> pa_uid a \<in> snapped \<longleftrightarrow> snap"
  shows "u = pa_uid a" and "latest_limit a snap (horizon n) l"
proof -
  have "u = pa_uid a \<and> latest_limit a snap (horizon n) l"
  proof (cases "remaining a = 0")
    case True
    with lim t fresh snp show ?thesis
      by (auto simp: movement_limit_def latest_limit_def Let_def split: option.splits if_splits)
  next
    case False
    then have pos: "0 < remaining a" using d by simp
    from lim t fresh False obtain fl where fl: "ci_first (pa_calendar a) = Some fl" and u: "u = pa_uid a"
      and run: "latest_span (pa_calendar a) (horizon n) (horizon n) (remaining a) fl = Inr (Some l)"
      by (auto simp: movement_limit_def Let_def rbind_Inr_iff split: option.splits)
    have floor: "calendar_floor a = fl" using fl by (simp add: calendar_floor_def)
    from latest_span_pos [OF wf pos, of "horizon n" "horizon n" fl] run obtain s f where l: "l = (s, f)"
      and feas: "latest_feasible (pa_calendar a) (horizon n) (horizon n) (remaining a) fl s f"
      and best: "\<And>s' f'. latest_feasible (pa_calendar a) (horizon n) (horizon n) (remaining a) fl s' f' \<Longrightarrow> s' \<le> s \<and> f' \<le> f"
      unfolding latest_answer_def by auto
    have "s' \<le> s \<and> f' \<le> f" if sp: "is_span (pa_calendar a) (remaining a) s' f'" and h: "f' \<le> horizon n" for s' f'
    proof (rule best)
      have "fl \<le> s'" using calendar_floor_le [OF _ wf, of s'] sp floor by (simp add: is_span_def)
      with is_span_ordered [OF wf pos sp] sp h
      show "latest_feasible (pa_calendar a) (horizon n) (horizon n) (remaining a) fl s' f'" by (simp add: latest_feasible_def)
    qed
    with feas False u l show ?thesis by (simp add: latest_limit_def latest_feasible_def)
  qed
  then show "u = pa_uid a" "latest_limit a snap (horizon n) l" by simp_all
qed

lemma limit_covers:
  assumes wf: "wf_calendar (pa_calendar a)" and l: "latest_limit a snap h l"
    and span: "activity_span a (remaining a) snap s f" and h: "f \<le> h"
  shows "s \<le> fst l" and "f \<le> snd l"
proof -
  have "s \<le> fst l \<and> f \<le> snd l"
  proof (cases "remaining a = 0")
    case True
    with l span h prev_working_start_greatest [OF wf, of h "fst l" s] show ?thesis
      by (auto simp: latest_limit_def activity_span_def split: if_splits)
  next
    case False
    with l span h show ?thesis by (auto simp: latest_limit_def activity_span_def)
  qed
  then show "s \<le> fst l" "f \<le> snd l" by simp_all
qed

lemma edge_slack_room:
  assumes wfl: "wf_calendar (lag_calendar_for r (pa_calendar q))" and wf: "wf_calendar (pa_calendar a)"
    and lag: "0 \<le> pr_lag r" and d: "0 \<le> remaining a"
    and basis: "pa_float_basis a \<noteq> ''elapsed''" "float_calendar a = pa_calendar a"
    and plain: "pr_inactive_boundary_uid r = None" and q: "activity_by_uid n (pr_successor_uid r) = Some q"
    and s: "fx_early cx (pr_successor_uid r) = Some s" and l: "fx_limits cx (pa_uid a) = Some l"
    and slack: "edge_slack n cx a t r = Inr x" and dom: "slack_domain cx a r \<longleftrightarrow> snapped_end a snap r"
    and span: "activity_span a (remaining a) snap (early_start t) (early_finish t)"
    and land: "lands (lag_calendar_for r (pa_calendar q)) (pr_lag r) (probed s r) (slack_anchor t r)"
    and le: "slack_anchor t r \<le> slack_ceiling l r"
  shows "edge_room n (fx_early cx) snap a t l r x \<and> 0 \<le> x"
proof -
  let ?c = "lag_calendar_for r (pa_calendar q)" and ?cal = "pa_calendar a" and ?x = "slack_anchor t r"
  note run = slack [unfolded edge_slack_unfold [OF plain q s l wfl, of t] slack_available_eq dom]
  obtain x0 where x0: "unshifted ?c (probed s r) (pr_lag r) (slack_ceiling l r) = Some x0"
    using run by (cases "unshifted ?c (probed s r) (pr_lag r) (slack_ceiling l r)") auto
  have top0: "x0 \<le> slack_ceiling l r" "lands ?c (pr_lag r) (probed s r) x0"
    "\<And>y. y \<le> slack_ceiling l r \<Longrightarrow> lands ?c (pr_lag r) (probed s r) y \<Longrightarrow> y \<le> x0"
    using edge.unshift_Some [OF wfl x0] by (auto simp: lands_iff)
  obtain y where y: "x = measure_float a ?x y" "y \<le> x0"
      "snapped_end a snap r \<Longrightarrow> contains_coordinate y (intervals ?cal)"
      "\<And>y'. y' \<le> x0 \<Longrightarrow> (snapped_end a snap r \<Longrightarrow> contains_coordinate y' (intervals ?cal)) \<Longrightarrow> y' \<le> y"
  proof (cases "snapped_end a snap r")
    case False
    with run x0 that [of x0] show thesis by simp
  next
    case True
    with run x0 obtain y where y: "prev_working_start ?cal x0 = Some y" "x = measure_float a ?x y"
      by (auto split: option.splits)
    with cal.prvs_Some [OF wf y(1)] prev_working_start_greatest [OF wf y(1)] True that [of y] show thesis by auto
  qed
  have best: "y' \<le> y" if "y' \<le> slack_ceiling l r" "lands ?c (pr_lag r) (probed s r) y'"
      "snapped_end a snap r \<Longrightarrow> contains_coordinate y' (intervals ?cal)" for y'
    using y(4) top0(3) that by blast
  have ge: "?x \<le> y" by (rule best [OF le land span_occupies [OF span d]])
  have "lands ?c (pr_lag r) (probed s r) y" by (rule lands_below [OF wfl lag top0(2) y(2)])
  moreover have "work (intervals ?cal) y = work (intervals ?cal) ?x + x" "0 \<le> x"
    using y(1) basis cal.W_mono [OF wf ge] by (simp_all add: measure_float_def signed_working_eq [OF wf])
  ultimately show ?thesis
    unfolding edge_room_def using s q wfl lag ge y(2,3) top0(1) best by (intro conjI exI [of _ s] exI [of _ q] exI [of _ y]) auto
qed

subsection \<open>Drivers are edges of their activity\<close>

lemma driver_among: "driver a d sb fb sd fd fl hz snap = Inr (Some e) \<Longrightarrow> sd = Some e \<or> fd = Some e"
  by (auto simp: driver_def rbind_Inr_iff split: option.splits if_splits)

lemma constrain_drivers:
  "cb_start_driver (constrain a b) \<in> {None, cb_start_driver b}" "cb_finish_driver (constrain a b) \<in> {None, cb_finish_driver b}"
  by (auto simp: constrain_def split: constraint_type.splits option.splits)

lemma forward_driver_incoming:
  assumes u: "forward_times n snap policy (pa_uid a) m = Inr t" and ok: "network_ok n" and a: "a \<in> set (activities n)"
    and fresh: "state_of a = NOT_STARTED" and drv: "driving_relationship_uid t = Some e"
  shows "e \<in> pr_uid ` set (incoming_edges n (pa_uid a))"
proof -
  from u obtain r where r: "forward_row n snap policy (incoming_of n) (pa_uid a) m = Inr r" "t = fr_times r"
    by (auto simp: rbind_Inr_iff)
  obtain a' sb fb sd fd where a': "a' \<in> set (activities n)" "pa_uid a' = pa_uid a"
    and bnd: "bounds a' (binding_edges n policy a') m (forward_base n a' (incoming_edges n (pa_uid a)))
      (case forward_base n a' (incoming_edges n (pa_uid a)) of Some x \<Rightarrow> x | None \<Rightarrow> project_start n) = Inr (sb, fb, sd, fd)"
    and row: "if state_of a' \<noteq> NOT_STARTED then reported_row n snap policy a' sb fb sd fd = Inr r
      else untouched_row n snap a'
        (case forward_base n a' (incoming_edges n (pa_uid a)) of Some x \<Rightarrow> x | None \<Rightarrow> calendar_floor a')
        \<lparr> cb_start = sb, cb_finish = fb, cb_start_driver = sd, cb_finish_driver = fd,
          cb_pinned = None, cb_constrained = False,
          cb_rests_on_fallback = (binding_edges n policy a' \<noteq> [] \<and> sd = None \<and> sb = project_start n) \<rparr> = Inr r"
    using r(1) by (rule forward_row_Inr)
  have [simp]: "a' = a" using activity_uid_unique [OF network_ok_distinct [OF ok] a'(1) a a'(2)] .
  define b where "b = \<lparr> cb_start = sb, cb_finish = fb, cb_start_driver = sd, cb_finish_driver = fd, cb_pinned = None,
      cb_constrained = False, cb_rests_on_fallback = (binding_edges n policy a \<noteq> [] \<and> sd = None \<and> sb = project_start n) \<rparr>"
  have b: "cb_start_driver b = sd" "cb_finish_driver b = fd" by (simp_all add: b_def)
  from row fresh obtain fl where run: "untouched_row n snap a fl b = Inr r" unfolding b_def by auto
  note shape = untouched_row_shape(5,6) [OF run]
  have free: "\<not> (cb_pinned (constrain a b) \<noteq> None \<or> cb_constrained (constrain a b))"
    using shape(1) drv r(2) by (metis option.distinct(1))
  then have "driver a (remaining a) (cb_start (constrain a b)) (cb_finish (constrain a b)) (cb_start_driver (constrain a b))
      (cb_finish_driver (constrain a b)) fl (horizon n) snap = Inr (Some e)"
    using shape(2) drv r(2) by simp
  from driver_among [OF this] have among: "sd = Some e \<or> fd = Some e" using constrain_drivers [of a b] b by auto
  obtain s where s: "bounds_inv (forward_base n a' (incoming_edges n (pa_uid a))) (edge_reach a' m) (binding_edges n policy a') s"
    and from_s: "sd = (if bs_start s = Some sb then bs_start_driver s else None)"
      "fd = (if bs_finish s = Some fb then bs_finish_driver s else None)"
    using bnd by (rule bounds_Inr)
  from among from_s have "bs_start_driver s = Some e \<or> bs_finish_driver s = Some e" by (auto split: if_splits)
  with s have "e \<in> pr_uid ` set (binding_edges n policy a)" unfolding bounds_inv_def side_bound_def by auto
  then show ?thesis by (auto simp: binding_edges_def split: if_splits)
qed

lemma late_driver_among: "late_driver a d sb fb sd fd late = Inr (Some e) \<Longrightarrow> sd = Some e \<or> fd = Some e"
  by (auto simp: late_driver_def rbind_Inr_iff split: option.splits if_splits)

lemma late_constrain_drivers:
  "lc_start_driver (late_constrain a b) \<in> {None, lb_start_driver b}" "lc_finish_driver (late_constrain a b) \<in> {None, lb_finish_driver b}"
  by (auto simp: late_constrain_def Let_def split: constraint_type.splits option.splits)

definition drivers_in :: "planned_relationship list \<Rightarrow> late_bound_state \<Rightarrow> bool" where
  "drivers_in rs b \<longleftrightarrow> (\<forall>e. lb_start_driver b = Some e \<or> lb_finish_driver b = Some e \<longrightarrow> e \<in> pr_uid ` set rs)"

lemma late_fold_drivers:
  assumes "rfold (late_bound_step n early m) rs
      \<lparr> lb_start = late, lb_finish = late, lb_start_driver = None, lb_finish_driver = None \<rparr> = Inr b"
  shows "drivers_in rs b"
  using assms
proof (rule rfold_invariant)
  show "drivers_in [] \<lparr> lb_start = late, lb_finish = late, lb_start_driver = None, lb_finish_driver = None \<rparr>"
    by (simp add: drivers_in_def)
next
  fix pre r post u u'
  assume inv: "drivers_in pre u" and "late_bound_step n early m r u = Inr u'"
  then obtain x where "u' = lowered r x u" unfolding late_bound_step_iff by blast
  with inv show "drivers_in (pre @ [r]) u'" by (auto simp: drivers_in_def lowered_def)
qed

lemma backward_driver_outgoing:
  assumes ok: "network_ok n" and nob: "no_boundaries n" and a: "a \<in> set (activities n)" and fresh: "state_of a = NOT_STARTED"
    and row: "backward_row n snap early {} late (outgoing_of n) (pa_uid a) m = Inr l"
    and drv: "lt_driving_relationship_uid l = Some e"
  shows "e \<in> pr_uid ` set (outgoing_edges n (pa_uid a))"
proof -
  obtain b where b: "late_bounds n early {} late (outgoing_edges n (pa_uid a)) m = Inr b" and t: "placed_late_row snap late a b = Inr l"
    using row untouched_late_row [OF ok a fresh] by (auto simp: rbind_Inr_iff)
  have "set (outgoing_edges n (pa_uid a)) \<subseteq> set (relationships n)" by (auto simp: outgoing_edges_def)
  from selected_plain [OF nob this] b have inv: "drivers_in (outgoing_edges n (pa_uid a)) b"
    using late_fold_drivers [of n early m "outgoing_edges n (pa_uid a)" late b] by (simp add: late_bounds_def)
  let ?c = "late_constrain a b"
  have "late_driver a (remaining a) (lc_start ?c) (lc_finish ?c) (lc_start_driver ?c) (lc_finish_driver ?c) late = Inr (Some e)"
    using t fresh drv unfolding placed_late_row_def Let_def rbind_Inr_iff by (force simp: rbind_Inr_iff split: if_splits)
  from late_driver_among [OF this] have "lb_start_driver b = Some e \<or> lb_finish_driver b = Some e"
    using late_constrain_drivers [of a b] by auto
  with inv show ?thesis by (auto simp: drivers_in_def)
qed

subsection \<open>The rows of a finished analysis\<close>

lemma movement_limit_uid: "movement_limit n early snapped a = Inr p \<Longrightarrow> fst p = pa_uid a"
  by (auto simp: movement_limit_def Let_def rbind_Inr_iff split: option.splits if_splits)

lemma float_row_uid: "float_row n cx late released thr outgoing u = Inr f \<Longrightarrow> af_uid f = u"
  by (auto simp: float_row_def Let_def rbind_Inr_iff split: option.splits)

lemma float_analysis_run:
  assumes fwd: "forward_pass sha n snap policy = Inr fp" and flt: "float_analysis sha n fp bp thr = Inr fa"
    and plain: "untouched_network n"
  obtains cx where "fx_early cx = by_uid fp" and "fx_snapped cx = snapped_zero_spans n snap (by_uid fp) {}"
    and "fx_placed_starts cx = calendar_placed_starts n (by_uid fp) {} (fx_snapped cx)"
    and "fx_immovable cx = complete_activities fp" and "fx_late_finish cx = bp_project_late_finish bp"
    and "\<And>a. a \<in> set (activities n) \<Longrightarrow> \<exists>l. fx_limits cx (pa_uid a) = Some l
      \<and> movement_limit n (by_uid fp) (fx_snapped cx) a = Inr (pa_uid a, l)"
    and "\<And>a. a \<in> set (activities n) \<Longrightarrow> \<exists>f. float_by_uid fa (pa_uid a) = Some f
      \<and> float_row n cx (late_by_uid bp) (set (overridden_relationships bp)) thr (outgoing_of n) (pa_uid a) = Inr f"
    and "map af_uid (fa_rows fa) = fp_order fp" and "fa_threshold fa = thr"
    and "fa_project_late_finish fa = bp_project_late_finish bp"
proof -
  have ok: "network_ok n" and snap: "fp_snap_milestones fp = snap" using fwd by (auto elim: forward_pass_run)
  have known: "\<exists>t. by_uid fp (pa_uid a) = Some t" if "a \<in> set (activities n)" for a
    using forward_pass_rows(6) [OF fwd activity_uid_mem [OF that]] by blast
  note pinned = exactly_pinned_untouched [where early = "by_uid fp", OF plain known]
  from flt obtain cx rows where cx: "float_context_of n fp bp = Inr cx"
    and rows: "rmap (float_row n cx (late_by_uid bp) (set (overridden_relationships bp)) thr (outgoing_of n)) (fp_order fp) = Inr rows"
    and fa: "fa_rows fa = rows" "fa_threshold fa = thr" "fa_project_late_finish fa = bp_project_late_finish bp"
    by (auto simp: float_analysis_def rbind_Inr_iff successors_outgoing [OF ok])
  obtain ls where ls: "rmap (movement_limit n (by_uid fp) (fx_snapped cx)) (activities n) = Inr ls"
    and cxe: "fx_limits cx = map_of (rev ls)" "fx_early cx = by_uid fp" "fx_snapped cx = snapped_zero_spans n snap (by_uid fp) {}"
    "fx_placed_starts cx = calendar_placed_starts n (by_uid fp) {} (fx_snapped cx)" "fx_immovable cx = complete_activities fp"
    "fx_late_finish cx = bp_project_late_finish bp"
    using cx pinned snap by (auto simp: float_context_of_def Let_def rbind_Inr_iff)
  have each: "\<exists>l. movement_limit n (by_uid fp) (fx_snapped cx) a = Inr (pa_uid a, l)
      \<and> movement_limit n (by_uid fp) (fx_snapped cx) a = Inr (pa_uid a, l)" if "a \<in> set (activities n)" for a
    using rmap_covers [OF ls that] movement_limit_uid by (metis prod.collapse)
  have limits: "\<exists>l. fx_limits cx (pa_uid a) = Some l \<and> movement_limit n (by_uid fp) (fx_snapped cx) a = Inr (pa_uid a, l)"
    if "a \<in> set (activities n)" for a
    using movement_limits_room [where P = "\<lambda>a l. movement_limit n (by_uid fp) (fx_snapped cx) a = Inr (pa_uid a, l)",
        OF network_ok_distinct [OF ok] each] ls cxe(1) that by auto
  have keys: "map af_uid rows = fp_order fp"
    using rows unfolding rmap_Inr_iff by (induction rule: list_all2_induct) (auto dest: float_row_uid)
  have found: "\<exists>f. float_by_uid fa (pa_uid a) = Some f
      \<and> float_row n cx (late_by_uid bp) (set (overridden_relationships bp)) thr (outgoing_of n) (pa_uid a) = Inr f"
    if a: "a \<in> set (activities n)" for a
  proof -
    have "pa_uid a \<in> set (fp_order fp)" using forward_pass_rows(2) [OF fwd] activity_uid_mem [OF a] by simp
    from rmap_covers [OF rows this] obtain f where f: "f \<in> set rows"
      "float_row n cx (late_by_uid bp) (set (overridden_relationships bp)) thr (outgoing_of n) (pa_uid a) = Inr f" by blast
    have "distinct (map af_uid rows)" using keys forward_pass_rows(1) [OF fwd] by simp
    from map_of_rev_mem [OF this f(1)] f(2) float_row_uid [OF f(2)] show ?thesis by (auto simp: float_by_uid_def fa(1))
  qed
  show thesis
    by (rule that [OF cxe(2-6) limits found]) (simp_all add: fa keys)
qed

subsection \<open>The checks on the passes' own result\<close>

definition plain_calendars :: "network \<Rightarrow> bool" where
  "plain_calendars n \<longleftrightarrow> (\<forall>a \<in> set (activities n). pa_float_basis a \<noteq> ''elapsed''
     \<and> float_calendar a = pa_calendar a \<and> ends_by (pa_calendar a) (horizon n))"

text \<open>Every edge lands between the rows it connects.\<close>

lemma passes_land:
  assumes fwd: "forward_pass sha n snap policy = Inr fp" and wf: "wf_network n" and plain: "untouched_network n"
    and r: "r \<in> set (relationships n)"
  obtains p q s where "by_uid fp (pr_predecessor_uid r) = Some p" and "q \<in> set (activities n)" and "pa_uid q = pr_successor_uid r"
    and "activity_by_uid n (pr_successor_uid r) = Some q" and "by_uid fp (pr_successor_uid r) = Some s"
    and "wf_calendar (lag_calendar_for r (pa_calendar q))"
    and "lands (lag_calendar_for r (pa_calendar q)) (pr_lag r) (probed s r) (slack_anchor p r)"
proof -
  have ok: "network_ok n" using fwd by (rule forward_pass_run)
  have known: "pr_predecessor_uid r \<in> set (activity_uids n)" "pr_successor_uid r \<in> set (activity_uids n)"
    using network_ok_known [OF ok] r by (auto simp: known_edges_def)
  obtain p where p: "by_uid fp (pr_predecessor_uid r) = Some p" using forward_pass_rows(6) [OF fwd known(1)] by blast
  obtain q where q: "activity_by_uid n (pr_successor_uid r) = Some q" using activity_by_uid_known [OF known(2)] by blast
  then have qm: "q \<in> set (activities n)" "pa_uid q = pr_successor_uid r" by (auto dest: activity_by_uid_mem)
  obtain s where s: "by_uid fp (pa_uid q) = Some s" "forward_times n snap policy (pa_uid q) (by_uid fp) = Inr s"
    using forward_pass_rows(6) [OF fwd activity_uid_mem [OF qm(1)]] by blast
  have fresh: "state_of q = NOT_STARTED" "pa_constraint_type q \<notin> {MSO, MFO}"
    using plain qm by (auto simp: untouched_network_def)
  note wfl = wf_networkD(4) [OF wf qm(1) r]
  have "r \<in> set (incoming_edges n (pa_uid q))" using r qm(2) by (simp add: incoming_edges_def)
  from untouched_ge(1) [OF ok wf s(2) qm(1) fresh this] obtain x where
    x: "edge_reach q (by_uid fp) r = Some x" "x \<le> (if bounds_successor_start r then early_start s else early_finish s)"
    by blast
  have land: "shifted (lag_calendar_for r (pa_calendar q)) (slack_anchor p r) (pr_lag r) = Some x"
    using x(1) p by (simp add: edge_reach_def shift_lag_eq [OF wfl] split: option.splits if_splits)
  have "remaining_start s = None" by (rule untouched_state(2) [OF fwd plain qm(1) s(1)])
  then have "x \<le> probed s r" using x(2) by (simp add: probed_def span_start_def split: if_splits)
  with land have "lands (lag_calendar_for r (pa_calendar q)) (pr_lag r) (probed s r) (slack_anchor p r)" by (auto simp: lands_iff)
  with p q qm s(1) wfl that show thesis by simp
qed

lemma passes_edges_clean:
  assumes fwd: "forward_pass sha n snap policy = Inr fp" and wf: "wf_network n" and plain: "untouched_network n"
    and r: "r \<in> set (relationships n)"
  shows "edge_violations n fp pol r = Inr []"
proof -
  obtain p q s where e: "by_uid fp (pr_predecessor_uid r) = Some p" "activity_by_uid n (pr_successor_uid r) = Some q"
    "by_uid fp (pr_successor_uid r) = Some s" and wfl: "wf_calendar (lag_calendar_for r (pa_calendar q))"
    and land: "lands (lag_calendar_for r (pa_calendar q)) (pr_lag r) (probed s r) (slack_anchor p r)"
    using fwd wf plain r by (rule passes_land)
  from lag_met_lands [OF wfl land] e show ?thesis
    by (simp add: edge_violations_def flag_def probed_def Let_def)
qed

lemma span_counts:
  assumes "wf_calendar c" and "is_span c d s f" and "0 < d"
  shows "working_between c s f = d" and "s \<le> f"
  using assms is_span_ordered [OF assms(1,3,2)] by (auto simp: is_span_def working_between_count)

lemma untouched_spans_clean:
  assumes wf: "wf_calendar (pa_calendar a)" and fresh: "state_of a = NOT_STARTED" "pa_assignment_envelope a = None"
    and d: "0 \<le> remaining a" and none: "remaining_start t = None" "lt_remaining_start l = None"
    and early: "activity_span a (remaining a) snap (early_start t) (early_finish t)"
    and late: "late_span_of a (remaining a) snap (late_start l) (late_finish l)"
  shows "order_violations (pa_uid a) t l = []" and "span_violations n a t l = Inr []"
proof -
  have starts: "span_start t = early_start t" "late_span_start l = late_start l" using none by (simp_all add: span_start_def late_span_start_def)
  have "working_between (pa_calendar a) (early_start t) (early_finish t) = remaining a \<and> early_start t \<le> early_finish t
    \<and> working_between (pa_calendar a) (late_start l) (late_finish l) = remaining a \<and> late_start l \<le> late_finish l"
  proof (cases "remaining a = 0")
    case True
    with early late show ?thesis by (simp add: activity_span_def late_span_of_def working_between_def)
  next
    case False
    then have pos: "0 < remaining a" using d by simp
    have "is_span (pa_calendar a) (remaining a) (early_start t) (early_finish t)"
      "is_span (pa_calendar a) (remaining a) (late_start l) (late_finish l)"
      using early late False by (simp_all add: activity_span_def late_span_of_def)
    with span_counts [OF wf _ pos] show ?thesis by blast
  qed
  with fresh none starts show "order_violations (pa_uid a) t l = []" "span_violations n a t l = Inr []"
    by (simp_all add: order_violations_def span_violations_def length_violations_def floor_violations_def flag_def)
qed

lemma untouched_movable:
  assumes fwd: "forward_pass sha n snap policy = Inr fp" and plain: "untouched_network n" and a: "a \<in> set (activities n)"
  shows "pa_uid a \<notin> complete_activities fp"
proof
  assume "pa_uid a \<in> complete_activities fp"
  then obtain t where t: "t \<in> set (fp_times fp)" "at_state t = COMPLETE" "at_uid t = pa_uid a"
    by (auto simp: complete_activities_def)
  with forward_pass_row_mem [OF fwd t(1)] untouched_state(1) [OF fwd plain a] show False by simp
qed

lemma float_row_clean:
  assumes row: "float_row n cx late released thr outgoing (pa_uid a) = Inr f"
    and look: "activity_by_uid n (pa_uid a) = Some a" and t: "fx_early cx (pa_uid a) = Some t" and l: "late (pa_uid a) = Some l"
    and movable: "pa_uid a \<notin> fx_immovable cx" and fresh: "state_of a = NOT_STARTED"
  shows "float_violations thr a t l f = []"
proof -
  have "start_float f = measure_float a (span_start t) (late_span_start l)"
    "finish_float f = measure_float a (early_finish t) (late_finish l)" "total_float f = min (start_float f) (finish_float f)"
    "critical f \<longleftrightarrow> total_float f \<le> thr" "af_complete f = False"
    using row look t l movable
    by (auto simp: float_row_def Let_def rbind_Inr_iff span_start_def late_span_start_def split: option.splits)
  with fresh show ?thesis by (simp add: float_violations_def Let_def gap_eq flag_def)
qed

lemma passes_activity_clean:
  assumes fwd: "forward_pass sha n snap policy = Inr fp" and bwd: "backward_pass sha n fp snap_arg late_arg policy_arg = Inr bp"
    and flt: "float_analysis sha n fp bp thr = Inr fa" and wf: "wf_network n" and plain: "untouched_network n"
    and nob: "no_boundaries n" and a: "a \<in> set (activities n)"
  shows "activity_violations n fp bp fa (fa_threshold fa) a = Inr []"
proof -
  have ok: "network_ok n" and pol: "fp_progress_policy fp = policy" using fwd by (auto elim: forward_pass_run)
  have over: "set (overridden_relationships bp) = {}"
    using bwd overridden_untouched [OF ok plain] by (auto elim!: backward_pass_run)
  have fresh: "state_of a = NOT_STARTED" "pa_assignment_envelope a = None" "pa_constraint_type a \<notin> {MSO, MFO}"
    using plain a by (auto simp: untouched_network_def)
  note wfc = wf_networkD(1) [OF wf a] and d = remaining_nonneg [OF network_okD [OF ok a]]
  obtain t where t: "by_uid fp (pa_uid a) = Some t" "forward_times n snap policy (pa_uid a) (by_uid fp) = Inr t"
    using forward_pass_rows(6) [OF fwd activity_uid_mem [OF a]] by blast
  obtain l where l: "late_by_uid bp (pa_uid a) = Some l"
    "backward_row n snap (by_uid fp) {} (bp_project_late_finish bp) (outgoing_of n) (pa_uid a) (late_by_uid bp) = Inr l"
    using backward_pass_rows(2) [OF fwd bwd activity_uid_mem [OF a]] unfolding over by blast
  note st = untouched_state [OF fwd plain a t(1)]
  note early = untouched_ge [OF ok wf t(2) a fresh(1,3)]
  note lrow = untouched_late_bounds [OF ok wf plain nob l(2) a]
  obtain cx where cx: "fx_early cx = by_uid fp" "fx_immovable cx = complete_activities fp" and thr: "fa_threshold fa = thr"
    and row: "\<exists>f. float_by_uid fa (pa_uid a) = Some f
      \<and> float_row n cx (late_by_uid bp) (set (overridden_relationships bp)) thr (outgoing_of n) (pa_uid a) = Inr f"
    using fwd flt plain by (rule float_analysis_run) (use a in blast)
  have look: "activity_by_uid n (pa_uid a) = Some a"
    using activity_by_uid_iff [OF network_ok_distinct [OF ok]] a by blast
  from row obtain f where f: "float_by_uid fa (pa_uid a) = Some f"
    and run: "float_row n cx (late_by_uid bp) (set (overridden_relationships bp)) thr (outgoing_of n) (pa_uid a) = Inr f" by blast
  have fv: "float_violations (fa_threshold fa) a t l f = []" unfolding thr
    by (rule float_row_clean [where late = "late_by_uid bp", OF run look])
      (use t(1) l(1) fresh(1) cx untouched_movable [OF fwd plain a] in simp_all)
  note spans = untouched_spans_clean [OF wfc fresh(1,2) d st(2) lrow(7) untouched_least(1) [OF ok wf plain t(2) a] lrow(1)]
  have "progress_violations a t l = []"
    using st fresh(1) lrow(7) by (simp add: progress_violations_def Let_def flag_def)
  moreover have "root_violations n a t = []"
    using early(6) by (force simp: root_violations_def into_edges_def incoming_edges_def filter_empty_conv)
  moreover have "driver_violations code u (driving_relationship_uid t) (into_edges n (pa_uid a)) = []" for code u
    using forward_driver_incoming [OF t(2) ok a fresh(1)]
    by (auto simp: driver_violations_def into_edges_def incoming_edges_def split: option.splits)
  moreover have "driver_violations code u (lt_driving_relationship_uid l) (out_edges n (pa_uid a)) = []" for code u
    using backward_driver_outgoing [OF ok nob a fresh(1) l(2)]
    by (auto simp: driver_violations_def out_edges_def outgoing_edges_def split: option.splits)
  moreover have "constraint_violations_of a t l = []"
    using early(4,5) lrow(5,6) fresh(3) st(2)
    by (cases "pa_constraint_type a")
      (auto simp: constraint_violations_of_def constraint_holds_def UNCHECKED_CONSTRAINTS_def span_start_def flag_def split: option.splits)
  ultimately show ?thesis using t(1) l(1) f fv spans by (simp add: activity_violations_def Let_def)
qed

lemma untouched_domain:
  assumes d: "distinct (activity_uids n)" and a: "a \<in> set (activities n)"
    and t: "early (pa_uid a) = Some t" "at_state t = NOT_STARTED"
  shows "pa_uid a \<in> snapped_zero_spans n snap early {} \<longleftrightarrow> snap \<and> remaining a = 0"
    and "pa_uid a \<in> calendar_placed_starts n early {} snp \<longleftrightarrow> 0 < remaining a \<or> pa_uid a \<in> snp"
proof -
  have same: "b \<in> set (activities n) \<and> pa_uid b = pa_uid a \<longleftrightarrow> b = a" for b
    using activity_uid_unique [OF d _ a] a by blast
  have mem: "pa_uid a \<in> set (map pa_uid (filter P (activities n))) \<longleftrightarrow> P a" for P
    using same by fastforce
  show "pa_uid a \<in> snapped_zero_spans n snap early {} \<longleftrightarrow> snap \<and> remaining a = 0"
    unfolding snapped_zero_spans_def mem using t by (simp add: in_state_def)
  show "pa_uid a \<in> calendar_placed_starts n early {} snp \<longleftrightarrow> 0 < remaining a \<or> pa_uid a \<in> snp"
    unfolding calendar_placed_starts_def mem using t by (simp add: in_state_def)
qed

text \<open>The room every outgoing edge leaves, and their minimum.\<close>

lemma outgoing_room:
  assumes fwd: "forward_pass sha n snap policy = Inr fp" and wf: "wf_network n" and plain: "untouched_network n"
    and nob: "no_boundaries n" and cal: "plain_calendars n" and lags: "\<forall>r \<in> set (relationships n). 0 \<le> pr_lag r"
    and a: "a \<in> set (activities n)" and t: "by_uid fp (pa_uid a) = Some t" "forward_times n snap policy (pa_uid a) (by_uid fp) = Inr t"
    and cx: "fx_early cx = by_uid fp" "fx_limits cx (pa_uid a) = Some l" "\<And>r. slack_domain cx a r \<longleftrightarrow> snapped_end a snap r"
    and l: "latest_limit a snap (horizon n) l" and r: "r \<in> set (outgoing_edges n (pa_uid a))"
    and slack: "edge_slack n cx a t r = Inr x"
  shows "edge_room n (by_uid fp) snap a t l r x \<and> 0 \<le> x"
proof -
  have ok: "network_ok n" using fwd by (rule forward_pass_run)
  have fresh: "state_of a = NOT_STARTED" "pa_constraint_type a \<notin> {MSO, MFO}"
    using plain a by (auto simp: untouched_network_def)
  note wfc = wf_networkD(1) [OF wf a] and d = remaining_nonneg [OF network_okD [OF ok a]]
  have basis: "pa_float_basis a \<noteq> ''elapsed''" "float_calendar a = pa_calendar a"
    using cal a by (auto simp: plain_calendars_def)
  note span = untouched_least(1) [OF ok wf plain t(2) a]
  have rm: "r \<in> set (relationships n)" "pr_predecessor_uid r = pa_uid a" using r by (auto simp: outgoing_edges_def)
  obtain p q s where p: "by_uid fp (pr_predecessor_uid r) = Some p" and q: "activity_by_uid n (pr_successor_uid r) = Some q"
    and s: "by_uid fp (pr_successor_uid r) = Some s" and wfl: "wf_calendar (lag_calendar_for r (pa_calendar q))"
    and land: "lands (lag_calendar_for r (pa_calendar q)) (pr_lag r) (probed s r) (slack_anchor p r)"
    using fwd wf plain rm(1) by (rule passes_land)
  have pt: "p = t" using p t(1) rm(2) by simp
  have nobr: "pr_inactive_boundary_uid r = None" using nob rm(1) by (simp add: no_boundaries_def)
  have s': "fx_early cx (pr_successor_uid r) = Some s" using s cx(1) by simp
  have lag: "0 \<le> pr_lag r" using lags rm(1) by blast
  have le: "slack_anchor t r \<le> slack_ceiling l r"
    using limit_covers [OF wfc l span untouched_ge(3) [OF ok wf t(2) a fresh]] by simp
  from edge_slack_room [OF wfl wfc lag d basis nobr q s' cx(2) slack cx(3) span land [unfolded pt] le] show ?thesis
    unfolding cx(1) .
qed

lemma outgoing_slips:
  assumes fwd: "forward_pass sha n snap policy = Inr fp" and wf: "wf_network n" and plain: "untouched_network n"
    and nob: "no_boundaries n" and cal: "plain_calendars n" and lags: "\<forall>r \<in> set (relationships n). 0 \<le> pr_lag r"
    and a: "a \<in> set (activities n)" and t: "by_uid fp (pa_uid a) = Some t" "forward_times n snap policy (pa_uid a) (by_uid fp) = Inr t"
    and cx: "fx_early cx = by_uid fp" "fx_limits cx (pa_uid a) = Some l" "\<And>r. slack_domain cx a r \<longleftrightarrow> snapped_end a snap r"
    and l: "latest_limit a snap (horizon n) l" and some: "outgoing_edges n (pa_uid a) \<noteq> []"
    and movable: "pa_uid a \<notin> fx_immovable cx" and free: "free_float n cx a t (outgoing_edges n (pa_uid a)) = Inr k"
  shows "slip_keeps n (by_uid fp) snap k a t (outgoing_edges n (pa_uid a))"
    and "\<not> slip_keeps n (by_uid fp) snap (k + 1) a t (outgoing_edges n (pa_uid a))"
    and "r \<in> set (outgoing_edges n (pa_uid a)) \<Longrightarrow>
      \<exists>s q. by_uid fp (pr_successor_uid r) = Some s \<and> activity_by_uid n (pr_successor_uid r) = Some q"
proof -
  let ?rs = "outgoing_edges n (pa_uid a)"
  have ok: "network_ok n" using fwd by (rule forward_pass_run)
  have basis: "pa_float_basis a \<noteq> ''elapsed''" "float_calendar a = pa_calendar a" and end_by: "ends_by (pa_calendar a) (horizon n)"
    using cal a by (auto simp: plain_calendars_def)
  obtain xs where xs: "rmap (edge_slack n cx a t) ?rs = Inr xs" "k = min_of 0 xs"
    using some free movable by (auto simp: free_float_def rbind_Inr_iff)
  define g where "g r = projr (edge_slack n cx a t r)" for r
  have slack: "edge_slack n cx a t r = Inr (g r)" if "r \<in> set ?rs" for r
    using rmap_covers [OF xs(1) that] by (auto simp: g_def)
  have room: "edge_room n (by_uid fp) snap a t l r (g r) \<and> 0 \<le> g r" if r: "r \<in> set ?rs" for r
    by (rule outgoing_room [OF fwd wf plain nob cal lags a t cx l r slack [OF r]])
  have "xs = map g ?rs" using xs(1) slack unfolding rmap_Inr_iff by (induction rule: list_all2_induct) auto
  then have least: "k \<in> g ` set ?rs" "\<And>r. r \<in> set ?rs \<Longrightarrow> k \<le> g r"
    using min_of_image [of ?rs 0 g] xs(2) some by (auto simp: Min_le)
  note slip = slip_exact [where early = "by_uid fp", OF wf_networkD(1) [OF wf a] untouched_least(1) [OF ok wf plain t(2) a]
      remaining_nonneg [OF network_okD [OF ok a]] end_by l basis room least]
  show "slip_keeps n (by_uid fp) snap k a t ?rs" by (rule slip(1))
  show "\<not> slip_keeps n (by_uid fp) snap (k + 1) a t ?rs" by (rule slip(2))
  show "\<exists>s q. by_uid fp (pr_successor_uid r) = Some s \<and> activity_by_uid n (pr_successor_uid r) = Some q" if "r \<in> set ?rs"
    using room [OF that] by (auto simp: edge_room_def)
qed

lemma passes_free_float_clean:
  assumes fwd: "forward_pass sha n snap policy = Inr fp" and bwd: "backward_pass sha n fp snap_arg late_arg policy_arg = Inr bp"
    and flt: "float_analysis sha n fp bp thr = Inr fa" and wf: "wf_network n" and plain: "untouched_network n"
    and nob: "no_boundaries n" and cal: "plain_calendars n" and lags: "\<forall>r \<in> set (relationships n). 0 \<le> pr_lag r"
    and a: "a \<in> set (activities n)"
  shows "free_float_violations n fp bp fa a = Inr []"
proof -
  have ok: "network_ok n" and snap: "fp_snap_milestones fp = snap" using fwd by (auto elim: forward_pass_run)
  have over: "set (overridden_relationships bp) = {}"
    using bwd overridden_untouched [OF ok plain] by (auto elim!: backward_pass_run)
  have fresh: "state_of a = NOT_STARTED" "pa_constraint_type a \<notin> {MSO, MFO}"
    using plain a by (auto simp: untouched_network_def)
  have look: "activity_by_uid n (pa_uid a) = Some a"
    using activity_by_uid_iff [OF network_ok_distinct [OF ok]] a by blast
  note wfc = wf_networkD(1) [OF wf a] and d = remaining_nonneg [OF network_okD [OF ok a]]
  obtain t where t: "by_uid fp (pa_uid a) = Some t" "forward_times n snap policy (pa_uid a) (by_uid fp) = Inr t"
    using forward_pass_rows(6) [OF fwd activity_uid_mem [OF a]] by blast
  note st = untouched_state [OF fwd plain a t(1)]
  obtain l where l: "late_by_uid bp (pa_uid a) = Some l" using backward_pass_rows(2) [OF fwd bwd activity_uid_mem [OF a]] by blast
  obtain cx where early: "fx_early cx = by_uid fp" and snapped: "fx_snapped cx = snapped_zero_spans n snap (by_uid fp) {}"
    and placed: "fx_placed_starts cx = calendar_placed_starts n (by_uid fp) {} (fx_snapped cx)"
    and immovable: "fx_immovable cx = complete_activities fp" and late: "fx_late_finish cx = bp_project_late_finish bp"
    and limits: "\<exists>lm. fx_limits cx (pa_uid a) = Some lm \<and> movement_limit n (by_uid fp) (fx_snapped cx) a = Inr (pa_uid a, lm)"
    and row: "\<exists>f. float_by_uid fa (pa_uid a) = Some f
      \<and> float_row n cx (late_by_uid bp) (set (overridden_relationships bp)) thr (outgoing_of n) (pa_uid a) = Inr f"
    using fwd flt plain by (rule float_analysis_run) (use a in blast)
  note dom = untouched_domain [where early = "by_uid fp", OF network_ok_distinct [OF ok] a t(1) st(1)]
  have in_snapped: "pa_uid a \<in> fx_snapped cx \<longleftrightarrow> snap \<and> remaining a = 0" unfolding snapped by (rule dom(1))
  have in_placed: "pa_uid a \<in> fx_placed_starts cx \<longleftrightarrow> 0 < remaining a \<or> snap \<and> remaining a = 0"
    unfolding placed dom(2) in_snapped ..
  have domain: "slack_domain cx a r \<longleftrightarrow> snapped_end a snap r" for r
    by (auto simp: slack_domain_def snapped_end_def in_snapped in_placed)
  obtain lm where lm: "fx_limits cx (pa_uid a) = Some lm" "latest_limit a snap (horizon n) lm"
    using limits movement_limit_latest(2) [where early = "by_uid fp" and snapped = "fx_snapped cx", OF wfc d _ t(1) st(1) untouched_unstarted [OF fresh(1)]] in_snapped by blast
  obtain f where f: "float_by_uid fa (pa_uid a) = Some f"
    and run: "float_row n cx (late_by_uid bp) {} thr (outgoing_of n) (pa_uid a) = Inr f"
    using row unfolding over by blast
  let ?rs = "outgoing_edges n (pa_uid a)"
  have kept: "kept_edges n bp (pa_uid a) = ?rs" "filter (\<lambda>r. pr_uid r \<notin> set (overridden_relationships bp)) (out_edges n (pa_uid a)) = ?rs"
    by (simp_all add: kept_edges_def over out_edges_def outgoing_edges_def)
  have free: "free_float n cx a t ?rs = Inr (free_float_of f)"
    using run look t(1) l early activity_uid_mem [OF a] by (auto simp: float_row_def outgoing_of_def Let_def rbind_Inr_iff)
  have movable: "pa_uid a \<notin> fx_immovable cx" using untouched_movable [OF fwd plain a] immovable by simp
  show ?thesis
  proof (cases "?rs = []")
    case True
    with free movable late kept(2) t(1) f st(1) show ?thesis
      by (simp add: free_float_def free_float_violations_def gap_eq flag_def Let_def)
  next
    case False
    note slip = outgoing_slips [OF fwd wf plain nob cal lags a t early lm(1) domain lm(2) False movable free]
    have "\<forall>r \<in> set ?rs. pr_inactive_boundary_uid r = None" using nob by (auto simp: no_boundaries_def outgoing_edges_def)
    from free_float_violations_Nil [where n = n and bp = bp, OF wf_networkD(2) [OF wf a] st(1) untouched_unstarted [OF fresh(1)] fresh(2) t(1) f, unfolded kept(1),
        OF False this slip(3)] slip(1,2) show ?thesis unfolding snap by blast
  qed
qed

subsection \<open>Every untouched network\<close>

text \<open>The free float check without conditions on leads or on where the calendars end.\<close>

abbreviation too_small :: "planned_activity \<Rightarrow> violation" where
  "too_small a \<equiv> \<lparr> vl_code = ''FREE_FLOAT_TOO_SMALL'', vl_uid = Some (pa_uid a) \<rparr>"

lemma passes_free_float_report:
  assumes fwd: "forward_pass sha n snap policy = Inr fp" and bwd: "backward_pass sha n fp snap_arg late_arg policy_arg = Inr bp"
    and flt: "float_analysis sha n fp bp thr = Inr fa" and wf: "wf_network n" and plain: "untouched_network n"
    and nob: "no_boundaries n" and a: "a \<in> set (activities n)"
  obtains t f vs where "by_uid fp (pa_uid a) = Some t" and "float_by_uid fa (pa_uid a) = Some f"
    and "free_float_violations n fp bp fa a = Inr vs"
    and "vs = [] \<longleftrightarrow> out_edges n (pa_uid a) = []
      \<or> slip_keeps n (by_uid fp) snap (free_float_of f) a t (out_edges n (pa_uid a))
        \<and> \<not> slip_keeps n (by_uid fp) snap (free_float_of f + 1) a t (out_edges n (pa_uid a))"
    and "too_small a \<in> set vs \<longleftrightarrow> out_edges n (pa_uid a) \<noteq> []
      \<and> slip_keeps n (by_uid fp) snap (free_float_of f + 1) a t (out_edges n (pa_uid a))"
    and "\<forall>v \<in> set vs. vl_uid v = Some (pa_uid a) \<and> vl_code v \<in> set FREE_FLOAT_OBJECTIONS"
proof -
  have ok: "network_ok n" and snap: "fp_snap_milestones fp = snap" using fwd by (auto elim: forward_pass_run)
  have over: "set (overridden_relationships bp) = {}"
    using bwd overridden_untouched [OF ok plain] by (auto elim!: backward_pass_run)
  then have none: "overridden_relationships bp = []" by simp
  have fresh: "state_of a = NOT_STARTED" "pa_constraint_type a \<notin> {MSO, MFO}"
    using plain a by (auto simp: untouched_network_def)
  have look: "activity_by_uid n (pa_uid a) = Some a"
    using activity_by_uid_iff [OF network_ok_distinct [OF ok]] a by blast
  obtain t where t: "by_uid fp (pa_uid a) = Some t" using forward_pass_rows(6) [OF fwd activity_uid_mem [OF a]] by blast
  note st = untouched_state [OF fwd plain a t]
  obtain l where l: "late_by_uid bp (pa_uid a) = Some l" using backward_pass_rows(2) [OF fwd bwd activity_uid_mem [OF a]] by blast
  obtain cx where early: "fx_early cx = by_uid fp" and immovable: "fx_immovable cx = complete_activities fp"
    and late: "fx_late_finish cx = bp_project_late_finish bp"
    and row: "\<exists>f. float_by_uid fa (pa_uid a) = Some f
      \<and> float_row n cx (late_by_uid bp) (set (overridden_relationships bp)) thr (outgoing_of n) (pa_uid a) = Inr f"
    using fwd flt plain by (rule float_analysis_run) (use a in blast)
  obtain f where f: "float_by_uid fa (pa_uid a) = Some f"
    and run: "float_row n cx (late_by_uid bp) {} thr (outgoing_of n) (pa_uid a) = Inr f"
    using row unfolding over by blast
  have kept: "kept_edges n bp (pa_uid a) = out_edges n (pa_uid a)" by (simp add: kept_edges_def none)
  have free: "free_float n cx a t (out_edges n (pa_uid a)) = Inr (free_float_of f)"
    using run look t l early activity_uid_mem [OF a]
    by (auto simp: float_row_def outgoing_of_def out_edges_def outgoing_edges_def Let_def rbind_Inr_iff)
  have movable: "pa_uid a \<notin> fx_immovable cx" using untouched_movable [OF fwd plain a] immovable by simp
  show thesis
  proof (cases "out_edges n (pa_uid a) = []")
    case True
    have "free_float_violations n fp bp fa a = Inr []"
      using free movable late kept True t f st(1)
      by (simp add: free_float_def free_float_violations_def kept_edges_def gap_eq flag_def none Let_def)
    then show thesis by (rule that [OF t f]) (simp_all add: True)
  next
    case False
    have none': "\<forall>r \<in> set (out_edges n (pa_uid a)). pr_inactive_boundary_uid r = None"
      using nob by (auto simp: no_boundaries_def out_edges_def)
    have known: "\<exists>s q. by_uid fp (pr_successor_uid r) = Some s \<and> activity_by_uid n (pr_successor_uid r) = Some q"
      if "r \<in> set (out_edges n (pa_uid a))" for r
    proof -
      from that have "r \<in> set (relationships n)" by (simp add: out_edges_def)
      with fwd wf plain obtain s q where "by_uid fp (pr_successor_uid r) = Some s" "activity_by_uid n (pr_successor_uid r) = Some q"
        by (rule passes_land)
      then show ?thesis by blast
    qed
    show thesis
      by (rule free_float_report [where n = n and bp = bp, OF wf_networkD(2) [OF wf a] st(1) untouched_unstarted [OF fresh(1)] fresh(2) t f,
          unfolded kept snap, OF False none' known], assumption, rule that [OF t f]) (simp_all add: False)
  qed
qed

subsection \<open>Property\<close>

text \<open>
  (C23) The checker is complete for plain work: over a network of compiled calendars that end by the
  horizon, without reported work, envelopes, pinned constraints, inactive boundaries, elapsed floats
  or leads, every result the three passes compute has a clean report.
\<close>

theorem checker_accepts_passes:
  assumes fwd: "forward_pass sha n snap policy = Inr fp" and bwd: "backward_pass sha n fp snap_arg late_arg policy_arg = Inr bp"
    and flt: "float_analysis sha n fp bp thr = Inr fa" and wf: "wf_network n" and plain: "untouched_network n"
    and nob: "no_boundaries n" and cal: "plain_calendars n" and lags: "\<forall>r \<in> set (relationships n). 0 \<le> pr_lag r"
  shows "validate_result sha n fp bp fa None None = Inr []"
proof -
  have ok: "network_ok n" and start: "fp_project_start fp = project_start n"
    and finish: "fp_project_finish fp = max_of (project_start n) (map early_finish (fp_times fp))"
    and finger: "fp_network_fingerprint fp = network_fingerprint sha n" using fwd by (auto elim: forward_pass_run)
  have fingerb: "bp_network_fingerprint bp = network_fingerprint sha n" using bwd by (rule backward_pass_run)
  obtain keys: "map af_uid (fa_rows fa) = fp_order fp" and late: "fa_project_late_finish fa = bp_project_late_finish bp"
    using fwd flt plain by (rule float_analysis_run)
  note rows = forward_pass_rows [OF fwd]
  have "row_violations n fp bp fa = []"
    unfolding row_violations_Nil using rows(1,2,4) keys backward_pass_rows(3) [OF fwd bwd] by simp
  moreover have "project_violations n fp bp fa = []"
    unfolding project_violations_Nil using start finish late by (auto simp: max_of_eq)
  ultimately show ?thesis
    unfolding validate_result_clean [OF network_ok_distinct [OF ok]]
    using finger fingerb passes_activity_clean [OF fwd bwd flt wf plain nob]
      passes_free_float_clean [OF fwd bwd flt wf plain nob cal lags] passes_edges_clean [OF fwd wf plain]
    by blast
qed

definition wide_network :: network where
  "wide_network = sample_network\<lparr>horizon := 100\<rparr>"

lemma wide_runs:
  "rbind (forward_pass (\<lambda>_. []) wide_network False RETAINED_LOGIC) (\<lambda>fp.
   rbind (backward_pass (\<lambda>_. []) wide_network fp None None None) (\<lambda>bp.
   rbind (float_analysis (\<lambda>_. []) wide_network fp bp 0) (\<lambda>fa. Inr ()))) = Inr ()"
  by code_simp

lemma wide_conditions:
  "wf_network wide_network" "untouched_network wide_network" "no_boundaries wide_network" "plain_calendars wide_network"
  "\<forall>r \<in> set (relationships wide_network). 0 \<le> pr_lag r"
proof -
  have same: "activities wide_network = activities sample_network" "relationships wide_network = relationships sample_network"
    by (simp_all add: wide_network_def)
  show "wf_network wide_network" using sample_networks_wf(1) by (simp add: wf_network_def same)
  show "untouched_network wide_network" using sample_untouched by (simp add: untouched_network_def same)
  show "no_boundaries wide_network" using sample_no_boundaries by (simp add: no_boundaries_def same)
  have "ends_by sample_calendar 100" unfolding ends_by_def by code_simp
  then show "plain_calendars wide_network"
    by (simp add: plain_calendars_def wide_network_def sample_network_def sample_activity_def float_calendar_def)
  show "\<forall>r \<in> set (relationships wide_network). 0 \<le> pr_lag r" by code_simp
qed

theorem checker_accepts_passes_witness: "pass_report wide_network = Inr []"
proof -
  obtain fp bp fa where run: "forward_pass (\<lambda>_. []) wide_network False RETAINED_LOGIC = Inr fp"
    "backward_pass (\<lambda>_. []) wide_network fp None None None = Inr bp" "float_analysis (\<lambda>_. []) wide_network fp bp 0 = Inr fa"
    using wide_runs by (auto simp: rbind_Inr_iff)
  from checker_accepts_passes [OF run wide_conditions] run show ?thesis by (simp add: pass_report_def)
qed

text \<open>
  (C27) What the checker can object to. Over any network of compiled calendars without reported work,
  envelopes, pinned constraints or inactive boundaries, leads and calendars that run past the
  horizon included, the report on a result of the three passes answers, and holds nothing but
  objections to free floats. A row is objected to exactly when it has outgoing edges and its free float
  is not the exact slip, and FREE_FLOAT_TOO_SMALL is said exactly of the rows with outgoing edges that
  all hold after one unit more, as where the passes cap a free float at the horizon below what the edges
  allow.
\<close>

theorem checker_objects_exactly:
  assumes fwd: "forward_pass sha n snap policy = Inr fp" and bwd: "backward_pass sha n fp snap_arg late_arg policy_arg = Inr bp"
    and flt: "float_analysis sha n fp bp thr = Inr fa" and wf: "wf_network n" and plain: "untouched_network n"
    and nob: "no_boundaries n"
  shows "\<exists>report. validate_result sha n fp bp fa None None = Inr report
    \<and> (\<forall>v \<in> set report. vl_code v \<in> set FREE_FLOAT_OBJECTIONS)
    \<and> (\<forall>a \<in> set (activities n). \<exists>t f. by_uid fp (pa_uid a) = Some t \<and> float_by_uid fa (pa_uid a) = Some f
         \<and> ((\<exists>v \<in> set report. vl_uid v = Some (pa_uid a)) \<longleftrightarrow> out_edges n (pa_uid a) \<noteq> []
             \<and> (slip_keeps n (by_uid fp) snap (free_float_of f) a t (out_edges n (pa_uid a))
                \<longrightarrow> slip_keeps n (by_uid fp) snap (free_float_of f + 1) a t (out_edges n (pa_uid a))))
         \<and> (too_small a \<in> set report \<longleftrightarrow> out_edges n (pa_uid a) \<noteq> []
             \<and> slip_keeps n (by_uid fp) snap (free_float_of f + 1) a t (out_edges n (pa_uid a))))"
proof -
  have ok: "network_ok n" and start: "fp_project_start fp = project_start n"
    and finish: "fp_project_finish fp = max_of (project_start n) (map early_finish (fp_times fp))"
    and finger: "fp_network_fingerprint fp = network_fingerprint sha n" using fwd by (auto elim: forward_pass_run)
  have fingerb: "bp_network_fingerprint bp = network_fingerprint sha n" using bwd by (rule backward_pass_run)
  obtain keys: "map af_uid (fa_rows fa) = fp_order fp" and late: "fa_project_late_finish fa = bp_project_late_finish bp"
    using fwd flt plain by (rule float_analysis_run)
  note rows = forward_pass_rows [OF fwd] and d = network_ok_distinct [OF ok]
  have row: "row_violations n fp bp fa = []"
    unfolding row_violations_Nil using rows(1,2,4) keys backward_pass_rows(3) [OF fwd bwd] by simp
  have project: "project_violations n fp bp fa = []"
    unfolding project_violations_Nil using start finish late by (auto simp: max_of_eq)
  define frees where "frees a = projr (free_float_violations n fp bp fa a)" for a
  have free: "free_float_violations n fp bp fa a = Inr (frees a)" if "a \<in> set (activities n)" for a
    by (rule passes_free_float_report [OF fwd bwd flt wf plain nob that]) (simp add: frees_def)
  let ?report = "concat (map frees (known_activities n))"
  have "rmap (free_float_violations n fp bp fa) (known_activities n) = Inr (map frees (known_activities n))"
    using free set_known_activities [OF d] by (intro rmap_map_Inr) blast
  moreover have "rmap (activity_violations n fp bp fa (fa_threshold fa)) (known_activities n) = Inr (map (\<lambda>_. []) (known_activities n))"
    using passes_activity_clean [OF fwd bwd flt wf plain nob] set_known_activities [OF d] by (intro rmap_all_Nil) blast
  moreover have "rmap (edge_violations n fp (fp_progress_policy fp)) (relationships n) = Inr (map (\<lambda>_. []) (relationships n))"
    using passes_edges_clean [OF fwd wf plain] by (intro rmap_all_Nil)
  ultimately have run: "validate_result sha n fp bp fa None None = Inr ?report"
    using row project finger fingerb by (simp add: validate_result_def network_violations_def concat_map_Nil)
  have mem: "v \<in> set ?report \<longleftrightarrow> (\<exists>a \<in> set (activities n). v \<in> set (frees a))" for v
    using set_known_activities [OF d] by auto
  have tagged: "vl_uid v = Some (pa_uid a) \<and> vl_code v \<in> set FREE_FLOAT_OBJECTIONS"
    if "a \<in> set (activities n)" "v \<in> set (frees a)" for a v
    by (rule passes_free_float_report [OF fwd bwd flt wf plain nob that(1)]) (use free [OF that(1)] that(2) in auto)
  have own: "v \<in> set ?report \<and> vl_uid v = Some (pa_uid a) \<longleftrightarrow> v \<in> set (frees a)" if a: "a \<in> set (activities n)" for a v
    using mem tagged a activity_uid_unique [OF d _ a] by fastforce
  have each: "\<exists>t f. by_uid fp (pa_uid a) = Some t \<and> float_by_uid fa (pa_uid a) = Some f
      \<and> ((\<exists>v \<in> set ?report. vl_uid v = Some (pa_uid a)) \<longleftrightarrow> out_edges n (pa_uid a) \<noteq> []
          \<and> (slip_keeps n (by_uid fp) snap (free_float_of f) a t (out_edges n (pa_uid a))
             \<longrightarrow> slip_keeps n (by_uid fp) snap (free_float_of f + 1) a t (out_edges n (pa_uid a))))
      \<and> (too_small a \<in> set ?report \<longleftrightarrow> out_edges n (pa_uid a) \<noteq> []
          \<and> slip_keeps n (by_uid fp) snap (free_float_of f + 1) a t (out_edges n (pa_uid a)))"
    if a: "a \<in> set (activities n)" for a
  proof -
    obtain t f vs where rows: "by_uid fp (pa_uid a) = Some t" "float_by_uid fa (pa_uid a) = Some f"
      and vs: "free_float_violations n fp bp fa a = Inr vs" "vs = [] \<longleftrightarrow> out_edges n (pa_uid a) = []
        \<or> slip_keeps n (by_uid fp) snap (free_float_of f) a t (out_edges n (pa_uid a))
          \<and> \<not> slip_keeps n (by_uid fp) snap (free_float_of f + 1) a t (out_edges n (pa_uid a))"
      and small: "too_small a \<in> set vs \<longleftrightarrow> out_edges n (pa_uid a) \<noteq> []
        \<and> slip_keeps n (by_uid fp) snap (free_float_of f + 1) a t (out_edges n (pa_uid a))"
      using fwd bwd flt wf plain nob a by (rule passes_free_float_report)
    have "vs = frees a" using vs(1) free [OF a] by simp
    moreover have "(\<exists>v \<in> set ?report. vl_uid v = Some (pa_uid a)) \<longleftrightarrow> frees a \<noteq> []"
      using own [OF a] by (metis set_empty ex_in_conv)
    moreover have "too_small a \<in> set ?report \<longleftrightarrow> too_small a \<in> set (frees a)" using own [OF a, of "too_small a"] by simp
    ultimately show ?thesis using rows vs(2) small by blast
  qed
  show ?thesis using run mem tagged each by blast
qed

lemma capped_conditions:
  "wf_network capped_network" "untouched_network capped_network" "no_boundaries capped_network"
proof -
  have ci: "wf_calendar (ci_of [(0, 200)])" by (rule ci_of_wf)
  show "wf_network capped_network"
    by (simp add: wf_network_def capped_network_def sample_activity_def sample_edge_def float_calendar_def ci)
  show "untouched_network capped_network" by (simp add: untouched_network_def capped_network_def) code_simp
  show "no_boundaries capped_network" by (simp add: no_boundaries_def capped_network_def sample_edge_def)
qed

theorem checker_objects_exactly_witness:
  "\<exists>fp bp fa t f. forward_pass (\<lambda>_. []) capped_network False RETAINED_LOGIC = Inr fp
    \<and> backward_pass (\<lambda>_. []) capped_network fp None None None = Inr bp
    \<and> float_analysis (\<lambda>_. []) capped_network fp bp 0 = Inr fa
    \<and> validate_result (\<lambda>_. []) capped_network fp bp fa None None = Inr [\<lparr> vl_code = ''FREE_FLOAT_TOO_SMALL'', vl_uid = Some 1 \<rparr>]
    \<and> by_uid fp 1 = Some t \<and> float_by_uid fa 1 = Some f
    \<and> slip_keeps capped_network (by_uid fp) False (free_float_of f + 1) (hd (activities capped_network)) t (out_edges capped_network 1)"
proof -
  have "pass_report capped_network = Inr [\<lparr> vl_code = ''FREE_FLOAT_TOO_SMALL'', vl_uid = Some 1 \<rparr>]" by code_simp
  then obtain fp bp fa where run: "forward_pass (\<lambda>_. []) capped_network False RETAINED_LOGIC = Inr fp"
    "backward_pass (\<lambda>_. []) capped_network fp None None None = Inr bp"
    "float_analysis (\<lambda>_. []) capped_network fp bp 0 = Inr fa"
    and report: "validate_result (\<lambda>_. []) capped_network fp bp fa None None = Inr [\<lparr> vl_code = ''FREE_FLOAT_TOO_SMALL'', vl_uid = Some 1 \<rparr>]"
    by (auto simp: pass_report_def rbind_Inr_iff)
  have a: "hd (activities capped_network) \<in> set (activities capped_network)" "pa_uid (hd (activities capped_network)) = 1"
    by (simp_all add: capped_network_def sample_activity_def)
  from checker_objects_exactly [OF run capped_conditions] a report run show ?thesis by fastforce
qed

end
