(* ===== verification/Document.thy ===== *)
theory Document
  imports Calendar_Compile Rollup
begin

section \<open>The canonical schedule document (\<open>core/model/entities.py\<close>, \<open>core/model/enums.py\<close>)\<close>

text \<open>
  The entities the plan builder reads, field by field, and the vocabulary of their enumerations. A
  \<open>dict[str, str]\<close> of source fields is only looked up and is a partial map; a \<open>datetime\<close> is a moment
  and a duration carries its seconds and how the source displayed it. Each entity with defaults has
  the row whose other fields are at their default.
\<close>

subsection \<open>Vocabulary\<close>

datatype activity_kind = TASK | START_MILESTONE | FINISH_MILESTONE | LEVEL_OF_EFFORT | WBS_SUMMARY | HAMMOCK

datatype duration_type = FIXED_DURATION | FIXED_DURATION_AND_UNITS | FIXED_UNITS | FIXED_WORK

datatype percent_complete_type = PCT_DURATION | PCT_PHYSICAL | PCT_UNITS | PCT_WORK

datatype lag_calendar = LAG_PREDECESSOR | LAG_SUCCESSOR | LAG_PROJECT | ELAPSED_24H | INHERIT_PROJECT_POLICY

datatype resource_type = LABOR | NONLABOR | MATERIAL | COST

datatype scheduling_class = RENEWABLE | EXCLUSIVE | CUMULATIVE | NON_RENEWABLE

datatype schedule_direction = DIRECTION_FROM_START | DIRECTION_FROM_FINISH

datatype milestone_snap_policy = SNAP_NONE | NEXT_WORKING

subsection \<open>Values\<close>

record duration =
  du_seconds :: int
  du_unit :: "string option"
  du_elapsed :: bool
  du_source_format_code :: "int option"

record percent_complete =
  pc_type :: percent_complete_type
  pc_duration_permille :: int
  pc_work_permille :: int
  pc_physical_permille :: int
  pc_units_permille :: int

definition no_progress :: percent_complete where
  "no_progress = \<lparr> pc_type = PCT_DURATION, pc_duration_permille = 0, pc_work_permille = 0,
     pc_physical_permille = 0, pc_units_permille = 0 \<rparr>"

record activity_constraint =
  con_type :: constraint_type
  con_date :: "moment option"
  con_hard :: bool

subsection \<open>Rows\<close>

record wbs_node =
  wn_uid :: uuid
  wn_parent_uid :: "uuid option"
  wn_seq :: int

record activity =
  ac_uid :: uuid
  ac_wbs_uid :: "uuid option"
  ac_kind :: activity_kind
  ac_seq :: int
  ac_active :: bool
  ac_manual :: bool
  ac_duration_type :: duration_type
  ac_effort_driven :: bool
  ac_planned_duration :: "duration option"
  ac_remaining_duration :: "duration option"
  ac_actual_duration :: "duration option"
  ac_planned_work :: "duration option"
  ac_actual_work :: "duration option"
  ac_percent_complete :: percent_complete
  ac_actual_start :: "moment option"
  ac_actual_finish :: "moment option"
  ac_suspend :: "moment option"
  ac_resume :: "moment option"
  ac_calendar_uid :: "uuid option"
  ac_primary_constraint :: "activity_constraint option"
  ac_secondary_constraint :: "activity_constraint option"
  ac_deadline :: "moment option"
  ac_levelling_delay_seconds :: int
  ac_source_fields :: "string \<Rightarrow> string option"

definition new_activity :: "uuid \<Rightarrow> activity" where
  "new_activity u = \<lparr> ac_uid = u, ac_wbs_uid = None, ac_kind = TASK, ac_seq = 0, ac_active = True, ac_manual = False,
     ac_duration_type = FIXED_DURATION, ac_effort_driven = False, ac_planned_duration = None,
     ac_remaining_duration = None, ac_actual_duration = None, ac_planned_work = None, ac_actual_work = None,
     ac_percent_complete = no_progress, ac_actual_start = None, ac_actual_finish = None, ac_suspend = None,
     ac_resume = None, ac_calendar_uid = None, ac_primary_constraint = None, ac_secondary_constraint = None,
     ac_deadline = None, ac_levelling_delay_seconds = 0, ac_source_fields = Map.empty \<rparr>"

record relationship =
  rl_uid :: uuid
  rl_predecessor_uid :: uuid
  rl_successor_uid :: uuid
  rl_type :: relationship_type
  rl_lag :: "duration option"
  rl_lag_calendar :: lag_calendar
  rl_cross_project :: bool
  rl_source_fields :: "string \<Rightarrow> string option"

definition new_relationship :: "uuid \<Rightarrow> uuid \<Rightarrow> uuid \<Rightarrow> relationship" where
  "new_relationship u p s = \<lparr> rl_uid = u, rl_predecessor_uid = p, rl_successor_uid = s, rl_type = FS,
     rl_lag = None, rl_lag_calendar = INHERIT_PROJECT_POLICY, rl_cross_project = False,
     rl_source_fields = Map.empty \<rparr>"

record resource =
  re_uid :: uuid
  re_type :: resource_type
  re_scheduling_class :: scheduling_class
  re_calendar_uid :: "uuid option"
  re_is_role :: bool
  re_inactive :: bool
  re_source_fields :: "string \<Rightarrow> string option"

record units_triple =
  ut_budgeted_permille :: int
  ut_actual_permille :: int
  ut_remaining_permille :: int

record work_triple =
  wt_budgeted_seconds :: int
  wt_actual_seconds :: int
  wt_remaining_seconds :: int

record assignment =
  as_uid :: uuid
  as_activity_uid :: "uuid option"
  as_resource_uid :: "uuid option"
  as_role_uid :: "uuid option"
  as_units :: units_triple
  as_work :: work_triple
  as_curve_uid :: "uuid option"
  as_percent_work_complete_permille :: int
  as_timephased_ref :: "string option"
  as_unassigned_placeholder :: bool
  as_source_fields :: "string \<Rightarrow> string option"

record project_settings =
  ps_start :: "moment option"
  ps_status_date :: "moment option"
  ps_schedule_direction :: schedule_direction
  ps_progress_policy :: progress_policy
  ps_lag_calendar_policy :: lag_calendar
  ps_milestone_snap_policy :: milestone_snap_policy
  ps_default_calendar_uid :: "uuid option"
  ps_critical_float_threshold_seconds :: int
  ps_source_fields :: "string \<Rightarrow> string option"

record schedule =
  sc_project :: project_settings
  sc_wbs_nodes :: "wbs_node list"
  sc_activities :: "activity list"
  sc_relationships :: "relationship list"
  sc_calendars :: "calendar list"
  sc_resources :: "resource list"
  sc_assignments :: "assignment list"

text \<open>The dicts a schedule is read through; the last row of a repeated identifier wins.\<close>

definition sc_activity_by_uid :: "schedule \<Rightarrow> uuid \<Rightarrow> activity option" where
  "sc_activity_by_uid s = map_of (rev (map (\<lambda>a. (ac_uid a, a)) (sc_activities s)))"

definition sc_resource_by_uid :: "schedule \<Rightarrow> uuid \<Rightarrow> resource option" where
  "sc_resource_by_uid s = map_of (rev (map (\<lambda>r. (re_uid r, r)) (sc_resources s)))"

end
