(* ===== verification/Plan.thy ===== *)
theory Plan
  imports Document Forward
begin

section \<open>From the document to a network (\<open>core/engine/plan.py\<close>)\<close>

text \<open>
  \<open>build_plan\<close> compiles the calendars, decides for every activity and relationship whether the
  network can carry it and on which calendar, and reports what it leaves out and what it assumes.
  The stages of the function are the definitions below, in its order; a row of \<open>excluded\<close> or \<open>assumed\<close> keeps
  its identifier, kind and code, not the free-text detail. \<open>CompiledIntervals\<close> of the
  same list are equal, so a calendar is passed on as a value.
\<close>

abbreviation plan_error :: "string \<Rightarrow> exc" where
  "plan_error code \<equiv> Coded PlanError code None"

type_synonym calendars = "(uuid \<times> compiled_calendar) list"

definition SCHEDULED_KINDS :: "activity_kind list" where
  "SCHEDULED_KINDS = [TASK, START_MILESTONE, FINISH_MILESTONE]"

definition UNKNOWN_DATE_EXCLUSIONS :: "string list" where
  "UNKNOWN_DATE_EXCLUSIONS = [''ACTIVITY_CALENDAR_UNRESOLVED'', ''ACTIVITY_CALENDAR_EMPTY'',
     ''ACTIVITY_MEASURE_CALENDAR_EMPTY'', ''ACTIVITY_CONSTRAINT_INCOMPLETE'', ''ACTIVITY_DURATION_UNSUPPORTED'',
     ''ACTIVITY_DURATION_NON_INTEGRAL'', ''ACTIVITY_REMAINING_UNSUPPORTED'', ''ACTIVITY_DURATION_FORMAT_UNSUPPORTED'',
     ''ACTIVITY_MANUALLY_SCHEDULED'', ''ACTIVITY_NULL_PLACEHOLDER'']"

definition DATED :: "constraint_type list" where
  "DATED = [SNET, SNLT, FNET, FNLT, MSO, MFO]"

record exclusion =
  xc_uid :: uuid
  xc_kind :: string
  xc_code :: string

record assumption =
  am_uid :: uuid
  am_kind :: string
  am_code :: string

definition NATIVE_INACTIVE_BOUNDARY_CODE :: string where
  "NATIVE_INACTIVE_BOUNDARY_CODE = ''RELATIONSHIP_NATIVE_INACTIVE_BOUNDARY_DERIVED''"

record derived_relationship =
  dr_uid :: uuid
  dr_code :: string
  dr_inactive_boundary_uid :: uuid
  dr_source_predecessor_relationship_uid :: uuid
  dr_source_successor_relationship_uid :: uuid
  dr_predecessor_uid :: uuid
  dr_successor_uid :: uuid

record plan =
  pl_network :: network
  pl_epoch :: moment
  pl_calendars :: calendars
  pl_excluded :: "exclusion list"
  pl_assumed :: "assumption list"
  pl_derived_relationships :: "derived_relationship list"
  pl_snap_milestones :: bool
  pl_critical_float_threshold :: int
  pl_progress_policy :: progress_policy
  pl_wbs_children :: hierarchy
  pl_status_time_outside_window :: bool
  pl_resource_calendars_apply :: bool

definition plan_to_datetime :: "plan \<Rightarrow> int \<Rightarrow> moment result" where
  "plan_to_datetime p x = add_micros (pl_epoch p) (x * 1000000)"

definition plan_to_seconds :: "plan \<Rightarrow> moment \<Rightarrow> int" where
  "plan_to_seconds p m = int_seconds (m - pl_epoch p)"

text \<open>Counts per code, in the order the codes first appear.\<close>

definition code_counts :: "string list \<Rightarrow> (string \<times> nat) list" where
  "code_counts codes = map (\<lambda>c. (c, count_list codes c)) (dict_keys codes)"

definition excluded_by_code :: "plan \<Rightarrow> (string \<times> nat) list" where
  "excluded_by_code p = code_counts (map xc_code (pl_excluded p))"

definition assumed_by_code :: "plan \<Rightarrow> (string \<times> nat) list" where
  "assumed_by_code p = code_counts (map am_code (pl_assumed p))"

definition duration_seconds :: "activity \<Rightarrow> int" where
  "duration_seconds a = (case ac_planned_duration a of None \<Rightarrow> 0 | Some d \<Rightarrow> du_seconds d)"

definition remaining_seconds :: "activity \<Rightarrow> int option" where
  "remaining_seconds a = map_option du_seconds (ac_remaining_duration a)"

text \<open>The local \<open>to_seconds\<close>, against the shared epoch.\<close>

definition seconds_from :: "moment \<Rightarrow> moment \<Rightarrow> int" where
  "seconds_from epoch m = int_seconds (m - epoch)"

subsection \<open>The calendar of an activity\<close>

text \<open>The distinct calendars its assigned resources name, in assignment order.\<close>

definition resource_calendars :: "schedule \<Rightarrow> activity \<Rightarrow> uuid list" where
  "resource_calendars s a =
     dict_keys (concat (map (\<lambda>x. case as_resource_uid x of
         None \<Rightarrow> []
       | Some u \<Rightarrow> (case sc_resource_by_uid s u of
           None \<Rightarrow> [] | Some r \<Rightarrow> (case re_calendar_uid r of None \<Rightarrow> [] | Some c \<Rightarrow> [c])))
       (filter (\<lambda>x. as_activity_uid x = Some (ac_uid a)) (sc_assignments s))))"

text \<open>Its own calendar, when it names one, and the calendar its slack is measured on.\<close>

definition own_calendar :: "calendars \<Rightarrow> schedule \<Rightarrow> activity \<Rightarrow> (compiled_intervals option \<times> compiled_intervals) option" where
  "own_calendar cals s a =
     (case ac_calendar_uid a of
        Some u \<Rightarrow> map_option (\<lambda>cc. (Some (cc_intervals cc), cc_intervals cc)) (map_of cals u)
      | None \<Rightarrow>
          (case ps_default_calendar_uid (sc_project s) of
             None \<Rightarrow> None
           | Some u \<Rightarrow> map_option (\<lambda>cc. (None, cc_intervals cc)) (map_of cals u)))"

text \<open>
  The scheduling calendar, the measuring calendar where it is another one, and the pending
  assumption; \<open>None\<close> when a calendar is unresolved.
\<close>

definition effective_calendar ::
    "calendars \<Rightarrow> schedule \<Rightarrow> bool \<Rightarrow> activity \<Rightarrow> (compiled_intervals \<times> compiled_intervals option \<times> string option) option" where
  "effective_calendar cals s apply_resources a =
     (case own_calendar cals s a of
        None \<Rightarrow> None
      | Some (own, fallback) \<Rightarrow>
          (let slack = ci_of (intervals fallback) in
           if \<not> apply_resources \<or> ac_source_fields a ''ignore_resource_calendar_source'' = Some ''1''
              \<or> resource_calendars s a = []
           then Some (slack, None, None)
           else case those (map (\<lambda>u. map_option cc_intervals (map_of cals u)) (resource_calendars s a)) of
               None \<Rightarrow> None
             | Some [c] \<Rightarrow> Some (case own of
                   None \<Rightarrow> ci_of (intervals c)
                 | Some own_c \<Rightarrow> ci_of (intersect_intervals (intervals own_c) (intervals c)), Some slack, None)
             | Some resolved \<Rightarrow>
                 (let united = ci_of (normalise (concat (map intervals resolved))) in
                  Some (case own of
                      None \<Rightarrow> united
                    | Some own_c \<Rightarrow> ci_of (intersect_intervals (intervals own_c) (intervals united)),
                    Some slack, Some ''ACTIVITY_RESOURCE_CALENDARS_UNITED''))))"

subsection \<open>Eligibility\<close>

datatype plan_row = Refused string | Accepted planned_activity "string list"

definition remove_prefix :: "string \<Rightarrow> string \<Rightarrow> string" where
  "remove_prefix p s = (if take (length p) s = p then drop (length p) s else s)"

definition elapsed_activity :: "activity \<Rightarrow> bool" where
  "elapsed_activity a \<longleftrightarrow> (case ac_planned_duration a of None \<Rightarrow> False | Some d \<Rightarrow> du_elapsed d)
     \<or> (case ac_remaining_duration a of None \<Rightarrow> False | Some d \<Rightarrow> du_elapsed d)"

text \<open>The refusals that do not depend on a calendar, in the order they are asked.\<close>

definition source_refusal :: "activity \<Rightarrow> string option" where
  "source_refusal a =
     (let field = ac_source_fields a in
      if ac_kind a \<notin> set SCHEDULED_KINDS then Some ''ACTIVITY_KIND_NOT_SCHEDULED''
      else if \<not> ac_active a then Some ''ACTIVITY_INACTIVE''
      else if field ''duration_unsupported_source'' \<noteq> None then
        Some (''ACTIVITY_DURATION_'' @ remove_prefix ''DURATION_''
          (case field ''duration_unsupported_reason'' of None \<Rightarrow> ''DURATION_UNSUPPORTED'' | Some r \<Rightarrow> r))
      else if field ''remaining_duration_unsupported_source'' \<noteq> None then Some ''ACTIVITY_REMAINING_UNSUPPORTED''
      else if field ''duration_format_unsupported_source'' \<noteq> None then Some ''ACTIVITY_DURATION_FORMAT_UNSUPPORTED''
      else if field ''is_null_source'' = Some ''1'' then Some ''ACTIVITY_NULL_PLACEHOLDER''
      else if ac_manual a then Some ''ACTIVITY_MANUALLY_SCHEDULED''
      else None)"

text \<open>The constraint and its coordinate; \<open>None\<close> when a dated one has no date.\<close>

definition planned_constraint :: "moment \<Rightarrow> activity \<Rightarrow> (constraint_type \<times> int option) option" where
  "planned_constraint epoch a =
     (case ac_primary_constraint a of
        None \<Rightarrow> Some (ASAP, None)
      | Some c \<Rightarrow>
          if con_type c = ASAP then Some (ASAP, None)
          else if con_type c \<in> set DATED then
            map_option (\<lambda>d. (con_type c, Some (seconds_from epoch d))) (con_date c)
          else Some (con_type c, None))"

definition plan_activity :: "calendars \<Rightarrow> schedule \<Rightarrow> bool \<Rightarrow> moment \<Rightarrow> compiled_intervals \<Rightarrow> activity \<Rightarrow> plan_row" where
  "plan_activity cals s apply_resources epoch continuous a =
     (case source_refusal a of
        Some code \<Rightarrow> Refused code
      | None \<Rightarrow>
     (case effective_calendar cals s apply_resources a of
        None \<Rightarrow> Refused ''ACTIVITY_CALENDAR_UNRESOLVED''
      | Some (cal, slack, pending) \<Rightarrow>
          if intervals cal = [] then Refused ''ACTIVITY_CALENDAR_EMPTY''
          else if (case slack of None \<Rightarrow> False | Some m \<Rightarrow> intervals m = []) then Refused ''ACTIVITY_MEASURE_CALENDAR_EMPTY''
          else
            (let elapsed = elapsed_activity a;
                 slack' = (if elapsed then Some (case slack of None \<Rightarrow> ci_of (intervals cal) | Some m \<Rightarrow> m) else slack);
                 cal' = (if elapsed then continuous else cal);
                 pending' = (if elapsed then Some ''ACTIVITY_DURATION_ELAPSED'' else pending) in
             case planned_constraint epoch a of
               None \<Rightarrow> Refused ''ACTIVITY_CONSTRAINT_INCOMPLETE''
             | Some (ctype, coordinate) \<Rightarrow> Accepted
                 \<lparr> pa_uid = ac_uid a, pa_duration = duration_seconds a, pa_calendar = cal',
                   pa_constraint_type = ctype, pa_constraint_coordinate = coordinate,
                   pa_actual_start = map_option (seconds_from epoch) (ac_actual_start a),
                   pa_actual_finish = map_option (seconds_from epoch) (ac_actual_finish a),
                   pa_remaining_duration = remaining_seconds a, pa_measure_calendar = slack',
                   pa_float_basis = ''working'', pa_assignment_envelope = None \<rparr>
                 ((if ac_secondary_constraint a = None then [] else [''ACTIVITY_SECONDARY_CONSTRAINT_NOT_APPLIED''])
                  @ (case pending' of None \<Rightarrow> [] | Some c \<Rightarrow> [c])))))"

text \<open>The loop over the activities: what is placed, left out and assumed.\<close>

record placement =
  pm_activities :: "planned_activity list"
  pm_excluded :: "exclusion list"
  pm_assumed :: "assumption list"

definition place_step :: "(activity \<Rightarrow> plan_row) \<Rightarrow> activity \<Rightarrow> placement \<Rightarrow> placement" where
  "place_step row a p =
     (case row a of
        Refused code \<Rightarrow> p\<lparr>pm_excluded := pm_excluded p @ [\<lparr> xc_uid = ac_uid a, xc_kind = ''activity'', xc_code = code \<rparr>]\<rparr>
      | Accepted pa codes \<Rightarrow>
          p\<lparr>pm_activities := pm_activities p @ [pa],
            pm_assumed := pm_assumed p @ map (\<lambda>c. \<lparr> am_uid = ac_uid a, am_kind = ''activity'', am_code = c \<rparr>) codes\<rparr>)"

definition place_rows :: "(activity \<Rightarrow> plan_row) \<Rightarrow> activity list \<Rightarrow> placement" where
  "place_rows row as = fold (place_step row) as \<lparr> pm_activities = [], pm_excluded = [], pm_assumed = [] \<rparr>"

text \<open>The identifiers the plan schedules.\<close>

definition scheduled :: "placement \<Rightarrow> uuid list" where
  "scheduled p = map pa_uid (pm_activities p)"

subsection \<open>Rows behind an unknown date\<close>

definition unknown_dates :: "placement \<Rightarrow> uuid list" where
  "unknown_dates p = dict_keys (map xc_uid (filter (\<lambda>x. xc_kind x = ''activity'' \<and> xc_code x \<in> set UNKNOWN_DATE_EXCLUSIONS) (pm_excluded p)))"

definition raw_outgoing :: "schedule \<Rightarrow> uuid \<Rightarrow> relationship list" where
  "raw_outgoing s u = filter (\<lambda>r. rl_predecessor_uid r = u) (sc_relationships s)"

definition raw_incoming :: "schedule \<Rightarrow> uuid \<Rightarrow> relationship list" where
  "raw_incoming s u = filter (\<lambda>r. rl_successor_uid r = u) (sc_relationships s)"

text \<open>The successors a cut row takes with it for the first time; finished work is not cut.\<close>

definition newly_cut :: "schedule \<Rightarrow> uuid list \<Rightarrow> uuid list \<Rightarrow> uuid \<Rightarrow> uuid list" where
  "newly_cut s candidates gone u =
     dict_keys (filter (\<lambda>v. v \<in> set candidates \<and> v \<notin> set gone) (map rl_successor_uid (raw_outgoing s u)))"

text \<open>
  The work list, its top at the end. The code seeds it from a set, whose order it leaves open; only
  the detail of an exclusion depends on it.
\<close>

lemma newly_cut_less:
  assumes "newly_cut s candidates gone u \<noteq> []"
  shows "card (set candidates - (set gone \<union> set (newly_cut s candidates gone u))) < card (set candidates - set gone)"
proof (rule psubset_card_mono)
  obtain v where "v \<in> set (newly_cut s candidates gone u)" using assms by (cases "newly_cut s candidates gone u") auto
  then have "v \<in> set candidates - set gone" by (auto simp: newly_cut_def)
  with \<open>v \<in> set (newly_cut s candidates gone u)\<close>
  show "set candidates - (set gone \<union> set (newly_cut s candidates gone u)) \<subset> set candidates - set gone" by blast
qed simp

function cut_loop :: "schedule \<Rightarrow> uuid list \<Rightarrow> uuid list \<Rightarrow> uuid list \<Rightarrow> uuid list" where
  "cut_loop s candidates gone frontier =
     (if frontier = [] then gone
      else let fresh = newly_cut s candidates gone (last frontier)
           in cut_loop s candidates (gone @ fresh) (butlast frontier @ fresh))"
  by pat_completeness auto

termination
proof (relation "measures [\<lambda>(s, candidates, gone, _). card (set candidates - set gone), \<lambda>(_, _, _, frontier). length frontier]", simp)
  fix s candidates gone frontier fresh
  assume ne: "frontier \<noteq> []" and fresh: "fresh = newly_cut s candidates gone (last frontier)"
  show "((s, candidates, gone @ fresh, butlast frontier @ fresh), s, candidates, gone, frontier)
      \<in> measures [\<lambda>(s, candidates, gone, _). card (set candidates - set gone), \<lambda>(_, _, _, frontier). length frontier]"
    using newly_cut_less [of s candidates gone "last frontier"] ne fresh by (cases "fresh = []") auto
qed

declare cut_loop.simps [simp del]

definition cut_candidates :: "schedule \<Rightarrow> placement \<Rightarrow> uuid list" where
  "cut_candidates s p =
     filter (\<lambda>u. u \<notin> set (map ac_uid (filter (\<lambda>a. ac_actual_finish a \<noteq> None) (sc_activities s)))) (scheduled p)"

definition cut_rows :: "schedule \<Rightarrow> placement \<Rightarrow> uuid list" where
  "cut_rows s p = cut_loop s (cut_candidates s p) [] (unknown_dates p)"

definition cut_placement :: "schedule \<Rightarrow> placement \<Rightarrow> placement" where
  "cut_placement s p =
     (let gone = set (cut_rows s p) in
      \<lparr> pm_activities = filter (\<lambda>a. pa_uid a \<notin> gone) (pm_activities p),
        pm_excluded = pm_excluded p
          @ map (\<lambda>a. \<lparr> xc_uid = ac_uid a, xc_kind = ''activity'', xc_code = ''ACTIVITY_PREDECESSOR_NOT_SCHEDULED'' \<rparr>)
              (filter (\<lambda>a. ac_uid a \<in> gone) (sc_activities s)),
        pm_assumed = filter (\<lambda>x. am_uid x \<notin> gone) (pm_assumed p) \<rparr>)"

end
