(* ===== verification/Identifiers.thy ===== *)
theory Identifiers
  imports Network
begin

section \<open>Identifiers as text\<close>

text \<open>
  \<open>str(uuid)\<close> has thirty-six characters and tells identifiers apart: distinct values below
  \<open>2 ^ 128\<close> have distinct texts.
\<close>

lemma length_hex_text [simp]: "length (hex_text k v) = k"
  by (induction k arbitrary: v) auto

lemma hex_digit_inj: "hex_digit a = hex_digit b \<Longrightarrow> a mod 16 = b mod 16"
proof -
  have "distinct ''0123456789abcdef''" by code_simp
  then have "i = j" if "i < 16" "j < 16" "''0123456789abcdef'' ! i = ''0123456789abcdef'' ! j" for i j
    using that nth_eq_iff_index_eq [of "''0123456789abcdef''" i j] by simp
  then show "hex_digit a = hex_digit b \<Longrightarrow> a mod 16 = b mod 16" by (simp add: hex_digit_def)
qed

lemma hex_text_inj: "hex_text k v = hex_text k w \<Longrightarrow> v < 16 ^ k \<Longrightarrow> w < 16 ^ k \<Longrightarrow> v = w"
proof (induction k arbitrary: v w)
  case (Suc k)
  then have "hex_text k (v div 16) = hex_text k (w div 16)" "hex_digit v = hex_digit w" by simp_all
  moreover have "v div 16 < 16 ^ k" "w div 16 < 16 ^ k" using Suc.prems by (simp_all add: less_mult_imp_div_less mult.commute)
  ultimately have "v div 16 = w div 16" "v mod 16 = w mod 16" using Suc.IH hex_digit_inj by blast+
  then show ?case by (metis div_mult_mod_eq)
qed simp

lemma length_uuid_text [simp]: "length (uuid_text u) = 36"
  by (simp add: uuid_text_def Let_def)

lemma split_blocks: "xs = take 8 xs @ take 4 (drop 8 xs) @ take 4 (drop 12 xs) @ take 4 (drop 16 xs) @ drop 20 xs"
  using append_take_drop_id [of 8 xs] append_take_drop_id [of 4 "drop 8 xs"] append_take_drop_id [of 4 "drop 12 xs"]
    append_take_drop_id [of 4 "drop 16 xs"] by simp

lemma uuid_text_inj: "uuid_text u = uuid_text v \<Longrightarrow> u < 2 ^ 128 \<Longrightarrow> v < 2 ^ 128 \<Longrightarrow> u = v"
proof -
  assume eq: "uuid_text u = uuid_text v" and u: "u < 2 ^ 128" and v: "v < 2 ^ 128"
  let ?h = "hex_text 32 u" and ?k = "hex_text 32 v"
  from eq have "take 8 ?h = take 8 ?k" "take 4 (drop 8 ?h) = take 4 (drop 8 ?k)" "take 4 (drop 12 ?h) = take 4 (drop 12 ?k)"
    "take 4 (drop 16 ?h) = take 4 (drop 16 ?k)" "drop 20 ?h = drop 20 ?k"
    by (simp_all add: uuid_text_def Let_def)
  then have "?h = ?k"
    using split_blocks [of ?h] split_blocks [of ?k] by metis
  moreover have "(16::nat) ^ 32 = 2 ^ 128" by simp
  ultimately show "u = v" using hex_text_inj u v by metis
qed

end
