(* ===== verification/Identity.thy ===== *)
theory Identity
  imports Identifiers Dates "HOL-Library.AList"
begin

section \<open>Durable identity (\<open>core/model/ids.py\<close>)\<close>

text \<open>
  The identity map of one schedule: which canonical identifier each source row has, under which
  external identifier, GUID and business key it was seen, and which external identifiers have been
  released and may name another row. A dict is a list of pairs in insertion order, a set a list
  without repetition. \<open>uuid5\<close>, the name-based identifier under the namespace of the module, is a
  digest and a parameter. \<open>int(text, 16)\<close> and \<open>uuid.UUID(text)\<close> are modelled as the library reads
  them, over characters below 256.
\<close>

subsection \<open>Vocabulary\<close>

datatype source_system = MICROSOFT_PROJECT | PRIMAVERA_P6 | SAP_PM | MAXIMO | ORACLE_EAM | STO_SYSTEM

definition source_system_values :: "(string \<times> source_system) list" where
  "source_system_values = [(''MicrosoftProject'', MICROSOFT_PROJECT), (''PrimaveraP6'', PRIMAVERA_P6),
     (''SAP_PM'', SAP_PM), (''Maximo'', MAXIMO), (''OracleEAM'', ORACLE_EAM), (''STO'', STO_SYSTEM)]"

definition source_system_value :: "source_system \<Rightarrow> string" where
  "source_system_value x = (case x of MICROSOFT_PROJECT \<Rightarrow> ''MicrosoftProject'' | PRIMAVERA_P6 \<Rightarrow> ''PrimaveraP6''
     | SAP_PM \<Rightarrow> ''SAP_PM'' | MAXIMO \<Rightarrow> ''Maximo'' | ORACLE_EAM \<Rightarrow> ''OracleEAM'' | STO_SYSTEM \<Rightarrow> ''STO'')"

datatype entity_kind = K_PROJECT | K_WBS_NODE | K_ACTIVITY | K_RELATIONSHIP | K_CALENDAR | K_RESOURCE | K_ROLE
  | K_ASSIGNMENT | K_CURVE | K_CODE_TYPE | K_CODE_VALUE | K_UDF | K_BASELINE | K_WORK_ORDER | K_OPERATION

definition entity_kind_value :: "entity_kind \<Rightarrow> string" where
  "entity_kind_value k = (case k of K_PROJECT \<Rightarrow> ''project'' | K_WBS_NODE \<Rightarrow> ''wbs_node'' | K_ACTIVITY \<Rightarrow> ''activity''
     | K_RELATIONSHIP \<Rightarrow> ''relationship'' | K_CALENDAR \<Rightarrow> ''calendar'' | K_RESOURCE \<Rightarrow> ''resource'' | K_ROLE \<Rightarrow> ''role''
     | K_ASSIGNMENT \<Rightarrow> ''assignment'' | K_CURVE \<Rightarrow> ''curve'' | K_CODE_TYPE \<Rightarrow> ''code_type'' | K_CODE_VALUE \<Rightarrow> ''code_value''
     | K_UDF \<Rightarrow> ''udf'' | K_BASELINE \<Rightarrow> ''baseline'' | K_WORK_ORDER \<Rightarrow> ''work_order'' | K_OPERATION \<Rightarrow> ''operation'')"

datatype reconciliation_outcome = MATCHED | NEW | MISSING | REKEYED

definition SEP :: char where "SEP = CHR 0x1F"

subsection \<open>Reading identifiers\<close>

definition hex_value :: "char \<Rightarrow> nat option" where
  "hex_value c = (let n = of_char c :: nat in
     if 48 \<le> n \<and> n \<le> 57 then Some (n - 48) else if 97 \<le> n \<and> n \<le> 102 then Some (n - 87)
     else if 65 \<le> n \<and> n \<le> 70 then Some (n - 55) else None)"

text \<open>Digits with single underscores between them; \<open>ready\<close> says that an underscore may follow.\<close>

fun hex_loop :: "nat \<Rightarrow> bool \<Rightarrow> string \<Rightarrow> nat option" where
  "hex_loop acc ready [] = (if ready then Some acc else None)"
| "hex_loop acc ready (c # cs) =
     (case hex_value c of
        Some v \<Rightarrow> hex_loop (acc * 16 + v) True cs
      | None \<Rightarrow> (if ready \<and> c = CHR ''_'' then hex_loop acc False cs else None))"

text \<open>An optional \<open>0x\<close>, which one underscore may follow.\<close>

definition hex_digits :: "string \<Rightarrow> nat option" where
  "hex_digits s =
     (if take 2 s \<in> {''0x'', ''0X''}
      then hex_loop 0 False (if take 1 (drop 2 s) = ''_'' then drop 3 s else drop 2 s)
      else hex_loop 0 False s)"

definition parse_hex :: "string \<Rightarrow> int option" where
  "parse_hex s =
     (case strip_space s of
        [] \<Rightarrow> None
      | c # cs \<Rightarrow>
          (if c = CHR ''-'' then map_option (\<lambda>v. - int v) (hex_digits cs)
           else if c = CHR ''+'' then map_option int (hex_digits cs)
           else map_option int (hex_digits (c # cs))))"

text \<open>\<open>text.replace(p, '')\<close>.\<close>

fun remove_text :: "string \<Rightarrow> string \<Rightarrow> string" where
  "remove_text p [] = []"
| "remove_text p (c # cs) =
     (if p \<noteq> [] \<and> take (length p) (c # cs) = p then remove_text p (drop (length p - 1) cs) else c # remove_text p cs)"

definition strip_braces :: "string \<Rightarrow> string" where
  "strip_braces s = rev (dropWhile (\<lambda>c. c \<in> set ''{}'') (rev (dropWhile (\<lambda>c. c \<in> set ''{}'') s)))"

definition parse_uuid :: "string \<Rightarrow> uuid result" where
  "parse_uuid s =
     (let h = filter (\<lambda>c. c \<noteq> CHR ''-'') (strip_braces (remove_text ''uuid:'' (remove_text ''urn:'' s))) in
      if length h \<noteq> 32 then Inl ValueError
      else case parse_hex h of
          None \<Rightarrow> Inl ValueError
        | Some v \<Rightarrow> raise_if (v < 0 \<or> 2 ^ 128 \<le> v) ValueError (Inr (nat v)))"

definition normalise_guid :: "string option \<Rightarrow> string option" where
  "normalise_guid g =
     (case g of None \<Rightarrow> None
      | Some s \<Rightarrow> Some (case parse_uuid s of Inr u \<Rightarrow> uuid_text u | Inl _ \<Rightarrow> s))"

subsection \<open>Minting\<close>

fun join_text :: "string list \<Rightarrow> string" where
  "join_text [] = []"
| "join_text [x] = x"
| "join_text (x # y # ys) = x @ [SEP] @ join_text (y # ys)"

fun nat_text :: "nat \<Rightarrow> string" where
  "nat_text n = (if n < 10 then [hex_digit n] else nat_text (n div 10) @ [hex_digit (n mod 10)])"

declare nat_text.simps [simp del]

definition mint_uid :: "(string \<Rightarrow> uuid) \<Rightarrow> string \<Rightarrow> source_system \<Rightarrow> entity_kind \<Rightarrow> string \<Rightarrow> uuid" where
  "mint_uid uuid5 schedule_id system kind external_uid =
     uuid5 (join_text [schedule_id, source_system_value system, entity_kind_value kind, external_uid])"

subsection \<open>Reconciliation rows\<close>

record reconciliation_entry =
  rc_kind :: entity_kind
  rc_external_uid :: string
  rc_uid :: uuid
  rc_outcome :: reconciliation_outcome
  rc_matched_by :: "string option"
  rc_previous_external_uid :: "string option"
  rc_guid_changed :: bool

record duplicate_guid =
  dg_kind :: entity_kind
  dg_guid :: string
  dg_external_uid :: string

record reconciliation_report =
  rp_schedule_id :: string
  rp_entries :: "reconciliation_entry list"
  rp_duplicate_guids :: "duplicate_guid list"

definition outcome_count :: "reconciliation_report \<Rightarrow> reconciliation_outcome \<Rightarrow> nat" where
  "outcome_count r x = length (filter (\<lambda>e. rc_outcome e = x) (rp_entries r))"

definition guid_changed_count :: "reconciliation_report \<Rightarrow> nat" where
  "guid_changed_count r = length (filter rc_guid_changed (rp_entries r))"

definition of_kind :: "reconciliation_report \<Rightarrow> entity_kind \<Rightarrow> reconciliation_entry list" where
  "of_kind r k = filter (\<lambda>e. rc_kind e = k) (rp_entries r)"

subsection \<open>The identity map\<close>

type_synonym source_key = "string \<times> string"

record identity_map =
  im_schedule_id :: string
  im_system :: source_system
  im_by_external :: "(source_key \<times> uuid) list"
  im_by_guid :: "(source_key \<times> uuid) list"
  im_by_business_key :: "(source_key \<times> uuid) list"
  im_retired_external :: "(source_key \<times> int) list"
  im_external_of :: "(uuid \<times> string) list"
  im_ambiguous_guids :: "source_key list"
  im_guid_of :: "(uuid \<times> string) list"

definition new_identity_map :: "string \<Rightarrow> source_system \<Rightarrow> identity_map" where
  "new_identity_map schedule_id system =
     \<lparr> im_schedule_id = schedule_id, im_system = system, im_by_external = [], im_by_guid = [], im_by_business_key = [],
       im_retired_external = [], im_external_of = [], im_ambiguous_guids = [], im_guid_of = [] \<rparr>"

definition quarantine_guid :: "entity_kind \<Rightarrow> string option \<Rightarrow> identity_map \<Rightarrow> identity_map" where
  "quarantine_guid kind guid m =
     (case normalise_guid guid of
        None \<Rightarrow> m
      | Some g \<Rightarrow>
          (let key = (entity_kind_value kind, g) in
           m\<lparr>im_ambiguous_guids := List.insert key (im_ambiguous_guids m),
             im_by_guid := AList.delete key (im_by_guid m),
             im_guid_of := filter (\<lambda>(u, held). held \<noteq> g) (im_guid_of m)\<rparr>))"

definition guid_is_ambiguous :: "identity_map \<Rightarrow> entity_kind \<Rightarrow> string option \<Rightarrow> bool" where
  "guid_is_ambiguous m kind guid \<longleftrightarrow>
     (case normalise_guid guid of None \<Rightarrow> False | Some g \<Rightarrow> (entity_kind_value kind, g) \<in> set (im_ambiguous_guids m))"

text \<open>A Python condition on an optional text: present and not empty.\<close>

definition truthy :: "string option \<Rightarrow> bool" where
  "truthy s \<longleftrightarrow> s \<noteq> None \<and> s \<noteq> Some []"

definition release_previous :: "string \<Rightarrow> string \<Rightarrow> uuid \<Rightarrow> identity_map \<Rightarrow> identity_map" where
  "release_previous kind_key external_uid u m =
     (case map_of (im_external_of m) u of
        None \<Rightarrow> m
      | Some previous \<Rightarrow>
          if previous = external_uid then m
          else m\<lparr>im_by_external := AList.delete (kind_key, previous) (im_by_external m),
                 im_retired_external := AList.update (kind_key, previous)
                   ((case map_of (im_retired_external m) (kind_key, previous) of None \<Rightarrow> 0 | Some g \<Rightarrow> g) + 1)
                   (im_retired_external m)\<rparr>)"

definition record_row :: "string \<Rightarrow> string \<Rightarrow> uuid \<Rightarrow> string option \<Rightarrow> string option \<Rightarrow> identity_map \<Rightarrow> identity_map" where
  "record_row kind_key external_uid u guid business_key m =
     (let guid = normalise_guid guid;
          m1 = release_previous kind_key external_uid u m;
          m2 = m1\<lparr>im_by_external := AList.update (kind_key, external_uid) u (im_by_external m1),
                  im_external_of := AList.update u external_uid (im_external_of m1)\<rparr>;
          m3 = (if truthy guid
                then m2\<lparr>im_by_guid := AList.update (kind_key, the guid) u (im_by_guid m2),
                        im_guid_of := AList.update u (the guid) (im_guid_of m2)\<rparr> else m2) in
      if truthy business_key
      then m3\<lparr>im_by_business_key := AList.update (kind_key, the business_key) u (im_by_business_key m3)\<rparr> else m3)"

text \<open>The name a row is minted under: a released identifier is minted with its generation.\<close>

definition generation_of :: "identity_map \<Rightarrow> source_key \<Rightarrow> int" where
  "generation_of m key = (case map_of (im_retired_external m) key of None \<Rightarrow> 0 | Some g \<Rightarrow> g)"

definition mint_name :: "string \<Rightarrow> int \<Rightarrow> string" where
  "mint_name external_uid g =
     (if g = 0 then external_uid else join_text [external_uid, ''reuse'', nat_text (nat g)])"

text \<open>The identifier a row already has, and by what it was recognised.\<close>

definition known_row :: "identity_map \<Rightarrow> string \<Rightarrow> string \<Rightarrow> string option \<Rightarrow> string option \<Rightarrow> (uuid \<times> string) option" where
  "known_row m kind_key external_uid guid business_key =
     (case map_of (im_by_external m) (kind_key, external_uid) of
        Some u \<Rightarrow> Some (u, ''external_uid'')
      | None \<Rightarrow>
     (case (if truthy guid then map_of (im_by_guid m) (kind_key, the guid) else None) of
        Some u \<Rightarrow> Some (u, ''guid'')
      | None \<Rightarrow>
     (case (if truthy business_key then map_of (im_by_business_key m) (kind_key, the business_key) else None) of
        Some u \<Rightarrow> Some (u, ''business_key'')
      | None \<Rightarrow> None)))"

definition resolve_row ::
    "(string \<Rightarrow> uuid) \<Rightarrow> entity_kind \<Rightarrow> string \<Rightarrow> string option \<Rightarrow> string option \<Rightarrow> identity_map
     \<Rightarrow> (uuid \<times> reconciliation_entry) \<times> identity_map" where
  "resolve_row uuid5 kind external_uid guid business_key m =
     (let k = entity_kind_value kind;
          g = (if guid_is_ambiguous m kind guid then None else normalise_guid guid) in
      case known_row m k external_uid g business_key of
        Some (u, by) \<Rightarrow>
          (let held = map_of (im_guid_of m) u; by_uid = (by = ''external_uid'') in
           ((u, \<lparr> rc_kind = kind, rc_external_uid = external_uid, rc_uid = u,
                  rc_outcome = (if by_uid then MATCHED else REKEYED), rc_matched_by = Some by,
                  rc_previous_external_uid = (if by_uid then None else map_of (im_external_of m) u),
                  rc_guid_changed = (truthy g \<and> truthy held \<and> g \<noteq> held) \<rparr>),
            record_row k external_uid u g business_key m))
      | None \<Rightarrow>
          (let u = mint_uid uuid5 (im_schedule_id m) (im_system m) kind (mint_name external_uid (generation_of m (k, external_uid))) in
           ((u, \<lparr> rc_kind = kind, rc_external_uid = external_uid, rc_uid = u, rc_outcome = NEW, rc_matched_by = None,
                  rc_previous_external_uid = None, rc_guid_changed = False \<rparr>),
            record_row k external_uid u g business_key m)))"

definition missing_since :: "identity_map \<Rightarrow> entity_kind \<Rightarrow> string list \<Rightarrow> reconciliation_entry list" where
  "missing_since m kind seen =
     map (\<lambda>((k, e), u). \<lparr> rc_kind = kind, rc_external_uid = e, rc_uid = u, rc_outcome = MISSING, rc_matched_by = None,
            rc_previous_external_uid = None, rc_guid_changed = False \<rparr>)
       (filter (\<lambda>((k, e), u). k = entity_kind_value kind \<and> e \<notin> set seen) (sort_key fst (im_by_external m)))"

subsection \<open>Persistence\<close>

record identity_payload =
  ip_schedule_id :: string
  ip_system :: string
  ip_by_external :: "(string \<times> string) list"
  ip_by_guid :: "(string \<times> string) list"
  ip_by_business_key :: "(string \<times> string) list"
  ip_retired_external :: "(string \<times> int) list"
  ip_guid_of :: "(string \<times> string) list"
  ip_ambiguous_guids :: "string list"

definition dict_of :: "('k \<times> 'v) list \<Rightarrow> ('k \<times> 'v) list" where
  "dict_of xs = fold (\<lambda>(k, v). AList.update k v) xs []"

definition join_key :: "source_key \<Rightarrow> string" where
  "join_key k = fst k @ [SEP] @ snd k"

definition to_payload :: "identity_map \<Rightarrow> identity_payload" where
  "to_payload m =
     (let joined = (\<lambda>xs. dict_of (map (\<lambda>(k, u). (join_key k, uuid_text u)) (sort_key fst xs))) in
      \<lparr> ip_schedule_id = im_schedule_id m, ip_system = source_system_value (im_system m),
        ip_by_external = joined (im_by_external m), ip_by_guid = joined (im_by_guid m),
        ip_by_business_key = joined (im_by_business_key m),
        ip_retired_external = dict_of (map (\<lambda>(k, g). (join_key k, g)) (sort_key fst (im_retired_external m))),
        ip_guid_of = dict_of (map (\<lambda>(u, g). (uuid_text u, g)) (sort_key fst (im_guid_of m))),
        ip_ambiguous_guids = map join_key (sort (im_ambiguous_guids m)) \<rparr>)"

text \<open>\<open>key.partition(SEP)\<close> without its middle.\<close>

definition split_key :: "string \<Rightarrow> source_key" where
  "split_key s = (takeWhile (\<lambda>c. c \<noteq> SEP) s, drop 1 (dropWhile (\<lambda>c. c \<noteq> SEP) s))"

definition split_uids :: "(string \<times> string) list \<Rightarrow> (source_key \<times> uuid) list result" where
  "split_uids xs = rbind (rmap (\<lambda>(k, v). rbind (parse_uuid v) (\<lambda>u. Inr (split_key k, u))) xs) (\<lambda>ys. Inr (dict_of ys))"

definition split_generations :: "(string \<times> int) list \<Rightarrow> (source_key \<times> int) list result" where
  "split_generations xs =
     rbind (rmap (\<lambda>(k, g). raise_if (g < 1) ValueError (Inr (split_key k, g))) xs) (\<lambda>ys. Inr (dict_of ys))"

text \<open>\<open>normalise_guid(g) or g\<close>.\<close>

definition guid_or_text :: "string \<Rightarrow> string" where
  "guid_or_text g = (case normalise_guid (Some g) of Some h \<Rightarrow> (if h = [] then g else h) | None \<Rightarrow> g)"

text \<open>A row with a single GUID on record and none held is given that one.\<close>

definition restore_guids :: "(source_key \<times> uuid) list \<Rightarrow> (uuid \<times> string) list \<Rightarrow> (uuid \<times> string) list" where
  "restore_guids by_guid held =
     fold (\<lambda>u held.
         (case dict_keys (map (\<lambda>x. snd (fst x)) (filter (\<lambda>x. snd x = u) by_guid)) of
            [g] \<Rightarrow> (if map_of held u = None then held @ [(u, g)] else held)
          | _ \<Rightarrow> held))
       (dict_keys (map snd by_guid)) held"

definition from_payload :: "identity_payload \<Rightarrow> identity_map result" where
  "from_payload p =
     rbind (split_uids (ip_by_external p)) (\<lambda>by_external.
     rbind (split_uids (ip_by_guid p)) (\<lambda>raw_by_guid.
     let by_guid = dict_of (map (\<lambda>((k, g), u). ((k, guid_or_text g), u)) raw_by_guid) in
     case map_of source_system_values (ip_system p) of
       None \<Rightarrow> Inl ValueError
     | Some system \<Rightarrow>
     rbind (split_uids (ip_by_business_key p)) (\<lambda>by_business_key.
     rbind (split_generations (ip_retired_external p)) (\<lambda>retired.
     rbind (rmap (\<lambda>(u, g). rbind (parse_uuid u) (\<lambda>v. Inr (v, guid_or_text g))) (ip_guid_of p)) (\<lambda>held.
     Inr \<lparr> im_schedule_id = ip_schedule_id p, im_system = system, im_by_external = by_external, im_by_guid = by_guid,
           im_by_business_key = by_business_key, im_retired_external = retired,
           im_external_of = dict_of (map (\<lambda>((k, e), u). (u, e)) by_external),
           im_ambiguous_guids = dict_keys (map (\<lambda>s. (fst (split_key s), guid_or_text (snd (split_key s)))) (ip_ambiguous_guids p)),
           im_guid_of = restore_guids by_guid (dict_of held) \<rparr>)))))"

definition clone_map :: "identity_map \<Rightarrow> identity_map result" where
  "clone_map m = from_payload (to_payload m)"

end
