(* ===== verification/Result.thy ===== *)
theory Result
  imports Plan Criticality Identity
begin

section \<open>The stored result (\<open>core/engine/result.py\<close>)\<close>

text \<open>
  \<open>project_result\<close> assembles one row per activity from the plan and the passes, labels the rows whose
  late dates rest on an assumed rule, records what was done with edges, and signs the whole with
  a digest. A date that leaves the library's range raises \<open>OverflowError\<close>. The details of exclusions and
  assumptions, which the plan does not keep, are the parameter \<open>detail\<close>, a text for each kind, row and code.
\<close>

definition RESULT_PROFILE :: string where "RESULT_PROFILE = ''sto-result-v5''"

definition PROGRESS_PROFILE :: string where "PROGRESS_PROFILE = ''sto-progress-v1''"

definition SCHEDULED :: string where "SCHEDULED = ''scheduled''"

definition EXCLUDED :: string where "EXCLUDED = ''excluded''"

definition RELEASED :: string where "RELEASED = ''released''"

definition DIRECT_PROGRESS_ASSUMPTION :: string where
  "DIRECT_PROGRESS_ASSUMPTION = ''ACTIVITY_IN_PROGRESS_LATE_DATES_ASSUMED''"

definition DERIVED_PROGRESS_ASSUMPTION :: string where
  "DERIVED_PROGRESS_ASSUMPTION = ''ACTIVITY_LATE_DATES_DEPEND_ON_ASSUMED_PROGRESS''"

subsection \<open>Rows\<close>

record provenance =
  pv_canonical_hash :: string
  pv_epoch :: moment
  pv_horizon_start :: moment
  pv_horizon_finish :: moment
  pv_progress_policy :: string
  pv_critical_float_threshold :: int
  pv_status_time :: "moment option"
  pv_status_time_outside_window :: bool
  pv_resource_calendars_apply :: bool
  pv_forward_profile :: string
  pv_backward_profile :: string
  pv_criticality_profile :: string
  pv_rollup_profile :: string
  pv_progress_profile :: string
  pv_result_profile :: string

definition provenance_payload :: "provenance \<Rightarrow> json" where
  "provenance_payload p =
     JObj [(''canonical_hash'', JStr (pv_canonical_hash p)), (''epoch'', JStr (moment_text (pv_epoch p))),
           (''horizon_start'', JStr (moment_text (pv_horizon_start p))),
           (''horizon_finish'', JStr (moment_text (pv_horizon_finish p))),
           (''progress_policy'', JStr (pv_progress_policy p)),
           (''critical_float_threshold'', JInt (pv_critical_float_threshold p)),
           (''status_time'', (case pv_status_time p of None \<Rightarrow> JNull | Some m \<Rightarrow> JStr (moment_text m))),
           (''status_time_outside_window'', JBool (pv_status_time_outside_window p)),
           (''resource_calendars_apply'', JBool (pv_resource_calendars_apply p)),
           (''forward_profile'', JStr (pv_forward_profile p)), (''backward_profile'', JStr (pv_backward_profile p)),
           (''criticality_profile'', JStr (pv_criticality_profile p)), (''rollup_profile'', JStr (pv_rollup_profile p)),
           (''progress_profile'', JStr (pv_progress_profile p)), (''result_profile'', JStr (pv_result_profile p))]"

record activity_result =
  ar_uid :: uuid
  ar_disposition :: string
  ar_early_start :: "moment option"
  ar_early_finish :: "moment option"
  ar_late_start :: "moment option"
  ar_late_finish :: "moment option"
  ar_remaining_start :: "moment option"
  ar_late_remaining_start :: "moment option"
  ar_total_float :: "int option"
  ar_free_float :: "int option"
  ar_start_float :: "int option"
  ar_finish_float :: "int option"
  ar_critical :: "bool option"
  ar_state :: "string option"
  ar_placed_by :: "string option"
  ar_driving_relationship_uid :: "uuid option"
  ar_late_placed_by :: "string option"
  ar_late_driving_relationship_uid :: "uuid option"
  ar_constraint_override :: "string option"
  ar_exclusion_code :: "string option"
  ar_exclusion_detail :: "string option"
  ar_assumptions :: "string list"

text \<open>A row with every field at its default.\<close>

definition unplaced :: "uuid \<Rightarrow> string \<Rightarrow> activity_result" where
  "unplaced u disposition =
     \<lparr> ar_uid = u, ar_disposition = disposition, ar_early_start = None, ar_early_finish = None, ar_late_start = None,
       ar_late_finish = None, ar_remaining_start = None, ar_late_remaining_start = None, ar_total_float = None,
       ar_free_float = None, ar_start_float = None, ar_finish_float = None, ar_critical = None, ar_state = None,
       ar_placed_by = None, ar_driving_relationship_uid = None, ar_late_placed_by = None,
       ar_late_driving_relationship_uid = None, ar_constraint_override = None, ar_exclusion_code = None,
       ar_exclusion_detail = None, ar_assumptions = [] \<rparr>"

record relationship_result =
  rr_uid :: uuid
  rr_disposition :: string
  rr_code :: string
  rr_detail :: string

record summary_result =
  sr_uid :: uuid
  sr_start :: moment
  sr_finish :: moment
  sr_placed :: nat

record schedule_result =
  sr_provenance :: provenance
  sr_activities :: "activity_result list"
  sr_summaries :: "summary_result list"
  sr_relationships :: "relationship_result list"
  sr_empty_summaries :: "uuid list"
  sr_fingerprint :: string

definition result_by_uid :: "schedule_result \<Rightarrow> uuid \<Rightarrow> activity_result option" where
  "result_by_uid r = map_of (rev (map (\<lambda>a. (ar_uid a, a)) (sr_activities r)))"

subsection \<open>Provenance\<close>

definition option_date :: "plan \<Rightarrow> int option \<Rightarrow> moment option result" where
  "option_date p x = (case x of None \<Rightarrow> Inr None | Some c \<Rightarrow> rbind (plan_to_datetime p c) (\<lambda>m. Inr (Some m)))"

definition result_provenance :: "plan \<Rightarrow> string \<Rightarrow> moment \<times> moment \<Rightarrow> provenance result" where
  "result_provenance p canonical_hash h =
     rbind (option_date p (status_time (pl_network p))) (\<lambda>status.
     Inr \<lparr> pv_canonical_hash = canonical_hash, pv_epoch = pl_epoch p, pv_horizon_start = fst h,
           pv_horizon_finish = snd h, pv_progress_policy = policy_value (pl_progress_policy p),
           pv_critical_float_threshold = pl_critical_float_threshold p, pv_status_time = status,
           pv_status_time_outside_window = pl_status_time_outside_window p,
           pv_resource_calendars_apply = pl_resource_calendars_apply p, pv_forward_profile = FORWARD_PASS_PROFILE,
           pv_backward_profile = BACKWARD_PASS_PROFILE, pv_criticality_profile = CRITICALITY_PROFILE,
           pv_rollup_profile = ROLLUP_PROFILE, pv_progress_profile = PROGRESS_PROFILE,
           pv_result_profile = RESULT_PROFILE \<rparr>)"

subsection \<open>Edges\<close>

definition derived_detail :: "derived_relationship \<Rightarrow> string" where
  "derived_detail d =
     (let field = (\<lambda>name u. [CHR 0x22] @ name @ [CHR 0x22] @ '':'' @ [CHR 0x22] @ uuid_text u @ [CHR 0x22]) in
      ''{'' @ field ''active_predecessor_uid'' (dr_predecessor_uid d)
      @ '','' @ field ''active_successor_uid'' (dr_successor_uid d)
      @ '','' @ field ''inactive_boundary_uid'' (dr_inactive_boundary_uid d)
      @ '','' @ field ''source_predecessor_relationship_uid'' (dr_source_predecessor_relationship_uid d)
      @ '','' @ field ''source_successor_relationship_uid'' (dr_source_successor_relationship_uid d) @ ''}'')"

definition assumed_edge :: "(string \<Rightarrow> uuid \<Rightarrow> string \<Rightarrow> string) \<Rightarrow> assumption \<Rightarrow> relationship_result" where
  "assumed_edge detail x = \<lparr> rr_uid = am_uid x, rr_disposition = SCHEDULED, rr_code = am_code x,
     rr_detail = detail (am_kind x) (am_uid x) (am_code x) \<rparr>"

definition derived_edge :: "derived_relationship \<Rightarrow> relationship_result" where
  "derived_edge d = \<lparr> rr_uid = dr_uid d, rr_disposition = SCHEDULED, rr_code = NATIVE_INACTIVE_BOUNDARY_CODE,
     rr_detail = derived_detail d \<rparr>"

definition excluded_edge :: "(string \<Rightarrow> uuid \<Rightarrow> string \<Rightarrow> string) \<Rightarrow> exclusion \<Rightarrow> relationship_result" where
  "excluded_edge detail x = \<lparr> rr_uid = xc_uid x, rr_disposition = EXCLUDED, rr_code = xc_code x,
     rr_detail = detail (xc_kind x) (xc_uid x) (xc_code x) \<rparr>"

definition released_edge :: "progress_policy \<Rightarrow> uuid \<Rightarrow> relationship_result" where
  "released_edge policy u = \<lparr> rr_uid = u, rr_disposition = RELEASED, rr_code = ''RELATIONSHIP_RELEASED_BY_PROGRESS'',
     rr_detail = policy_value policy \<rparr>"

definition edge_results ::
    "(string \<Rightarrow> uuid \<Rightarrow> string \<Rightarrow> string) \<Rightarrow> plan \<Rightarrow> backward_pass_result \<Rightarrow> relationship_result list" where
  "edge_results detail p bp =
     map (assumed_edge detail) (filter (\<lambda>x. am_kind x \<noteq> ''activity'' \<and> am_uid x \<notin> set (overridden_relationships bp)) (pl_assumed p))
   @ map derived_edge (pl_derived_relationships p)
   @ map (excluded_edge detail) (filter (\<lambda>x. xc_kind x \<noteq> ''activity'') (pl_excluded p))
   @ map (released_edge (pl_progress_policy p)) (overridden_relationships bp)"

subsection \<open>Labels\<close>

text \<open>The codes the plan gives an activity.\<close>

definition activity_codes :: "plan \<Rightarrow> uuid \<Rightarrow> string list" where
  "activity_codes p u = map am_code (filter (\<lambda>x. am_kind x = ''activity'' \<and> am_uid x = u) (pl_assumed p))"

definition directly_assumed :: "plan \<Rightarrow> uuid \<Rightarrow> bool" where
  "directly_assumed p u \<longleftrightarrow> DIRECT_PROGRESS_ASSUMPTION \<in> set (activity_codes p u)"

text \<open>
  The rows labelled in turn, in the order of the backward pass: those whose chosen late driver leads
  to a labelled row.
\<close>

definition label_step :: "plan \<Rightarrow> backward_pass_result \<Rightarrow> uuid \<Rightarrow> uuid list \<Rightarrow> uuid list result" where
  "label_step p bp u labelled =
     (if directly_assumed p u \<or> u \<in> set labelled then Inr labelled
      else case late_by_uid bp u of
        None \<Rightarrow> Inl KeyError
      | Some t \<Rightarrow>
          (case lt_driving_relationship_uid t of
             None \<Rightarrow> Inr labelled
           | Some d \<Rightarrow>
               (case map_of (rev (map (\<lambda>r. (pr_uid r, r)) (relationships (pl_network p)))) d of
                  None \<Rightarrow> Inl KeyError
                | Some r \<Rightarrow> Inr (if directly_assumed p (pr_successor_uid r) \<or> pr_successor_uid r \<in> set labelled
                               then labelled @ [u] else labelled))))"

definition derived_labels :: "plan \<Rightarrow> backward_pass_result \<Rightarrow> uuid list result" where
  "derived_labels p bp = rfold (label_step p bp) (bp_order bp) []"

definition row_assumptions :: "plan \<Rightarrow> uuid list \<Rightarrow> forward_pass_result \<Rightarrow> uuid \<Rightarrow> string list" where
  "row_assumptions p labelled fp u =
     activity_codes p u @ (if u \<in> set labelled then [DERIVED_PROGRESS_ASSUMPTION] else [])
     @ (if u \<in> set (unbounded_starts fp) then [''ACTIVITY_START_NOT_BOUNDED''] else [])"

definition int_text :: "int \<Rightarrow> string" where
  "int_text i = (if i < 0 then ''-'' @ nat_text (nat (- i)) else nat_text (nat i))"

definition override_text :: "constraint_violation \<Rightarrow> string" where
  "override_text v = constraint_value (cv_type v) @ '': pinned to '' @ int_text (cv_coordinate v)
     @ '', logic required '' @ int_text (cv_logic_required v)"

definition overrides_of :: "forward_pass_result \<Rightarrow> uuid \<Rightarrow> string option" where
  "overrides_of fp = map_of (rev (map (\<lambda>v. (cv_activity_uid v, override_text v)) (constraint_violations fp)))"

subsection \<open>Projection\<close>

definition scheduled_row ::
    "plan \<Rightarrow> forward_pass_result \<Rightarrow> backward_pass_result \<Rightarrow> float_analysis_result \<Rightarrow> uuid list \<Rightarrow> planned_activity
     \<Rightarrow> activity_result result" where
  "scheduled_row p fp bp fa labelled a =
     (let u = pa_uid a in
      case (by_uid fp u, late_by_uid bp u, float_by_uid fa u) of
        (Some t, Some l, Some f) \<Rightarrow>
          rbind (plan_to_datetime p (early_start t)) (\<lambda>es.
          rbind (plan_to_datetime p (early_finish t)) (\<lambda>ef.
          rbind (plan_to_datetime p (late_start l)) (\<lambda>ls.
          rbind (plan_to_datetime p (late_finish l)) (\<lambda>lf.
          rbind (option_date p (remaining_start t)) (\<lambda>rs.
          rbind (option_date p (lt_remaining_start l)) (\<lambda>lrs.
          Inr ((unplaced u SCHEDULED)\<lparr> ar_early_start := Some es, ar_early_finish := Some ef, ar_late_start := Some ls,
                 ar_late_finish := Some lf, ar_remaining_start := rs, ar_late_remaining_start := lrs,
                 ar_total_float := Some (total_float f), ar_free_float := Some (free_float_of f),
                 ar_start_float := Some (start_float f), ar_finish_float := Some (finish_float f),
                 ar_critical := Some (critical f), ar_state := Some (state_value (at_state t)),
                 ar_placed_by := Some (at_source t), ar_driving_relationship_uid := driving_relationship_uid t,
                 ar_late_placed_by := Some (lt_source l),
                 ar_late_driving_relationship_uid := lt_driving_relationship_uid l,
                 ar_constraint_override := overrides_of fp u,
                 ar_assumptions := row_assumptions p labelled fp u \<rparr>)))))))
      | _ \<Rightarrow> Inl KeyError)"

definition excluded_row ::
    "(string \<Rightarrow> uuid \<Rightarrow> string \<Rightarrow> string) \<Rightarrow> plan \<Rightarrow> forward_pass_result \<Rightarrow> uuid list \<Rightarrow> exclusion \<Rightarrow> activity_result" where
  "excluded_row detail p fp labelled x =
     (let u = xc_uid x; d = detail (xc_kind x) u (xc_code x) in
      (unplaced u EXCLUDED)\<lparr> ar_exclusion_code := Some (xc_code x), ar_exclusion_detail := (if d = [] then None else Some d),
         ar_assumptions := row_assumptions p labelled fp u \<rparr>)"

definition summary_row :: "plan \<Rightarrow> rolled_up \<Rightarrow> summary_result result" where
  "summary_row p x =
     rbind (plan_to_datetime p (ru_start x)) (\<lambda>s. rbind (plan_to_datetime p (ru_finish x)) (\<lambda>f.
       Inr \<lparr> sr_uid = ru_uid x, sr_start = s, sr_finish = f, sr_placed = ru_placed x \<rparr>))"

text \<open>
  The signed payload. The source sorts lists of values; identifiers come first and the rows of a
  result have distinct ones, so sorting by identifier is the same for activities and summaries.
\<close>

definition json_date :: "moment option \<Rightarrow> json" where
  "json_date m = (case m of None \<Rightarrow> JNull | Some x \<Rightarrow> JStr (moment_text x))"

definition json_text :: "string option \<Rightarrow> json" where
  "json_text s = (case s of None \<Rightarrow> JNull | Some x \<Rightarrow> JStr x)"

definition activity_values :: "bool \<Rightarrow> activity_result \<Rightarrow> json" where
  "activity_values first_version a =
     JList ([JStr (uuid_text (ar_uid a)), JStr (ar_disposition a), json_date (ar_early_start a), json_date (ar_early_finish a),
             json_date (ar_late_start a), json_date (ar_late_finish a), json_date (ar_remaining_start a)]
            @ (if first_version then [] else [json_date (ar_late_remaining_start a)])
            @ [json_opt_int (ar_total_float a), json_opt_int (ar_free_float a), json_opt_int (ar_start_float a),
               json_opt_int (ar_finish_float a), (case ar_critical a of None \<Rightarrow> JNull | Some b \<Rightarrow> JBool b),
               json_text (ar_state a), json_text (ar_placed_by a), json_text (map_option uuid_text (ar_driving_relationship_uid a)),
               json_text (ar_late_placed_by a), json_text (map_option uuid_text (ar_late_driving_relationship_uid a)),
               json_text (ar_constraint_override a), json_text (ar_exclusion_code a), json_text (ar_exclusion_detail a),
               JList (map JStr (ar_assumptions a))])"

definition fingerprint_result :: "(json \<Rightarrow> string) \<Rightarrow> schedule_result \<Rightarrow> string" where
  "fingerprint_result sha r = sha (JObj
     [(''provenance'', provenance_payload (sr_provenance r)),
      (''activities'', JList (map (activity_values (pv_result_profile (sr_provenance r) = ''sto-result-v1''))
         (sort_key (\<lambda>a. uuid_text (ar_uid a)) (sr_activities r)))),
      (''relationships'', JList (map (\<lambda>(u, d, c, t). JList [JStr u, JStr d, JStr c, JStr t])
         (sort (map (\<lambda>x. (uuid_text (rr_uid x), rr_disposition x, rr_code x, rr_detail x)) (sr_relationships r))))),
      (''summaries'', JList (map (\<lambda>x. JList [JStr (uuid_text (sr_uid x)), JStr (moment_text (sr_start x)),
           JStr (moment_text (sr_finish x)), JInt (int (sr_placed x))])
         (sort_key (\<lambda>x. uuid_text (sr_uid x)) (sr_summaries r)))),
      (''empty_summaries'', JList (map JStr (sort (map uuid_text (sr_empty_summaries r)))))])"

definition project_result ::
    "(json \<Rightarrow> string) \<Rightarrow> (string \<Rightarrow> uuid \<Rightarrow> string \<Rightarrow> string) \<Rightarrow> plan \<Rightarrow> forward_pass_result \<Rightarrow> backward_pass_result
     \<Rightarrow> float_analysis_result \<Rightarrow> rollup \<Rightarrow> string \<Rightarrow> moment \<times> moment \<Rightarrow> schedule_result result" where
  "project_result sha detail p fp bp fa ro canonical_hash h =
     rbind (result_provenance p canonical_hash h) (\<lambda>provenance.
     rbind (derived_labels p bp) (\<lambda>labelled.
     rbind (rmap (scheduled_row p fp bp fa labelled) (activities (pl_network p))) (\<lambda>rows.
     rbind (rmap (summary_row p) (ro_spans ro)) (\<lambda>summaries.
     let r = \<lparr> sr_provenance = provenance,
               sr_activities = rows @ map (excluded_row detail p fp labelled) (filter (\<lambda>x. xc_kind x = ''activity'') (pl_excluded p)),
               sr_summaries = summaries, sr_relationships = edge_results detail p bp,
               sr_empty_summaries = ro_empty ro, sr_fingerprint = [] \<rparr> in
     Inr (r\<lparr>sr_fingerprint := fingerprint_result sha r\<rparr>)))))"

end
