(* ===== verification/Plan_Edges.thy ===== *)
theory Plan_Edges
  imports Plan
begin

section \<open>The edges of the planned network (\<open>core/engine/plan.py\<close>)\<close>

text \<open>
  Which relationships the network carries, on which calendar each lag is consumed, and the edges
  that stand for a zero-lag path through an inactive activity. A lookup of a row the source has
  is by identifier and can raise \<open>KeyError\<close>. \<open>uuid5\<close> is the name-based identifier of the standard
  library under the URL namespace, a digest and hence a parameter.
\<close>

subsection \<open>Boundaries through inactive rows\<close>

definition zero_lag_fs_relationship :: "relationship \<Rightarrow> bool" where
  "zero_lag_fs_relationship r \<longleftrightarrow> rl_type r = FS \<and> \<not> rl_cross_project r
     \<and> (case rl_lag r of None \<Rightarrow> True | Some l \<Rightarrow> du_seconds l = 0 \<and> \<not> du_elapsed l)"

definition no_percent :: "activity \<Rightarrow> bool" where
  "no_percent a \<longleftrightarrow> (let p = ac_percent_complete a in
     pc_duration_permille p = 0 \<and> pc_work_permille p = 0 \<and> pc_physical_permille p = 0 \<and> pc_units_permille p = 0)"

definition asap_only :: "activity \<Rightarrow> bool" where
  "asap_only a \<longleftrightarrow> (case ac_primary_constraint a of None \<Rightarrow> True | Some c \<Rightarrow> con_type c = ASAP)
     \<and> ac_secondary_constraint a = None"

definition not_elapsed :: "duration option \<Rightarrow> bool" where
  "not_elapsed d \<longleftrightarrow> (case d of None \<Rightarrow> True | Some d \<Rightarrow> \<not> du_elapsed d)"

definition inactive_boundary_endpoint_is_measured :: "activity \<Rightarrow> bool" where
  "inactive_boundary_endpoint_is_measured a \<longleftrightarrow> ac_active a \<and> \<not> ac_manual a \<and> ac_actual_start a = None
     \<and> ac_actual_finish a = None \<and> ac_suspend a = None \<and> ac_resume a = None \<and> no_percent a \<and> asap_only a
     \<and> not_elapsed (ac_planned_duration a) \<and> not_elapsed (ac_remaining_duration a)"

definition inactive_middle_is_measured :: "activity \<Rightarrow> bool" where
  "inactive_middle_is_measured a \<longleftrightarrow> \<not> ac_active a \<and> ac_kind a = TASK \<and> \<not> ac_manual a \<and> ac_actual_start a = None
     \<and> ac_actual_finish a = None \<and> ac_suspend a = None \<and> ac_resume a = None \<and> no_percent a \<and> asap_only a
     \<and> ac_planned_duration a \<noteq> None \<and> not_elapsed (ac_planned_duration a) \<and> not_elapsed (ac_remaining_duration a)
     \<and> ac_source_fields a ''duration_unsupported_source'' = None
     \<and> ac_source_fields a ''duration_format_unsupported_source'' = None
     \<and> ac_source_fields a ''is_null_source'' \<noteq> Some ''1''"

definition inactive_rows :: "placement \<Rightarrow> uuid list" where
  "inactive_rows p = map xc_uid (filter (\<lambda>x. xc_code x = ''ACTIVITY_INACTIVE'') (pm_excluded p))"

text \<open>\<open>sorted(inactive, key=str)\<close>.\<close>

definition inactive_order :: "placement \<Rightarrow> uuid list" where
  "inactive_order p = sort_key uuid_text (dict_keys (inactive_rows p))"

text \<open>A scheduled predecessor of more than one inactive row that leads back to scheduled work.\<close>

definition boundary_pairs :: "schedule \<Rightarrow> placement \<Rightarrow> (uuid \<times> uuid) list" where
  "boundary_pairs s p =
     concat (map (\<lambda>b. if list_ex (\<lambda>r. rl_successor_uid r \<in> set (scheduled p)) (raw_outgoing s b)
                      then map (\<lambda>r. (rl_predecessor_uid r, b)) (filter (\<lambda>r. rl_predecessor_uid r \<in> set (scheduled p)) (raw_incoming s b))
                      else []) (inactive_order p))"

definition unsupported_boundary_predecessor :: "schedule \<Rightarrow> placement \<Rightarrow> uuid \<Rightarrow> bool" where
  "unsupported_boundary_predecessor s p u \<longleftrightarrow>
     1 < length (dict_keys (map snd (filter (\<lambda>x. fst x = u) (boundary_pairs s p))))"

definition source_activity :: "schedule \<Rightarrow> uuid \<Rightarrow> activity result" where
  "source_activity s u = (case sc_activity_by_uid s u of None \<Rightarrow> Inl KeyError | Some a \<Rightarrow> Inr a)"

text \<open>The edge into an inactive row and the edges out of it, when the shape is the measured one.\<close>

definition boundary_candidate ::
    "schedule \<Rightarrow> placement \<Rightarrow> uuid \<Rightarrow> (relationship \<times> relationship list) option result" where
  "boundary_candidate s p b =
     rbind (source_activity s b) (\<lambda>middle.
      if \<not> inactive_middle_is_measured middle then Inr None
      else
        (let ins = filter (\<lambda>r. rl_predecessor_uid r \<in> set (scheduled p)) (raw_incoming s b);
             outs = filter (\<lambda>r. rl_successor_uid r \<in> set (scheduled p)) (raw_outgoing s b) in
         if length ins \<noteq> 1 \<or> length outs \<notin> {1, 2} then Inr None
         else
           (let e = hd ins in
            if unsupported_boundary_predecessor s p (rl_predecessor_uid e) \<or> \<not> zero_lag_fs_relationship e
               \<or> list_ex (\<lambda>r. \<not> zero_lag_fs_relationship r) outs then Inr None
            else
              rbind (source_activity s (rl_predecessor_uid e)) (\<lambda>predecessor.
              rbind (rmap (\<lambda>r. source_activity s (rl_successor_uid r)) outs) (\<lambda>successors.
              Inr (if \<not> inactive_boundary_endpoint_is_measured predecessor
                      \<or> list_ex (\<lambda>a. \<not> inactive_boundary_endpoint_is_measured a) successors
                      \<or> list_ex (\<lambda>r. rl_successor_uid r \<in> set (map rl_successor_uid outs))
                          (filter (\<lambda>r. rl_successor_uid r \<in> set (scheduled p)) (raw_outgoing s (rl_predecessor_uid e)))
                      \<or> list_ex (\<lambda>r. length (filter (\<lambda>i. rl_predecessor_uid i \<in> set (inactive_rows p))
                            (raw_incoming s (rl_successor_uid r))) \<noteq> 1) outs
                   then None else Some (e, outs)))))))"

type_synonym boundary_table = "(uuid \<times> relationship \<times> relationship list) list"

definition boundary_candidates :: "schedule \<Rightarrow> placement \<Rightarrow> boundary_table result" where
  "boundary_candidates s p =
     rbind (rmap (\<lambda>b. rbind (boundary_candidate s p b) (\<lambda>c. Inr (case c of None \<Rightarrow> [] | Some x \<Rightarrow> [(b, x)]))) (inactive_order p))
       (\<lambda>xs. Inr (concat xs))"

subsection \<open>The calendar of a lag\<close>

text \<open>The successor's own task calendar or the project's; the flag says that it is the project's.\<close>

definition lag_calendar_of :: "calendars \<Rightarrow> schedule \<Rightarrow> uuid \<Rightarrow> (compiled_intervals option \<times> bool) result" where
  "lag_calendar_of cals s u =
     rbind (source_activity s u) (\<lambda>a.
       let named = (case ac_calendar_uid a of Some c \<Rightarrow> Some c | None \<Rightarrow> ps_default_calendar_uid (sc_project s)) in
       Inr (case named of None \<Rightarrow> None | Some c \<Rightarrow> map_option cc_intervals (map_of cals c), ac_calendar_uid a = None))"

definition planned_calendar :: "placement \<Rightarrow> uuid \<Rightarrow> compiled_intervals result" where
  "planned_calendar p u =
     (case map_of (rev (map (\<lambda>a. (pa_uid a, pa_calendar a)) (pm_activities p))) u of None \<Rightarrow> Inl KeyError | Some c \<Rightarrow> Inr c)"

datatype lag_choice = LagUnresolved | LagOn "compiled_intervals option" bool

definition lag_seconds :: "relationship \<Rightarrow> int" where
  "lag_seconds r = (case rl_lag r of None \<Rightarrow> 0 | Some l \<Rightarrow> du_seconds l)"

text \<open>The branches over the lag policy; the flag of \<open>LagOn\<close> asks for the project-calendar label.\<close>

definition choose_lag :: "calendars \<Rightarrow> schedule \<Rightarrow> compiled_intervals \<Rightarrow> placement \<Rightarrow> relationship \<Rightarrow> lag_choice result" where
  "choose_lag cals s continuous p r =
     (let inherited = (rl_lag_calendar r = INHERIT_PROJECT_POLICY);
          declared = (if inherited then ps_lag_calendar_policy (sc_project s) else rl_lag_calendar r);
          policy = (if \<not> not_elapsed (rl_lag r) then ELAPSED_24H else declared) in
      if lag_seconds r = 0 then Inr (LagOn None False)
      else if policy = ELAPSED_24H then Inr (LagOn (Some continuous) False)
      else if policy = LAG_SUCCESSOR \<and> \<not> inherited then
        rbind (planned_calendar p (rl_successor_uid r)) (\<lambda>c. Inr (LagOn (Some c) False))
      else if policy = LAG_SUCCESSOR then
        rbind (lag_calendar_of cals s (rl_successor_uid r)) (\<lambda>(c, on_project).
          Inr (if c = None then LagUnresolved else LagOn c on_project))
      else if policy = LAG_PREDECESSOR then
        rbind (planned_calendar p (rl_predecessor_uid r)) (\<lambda>c. Inr (LagOn (Some c) False))
      else if policy = LAG_PROJECT then
        Inr (case ps_default_calendar_uid (sc_project s) of
               None \<Rightarrow> LagUnresolved
             | Some u \<Rightarrow> (case map_of cals u of None \<Rightarrow> LagUnresolved | Some cc \<Rightarrow> LagOn (Some (cc_intervals cc)) False))
      else Inr LagUnresolved)"

subsection \<open>The loop over the relationships\<close>

record edge_plan =
  ep_relationships :: "planned_relationship list"
  ep_excluded :: "exclusion list"
  ep_assumed :: "assumption list"
  ep_labelled :: "uuid list"

definition edge_exclusion :: "relationship \<Rightarrow> string \<Rightarrow> exclusion" where
  "edge_exclusion r code = \<lparr> xc_uid = rl_uid r, xc_kind = ''relationship'', xc_code = code \<rparr>"

definition plan_edge ::
    "calendars \<Rightarrow> schedule \<Rightarrow> compiled_intervals \<Rightarrow> placement \<Rightarrow> uuid set \<Rightarrow> relationship \<Rightarrow> edge_plan \<Rightarrow> edge_plan result" where
  "plan_edge cals s continuous p supported r e =
     (let known = set (scheduled p); succ = rl_successor_uid r in
      if rl_predecessor_uid r \<notin> known \<or> succ \<notin> known then
        (let e' = e\<lparr>ep_excluded := ep_excluded e @ [edge_exclusion r ''RELATIONSHIP_ENDPOINT_NOT_SCHEDULED'']\<rparr> in
         Inr (if rl_predecessor_uid r \<in> set (inactive_rows p) \<and> succ \<in> known \<and> rl_uid r \<notin> supported
                 \<and> succ \<notin> set (ep_labelled e)
              then e'\<lparr>ep_labelled := ep_labelled e @ [succ],
                      ep_assumed := ep_assumed e @ [\<lparr> am_uid = succ, am_kind = ''activity'',
                        am_code = ''ACTIVITY_SUCCESSOR_OF_INACTIVE'' \<rparr>]\<rparr>
              else e'))
      else
        rbind (choose_lag cals s continuous p r) (\<lambda>choice. Inr (case choice of
            LagUnresolved \<Rightarrow>
              e\<lparr>ep_excluded := ep_excluded e @ [edge_exclusion r ''RELATIONSHIP_LAG_CALENDAR_UNRESOLVED'']\<rparr>
          | LagOn c on_project \<Rightarrow>
              e\<lparr>ep_assumed := ep_assumed e @ (if on_project then [\<lparr> am_uid = rl_uid r, am_kind = ''relationship'',
                  am_code = ''RELATIONSHIP_LAG_ON_PROJECT_CALENDAR'' \<rparr>] else []),
                ep_relationships := ep_relationships e @ [\<lparr> pr_uid = rl_uid r, pr_predecessor_uid = rl_predecessor_uid r,
                  pr_successor_uid = succ, pr_type = rl_type r, pr_lag = lag_seconds r, pr_lag_calendar = c,
                  pr_inactive_boundary_uid = None \<rparr>]\<rparr>)))"

definition boundary_supported :: "boundary_table \<Rightarrow> uuid set" where
  "boundary_supported bs = set (map rl_uid (concat (map (\<lambda>(b, e, outs). outs) bs)))"

definition plan_edges ::
    "calendars \<Rightarrow> schedule \<Rightarrow> compiled_intervals \<Rightarrow> placement \<Rightarrow> boundary_table \<Rightarrow> edge_plan result" where
  "plan_edges cals s continuous p bs =
     rfold (plan_edge cals s continuous p (boundary_supported bs)) (sc_relationships s)
       \<lparr> ep_relationships = [], ep_excluded = [], ep_assumed = [], ep_labelled = [] \<rparr>"

subsection \<open>Derived edges\<close>

definition boundary_name :: "uuid \<Rightarrow> uuid \<Rightarrow> uuid \<Rightarrow> string" where
  "boundary_name pred b succ =
     ''sto:native-inactive-boundary:'' @ uuid_text pred @ '':'' @ uuid_text b @ '':'' @ uuid_text succ"

definition derived_uid :: "(string \<Rightarrow> uuid) \<Rightarrow> uuid \<Rightarrow> uuid \<Rightarrow> uuid \<Rightarrow> uuid" where
  "derived_uid uuid5 pred b succ = uuid5 (boundary_name pred b succ)"

definition derived_row ::
    "(string \<Rightarrow> uuid) \<Rightarrow> uuid \<Rightarrow> relationship \<Rightarrow> relationship \<Rightarrow> planned_relationship \<times> derived_relationship" where
  "derived_row uuid5 b e out =
     (let u = derived_uid uuid5 (rl_predecessor_uid e) b (rl_successor_uid out) in
      (\<lparr> pr_uid = u, pr_predecessor_uid = rl_predecessor_uid e, pr_successor_uid = rl_successor_uid out, pr_type = FS,
         pr_lag = 0, pr_lag_calendar = None, pr_inactive_boundary_uid = Some b \<rparr>,
       \<lparr> dr_uid = u, dr_code = NATIVE_INACTIVE_BOUNDARY_CODE, dr_inactive_boundary_uid = b,
         dr_source_predecessor_relationship_uid = rl_uid e, dr_source_successor_relationship_uid = rl_uid out,
         dr_predecessor_uid = rl_predecessor_uid e, dr_successor_uid = rl_successor_uid out \<rparr>))"

definition boundary_key :: "uuid \<times> relationship \<times> relationship list \<Rightarrow> string" where
  "boundary_key x = uuid_text (fst x)"

definition derived_rows :: "(string \<Rightarrow> uuid) \<Rightarrow> boundary_table \<Rightarrow> (planned_relationship \<times> derived_relationship) list" where
  "derived_rows uuid5 bs =
     concat (map (\<lambda>(b, e, outs). map (derived_row uuid5 b e) outs) (sort_key boundary_key bs))"

text \<open>The edges at an activity, an edge to itself twice.\<close>

definition incident_edges :: "planned_relationship list \<Rightarrow> uuid \<Rightarrow> planned_relationship list" where
  "incident_edges rs u =
     concat (map (\<lambda>r. (if pr_predecessor_uid r = u then [r] else []) @ (if pr_successor_uid r = u then [r] else [])) rs)"

subsection \<open>The hierarchy\<close>

text \<open>Every node with its children, nested nodes and activities together in source sequence.\<close>

definition gathered_children :: "schedule \<Rightarrow> uuid \<Rightarrow> (int \<times> uuid) list" where
  "gathered_children s u =
     map (\<lambda>n. (wn_seq n, wn_uid n)) (filter (\<lambda>n. wn_parent_uid n = Some u) (sc_wbs_nodes s))
     @ map (\<lambda>a. (ac_seq a, ac_uid a)) (filter (\<lambda>a. ac_wbs_uid a = Some u) (sc_activities s))"

definition child_key :: "int \<times> uuid \<Rightarrow> int \<times> string" where
  "child_key x = (fst x, uuid_text (snd x))"

definition wbs_children :: "schedule \<Rightarrow> hierarchy" where
  "wbs_children s =
     map (\<lambda>u. (u, map snd (sort_key child_key (gathered_children s u))))
       (dict_keys (map wn_uid (sc_wbs_nodes s)))"

text \<open>The status time, and whether a declared one lies outside the window.\<close>

definition plan_status :: "int \<Rightarrow> int \<Rightarrow> moment \<Rightarrow> moment option \<Rightarrow> int option \<times> bool" where
  "plan_status start end_of_window epoch status_date =
     (case status_date of
        None \<Rightarrow> (None, False)
      | Some d \<Rightarrow> (let c = seconds_from epoch d in
          if start \<le> c \<and> c \<le> end_of_window then (Some c, False) else (None, True)))"

end
