(* ===== verification/Decimals.thy ===== *)
theory Decimals
  imports Dates
begin

section \<open>Decimal numbers in text\<close>

text \<open>
  What the code uses of \<open>decimal.Decimal\<close>: reading a text, multiplying by an integer in the default
  context and comparing with an integer. A finite decimal is a coefficient and a power of ten; a
  text that is no number, an infinity or a NaN reads as \<open>None\<close>, as every use of the code treats
  them alike. The context keeps 28 digits, rounding half to even, and raises when the exponent of a
  product leaves its range (\<open>decimal.Overflow\<close>, here \<open>OverflowError\<close>).
\<close>

definition is_digit :: "char \<Rightarrow> bool" where
  "is_digit c \<longleftrightarrow> digit_value c \<noteq> None"

definition digits_int :: "string \<Rightarrow> int" where
  "digits_int cs = fold (\<lambda>c acc. acc * 10 + (case digit_value c of None \<Rightarrow> 0 | Some v \<Rightarrow> v)) cs 0"

definition take_sign :: "string \<Rightarrow> int \<times> string" where
  "take_sign s = (case s of [] \<Rightarrow> (1, [])
     | c # cs \<Rightarrow> (if c = CHR ''-'' then (- 1, cs) else if c = CHR ''+'' then (1, cs) else (1, c # cs)))"

definition parse_exponent :: "string \<Rightarrow> int option" where
  "parse_exponent s = (case s of
       [] \<Rightarrow> Some 0
     | c # cs \<Rightarrow> (if c \<noteq> CHR ''e'' \<and> c \<noteq> CHR ''E'' then None
         else case take_sign cs of (sg, ds) \<Rightarrow>
           if ds = [] \<or> \<not> list_all is_digit ds then None else Some (sg * digits_int ds)))"

definition max_exponent :: int where "max_exponent = 999999999999999999"

function digit_count :: "int \<Rightarrow> nat" where
  "digit_count n = (if n < 10 then 1 else Suc (digit_count (n div 10)))"
  by pat_completeness auto
termination by (relation "measure nat") auto

declare digit_count.simps [simp del]

text \<open>Coefficient and exponent of the text.\<close>

definition parse_decimal :: "string \<Rightarrow> (int \<times> int) option" where
  "parse_decimal s =
     (case take_sign (filter (\<lambda>c. c \<noteq> CHR ''_'') (strip_space s)) of (sg, u) \<Rightarrow>
      let ip = takeWhile is_digit u; v = dropWhile is_digit u;
          dot = (v \<noteq> [] \<and> hd v = CHR ''.'');
          fp = (if dot then takeWhile is_digit (tl v) else []);
          w = (if dot then dropWhile is_digit (tl v) else v);
          c = digits_int (ip @ fp) in
      if ip = [] \<and> fp = [] then None
      else case parse_exponent w of
          None \<Rightarrow> None
        | Some x \<Rightarrow> (let e = x - int (length fp) in
            if c \<noteq> 0 \<and> e + int (digit_count c) - 1 > max_exponent then None else Some (sg * c, e)))"

text \<open>Rounding a coefficient to 28 digits.\<close>

definition round_context :: "int \<times> int \<Rightarrow> int \<times> int" where
  "round_context d =
     (case d of (c, e) \<Rightarrow>
      let k = digit_count \<bar>c\<bar> - 28; m = 10 ^ k; q = \<bar>c\<bar> div m; r = \<bar>c\<bar> mod m;
          q' = (if 2 * r > m \<or> 2 * r = m \<and> odd q then q + 1 else q)
      in if k = 0 then (c, e) else (sgn c * q', e + int k))"

definition decimal_times :: "int \<times> int \<Rightarrow> int \<Rightarrow> (int \<times> int) result" where
  "decimal_times d n =
     (case round_context (fst d * n, snd d) of (c, e) \<Rightarrow>
      raise_if (c \<noteq> 0 \<and> e + int (digit_count \<bar>c\<bar>) - 1 > 999999) OverflowError (Inr (c, e)))"

definition decimal_is :: "int \<times> int \<Rightarrow> int \<Rightarrow> bool" where
  "decimal_is d n \<longleftrightarrow> (case d of (c, e) \<Rightarrow> if 0 \<le> e then c * 10 ^ nat e = n else c = n * 10 ^ nat (- e))"

end
