(* ===== verification/Plan_Evidence.thy ===== *)
theory Plan_Evidence
  imports Plan_Edges Decimals
begin

section \<open>The measured shapes (\<open>core/engine/plan.py\<close>)\<close>

text \<open>
  Three bounded rules apply only to rows whose shape was measured: assignments placed on their own
  calendars (the envelope), float counted on the clock (the elapsed float), and late dates of work
  under way. Each is a conjunction over the source rows.
\<close>

subsection \<open>Assignment envelopes\<close>

text \<open>An interval from seven to seventeen o'clock of its day, clipped to the window.\<close>

definition ten_hour_interval :: "moment \<Rightarrow> int \<times> int \<Rightarrow> int \<times> int \<Rightarrow> bool result" where
  "ten_hour_interval epoch window i =
     rbind (add_micros epoch (fst i * 1000000)) (\<lambda>m.
       let day = midnight_of (date_of m) in
       Inr (i = (max (seconds_from epoch (day + 7 * 3600000000)) (fst window),
                 min (seconds_from epoch (day + 17 * 3600000000)) (snd window))))"

definition next_day :: "moment \<Rightarrow> (int \<times> int) \<times> (int \<times> int) \<Rightarrow> bool result" where
  "next_day epoch p =
     rbind (add_micros epoch (fst (snd p) * 1000000)) (\<lambda>right.
     rbind (add_micros epoch (fst (fst p) * 1000000)) (\<lambda>left. Inr (date_of right - date_of left = 1)))"

definition resource_class :: "calendars \<Rightarrow> moment \<Rightarrow> int \<times> int \<Rightarrow> uuid \<Rightarrow> string option result" where
  "resource_class cals epoch window u =
     (case map_of cals u of
        None \<Rightarrow> Inr None
      | Some cc \<Rightarrow>
          (let ivs = intervals (cc_intervals cc) in
           if length ivs = 1 \<and> hd ivs = window then Inr (Some ''24H'')
           else if length ivs < 2 then Inr None
           else rbind (rall (ten_hour_interval epoch window) ivs) (\<lambda>ten.
                if \<not> ten then Inr None
                else rbind (rall (next_day epoch) (zip ivs (tl ivs))) (\<lambda>daily.
                Inr (if daily then Some ''10H'' else None)))))"

definition measured_shapes :: "(int \<times> int \<times> int \<times> int) list" where
  "measured_shapes = [(14400, 7200, 1, 1), (14400, 14400, 1, 1), (28800, 14400, 1, 1), (28800, 14400, 1, 2),
     (14400, 10800, 1, 1), (43200, 21600, 1, 1)]"

definition zero_or_none :: "duration option \<Rightarrow> bool" where
  "zero_or_none d \<longleftrightarrow> (case d of None \<Rightarrow> True | Some d \<Rightarrow> du_seconds d = 0)"

definition envelope_activity :: "activity \<Rightarrow> bool" where
  "envelope_activity a \<longleftrightarrow> ac_kind a = TASK \<and> ac_active a \<and> \<not> ac_manual a \<and> ac_actual_start a = None
     \<and> ac_actual_finish a = None \<and> ac_suspend a = None \<and> ac_resume a = None \<and> zero_or_none (ac_actual_work a)
     \<and> ac_duration_type a = FIXED_UNITS \<and> \<not> ac_effort_driven a \<and> ac_calendar_uid a = None
     \<and> ac_source_fields a ''ignore_resource_calendar_source'' \<in> {None, Some ''0''}
     \<and> ac_primary_constraint a = None \<and> ac_secondary_constraint a = None \<and> ac_levelling_delay_seconds a = 0
     \<and> ac_planned_duration a \<noteq> None \<and> not_elapsed (ac_planned_duration a) \<and> ac_planned_work a \<noteq> None
     \<and> ac_source_fields a ''work_unsupported_source'' = None \<and> ac_source_fields a ''work_ambiguous_source'' = None
     \<and> ac_remaining_duration a \<in> {None, ac_planned_duration a} \<and> no_percent a"

definition envelope_edges :: "schedule \<Rightarrow> planned_relationship list \<Rightarrow> uuid \<Rightarrow> bool" where
  "envelope_edges s rs u \<longleftrightarrow>
     (let incident = incident_edges rs u;
          raw = filter (\<lambda>r. rl_predecessor_uid r = u \<or> rl_successor_uid r = u) (sc_relationships s) in
      length raw = length incident
      \<and> length (filter (\<lambda>r. pr_successor_uid r = u) incident) = 1
      \<and> length (filter (\<lambda>r. pr_predecessor_uid r = u) incident) \<in> {1, 2}
      \<and> list_all (\<lambda>r. pr_type r = FS \<and> pr_lag r = 0 \<and> pr_inactive_boundary_uid r = None) incident
      \<and> list_all (\<lambda>r. not_elapsed (rl_lag r) \<and> rl_lag_calendar r \<noteq> ELAPSED_24H) raw)"

definition assignment_rows :: "schedule \<Rightarrow> uuid \<Rightarrow> assignment list" where
  "assignment_rows s u = filter (\<lambda>x. as_activity_uid x = Some u) (sc_assignments s)"

definition envelope_assignment :: "resource \<Rightarrow> uuid \<Rightarrow> assignment \<Rightarrow> bool" where
  "envelope_assignment r u x \<longleftrightarrow>
     (let field = as_source_fields x; w = as_work x in
      \<not> re_inactive r \<and> re_calendar_uid r \<noteq> None \<and> \<not> as_unassigned_placeholder x \<and> as_role_uid x = None
      \<and> as_curve_uid x = None \<and> as_timephased_ref x = None \<and> as_activity_uid x = Some u
      \<and> list_all (\<lambda>k. field k = Some ''0'') [''delay_tenths_minutes_source'', ''leveling_delay_tenths_minutes_source'',
           ''work_contour_source'', ''percent_work_complete_source'']
      \<and> list_all (\<lambda>k. field k = None) [''delay_ambiguous_source'', ''leveling_delay_ambiguous_source'',
           ''units_ambiguous_source'', ''work_ambiguous_source'', ''remaining_work_ambiguous_source'',
           ''actual_work_ambiguous_source'', ''percent_work_complete_ambiguous_source'', ''work_contour_ambiguous_source'']
      \<and> field ''actual_work_source_present'' = Some ''1'' \<and> wt_actual_seconds w = 0
      \<and> as_percent_work_complete_permille x = 0 \<and> 0 < wt_budgeted_seconds w
      \<and> wt_remaining_seconds w = wt_budgeted_seconds w \<and> 0 < ut_budgeted_permille (as_units x))"

text \<open>The units as the text gives them, times a thousand; \<open>None\<close> when there is no such number.\<close>

definition exact_units :: "string option \<Rightarrow> (int \<times> int) option result" where
  "exact_units lexeme =
     (case lexeme of
        None \<Rightarrow> Inr None
      | Some t \<Rightarrow> (case parse_decimal t of
          None \<Rightarrow> Inr None | Some d \<Rightarrow> rbind (decimal_times d 1000) (\<lambda>d. Inr (Some d))))"

text \<open>One row of the loop: its signature, its calendar and its placement.\<close>

definition envelope_row ::
    "calendars \<Rightarrow> schedule \<Rightarrow> moment \<Rightarrow> int \<times> int \<Rightarrow> uuid \<Rightarrow> assignment
     \<Rightarrow> ((string \<times> int \<times> int) \<times> uuid \<times> assignment_placement) option result" where
  "envelope_row cals s epoch window u x =
     (case (case as_resource_uid x of None \<Rightarrow> None | Some v \<Rightarrow> sc_resource_by_uid s v) of
        None \<Rightarrow> Inr None
      | Some r \<Rightarrow>
          (case re_calendar_uid r of
             None \<Rightarrow> Inr None
           | Some c \<Rightarrow>
               if \<not> envelope_assignment r u x then Inr None
               else rbind (resource_class cals epoch window c) (\<lambda>kind.
                    rbind (exact_units (as_source_fields x ''units_lexeme_source'')) (\<lambda>units.
                    let numerator = wt_budgeted_seconds (as_work x) * 1000; permille = ut_budgeted_permille (as_units x);
                        worked = numerator div permille in
                    Inr (case (kind, units, map_of cals c) of
                        (Some k, Some d, Some cc) \<Rightarrow>
                          (if decimal_is d permille \<and> numerator mod permille = 0
                           then Some ((k, worked, permille), c,
                             \<lparr> ap_uid = as_uid x, ap_resource_uid = re_uid r, ap_calendar = cc_intervals cc, ap_work_duration = worked \<rparr>)
                           else None)
                      | _ \<Rightarrow> None)))))"

definition envelope_key :: "assignment_placement \<Rightarrow> string" where
  "envelope_key x = uuid_text (ap_uid x)"

definition envelope_of ::
    "calendars \<Rightarrow> schedule \<Rightarrow> moment \<Rightarrow> int \<times> int \<Rightarrow> planned_relationship list \<Rightarrow> activity
     \<Rightarrow> assignment_placement list option result" where
  "envelope_of cals s epoch window rs a =
     (let u = ac_uid a; rows = assignment_rows s u;
          planned = (case ac_planned_duration a of None \<Rightarrow> 0 | Some d \<Rightarrow> du_seconds d);
          planned_work = (case ac_planned_work a of None \<Rightarrow> 0 | Some d \<Rightarrow> du_seconds d) in
      if \<not> envelope_activity a \<or> \<not> envelope_edges s rs u \<or> length rows \<noteq> 2
         \<or> planned_work \<noteq> sum_list (map (\<lambda>x. wt_budgeted_seconds (as_work x)) rows) then Inr None
      else rbind (rtake (envelope_row cals s epoch window u) rows) (\<lambda>found. Inr (case found of
          [((k1, d1, p1), c1, x1), ((k2, d2, p2), c2, x2)] \<Rightarrow>
            (if c1 \<noteq> c2 \<and> d1 = d2 \<and> sort [(k1, d1, p1), (k2, d2, p2)] = [(''10H'', d1, 1000), (''24H'', d1, 2000)]
                \<and> (planned, d1, 1, int (length (filter (\<lambda>r. pr_predecessor_uid r = u) (incident_edges rs u)))) \<in> set measured_shapes
             then Some (sort_key envelope_key [x1, x2]) else None)
        | _ \<Rightarrow> None)))"

text \<open>The rows whose calendars were united, and the envelopes found among them.\<close>

definition envelope_step ::
    "calendars \<Rightarrow> schedule \<Rightarrow> moment \<Rightarrow> int \<times> int \<Rightarrow> placement \<Rightarrow> assumption list \<Rightarrow> planned_relationship list \<Rightarrow> activity
     \<Rightarrow> (uuid \<times> assignment_placement list) list \<Rightarrow> (uuid \<times> assignment_placement list) list result" where
  "envelope_step cals s epoch window p assumed rs a found =
     (if ac_uid a \<notin> set (map am_uid (filter (\<lambda>x. am_code x = ''ACTIVITY_RESOURCE_CALENDARS_UNITED'') assumed))
         \<or> ac_uid a \<notin> set (scheduled p) then Inr found
      else rbind (envelope_of cals s epoch window rs a) (\<lambda>e. Inr (case e of None \<Rightarrow> found | Some x \<Rightarrow> (ac_uid a, x) # found)))"

definition envelopes ::
    "calendars \<Rightarrow> schedule \<Rightarrow> moment \<Rightarrow> int \<times> int \<Rightarrow> placement \<Rightarrow> assumption list \<Rightarrow> planned_relationship list
     \<Rightarrow> (uuid \<times> assignment_placement list) list result" where
  "envelopes cals s epoch window p assumed rs = rfold (envelope_step cals s epoch window p assumed rs) (sc_activities s) []"

definition with_envelopes :: "(uuid \<times> assignment_placement list) list \<Rightarrow> planned_activity list \<Rightarrow> planned_activity list" where
  "with_envelopes es = map (\<lambda>a. a\<lparr>pa_assignment_envelope := map_of es (pa_uid a)\<rparr>)"

definition without_united :: "(uuid \<times> assignment_placement list) list \<Rightarrow> assumption list \<Rightarrow> assumption list" where
  "without_united es = filter (\<lambda>x. \<not> (am_code x = ''ACTIVITY_RESOURCE_CALENDARS_UNITED'' \<and> am_uid x \<in> set (map fst es)))"

subsection \<open>Elapsed float\<close>

text \<open>The walk along the base calendars: it ends at a calendar without a base, or with a refusal.\<close>

function lineage_clear :: "calendar list \<Rightarrow> uuid list \<Rightarrow> uuid option \<Rightarrow> bool" where
  "lineage_clear cs seen u =
     (case u of
        None \<Rightarrow> True
      | Some v \<Rightarrow>
          if v \<in> set seen then False
          else (case calendar_by_uid cs v of
                  None \<Rightarrow> False
                | Some c \<Rightarrow>
                    if cal_source_fields c ''rc03_uid_ambiguous_source'' \<noteq> None then False
                    else lineage_clear cs (v # seen) (cal_base_uid c)))"
  by pat_completeness auto

termination
proof (relation "measure (\<lambda>(cs, seen, _). card (cal_uid ` set cs - set seen))", simp_all)
  fix cs :: "calendar list" and seen :: "uuid list" and v c
  assume "v \<notin> set seen" "calendar_by_uid cs v = Some c"
  then have "v \<in> cal_uid ` set cs - set seen" using calendar_by_uid_mem by blast
  then show "card (cal_uid ` set cs - insert v (set seen)) < card (cal_uid ` set cs - set seen)"
    by (intro psubset_card_mono) auto
qed

declare lineage_clear.simps [simp del]

definition absent :: "(string \<Rightarrow> string option) \<Rightarrow> string list \<Rightarrow> bool" where
  "absent field ks \<longleftrightarrow> list_all (\<lambda>k. field k = None) ks"

definition elapsed_float_activity :: "project_settings \<Rightarrow> activity \<Rightarrow> int \<Rightarrow> bool" where
  "elapsed_float_activity pr a seconds \<longleftrightarrow>
     (let field = ac_source_fields a in
      ac_kind a = TASK \<and> ac_active a \<and> \<not> ac_manual a
      \<and> (case (ac_planned_duration a, ac_remaining_duration a) of
           (Some d, Some e) \<Rightarrow> du_elapsed d \<and> du_elapsed e \<and> du_seconds d = 345600 \<and> du_seconds e = du_seconds d \<and> seconds = du_seconds d
         | _ \<Rightarrow> False)
      \<and> ac_duration_type a = FIXED_UNITS \<and> \<not> ac_effort_driven a \<and> ac_calendar_uid a = None
      \<and> (case ac_planned_work a of None \<Rightarrow> False | Some w \<Rightarrow> du_seconds w = seconds)
      \<and> ac_actual_start a = None \<and> ac_actual_finish a = None \<and> ac_suspend a = None \<and> ac_resume a = None
      \<and> absent field [''work_unsupported_source'', ''work_ambiguous_source'', ''rc03_eligibility_ambiguous_source'',
           ''rc03_shape_unsupported_source'', ''actual_work_unsupported_source'', ''actual_duration_unsupported_source'',
           ''remaining_work_unsupported_source'']
      \<and> absent (ps_source_fields pr) [''rc03_direction_ambiguous_source'']
      \<and> field ''remaining_work_source_lexeme'' = Some ''PT96H0M0S'' \<and> zero_or_none (ac_actual_duration a)
      \<and> field ''effort_driven_source'' = Some ''0'' \<and> field ''task_leveling_delay_source'' = Some ''0''
      \<and> ac_primary_constraint a = None \<and> ac_secondary_constraint a = None \<and> ac_deadline a = None
      \<and> ac_levelling_delay_seconds a = 0 \<and> field ''ignore_resource_calendar_source'' \<in> {None, Some ''0''}
      \<and> no_percent a \<and> zero_or_none (ac_actual_work a))"

definition elapsed_float_resource :: "calendars \<Rightarrow> calendar list \<Rightarrow> int \<times> int \<Rightarrow> resource \<Rightarrow> bool" where
  "elapsed_float_resource cals cs window r \<longleftrightarrow>
     \<not> re_inactive r \<and> \<not> re_is_role r \<and> re_type r = LABOR \<and> re_scheduling_class r = RENEWABLE
     \<and> re_source_fields r ''resource_type_source'' = Some ''1''
     \<and> absent (re_source_fields r) [''null_resource_source'', ''cost_resource_source'', ''rc03_resource_ambiguous_source'']
     \<and> re_source_fields r ''generic_resource_source'' = Some ''0''
     \<and> (case re_calendar_uid r of
          None \<Rightarrow> False
        | Some c \<Rightarrow> (case map_of cals c of
            None \<Rightarrow> False
          | Some cc \<Rightarrow> lineage_clear cs [] (Some c) \<and> intervals (cc_intervals cc) = [window]))"

definition elapsed_float_assignment :: "uuid \<Rightarrow> int \<Rightarrow> assignment \<Rightarrow> bool" where
  "elapsed_float_assignment u seconds x \<longleftrightarrow>
     (let field = as_source_fields x; w = as_work x in
      as_activity_uid x = Some u \<and> \<not> as_unassigned_placeholder x \<and> as_role_uid x = None \<and> as_curve_uid x = None
      \<and> as_timephased_ref x = None \<and> ut_budgeted_permille (as_units x) = 1000
      \<and> (case field ''units_lexeme_source'' of
           None \<Rightarrow> False | Some t \<Rightarrow> (case parse_decimal t of None \<Rightarrow> False | Some d \<Rightarrow> decimal_is d 1))
      \<and> wt_budgeted_seconds w = seconds \<and> wt_remaining_seconds w = seconds \<and> wt_actual_seconds w = 0
      \<and> field ''actual_work_source_present'' = Some ''1''
      \<and> field ''timephased_work_shape_source'' = Some ''four-contiguous-24h''
      \<and> absent field [''rc03_eligibility_ambiguous_source'', ''delay_ambiguous_source'', ''leveling_delay_ambiguous_source'',
           ''start_ambiguous_source'', ''finish_ambiguous_source'', ''assignment_uid_ambiguous_source'',
           ''task_ref_ambiguous_source'', ''resource_ref_ambiguous_source'', ''units_ambiguous_source'',
           ''work_ambiguous_source'', ''remaining_work_ambiguous_source'', ''actual_work_ambiguous_source'',
           ''percent_work_complete_ambiguous_source'', ''work_contour_ambiguous_source'', ''work_unsupported_source'',
           ''remaining_work_unsupported_source'', ''actual_work_unsupported_source'']
      \<and> as_percent_work_complete_permille x = 0
      \<and> list_all (\<lambda>k. field k = Some ''0'') [''percent_work_complete_source'', ''work_contour_source'',
           ''delay_tenths_minutes_source'', ''leveling_delay_tenths_minutes_source''])"

text \<open>Equality of two \<open>Counter\<close>s: each row as often in the one list as in the other.\<close>

definition same_counts :: "'a list \<Rightarrow> 'a list \<Rightarrow> bool" where
  "same_counts xs ys \<longleftrightarrow> list_all (\<lambda>x. count_list xs x = count_list ys x) (xs @ ys)"

definition elapsed_float_edges :: "schedule \<Rightarrow> planned_relationship list \<Rightarrow> uuid \<Rightarrow> bool" where
  "elapsed_float_edges s rs u \<longleftrightarrow>
     (let raw = raw_incoming s u @ raw_outgoing s u; incident = incident_edges rs u in
      length (raw_incoming s u) = 1 \<and> length (raw_outgoing s u) \<in> {1, 2}
      \<and> distinct (map (\<lambda>r. (rl_predecessor_uid r, rl_successor_uid r, rl_type r)) raw)
      \<and> list_all (\<lambda>r. zero_lag_fs_relationship r \<and> rl_lag_calendar r = INHERIT_PROJECT_POLICY) raw
      \<and> list_all (\<lambda>r. case rl_lag r of None \<Rightarrow> False | Some l \<Rightarrow> du_source_format_code l = Some 7) raw
      \<and> list_all (\<lambda>r. absent (rl_source_fields r) [''rc03_eligibility_ambiguous_source'']) raw
      \<and> list_all (\<lambda>v. case sc_activity_by_uid s v of None \<Rightarrow> False
           | Some b \<Rightarrow> absent (ac_source_fields b) [''rc03_eligibility_ambiguous_source''])
           (concat (map (\<lambda>r. [rl_predecessor_uid r, rl_successor_uid r]) raw))
      \<and> list_all (\<lambda>r. pr_inactive_boundary_uid r = None) incident
      \<and> same_counts (map (\<lambda>r. (pr_uid r, pr_predecessor_uid r, pr_successor_uid r, pr_type r, pr_lag r)) incident)
          (map (\<lambda>r. (rl_uid r, rl_predecessor_uid r, rl_successor_uid r, rl_type r, lag_seconds r)) raw))"

definition elapsed_float ::
    "calendars \<Rightarrow> schedule \<Rightarrow> int \<times> int \<Rightarrow> planned_relationship list \<Rightarrow> activity \<Rightarrow> bool" where
  "elapsed_float cals s window rs a \<longleftrightarrow>
     (let seconds = duration_seconds a in
      elapsed_float_activity (sc_project s) a seconds
      \<and> (case assignment_rows s (ac_uid a) of
           [x] \<Rightarrow> elapsed_float_assignment (ac_uid a) seconds x
             \<and> (case (case as_resource_uid x of None \<Rightarrow> None | Some v \<Rightarrow> sc_resource_by_uid s v) of
                  None \<Rightarrow> False | Some r \<Rightarrow> elapsed_float_resource cals (sc_calendars s) window r)
         | _ \<Rightarrow> False)
      \<and> elapsed_float_edges s rs (ac_uid a))"

definition elapsed_float_uids ::
    "calendars \<Rightarrow> schedule \<Rightarrow> bool \<Rightarrow> int \<times> int \<Rightarrow> placement \<Rightarrow> planned_relationship list \<Rightarrow> uuid list" where
  "elapsed_float_uids cals s apply_resources window p rs =
     (if apply_resources
      then map ac_uid (filter (\<lambda>a. ac_uid a \<in> set (scheduled p) \<and> elapsed_float cals s window rs a) (sc_activities s))
      else [])"

definition with_elapsed_float :: "uuid list \<Rightarrow> planned_activity list \<Rightarrow> planned_activity list" where
  "with_elapsed_float us = map (\<lambda>a. if pa_uid a \<in> set us then a\<lparr>pa_float_basis := ''elapsed''\<rparr> else a)"

subsection \<open>Work under way\<close>

definition fails :: "bool \<Rightarrow> string \<Rightarrow> string list" where
  "fails c text = (if c then [text] else [])"

definition percent_reported :: "activity \<Rightarrow> bool" where
  "percent_reported a \<longleftrightarrow> \<not> no_percent a"

text \<open>The static half: \<open>None\<close> when the activity is not under way, else what is outside the shape.\<close>

definition static_failures ::
    "activity \<Rightarrow> assignment list \<Rightarrow> uuid set \<Rightarrow> planned_relationship list \<Rightarrow> progress_policy \<Rightarrow> string list option" where
  "static_failures a xs resource_uids incident policy =
     (if ac_actual_start a = None \<or> ac_actual_finish a \<noteq> None then None
      else let field = ac_source_fields a in Some (
        (if field ''actual_duration_unsupported_source'' \<noteq> None then [''actual duration is unreadable'']
         else case ac_actual_duration a of
             None \<Rightarrow> [''actual duration is absent'']
           | Some d \<Rightarrow> (if du_seconds d \<noteq> 0 then [''actual duration is not measured zero'']
               else fails (du_elapsed d) ''actual duration is elapsed''))
        @ (case ac_remaining_duration a of
             None \<Rightarrow> [''remaining duration is absent'']
           | Some d \<Rightarrow> (if du_seconds d \<le> 0 then [''remaining duration is not strictly positive'']
               else fails (du_elapsed d) ''remaining duration is elapsed''))
        @ fails (\<not> not_elapsed (ac_planned_duration a)) ''planned duration is elapsed''
        @ (if field ''actual_work_unsupported_source'' \<noteq> None then [''task actual work is unreadable'']
           else case ac_actual_work a of
               None \<Rightarrow> [''task actual work is absent'']
             | Some d \<Rightarrow> fails (du_seconds d \<noteq> 0) ''task actual work is not measured zero'')
        @ fails (percent_reported a) ''reported percentage progress is outside the measured shape''
        @ fails ((ac_suspend a, ac_resume a) \<notin> {(None, None), (ac_actual_start a, ac_actual_start a)})
            ''Stop/Resume describes a split span''
        @ (case xs of
             [x] \<Rightarrow>
               fails (\<not> (as_activity_uid x = Some (ac_uid a) \<and> as_resource_uid x \<noteq> None
                     \<and> the (as_resource_uid x) \<in> resource_uids \<and> \<not> as_unassigned_placeholder x))
                 ''the measured assignment is not a resolved resource-backed assignment''
               @ (if as_source_fields x ''actual_work_unsupported_source'' \<noteq> None then [''assignment actual work is unreadable'']
                  else if as_source_fields x ''actual_work_source_present'' \<noteq> Some ''1'' then [''assignment actual work is absent'']
                  else fails (wt_actual_seconds (as_work x) \<noteq> 0) ''assignment actual work is not measured zero'')
               @ fails (as_percent_work_complete_permille x \<noteq> 0)
                   ''assignment percentage progress is outside the measured shape''
           | _ \<Rightarrow> [''assignment cardinality is outside the measured one-assignment shape''])
        @ fails (\<not> asap_only a) ''started work carries an unmeasured constraint''
        @ fails (filter (\<lambda>r. pr_successor_uid r = ac_uid a) incident = []
                 \<or> filter (\<lambda>r. pr_predecessor_uid r = ac_uid a) incident = [])
            ''the measured predecessor/successor shape is absent''
        @ fails (list_ex (\<lambda>r. pr_type r \<noteq> FS \<or> pr_lag r \<noteq> 0) incident) ''incident logic is not ordinary zero-lag FS''
        @ fails (policy \<noteq> RETAINED_LOGIC) ''the progress policy is not the measured retained logic''))"

text \<open>The dynamic half: the loop over the incoming edges breaks at the first one out of sequence.\<close>

fun out_of_sequence ::
    "planned_activity \<Rightarrow> int \<Rightarrow> (uuid \<Rightarrow> activity_times option) \<Rightarrow> planned_relationship list \<Rightarrow> bool result" where
  "out_of_sequence a actual early [] = Inr False"
| "out_of_sequence a actual early (r # rs) =
     (if pr_successor_uid r \<noteq> pa_uid a then out_of_sequence a actual early rs
      else case early (pr_predecessor_uid r) of
          None \<Rightarrow> Inl KeyError
        | Some p \<Rightarrow>
            rbind (shift_lag (lag_calendar_for r (pa_calendar a))
                (if anchors_predecessor_finish r then early_finish p else early_start p) (pr_lag r)) (\<lambda>landing.
              if (case landing of None \<Rightarrow> True | Some x \<Rightarrow> x > actual) then Inr True
              else out_of_sequence a actual early rs))"

definition dynamic_failures ::
    "planned_relationship list \<Rightarrow> (uuid \<Rightarrow> activity_times option) \<Rightarrow> planned_activity \<Rightarrow> progress_policy \<Rightarrow> int option
     \<Rightarrow> string list result" where
  "dynamic_failures incident early a policy status =
     (case pa_actual_start a of
        None \<Rightarrow> Inr [''Actual Start is absent from the planned activity'']
      | Some actual \<Rightarrow>
          rbind (out_of_sequence a actual early incident) (\<lambda>late.
          Inr (fails late ''incoming retained logic is out of sequence at Actual Start''
            @ fails (remaining_bound IN_PROGRESS policy actual status (Some actual) > actual)
                ''usable status date moves remaining work beyond Actual Start'')))"

end
