(* ===== verification/Plan_Build.thy ===== *)
theory Plan_Build
  imports Plan_Evidence
begin

section \<open>The plan (\<open>core/engine/plan.py\<close>)\<close>

text \<open>
  \<open>build_plan\<close> runs the stages of Plan, Plan_Edges and Plan_Evidence in the order of the source. The
  refusals of a whole plan are raised where the source raises them. The digest \<open>sha\<close> and the
  name-based identifier \<open>uuid5\<close> are parameters.
\<close>

subsection \<open>Labels of work under way\<close>

abbreviation late_assumption :: "uuid \<Rightarrow> assumption" where
  "late_assumption u \<equiv> \<lparr> am_uid = u, am_kind = ''activity'', am_code = ''ACTIVITY_IN_PROGRESS_LATE_DATES_ASSUMED'' \<rparr>"

text \<open>The scheduled activities under way, each with what is outside the static shape.\<close>

definition under_way :: "schedule \<Rightarrow> placement \<Rightarrow> planned_relationship list \<Rightarrow> (uuid \<times> string list) list" where
  "under_way s p rs =
     concat (map (\<lambda>a. case static_failures a (assignment_rows s (ac_uid a)) (set (map re_uid (sc_resources s)))
           (incident_edges rs (ac_uid a)) (ps_progress_policy (sc_project s)) of
         None \<Rightarrow> [] | Some f \<Rightarrow> [(ac_uid a, f)])
       (filter (\<lambda>a. ac_uid a \<in> set (scheduled p)) (sc_activities s)))"

definition static_assumptions :: "(uuid \<times> string list) list \<Rightarrow> assumption list" where
  "static_assumptions rows = map (\<lambda>x. late_assumption (fst x)) (filter (\<lambda>x. snd x \<noteq> []) rows)"

text \<open>The forward pass runs only when a row met the whole static shape.\<close>

definition dynamic_assumptions ::
    "(json \<Rightarrow> string) \<Rightarrow> network \<Rightarrow> bool \<Rightarrow> progress_policy \<Rightarrow> (uuid \<times> string list) list \<Rightarrow> assumption list result" where
  "dynamic_assumptions sha n snap policy rows =
     (let candidates = map fst (filter (\<lambda>x. snd x = []) rows) in
      if candidates = [] then Inr []
      else rbind (forward_pass sha n snap policy) (\<lambda>fp.
           rbind (rmap (\<lambda>u. case activity_by_uid n u of
                None \<Rightarrow> Inl KeyError
              | Some a \<Rightarrow> rbind (dynamic_failures (incident_edges (relationships n) u) (by_uid fp) a policy (status_time n))
                  (\<lambda>f. Inr (if f = [] then [] else [late_assumption u]))) candidates)
             (\<lambda>found. Inr (concat found))))"

subsection \<open>The network\<close>

definition plan_network ::
    "int \<Rightarrow> int \<Rightarrow> int option \<Rightarrow> placement \<Rightarrow> (uuid \<times> assignment_placement list) list \<Rightarrow> uuid list
     \<Rightarrow> planned_relationship list \<Rightarrow> network" where
  "plan_network start end_of_window status p es elapsed rs =
     \<lparr> activities = with_elapsed_float elapsed (with_envelopes es (pm_activities p)), relationships = rs,
       project_start = start, horizon = end_of_window, status_time = status \<rparr>"

text \<open>An assumption about an activity the plan does not schedule is refused.\<close>

definition assumed_elsewhere :: "placement \<Rightarrow> assumption list \<Rightarrow> bool" where
  "assumed_elsewhere p = list_ex (\<lambda>x. am_kind x = ''activity'' \<and> am_uid x \<notin> set (scheduled p))"

text \<open>From the placement on: edges, hierarchy, anchors, measured shapes, labels.\<close>

definition finish_plan ::
    "(json \<Rightarrow> string) \<Rightarrow> (string \<Rightarrow> uuid) \<Rightarrow> schedule \<Rightarrow> calendars \<Rightarrow> moment \<Rightarrow> int \<times> int \<Rightarrow> bool \<Rightarrow> placement \<Rightarrow> plan result" where
  "finish_plan sha uuid5 s cals epoch window apply_resources p =
     rbind (boundary_candidates s p) (\<lambda>bs.
     rbind (plan_edges cals s (ci_of [window]) p bs) (\<lambda>e.
     let project = sc_project s;
         derived = derived_rows uuid5 bs;
         rs = ep_relationships e @ map fst derived;
         snap = (ps_milestone_snap_policy project = NEXT_WORKING);
         policy = ps_progress_policy project in
     case ps_start project of
       None \<Rightarrow> Inl (plan_error ''PROJECT_START_MISSING'')
     | Some start_date \<Rightarrow>
         (let start = seconds_from epoch start_date;
              (status, outside) = plan_status start (snd window) epoch (ps_status_date project);
              assumed = pm_assumed p @ ep_assumed e in
          rbind (envelopes cals s epoch window p assumed rs) (\<lambda>es.
          let n = plan_network start (snd window) status p es (elapsed_float_uids cals s apply_resources window p rs) rs;
              rows = under_way s p rs in
          rbind (dynamic_assumptions sha n snap policy rows) (\<lambda>late.
          let final = without_united es assumed @ static_assumptions rows @ late in
          raise_if (assumed_elsewhere p final) ValueError
            (Inr \<lparr> pl_network = n, pl_epoch = epoch, pl_calendars = cals, pl_excluded = pm_excluded p @ ep_excluded e,
                   pl_assumed = final, pl_derived_relationships = map snd derived, pl_snap_milestones = snap,
                   pl_critical_float_threshold = ps_critical_float_threshold_seconds project, pl_progress_policy = policy,
                   pl_wbs_children = wbs_children s, pl_status_time_outside_window = outside,
                   pl_resource_calendars_apply = apply_resources \<rparr>))))))"

definition source_placement :: "schedule \<Rightarrow> calendars \<Rightarrow> moment \<Rightarrow> int \<times> int \<Rightarrow> bool \<Rightarrow> placement" where
  "source_placement s cals epoch window apply_resources =
     place_rows (plan_activity cals s apply_resources epoch (ci_of [window])) (sc_activities s)"

definition build_plan ::
    "(json \<Rightarrow> string) \<Rightarrow> (string \<Rightarrow> uuid) \<Rightarrow> schedule \<Rightarrow> moment \<times> moment \<Rightarrow> moment option \<Rightarrow> bool \<Rightarrow> plan result" where
  "build_plan sha uuid5 s h epoch apply_resources =
     rbind (compile_calendars sha (sc_calendars s) h epoch) (\<lambda>cals.
     case cals of
       [] \<Rightarrow> Inl (plan_error ''PROJECT_NO_CALENDARS'')
     | (_, cc) # _ \<Rightarrow>
         raise_if (ps_schedule_direction (sc_project s) \<noteq> DIRECTION_FROM_START) (plan_error ''PROJECT_SCHEDULED_FROM_FINISH'')
           (finish_plan sha uuid5 s cals (cc_epoch cc) (cc_horizon cc) apply_resources
             (cut_placement s (source_placement s cals (cc_epoch cc) (cc_horizon cc) apply_resources))))"

end
