(* ===== verification/Execution.thy ===== *)
theory Execution
  imports Result Incremental Plan_Build Rollup
begin

section \<open>Execution commands (\<open>core/execution.py\<close>)\<close>

text \<open>
  A command reports progress on one activity of a calculated document: it names the document by its
  hash, may add an actual start, an actual finish and a remaining duration, and answers the new
  document with its results. The digest of a document is the parameter \<open>doc_hash\<close>; the documents of the model
  carry the fields the calculation reads, the others never change here. Checks of the Python type of an
  argument are left out, and a time is whole when it has no microseconds.
\<close>

abbreviation execution_error :: "string \<Rightarrow> exc" where
  "execution_error code \<equiv> Coded ExecutionError code None"

record execution_change =
  ch_activity_uid :: uuid
  ch_expected_hash :: string
  ch_actual_start :: "moment option"
  ch_actual_finish :: "moment option"
  ch_remaining_seconds :: "int option"

record calculated_state =
  cs_schedule :: schedule
  cs_canonical_hash :: string
  cs_horizon :: "moment \<times> moment"
  cs_plan :: plan
  cs_forward :: forward_pass_result
  cs_backward :: backward_pass_result
  cs_result :: schedule_result
  cs_recalculation :: "recalculation option"

text \<open>What the calculation is parametric in: the digests, the name-based identifiers and the texts of plan rows.\<close>

record engine =
  en_sha :: "json \<Rightarrow> string"
  en_uuid5 :: "string \<Rightarrow> uuid"
  en_doc_hash :: "schedule \<Rightarrow> string"
  en_detail :: "schedule \<Rightarrow> string \<Rightarrow> uuid \<Rightarrow> string \<Rightarrow> string"

subsection \<open>Calculation\<close>

definition assemble ::
    "engine \<Rightarrow> schedule \<Rightarrow> string \<Rightarrow> moment \<times> moment \<Rightarrow> plan \<Rightarrow> forward_pass_result \<Rightarrow> backward_pass_result
     \<Rightarrow> recalculation option \<Rightarrow> calculated_state result" where
  "assemble g s canonical_hash h p fp bp recalc =
     rbind (float_analysis (en_sha g) (pl_network p) fp bp (pl_critical_float_threshold p)) (\<lambda>fa.
     let ro = roll_up (pl_wbs_children p) (\<lambda>u. map_option (\<lambda>t. (early_start t, early_finish t)) (by_uid fp u)) in
     rbind (project_result (en_sha g) (en_detail g s) p fp bp fa ro canonical_hash h) (\<lambda>r.
     Inr \<lparr> cs_schedule = s, cs_canonical_hash = canonical_hash, cs_horizon = h, cs_plan = p, cs_forward = fp,
           cs_backward = bp, cs_result = r, cs_recalculation = recalc \<rparr>))"

definition calculate_state ::
    "engine \<Rightarrow> schedule \<Rightarrow> moment \<times> moment \<Rightarrow> moment option \<Rightarrow> bool \<Rightarrow> calculated_state result" where
  "calculate_state g s h epoch apply_resources =
     rbind (build_plan (en_sha g) (en_uuid5 g) s h epoch apply_resources) (\<lambda>p.
     rbind (forward_pass (en_sha g) (pl_network p) (pl_snap_milestones p) (pl_progress_policy p)) (\<lambda>fp.
     rbind (backward_pass (en_sha g) (pl_network p) fp None None None) (\<lambda>bp.
     assemble g s (en_doc_hash g s) h p fp bp None)))"

subsection \<open>Guards\<close>

text \<open>The row the command may report on.\<close>

definition reportable_row :: "calculated_state \<Rightarrow> uuid \<Rightarrow> activity \<Rightarrow> bool" where
  "reportable_row st u a \<longleftrightarrow>
     ac_active a \<and> \<not> ac_manual a \<and> ac_kind a = TASK
     \<and> (case activity_by_uid (pl_network (cs_plan st)) u of None \<Rightarrow> False | Some q \<Rightarrow> \<not> is_milestone q)
     \<and> (case result_by_uid (cs_result st) u of None \<Rightarrow> False | Some row \<Rightarrow> ar_disposition row = SCHEDULED)"

definition split_second :: "moment option \<Rightarrow> bool" where
  "split_second m \<longleftrightarrow> (case m of None \<Rightarrow> False | Some x \<Rightarrow> x mod 1000000 \<noteq> 0)"

definition reported_activity :: "engine \<Rightarrow> calculated_state \<Rightarrow> execution_change \<Rightarrow> activity result" where
  "reported_activity g st change =
     raise_if (ch_expected_hash change \<noteq> cs_canonical_hash st \<or> cs_canonical_hash st \<noteq> en_doc_hash g (cs_schedule st))
       (execution_error ''EXECUTION_STALE_VERSION'')
     (case sc_activity_by_uid (cs_schedule st) (ch_activity_uid change) of
        None \<Rightarrow> Inl (execution_error ''EXECUTION_ACTIVITY_UNKNOWN'')
      | Some a \<Rightarrow>
          raise_if (\<not> reportable_row st (ch_activity_uid change) a) (execution_error ''EXECUTION_ACTIVITY_UNSUPPORTED'')
          (raise_if (ac_actual_finish a \<noteq> None) (execution_error ''EXECUTION_ALREADY_COMPLETE'')
          (raise_if (ps_progress_policy (sc_project (cs_schedule st)) = ACTUAL_DATES) (execution_error ''PROGRESS_POLICY_NOT_EVIDENCED'')
          (raise_if (case ac_remaining_duration a of None \<Rightarrow> False | Some d \<Rightarrow> du_elapsed d)
             (execution_error ''EXECUTION_ELAPSED_REMAINING_UNSUPPORTED'')
          (raise_if (split_second (ch_actual_start change) \<or> split_second (ch_actual_finish change))
             (execution_error ''EXECUTION_ACTUAL_TIME_INVALID'')
          (raise_if (case ch_remaining_seconds change of None \<Rightarrow> False | Some r \<Rightarrow> r < 0)
             (execution_error ''EXECUTION_REMAINING_INVALID'') (Inr a)))))))"

text \<open>\<open>a or b\<close> on optional datetimes.\<close>

definition or_else :: "'a option \<Rightarrow> 'a option \<Rightarrow> 'a option" where
  "or_else a b = (case a of None \<Rightarrow> b | Some x \<Rightarrow> Some x)"

definition replaces :: "'a option \<Rightarrow> 'a option \<Rightarrow> bool" where
  "replaces old new \<longleftrightarrow> new \<noteq> None \<and> old \<noteq> None \<and> new \<noteq> old"

text \<open>The remaining seconds the command sets, with the checks the actual dates ask for.\<close>

definition checked_remaining :: "activity \<Rightarrow> execution_change \<Rightarrow> moment option \<Rightarrow> moment option \<Rightarrow> int option result" where
  "checked_remaining a change start finish =
     (let rem = ch_remaining_seconds change in
      if finish \<noteq> None
      then raise_if (rem \<notin> {None, Some 0}) (execution_error ''EXECUTION_FINISHED_REMAINING_NONZERO'') (Inr (Some 0))
      else if start \<noteq> None
      then rbind (case rem of
               Some r \<Rightarrow> Inr r
             | None \<Rightarrow> (case ac_remaining_duration a of None \<Rightarrow> Inl AttributeError | Some d \<Rightarrow> Inr (du_seconds d)))
             (\<lambda>effective. raise_if (effective = 0) (execution_error ''EXECUTION_IN_PROGRESS_REMAINING_ZERO'') (Inr rem))
      else Inr rem)"

definition reported_progress ::
    "activity \<Rightarrow> execution_change \<Rightarrow> (moment option \<times> moment option \<times> int option) result" where
  "reported_progress a change =
     raise_if (replaces (ac_actual_start a) (ch_actual_start change)) (execution_error ''EXECUTION_ACTUAL_START_IMMUTABLE'')
     (raise_if (replaces (ac_actual_finish a) (ch_actual_finish change)) (execution_error ''EXECUTION_ACTUAL_FINISH_IMMUTABLE'')
     (let start = or_else (ac_actual_start a) (ch_actual_start change);
          finish = or_else (ac_actual_finish a) (ch_actual_finish change) in
      raise_if (finish \<noteq> None \<and> start = None) (execution_error ''EXECUTION_FINISH_WITHOUT_START'')
      (raise_if (finish \<noteq> None \<and> the finish < the start) (execution_error ''EXECUTION_ACTUALS_INVERTED'')
      (raise_if (start = None \<and> ch_remaining_seconds change \<noteq> None) (execution_error ''EXECUTION_REMAINING_REQUIRES_START'')
      (raise_if (start \<noteq> None \<and> finish = None \<and> ch_remaining_seconds change = None
                 \<and> (ch_actual_start change \<noteq> None \<or> ac_remaining_duration a = None)) (execution_error ''EXECUTION_REMAINING_REQUIRED'')
      (rbind (checked_remaining a change start finish) (\<lambda>rem.
       raise_if (ch_actual_start change = None \<and> ch_actual_finish change = None \<and> ch_remaining_seconds change = None)
         (execution_error ''EXECUTION_EMPTY_CHANGE'') (Inr (start, finish, rem)))))))))"

subsection \<open>The new document\<close>

definition changed_activity ::
    "activity \<Rightarrow> moment option \<Rightarrow> moment option \<Rightarrow> int option \<Rightarrow> activity result" where
  "changed_activity a start finish rem =
     (let old = or_else (ac_remaining_duration a) (ac_planned_duration a);
          duration = (case rem of None \<Rightarrow> ac_remaining_duration a
            | Some r \<Rightarrow> Some \<lparr> du_seconds = r, du_unit = (case old of None \<Rightarrow> None | Some d \<Rightarrow> du_unit d), du_elapsed = False,
                du_source_format_code = (case old of None \<Rightarrow> None | Some d \<Rightarrow> du_source_format_code d) \<rparr>) in
      raise_if (rem \<noteq> None \<and> (case old of None \<Rightarrow> False | Some d \<Rightarrow> du_elapsed d))
        (execution_error ''EXECUTION_ELAPSED_REMAINING_UNSUPPORTED'')
      (raise_if (start = ac_actual_start a \<and> finish = ac_actual_finish a \<and> duration = ac_remaining_duration a)
        (execution_error ''EXECUTION_NO_CHANGE'')
      (Inr (a\<lparr>ac_actual_start := start, ac_actual_finish := finish, ac_remaining_duration := duration\<rparr>))))"

definition with_activity :: "activity \<Rightarrow> schedule \<Rightarrow> schedule" where
  "with_activity a s = s\<lparr>sc_activities := map (\<lambda>row. if ac_uid row = ac_uid a then a else row) (sc_activities s)\<rparr>"

text \<open>What a progress command may not move.\<close>

definition plan_context ::
    "plan \<Rightarrow> (moment \<times> bool \<times> progress_policy \<times> bool \<times> int \<times> bool) \<times> (int \<times> int \<times> int option) \<times> calendars \<times> hierarchy" where
  "plan_context p =
     ((pl_epoch p, pl_resource_calendars_apply p, pl_progress_policy p, pl_snap_milestones p,
       pl_critical_float_threshold p, pl_status_time_outside_window p),
      (project_start (pl_network p), horizon (pl_network p), status_time (pl_network p)), pl_calendars p, pl_wbs_children p)"

definition apply_execution :: "engine \<Rightarrow> calculated_state \<Rightarrow> execution_change \<Rightarrow> calculated_state result" where
  "apply_execution g st change =
     rbind (reported_activity g st change) (\<lambda>a.
     rbind (reported_progress a change) (\<lambda>(start, finish, rem).
     rbind (changed_activity a start finish rem) (\<lambda>changed.
     let s = with_activity changed (cs_schedule st) in
     rbind (build_plan (en_sha g) (en_uuid5 g) s (cs_horizon st) (Some (pl_epoch (cs_plan st)))
              (pl_resource_calendars_apply (cs_plan st))) (\<lambda>p.
     raise_if (ch_activity_uid change \<notin> set (activity_uids (pl_network p))) (execution_error ''EXECUTION_ACTIVITY_UNSUPPORTED'')
     (raise_if (plan_context p \<noteq> plan_context (cs_plan st)) (execution_error ''EXECUTION_CONTEXT_CHANGED'')
     (rbind (recalculate_network (en_sha g) (pl_network (cs_plan st)) (pl_network p) (cs_forward st) (cs_backward st) (ac_uid a)) (\<lambda>rc.
      assemble g s (en_doc_hash g s) (cs_horizon st) p (rc_forward rc) (rc_backward rc) (Some rc))))))))"

end
