(* ===== verification/Plan_Sample.thy ===== *)
theory Plan_Sample
  imports Plan_Build
begin

section \<open>A small schedule\<close>

text \<open>
  A schedule with one calendar and a row of each kind: a task, an unreadable duration with the row
  behind it, finished work behind that, and a task reached through an inactive row.
\<close>

definition plan_calendar :: calendar where
  "plan_calendar = \<lparr> cal_uid = 100, cal_base_uid = None,
     cal_week = \<lparr> wd_day = 2, wd_working = True, wd_intervals = [\<lparr> start_second = 28800, finish_second = 57600 \<rparr>] \<rparr>
       # map (\<lambda>d. \<lparr> wd_day = d, wd_working = False, wd_intervals = [] \<rparr>) [1, 3, 4, 5, 6, 7],
     cal_exceptions = [], cal_source_fields = Map.empty \<rparr>"

definition lasting :: "int \<Rightarrow> duration" where
  "lasting n = \<lparr> du_seconds = n, du_unit = None, du_elapsed = False, du_source_format_code = None \<rparr>"

definition plan_task :: "uuid \<Rightarrow> activity" where
  "plan_task u = (new_activity u)\<lparr>ac_planned_duration := Some (lasting 7200)\<rparr>"

definition deadline_too :: "activity \<Rightarrow> activity" where
  "deadline_too a = a\<lparr>ac_secondary_constraint := Some \<lparr> con_type = FNLT, con_date = None, con_hard = False \<rparr>\<rparr>"

definition plan_start :: moment where
  "plan_start = midnight_of 739621"

definition plan_project :: project_settings where
  "plan_project = \<lparr> ps_start = Some plan_start, ps_status_date = None, ps_schedule_direction = DIRECTION_FROM_START,
     ps_progress_policy = RETAINED_LOGIC, ps_lag_calendar_policy = LAG_SUCCESSOR, ps_milestone_snap_policy = SNAP_NONE,
     ps_default_calendar_uid = Some 100, ps_critical_float_threshold_seconds = 0, ps_source_fields = Map.empty \<rparr>"

definition sample_schedule :: schedule where
  "sample_schedule = \<lparr> sc_project = plan_project, sc_wbs_nodes = [],
     sc_activities = [plan_task 1,
       (plan_task 2)\<lparr>ac_source_fields := [''duration_unsupported_source'' \<mapsto> ''P1Y'']\<rparr>, deadline_too (plan_task 3),
       (deadline_too (plan_task 4))\<lparr>ac_actual_start := Some plan_start, ac_actual_finish := Some plan_start\<rparr>,
       (plan_task 5)\<lparr>ac_active := False\<rparr>, plan_task 6],
     sc_relationships = [new_relationship 11 1 5, new_relationship 12 5 6, new_relationship 13 2 3,
       new_relationship 14 3 4, new_relationship 15 1 4],
     sc_calendars = [plan_calendar], sc_resources = [], sc_assignments = [] \<rparr>"

definition sample_window :: "moment \<times> moment" where
  "sample_window = (plan_start, plan_start + 2 * us_per_day)"

definition named_uid :: "string \<Rightarrow> uuid" where
  "named_uid t = 1000 + of_char (last t)"

definition left_activity :: "uuid \<Rightarrow> string \<Rightarrow> exclusion" where
  "left_activity u code = \<lparr> xc_uid = u, xc_kind = ''activity'', xc_code = code \<rparr>"

definition assumed_activity :: "uuid \<Rightarrow> string \<Rightarrow> assumption" where
  "assumed_activity u code = \<lparr> am_uid = u, am_kind = ''activity'', am_code = code \<rparr>"

definition left_edge :: "uuid \<Rightarrow> exclusion" where
  "left_edge u = \<lparr> xc_uid = u, xc_kind = ''relationship'', xc_code = ''RELATIONSHIP_ENDPOINT_NOT_SCHEDULED'' \<rparr>"

definition sample_plan :: plan where
  "sample_plan = (case build_plan (\<lambda>_. []) named_uid sample_schedule sample_window None True of
     Inr pl \<Rightarrow> pl | Inl _ \<Rightarrow> undefined)"

lemma sample_plan_outcome:
  "case build_plan (\<lambda>_. []) named_uid sample_schedule sample_window None True of
     Inr pl \<Rightarrow> activity_uids (pl_network pl) = [1, 4, 6]
       \<and> pl_excluded pl = [left_activity 2 ''ACTIVITY_DURATION_UNSUPPORTED'', left_activity 5 ''ACTIVITY_INACTIVE'',
            left_activity 3 ''ACTIVITY_PREDECESSOR_NOT_SCHEDULED'', left_edge 11, left_edge 12, left_edge 13, left_edge 14]
       \<and> pl_assumed pl = [assumed_activity 4 ''ACTIVITY_SECONDARY_CONSTRAINT_NOT_APPLIED'']
       \<and> map (\<lambda>r. (pr_predecessor_uid r, pr_successor_uid r)) (relationships (pl_network pl)) = [(1, 4), (1, 6)]
       \<and> project_start (pl_network pl) = 0 \<and> horizon (pl_network pl) = 172800
   | Inl _ \<Rightarrow> False"
  by code_simp

lemma sample_plan_run: "build_plan (\<lambda>_. []) named_uid sample_schedule sample_window None True = Inr sample_plan"
  using sample_plan_outcome unfolding sample_plan_def by (auto split: sum.splits)

lemma sample_plan_assumed: "pl_assumed sample_plan = [assumed_activity 4 ''ACTIVITY_SECONDARY_CONSTRAINT_NOT_APPLIED'']"
  using sample_plan_outcome sample_plan_run by simp

lemma sample_plan_excluded:
  "pl_excluded sample_plan = [left_activity 2 ''ACTIVITY_DURATION_UNSUPPORTED'', left_activity 5 ''ACTIVITY_INACTIVE'',
     left_activity 3 ''ACTIVITY_PREDECESSOR_NOT_SCHEDULED'', left_edge 11, left_edge 12, left_edge 13, left_edge 14]"
  using sample_plan_outcome sample_plan_run by simp

end
