(* ===== verification/Execution_Sample.thy ===== *)
theory Execution_Sample
  imports Execution Plan_Sample
begin

section \<open>A calculated schedule and a report on it\<close>

text \<open>
  Two linked tasks, one on its own and an inactive row, calculated before and after work on the first
  is reported; a document's hash is the number of rows with an actual start. And a result over the two
  chains of Incremental, whose second activity the plan labels as resting on assumed progress.
\<close>

definition started_count :: "schedule \<Rightarrow> string" where
  "started_count s = nat_text (length (filter (\<lambda>a. ac_actual_start a \<noteq> None) (sc_activities s)))"

definition sample_engine :: engine where
  "sample_engine = \<lparr> en_sha = (\<lambda>_. []), en_uuid5 = named_uid, en_doc_hash = started_count, en_detail = (\<lambda>_ _ _ _. []) \<rparr>"

definition sample_works :: schedule where
  "sample_works = sample_schedule\<lparr>sc_activities := [plan_task 1, plan_task 6, plan_task 7, (plan_task 5)\<lparr>ac_active := False\<rparr>],
     sc_relationships := [new_relationship 11 1 6]\<rparr>"

definition sample_change :: execution_change where
  "sample_change = \<lparr> ch_activity_uid = 1, ch_expected_hash = ''0'',
     ch_actual_start = Some (plan_start + 28800000000), ch_actual_finish = None, ch_remaining_seconds = Some 3600 \<rparr>"

definition sample_started :: activity where
  "sample_started = (plan_task 1)\<lparr>ac_actual_start := Some (plan_start + 28800000000), ac_remaining_duration := Some (lasting 3600)\<rparr>"

definition sample_state :: calculated_state where
  "sample_state = (case calculate_state sample_engine sample_works sample_window None True of
     Inr st \<Rightarrow> st | Inl _ \<Rightarrow> undefined)"

definition sample_next :: calculated_state where
  "sample_next = (case calculate_state sample_engine (with_activity sample_started sample_works) sample_window None True of
     Inr st \<Rightarrow> st | Inl _ \<Rightarrow> undefined)"

definition sample_facts :: "calculated_state \<Rightarrow> bool" where
  "sample_facts st \<longleftrightarrow> reportable_row st 1 (plan_task 1) \<and> activity_uids (pl_network (cs_plan st)) = [1, 6, 7]"

definition sample_context ::
    "(moment \<times> bool \<times> progress_policy \<times> bool \<times> int \<times> bool) \<times> (int \<times> int \<times> int option) \<times> calendars \<times> hierarchy" where
  "sample_context = (case build_plan (\<lambda>_. []) named_uid sample_works sample_window None True of
     Inr p \<Rightarrow> plan_context p | Inl _ \<Rightarrow> undefined)"

lemma sample_state_outcome:
  "case calculate_state sample_engine sample_works sample_window None True of Inr st \<Rightarrow> sample_facts st | Inl _ \<Rightarrow> False"
  unfolding calculate_state_def assemble_def sample_engine_def engine.simps by code_simp

lemma sample_next_outcome:
  "case calculate_state sample_engine (with_activity sample_started sample_works) sample_window None True of
     Inr st \<Rightarrow> sample_facts st | Inl _ \<Rightarrow> False"
  unfolding calculate_state_def assemble_def sample_engine_def engine.simps by code_simp

lemma sample_context_kept:
  "case build_plan (\<lambda>_. []) named_uid (with_activity sample_started sample_works) sample_window None True of
     Inr p \<Rightarrow> plan_context p = sample_context | Inl _ \<Rightarrow> False"
  by code_simp

lemma sample_states:
  "calculate_state sample_engine sample_works sample_window None True = Inr sample_state"
  "calculate_state sample_engine (with_activity sample_started sample_works) sample_window None True = Inr sample_next"
  "sample_facts sample_state" "sample_facts sample_next"
  using sample_state_outcome sample_next_outcome unfolding sample_state_def sample_next_def by (auto split: sum.splits)

subsection \<open>A labelled result\<close>

definition sample_assumed_plan :: plan where
  "sample_assumed_plan = \<lparr> pl_network = sample_chains, pl_epoch = plan_start, pl_calendars = [], pl_excluded = [],
     pl_assumed = [assumed_activity 2 DIRECT_PROGRESS_ASSUMPTION], pl_derived_relationships = [], pl_snap_milestones = False,
     pl_critical_float_threshold = 0, pl_progress_policy = RETAINED_LOGIC, pl_wbs_children = [],
     pl_status_time_outside_window = False, pl_resource_calendars_apply = True \<rparr>"

text \<open>The same plan a second before the last date there is.\<close>

definition sample_late_plan :: plan where
  "sample_late_plan = sample_assumed_plan\<lparr>pl_epoch := midnight_of max_ordinal + 86399000000\<rparr>"

definition chain_floats :: float_analysis_result where
  "chain_floats = (case float_analysis (\<lambda>_. []) sample_chains sample_chains_forward sample_chains_backward 0 of
     Inr fa \<Rightarrow> fa | Inl _ \<Rightarrow> undefined)"

abbreviation sample_projection :: "plan \<Rightarrow> schedule_result result" where
  "sample_projection p \<equiv> project_result (\<lambda>_. []) (\<lambda>_ _ _. []) p sample_chains_forward sample_chains_backward chain_floats
     \<lparr> ro_spans = [], ro_empty = [], ro_cyclic = [] \<rparr> [] sample_window"

definition sample_labelled :: schedule_result where
  "sample_labelled = (case sample_projection sample_assumed_plan of Inr r \<Rightarrow> r | Inl _ \<Rightarrow> undefined)"

lemma chain_floats_run: "float_analysis (\<lambda>_. []) sample_chains sample_chains_forward sample_chains_backward 0 = Inr chain_floats"
proof -
  have "case float_analysis (\<lambda>_. []) sample_chains sample_chains_forward sample_chains_backward 0 of Inr _ \<Rightarrow> True | Inl _ \<Rightarrow> False"
    by code_simp
  then show ?thesis unfolding chain_floats_def by (auto split: sum.splits)
qed

lemma sample_labelled_run:
  "sample_projection sample_assumed_plan = Inr sample_labelled"
  "map (\<lambda>row. (ar_uid row, ar_assumptions row)) (sr_activities sample_labelled)
    = [(1, [DERIVED_PROGRESS_ASSUMPTION]), (2, [DIRECT_PROGRESS_ASSUMPTION]), (3, [])]"
  "sample_projection sample_late_plan = Inl OverflowError"
proof -
  have ok: "case sample_projection sample_assumed_plan of Inl _ \<Rightarrow> False
    | Inr r \<Rightarrow> map (\<lambda>row. (ar_uid row, ar_assumptions row)) (sr_activities r)
        = [(1, [DERIVED_PROGRESS_ASSUMPTION]), (2, [DIRECT_PROGRESS_ASSUMPTION]), (3, [])]"
    by code_simp
  then show "sample_projection sample_assumed_plan = Inr sample_labelled"
    unfolding sample_labelled_def by (auto split: sum.splits)
  with ok show "map (\<lambda>row. (ar_uid row, ar_assumptions row)) (sr_activities sample_labelled)
    = [(1, [DERIVED_PROGRESS_ASSUMPTION]), (2, [DIRECT_PROGRESS_ASSUMPTION]), (3, [])]" by simp
  show "sample_projection sample_late_plan = Inl OverflowError" by code_simp
qed

end
