(* ===== verification/Plan_Facts.thy ===== *)
theory Plan_Facts
  imports Plan_Sample
begin

section \<open>What a plan places and what it leaves out\<close>

text \<open>
  The stages a returned plan went through; the partition of the activities; the closure of the rows
  behind an unknown date; the relationships kept and left out.
\<close>

subsection \<open>The stages\<close>

definition edge_rows :: "(string \<Rightarrow> uuid) \<Rightarrow> boundary_table \<Rightarrow> edge_plan \<Rightarrow> planned_relationship list" where
  "edge_rows uuid5 bs e = ep_relationships e @ map fst (derived_rows uuid5 bs)"

lemma finish_plan_stages:
  assumes "finish_plan sha uuid5 s cals epoch window ar p = Inr pl"
  obtains bs e start_date es rows late where
    "boundary_candidates s p = Inr bs" "plan_edges cals s (ci_of [window]) p bs = Inr e"
    "ps_start (sc_project s) = Some start_date"
    "envelopes cals s epoch window p (pm_assumed p @ ep_assumed e) (edge_rows uuid5 bs e) = Inr es"
    "rows = under_way s p (edge_rows uuid5 bs e)"
    "dynamic_assumptions sha (pl_network pl) (pl_snap_milestones pl) (pl_progress_policy pl) rows = Inr late"
    "pl_network pl = plan_network (seconds_from epoch start_date) (snd window)
       (fst (plan_status (seconds_from epoch start_date) (snd window) epoch (ps_status_date (sc_project s)))) p es
       (elapsed_float_uids cals s ar window p (edge_rows uuid5 bs e)) (edge_rows uuid5 bs e)"
    "pl_excluded pl = pm_excluded p @ ep_excluded e"
    "pl_assumed pl = without_united es (pm_assumed p @ ep_assumed e) @ static_assumptions rows @ late"
    "pl_wbs_children pl = wbs_children s" "pl_calendars pl = cals" "pl_epoch pl = epoch"
  using assms unfolding finish_plan_def edge_rows_def
  by (cases "ps_start (sc_project s)") (auto simp: rbind_Inr_iff raise_if_Inr_iff Let_def split_beta)

text \<open>The calendars, the epoch and the window a plan is built on.\<close>

definition plan_inputs ::
    "(json \<Rightarrow> string) \<Rightarrow> schedule \<Rightarrow> moment \<times> moment \<Rightarrow> moment option \<Rightarrow> (calendars \<times> moment \<times> (int \<times> int)) option" where
  "plan_inputs sha s h epoch =
     (case compile_calendars sha (sc_calendars s) h epoch of
        Inr ((u, cc) # rest) \<Rightarrow> Some ((u, cc) # rest, cc_epoch cc, cc_horizon cc) | _ \<Rightarrow> None)"

abbreviation source_placed :: "schedule \<Rightarrow> calendars \<Rightarrow> moment \<Rightarrow> int \<times> int \<Rightarrow> bool \<Rightarrow> placement" where
  "source_placed s cals epoch window ar \<equiv> cut_placement s (source_placement s cals epoch window ar)"

lemma build_plan_stages:
  assumes "build_plan sha uuid5 s h epoch ar = Inr pl"
  obtains cals ep window where "plan_inputs sha s h epoch = Some (cals, ep, window)"
    "finish_plan sha uuid5 s cals ep window ar (source_placed s cals ep window ar) = Inr pl"
proof -
  from assms obtain cals where cals: "compile_calendars sha (sc_calendars s) h epoch = Inr cals"
    unfolding build_plan_def by (auto simp: rbind_Inr_iff)
  show thesis
  proof (cases cals)
    case Nil
    with assms cals show ?thesis by (simp add: build_plan_def)
  next
    case (Cons x rest)
    with assms cals show ?thesis
      using that [of cals "cc_epoch (snd x)" "cc_horizon (snd x)"]
      by (cases x) (simp add: build_plan_def plan_inputs_def raise_if_Inr_iff)
  qed
qed

subsection \<open>The placement\<close>

definition accepted :: "(activity \<Rightarrow> plan_row) \<Rightarrow> activity \<Rightarrow> bool" where
  "accepted row a \<longleftrightarrow> (case row a of Refused _ \<Rightarrow> False | Accepted _ _ \<Rightarrow> True)"

definition row_activity :: "(activity \<Rightarrow> plan_row) \<Rightarrow> activity \<Rightarrow> planned_activity list" where
  "row_activity row a = (case row a of Refused _ \<Rightarrow> [] | Accepted pa _ \<Rightarrow> [pa])"

definition row_exclusion :: "(activity \<Rightarrow> plan_row) \<Rightarrow> activity \<Rightarrow> exclusion list" where
  "row_exclusion row a = (case row a of
     Refused code \<Rightarrow> [\<lparr> xc_uid = ac_uid a, xc_kind = ''activity'', xc_code = code \<rparr>] | Accepted _ _ \<Rightarrow> [])"

definition row_assumption :: "(activity \<Rightarrow> plan_row) \<Rightarrow> activity \<Rightarrow> assumption list" where
  "row_assumption row a = (case row a of Refused _ \<Rightarrow> []
     | Accepted _ codes \<Rightarrow> map (\<lambda>c. \<lparr> am_uid = ac_uid a, am_kind = ''activity'', am_code = c \<rparr>) codes)"

lemma place_rows_fold:
  "fold (place_step row) as p =
     \<lparr> pm_activities = pm_activities p @ concat (map (row_activity row) as),
       pm_excluded = pm_excluded p @ concat (map (row_exclusion row) as),
       pm_assumed = pm_assumed p @ concat (map (row_assumption row) as) \<rparr>"
  by (induction as arbitrary: p)
    (auto simp: place_step_def row_activity_def row_exclusion_def row_assumption_def split: plan_row.splits)

lemma place_rows_eq:
  shows "pm_activities (place_rows row as) = concat (map (row_activity row) as)"
    and "pm_excluded (place_rows row as) = concat (map (row_exclusion row) as)"
    and "pm_assumed (place_rows row as) = concat (map (row_assumption row) as)"
  by (simp_all add: place_rows_def place_rows_fold)

lemma plan_activity_uid: "plan_activity cals s ar epoch c a = Accepted pa codes \<Longrightarrow> pa_uid pa = ac_uid a"
  by (auto simp: plan_activity_def Let_def split: option.splits if_splits)

lemma plan_activity_code:
  "plan_activity cals s ar epoch c a = Refused code \<Longrightarrow> code \<noteq> ''ACTIVITY_PREDECESSOR_NOT_SCHEDULED''"
  by (auto simp: plan_activity_def source_refusal_def Let_def split: option.splits if_splits)

lemma row_activity_uids:
  assumes "\<And>a pa codes. row a = Accepted pa codes \<Longrightarrow> pa_uid pa = ac_uid a"
  shows "map pa_uid (concat (map (row_activity row) as)) = map ac_uid (filter (accepted row) as)"
    and "map xc_uid (concat (map (row_exclusion row) as)) = map ac_uid (filter (\<lambda>a. \<not> accepted row a) as)"
  using assms by (induction as) (auto simp: row_activity_def row_exclusion_def accepted_def split: plan_row.splits)

lemma row_exclusion_kind: "x \<in> set (concat (map (row_exclusion row) as)) \<Longrightarrow> xc_kind x = ''activity''"
  by (auto simp: row_exclusion_def split: plan_row.splits)

subsection \<open>The work list of the cut\<close>

text \<open>The rows reached from a seed along the source edges, through rows that may be cut.\<close>

inductive behind :: "schedule \<Rightarrow> (uuid \<Rightarrow> bool) \<Rightarrow> (uuid \<Rightarrow> bool) \<Rightarrow> uuid \<Rightarrow> bool" for s candidate seed where
  from_seed: "seed u \<Longrightarrow> r \<in> set (sc_relationships s) \<Longrightarrow> rl_predecessor_uid r = u \<Longrightarrow> candidate (rl_successor_uid r)
    \<Longrightarrow> behind s candidate seed (rl_successor_uid r)"
| from_cut: "behind s candidate seed u \<Longrightarrow> r \<in> set (sc_relationships s) \<Longrightarrow> rl_predecessor_uid r = u
    \<Longrightarrow> candidate (rl_successor_uid r) \<Longrightarrow> behind s candidate seed (rl_successor_uid r)"

lemma set_newly_cut:
  "set (newly_cut s c gone u) = {v. (\<exists>r \<in> set (sc_relationships s). rl_predecessor_uid r = u \<and> rl_successor_uid r = v) \<and> v \<in> set c \<and> v \<notin> set gone}"
  by (auto simp: newly_cut_def raw_outgoing_def)

lemma mem_butlast_or_last: "x \<in> set xs \<Longrightarrow> x \<in> set (butlast xs) \<or> x = last xs"
  by (induction xs) auto

lemma cut_loop_sound:
  assumes "\<forall>v \<in> set gone. behind s (\<lambda>v. v \<in> set c) seed v" and "\<forall>v \<in> set frontier. seed v \<or> behind s (\<lambda>v. v \<in> set c) seed v"
    and "distinct gone"
  shows "(\<forall>v \<in> set (cut_loop s c gone frontier). behind s (\<lambda>v. v \<in> set c) seed v) \<and> distinct (cut_loop s c gone frontier)"
  using assms
proof (induction s c gone frontier rule: cut_loop.induct)
  case (1 s c gone frontier)
  show ?case
  proof (cases "frontier = []")
    case True
    with 1 show ?thesis by (simp add: cut_loop.simps)
  next
    case False
    let ?new = "newly_cut s c gone (last frontier)"
    have new: "behind s (\<lambda>v. v \<in> set c) seed v" if "v \<in> set ?new" for v
      using that 1(3) False by (auto simp: set_newly_cut intro: behind.intros)
    have "distinct (gone @ ?new)" using 1(4) by (auto simp: set_newly_cut) (simp add: newly_cut_def)
    moreover have "\<forall>v \<in> set (butlast frontier @ ?new). seed v \<or> behind s (\<lambda>v. v \<in> set c) seed v"
      using 1(3) new in_set_butlastD by fastforce
    moreover have "\<forall>v \<in> set (gone @ ?new). behind s (\<lambda>v. v \<in> set c) seed v" using 1(2) new by auto
    ultimately show ?thesis using 1(1) [OF False refl] False by (subst (1 2) cut_loop.simps) (simp add: Let_def)
  qed
qed

text \<open>Every row met is either still on the list or has all its cuttable successors cut.\<close>

definition followed :: "schedule \<Rightarrow> uuid list \<Rightarrow> uuid set \<Rightarrow> uuid list \<Rightarrow> uuid list \<Rightarrow> bool" where
  "followed s c seeds gone frontier \<longleftrightarrow> (\<forall>r \<in> set (sc_relationships s).
     rl_predecessor_uid r \<in> seeds \<union> set gone \<longrightarrow> rl_predecessor_uid r \<notin> set frontier
     \<longrightarrow> rl_successor_uid r \<in> set c \<longrightarrow> rl_successor_uid r \<in> set gone)"

lemma cut_loop_followed:
  "followed s c seeds gone frontier \<Longrightarrow> followed s c seeds (cut_loop s c gone frontier) []"
proof (induction s c gone frontier rule: cut_loop.induct)
  case (1 s c gone frontier)
  let ?new = "newly_cut s c gone (last frontier)"
  show ?case
  proof (cases "frontier = []")
    case True
    with 1 show ?thesis by (simp add: cut_loop.simps)
  next
    case False
    have "rl_successor_uid r \<in> set (gone @ ?new)"
      if "r \<in> set (sc_relationships s)" "rl_predecessor_uid r \<in> seeds \<union> set (gone @ ?new)"
        "rl_predecessor_uid r \<notin> set (butlast frontier @ ?new)" "rl_successor_uid r \<in> set c" for r
      using that 1(2) mem_butlast_or_last [of "rl_predecessor_uid r" frontier]
      unfolding followed_def by (auto simp: set_newly_cut)
    then have "followed s c seeds (gone @ ?new) (butlast frontier @ ?new)" by (auto simp: followed_def)
    with 1(1) [OF False refl] False show ?thesis by (subst cut_loop.simps) (simp add: Let_def)
  qed
qed

lemma behind_in_closed:
  assumes "behind s (\<lambda>v. v \<in> set c) (\<lambda>u. u \<in> seeds) v" and "followed s c seeds gone []"
  shows "v \<in> set gone"
  using assms by (induction rule: behind.induct) (auto simp: followed_def)

text \<open>The work list ends with exactly the rows reached.\<close>

lemma cut_rows_exact:
  "set (cut_rows s p) = {v. behind s (\<lambda>v. v \<in> set (cut_candidates s p)) (\<lambda>u. u \<in> set (unknown_dates p)) v}"
  (is "?gone = ?reached")
proof
  have "\<forall>v \<in> ?gone. behind s (\<lambda>v. v \<in> set (cut_candidates s p)) (\<lambda>u. u \<in> set (unknown_dates p)) v"
    using cut_loop_sound [of "[]" s "cut_candidates s p" "\<lambda>u. u \<in> set (unknown_dates p)" "unknown_dates p"]
    by (simp add: cut_rows_def)
  then show "?gone \<subseteq> ?reached" by blast
  have "followed s (cut_candidates s p) (set (unknown_dates p)) (cut_rows s p) []"
    unfolding cut_rows_def by (rule cut_loop_followed) (auto simp: followed_def)
  then show "?reached \<subseteq> ?gone" using behind_in_closed by blast
qed

lemma behind_candidate: "behind s candidate seed v \<Longrightarrow> candidate v"
  by (auto elim: behind.cases)

lemma cut_rows_scheduled: "v \<in> set (cut_rows s p) \<Longrightarrow> v \<in> set (scheduled p)"
  unfolding cut_rows_exact by (auto dest: behind_candidate simp: cut_candidates_def)

subsection \<open>The partition\<close>

abbreviation cut_exclusion :: "uuid \<Rightarrow> exclusion" where
  "cut_exclusion u \<equiv> \<lparr> xc_uid = u, xc_kind = ''activity'', xc_code = ''ACTIVITY_PREDECESSOR_NOT_SCHEDULED'' \<rparr>"

lemma cut_placement_sel:
  shows "scheduled (cut_placement s p) = filter (\<lambda>u. u \<notin> set (cut_rows s p)) (scheduled p)"
    and "pm_excluded (cut_placement s p) = pm_excluded p @ map cut_exclusion (map ac_uid (filter (\<lambda>a. ac_uid a \<in> set (cut_rows s p)) (sc_activities s)))"
    and "pm_assumed (cut_placement s p) = filter (\<lambda>x. am_uid x \<notin> set (cut_rows s p)) (pm_assumed p)"
    and "pm_activities (cut_placement s p) = filter (\<lambda>a. pa_uid a \<notin> set (cut_rows s p)) (pm_activities p)"
  by (simp_all add: cut_placement_def scheduled_def Let_def filter_map comp_def)

lemma source_placement_uids:
  fixes s cals epoch window ar
  defines "row \<equiv> plan_activity cals s ar epoch (ci_of [window])"
  shows "scheduled (source_placement s cals epoch window ar) = map ac_uid (filter (accepted row) (sc_activities s))"
    and "map xc_uid (pm_excluded (source_placement s cals epoch window ar)) = map ac_uid (filter (\<lambda>a. \<not> accepted row a) (sc_activities s))"
    and "x \<in> set (pm_excluded (source_placement s cals epoch window ar)) \<Longrightarrow> xc_kind x = ''activity'' \<and> xc_code x \<noteq> ''ACTIVITY_PREDECESSOR_NOT_SCHEDULED''"
proof -
  show "scheduled (source_placement s cals epoch window ar) = map ac_uid (filter (accepted row) (sc_activities s))"
    unfolding source_placement_def scheduled_def place_rows_eq row_def by (rule row_activity_uids(1), rule plan_activity_uid)
  show "map xc_uid (pm_excluded (source_placement s cals epoch window ar)) = map ac_uid (filter (\<lambda>a. \<not> accepted row a) (sc_activities s))"
    unfolding source_placement_def scheduled_def place_rows_eq row_def by (rule row_activity_uids(2), rule plan_activity_uid)
  show "xc_kind x = ''activity'' \<and> xc_code x \<noteq> ''ACTIVITY_PREDECESSOR_NOT_SCHEDULED''"
    if "x \<in> set (pm_excluded (source_placement s cals epoch window ar))"
    using that plan_activity_code [OF sym] unfolding source_placement_def place_rows_eq
    by (auto simp: row_exclusion_def split: plan_row.splits)
qed

lemma distinct_map_filter_split:
  assumes "distinct (map f xs)"
  shows "distinct (map f (filter P xs) @ map f (filter (\<lambda>x. \<not> P x) xs))"
    and "set (map f (filter P xs) @ map f (filter (\<lambda>x. \<not> P x) xs)) = set (map f xs)"
  using assms by (auto simp: distinct_map inj_on_def)

text \<open>Every activity of the source is placed or left out, and only once.\<close>

lemma source_placed_partition:
  fixes s cals epoch window ar
  defines "p \<equiv> source_placed s cals epoch window ar"
  assumes "distinct (map ac_uid (sc_activities s))"
  shows "distinct (scheduled p @ map xc_uid (pm_excluded p))"
    and "set (scheduled p @ map xc_uid (pm_excluded p)) = set (map ac_uid (sc_activities s))"
proof -
  let ?p0 = "source_placement s cals epoch window ar"
  let ?gone = "set (cut_rows s ?p0)"
  let ?cut = "map ac_uid (filter (\<lambda>a. ac_uid a \<in> ?gone) (sc_activities s))"
  have x: "map xc_uid (pm_excluded p) = map xc_uid (pm_excluded ?p0) @ ?cut" and sch: "scheduled p = filter (\<lambda>u. u \<notin> ?gone) (scheduled ?p0)"
    by (simp_all add: p_def cut_placement_sel comp_def)
  have d0: "distinct (scheduled ?p0 @ map xc_uid (pm_excluded ?p0))"
    and s0: "set (scheduled ?p0 @ map xc_uid (pm_excluded ?p0)) = set (map ac_uid (sc_activities s))"
    unfolding source_placement_uids by (rule distinct_map_filter_split [OF assms(2)])+
  have gone: "?gone \<subseteq> set (scheduled ?p0)" using cut_rows_scheduled by blast
  have cut: "distinct ?cut" "set ?cut = ?gone"
    using assms(2) gone s0 by (auto simp: distinct_map inj_on_def)
  show "distinct (scheduled p @ map xc_uid (pm_excluded p))"
    unfolding x sch using d0 cut gone by auto
  show "set (scheduled p @ map xc_uid (pm_excluded p)) = set (map ac_uid (sc_activities s))"
    unfolding x sch using s0 cut gone by auto
qed

subsection \<open>The relationships\<close>

definition kept_edge :: "placement \<Rightarrow> relationship \<Rightarrow> planned_relationship \<Rightarrow> bool" where
  "kept_edge p r x \<longleftrightarrow> pr_uid x = rl_uid r \<and> pr_predecessor_uid x = rl_predecessor_uid r
     \<and> pr_successor_uid x = rl_successor_uid r \<and> pr_type x = rl_type r \<and> pr_lag x = lag_seconds r
     \<and> pr_inactive_boundary_uid x = None \<and> rl_predecessor_uid r \<in> set (scheduled p) \<and> rl_successor_uid r \<in> set (scheduled p)"

definition edge_plan_inv :: "placement \<Rightarrow> relationship list \<Rightarrow> edge_plan \<Rightarrow> bool" where
  "edge_plan_inv p rs e \<longleftrightarrow>
     (\<forall>u. count_list (map pr_uid (ep_relationships e) @ map xc_uid (ep_excluded e)) u = count_list (map rl_uid rs) u)
   \<and> (\<forall>x \<in> set (ep_relationships e). \<exists>r \<in> set rs. kept_edge p r x)
   \<and> (\<forall>x \<in> set (ep_excluded e). xc_kind x = ''relationship'')
   \<and> (\<forall>x \<in> set (ep_assumed e). am_kind x = ''activity'' \<longrightarrow> am_uid x \<in> set (scheduled p))"

lemma plan_edge_inv:
  assumes "plan_edge cals s continuous p supported r e = Inr e'" and "edge_plan_inv p rs e"
  shows "edge_plan_inv p (rs @ [r]) e'"
proof (cases "rl_predecessor_uid r \<notin> set (scheduled p) \<or> rl_successor_uid r \<notin> set (scheduled p)")
  case True
  with assms show ?thesis
    by (auto simp: plan_edge_def edge_plan_inv_def edge_exclusion_def Let_def split: if_splits)
next
  case False
  with assms(1) obtain choice where "choose_lag cals s continuous p r = Inr choice"
    by (auto simp: plan_edge_def rbind_Inr_iff)
  with False assms show ?thesis
    by (cases choice) (auto simp: plan_edge_def edge_plan_inv_def edge_exclusion_def kept_edge_def)
qed

lemma plan_edges_inv: "plan_edges cals s continuous p bs = Inr e \<Longrightarrow> edge_plan_inv p (sc_relationships s) e"
  unfolding plan_edges_def
  by (erule rfold_invariant) (auto simp: edge_plan_inv_def [of _ "[]"] intro: plan_edge_inv)

text \<open>What a boundary in the table satisfies.\<close>

lemma boundary_candidate_shape:
  assumes "boundary_candidate s p b = Inr (Some (e, outs))"
  shows "filter (\<lambda>r. rl_predecessor_uid r \<in> set (scheduled p)) (raw_incoming s b) = [e]"
    and "outs = filter (\<lambda>r. rl_successor_uid r \<in> set (scheduled p)) (raw_outgoing s b)" and "length outs \<in> {1, 2}"
    and "\<not> unsupported_boundary_predecessor s p (rl_predecessor_uid e)"
    and "\<exists>a. sc_activity_by_uid s (rl_predecessor_uid e) = Some a \<and> inactive_boundary_endpoint_is_measured a"
    and "r \<in> set outs \<Longrightarrow> \<exists>a. sc_activity_by_uid s (rl_successor_uid r) = Some a \<and> inactive_boundary_endpoint_is_measured a"
    and "r \<in> set outs \<Longrightarrow> length (filter (\<lambda>i. rl_predecessor_uid i \<in> set (inactive_rows p)) (raw_incoming s (rl_successor_uid r))) = 1"
proof -
  let ?ins = "filter (\<lambda>r. rl_predecessor_uid r \<in> set (scheduled p)) (raw_incoming s b)"
  let ?outs = "filter (\<lambda>r. rl_successor_uid r \<in> set (scheduled p)) (raw_outgoing s b)"
  from assms obtain a as where len: "length ?ins = 1" "length ?outs \<in> {1, 2}" and eq: "e = hd ?ins" "outs = ?outs"
    and ok: "\<not> unsupported_boundary_predecessor s p (rl_predecessor_uid e)"
      "source_activity s (rl_predecessor_uid e) = Inr a" "inactive_boundary_endpoint_is_measured a"
      "rmap (\<lambda>r. source_activity s (rl_successor_uid r)) outs = Inr as" "list_all inactive_boundary_endpoint_is_measured as"
      "list_all (\<lambda>r. length (filter (\<lambda>i. rl_predecessor_uid i \<in> set (inactive_rows p)) (raw_incoming s (rl_successor_uid r))) = 1) outs"
    unfolding boundary_candidate_def
    by (auto simp: rbind_Inr_iff Let_def list_ex_iff list_all_iff split: if_splits)
  from len(1) eq(1) show "?ins = [e]" by (cases ?ins) auto
  show "outs = ?outs" "length outs \<in> {1, 2}" "\<not> unsupported_boundary_predecessor s p (rl_predecessor_uid e)"
    using eq len ok by auto
  show "\<exists>a. sc_activity_by_uid s (rl_predecessor_uid e) = Some a \<and> inactive_boundary_endpoint_is_measured a"
    using ok(2,3) by (auto simp: source_activity_def split: option.splits)
  assume r: "r \<in> set outs"
  from rmap_covers [OF ok(4) r] ok(5)
  show "\<exists>a. sc_activity_by_uid s (rl_successor_uid r) = Some a \<and> inactive_boundary_endpoint_is_measured a"
    by (auto simp: source_activity_def list_all_iff split: option.splits)
  show "length (filter (\<lambda>i. rl_predecessor_uid i \<in> set (inactive_rows p)) (raw_incoming s (rl_successor_uid r))) = 1"
    using ok(6) r by (auto simp: list_all_iff)
qed

lemma boundary_table_rows:
  assumes "rmap (\<lambda>b. rbind (boundary_candidate s p b) (\<lambda>c. Inr (case c of None \<Rightarrow> [] | Some x \<Rightarrow> [(b, x)]))) us = Inr xs"
  shows "\<forall>(b, e, outs) \<in> set (concat xs). b \<in> set us \<and> boundary_candidate s p b = Inr (Some (e, outs))"
    and "distinct us \<Longrightarrow> distinct (map fst (concat xs))"
  using assms
proof (induction us arbitrary: xs)
  case (Cons u us)
  {
    case 1
    with Cons.IH(1) show ?case by (fastforce simp: rbind_Inr_iff split: option.splits)
  next
    case 2
    then obtain c ys where "boundary_candidate s p u = Inr c" "xs = (case c of None \<Rightarrow> [] | Some x \<Rightarrow> [(u, x)]) # ys"
      and ys: "rmap (\<lambda>b. rbind (boundary_candidate s p b) (\<lambda>c. Inr (case c of None \<Rightarrow> [] | Some x \<Rightarrow> [(b, x)]))) us = Inr ys"
      by (auto simp: rbind_Inr_iff)
    moreover have "u \<notin> fst ` set (concat ys)" using Cons.IH(1) [OF ys] 2(1) by force
    ultimately show ?case using Cons.IH(2) [OF _ ys] 2(1) by (auto split: option.splits)
  }
qed auto

lemma boundary_candidates_rows:
  assumes "boundary_candidates s p = Inr bs"
  shows "(b, e, outs) \<in> set bs \<Longrightarrow> b \<in> set (inactive_rows p) \<and> boundary_candidate s p b = Inr (Some (e, outs))"
    and "distinct (map fst bs)"
proof -
  from assms obtain xs where xs: "rmap (\<lambda>b. rbind (boundary_candidate s p b) (\<lambda>c. Inr (case c of None \<Rightarrow> [] | Some x \<Rightarrow> [(b, x)])))
      (inactive_order p) = Inr xs" and bs: "bs = concat xs"
    by (auto simp: boundary_candidates_def rbind_Inr_iff)
  show "distinct (map fst bs)" unfolding bs using boundary_table_rows(2) [OF xs] by (simp add: inactive_order_def)
  assume "(b, e, outs) \<in> set bs"
  then show "b \<in> set (inactive_rows p) \<and> boundary_candidate s p b = Inr (Some (e, outs))"
    using boundary_table_rows(1) [OF xs] by (auto simp: bs inactive_order_def)
qed

lemma derived_row_sel [simp]:
  "pr_predecessor_uid (fst (derived_row uuid5 b e out)) = rl_predecessor_uid e"
  "pr_successor_uid (fst (derived_row uuid5 b e out)) = rl_successor_uid out"
  "pr_uid (fst (derived_row uuid5 b e out)) = derived_uid uuid5 (rl_predecessor_uid e) b (rl_successor_uid out)"
  "pr_type (fst (derived_row uuid5 b e out)) = FS" "pr_lag (fst (derived_row uuid5 b e out)) = 0"
  "pr_lag_calendar (fst (derived_row uuid5 b e out)) = None"
  "pr_inactive_boundary_uid (fst (derived_row uuid5 b e out)) = Some b"
  by (simp_all add: derived_row_def Let_def)

text \<open>The derived edges: one per outgoing edge of a boundary, between scheduled activities.\<close>

lemma derived_rows_mem:
  assumes "boundary_candidates s p = Inr bs" and "x \<in> set (map fst (derived_rows uuid5 bs))"
  obtains b e outs out where "(b, e, outs) \<in> set bs" "out \<in> set outs" "x = fst (derived_row uuid5 b e out)"
    "e \<in> set (sc_relationships s)" "rl_successor_uid e = b" "rl_predecessor_uid e \<in> set (scheduled p)"
    "out \<in> set (sc_relationships s)" "rl_predecessor_uid out = b" "rl_successor_uid out \<in> set (scheduled p)"
proof -
  from assms(2) obtain b e outs out where mem: "(b, e, outs) \<in> set bs" "out \<in> set outs" "x = fst (derived_row uuid5 b e out)"
    by (auto simp: derived_rows_def)
  from boundary_candidates_rows(1) [OF assms(1) mem(1)] have c: "boundary_candidate s p b = Inr (Some (e, outs))" by blast
  have "e \<in> set (filter (\<lambda>r. rl_predecessor_uid r \<in> set (scheduled p)) (raw_incoming s b))"
    using boundary_candidate_shape(1) [OF c] by simp
  moreover have "out \<in> set (filter (\<lambda>r. rl_successor_uid r \<in> set (scheduled p)) (raw_outgoing s b))"
    using boundary_candidate_shape(2) [OF c] mem(2) by simp
  ultimately show thesis using mem by (intro that) (auto simp: raw_incoming_def raw_outgoing_def)
qed

lemma edge_rows_scheduled:
  assumes "boundary_candidates s p = Inr bs" and "plan_edges cals s c p bs = Inr e" and "r \<in> set (edge_rows uuid5 bs e)"
  shows "pr_predecessor_uid r \<in> set (scheduled p) \<and> pr_successor_uid r \<in> set (scheduled p)"
proof (cases "r \<in> set (ep_relationships e)")
  case True
  with plan_edges_inv [OF assms(2)] obtain q where "kept_edge p q r" unfolding edge_plan_inv_def by blast
  then show ?thesis by (simp add: kept_edge_def)
next
  case False
  with assms(3) have "r \<in> set (map fst (derived_rows uuid5 bs))" by (simp add: edge_rows_def)
  from derived_rows_mem [OF assms(1) this] show ?thesis by (metis derived_row_sel(1,2))
qed

lemma edge_rows_source:
  assumes "boundary_candidates s p = Inr bs" and "plan_edges cals s c p bs = Inr e"
  shows "filter (\<lambda>r. pr_inactive_boundary_uid r = None) (edge_rows uuid5 bs e) = ep_relationships e"
proof -
  have "pr_inactive_boundary_uid r \<noteq> None" if "r \<in> set (map fst (derived_rows uuid5 bs))" for r
    using derived_rows_mem [OF assms(1) that] by (metis derived_row_sel(7) option.distinct(1))
  moreover have "pr_inactive_boundary_uid r = None" if "r \<in> set (ep_relationships e)" for r
    using plan_edges_inv [OF assms(2)] that unfolding edge_plan_inv_def kept_edge_def by blast
  ultimately show ?thesis by (simp add: edge_rows_def filter_id_conv filter_empty_conv)
qed

subsection \<open>The partition of a plan\<close>

definition left_out :: "plan \<Rightarrow> string \<Rightarrow> uuid list" where
  "left_out pl kind = map xc_uid (filter (\<lambda>x. xc_kind x = kind) (pl_excluded pl))"

definition source_edges :: "plan \<Rightarrow> uuid list" where
  "source_edges pl = map pr_uid (filter (\<lambda>r. pr_inactive_boundary_uid r = None) (relationships (pl_network pl)))"

lemma plan_network_uids: "activity_uids (plan_network start w status p es elapsed rs) = scheduled p"
  by (simp add: activity_uids_def plan_network_def with_elapsed_float_def with_envelopes_def scheduled_def comp_def if_distrib cong: if_cong)

lemma filter_kind:
  "(\<And>x. x \<in> set xs \<Longrightarrow> xc_kind x = k) \<Longrightarrow> filter (\<lambda>x. xc_kind x = k') xs = (if k' = k then xs else [])"
  by (induction xs) auto

lemma source_placed_kind: "x \<in> set (pm_excluded (source_placed s cals epoch window ar)) \<Longrightarrow> xc_kind x = ''activity''"
  by (auto simp: cut_placement_sel dest: source_placement_uids(3))

lemma left_out_stages:
  assumes "pl_excluded pl = pm_excluded (source_placed s cals epoch window ar) @ ep_excluded e"
    and "plan_edges cals s c (source_placed s cals epoch window ar) bs = Inr e"
  shows "left_out pl ''activity'' = map xc_uid (pm_excluded (source_placed s cals epoch window ar))"
    and "left_out pl ''relationship'' = map xc_uid (ep_excluded e)"
proof -
  have "\<And>x. x \<in> set (ep_excluded e) \<Longrightarrow> xc_kind x = ''relationship''"
    using plan_edges_inv [OF assms(2)] by (auto simp: edge_plan_inv_def)
  then show "left_out pl ''activity'' = map xc_uid (pm_excluded (source_placed s cals epoch window ar))"
    "left_out pl ''relationship'' = map xc_uid (ep_excluded e)"
    using filter_kind [of "ep_excluded e" "''relationship''"]
      filter_kind [of "pm_excluded (source_placed s cals epoch window ar)" "''activity''"] source_placed_kind
    by (simp_all add: left_out_def assms(1))
qed

text \<open>
  (C28) A plan accounts for the whole source. Every activity is either placed in the network or left out
  with a code, and only once; every relationship is an edge of the network or left out with a code, as
  often as the source lists it; and every edge of the network, derived ones included, joins two
  activities of the network.
\<close>

theorem plan_partition:
  assumes "build_plan sha uuid5 s h epoch ar = Inr pl" and "distinct (map ac_uid (sc_activities s))"
  shows "distinct (activity_uids (pl_network pl) @ left_out pl ''activity'')
   \<and> set (activity_uids (pl_network pl) @ left_out pl ''activity'') = set (map ac_uid (sc_activities s))
   \<and> (\<forall>u. count_list (source_edges pl @ left_out pl ''relationship'') u = count_list (map rl_uid (sc_relationships s)) u)
   \<and> list_all (\<lambda>r. pr_predecessor_uid r \<in> set (activity_uids (pl_network pl))
        \<and> pr_successor_uid r \<in> set (activity_uids (pl_network pl))) (relationships (pl_network pl))"
proof -
  from assms(1) obtain cals ep window where
    f: "finish_plan sha uuid5 s cals ep window ar (source_placed s cals ep window ar) = Inr pl" by (rule build_plan_stages)
  let ?p = "source_placed s cals ep window ar"
  from f obtain bs e es elapsed status start where bs: "boundary_candidates s ?p = Inr bs"
    and e: "plan_edges cals s (ci_of [window]) ?p bs = Inr e"
    and n: "pl_network pl = plan_network start (snd window) status ?p es elapsed (edge_rows uuid5 bs e)"
    and x: "pl_excluded pl = pm_excluded ?p @ ep_excluded e" by (rule finish_plan_stages) blast
  have inv: "edge_plan_inv ?p (sc_relationships s) e" using e by (rule plan_edges_inv)
  have uids: "activity_uids (pl_network pl) = scheduled ?p" by (simp add: n plan_network_uids)
  have rel: "relationships (pl_network pl) = edge_rows uuid5 bs e" by (simp add: n plan_network_def)
  have src: "source_edges pl = map pr_uid (ep_relationships e)" unfolding source_edges_def rel edge_rows_source [OF bs e] ..
  have "pr_predecessor_uid r \<in> set (scheduled ?p) \<and> pr_successor_uid r \<in> set (scheduled ?p)" if "r \<in> set (edge_rows uuid5 bs e)" for r
    using that by (rule edge_rows_scheduled [OF bs e])
  then have ends: "list_all (\<lambda>r. pr_predecessor_uid r \<in> set (scheduled ?p) \<and> pr_successor_uid r \<in> set (scheduled ?p)) (edge_rows uuid5 bs e)"
    by (simp add: list_all_iff)
  have counts: "\<forall>u. count_list (map pr_uid (ep_relationships e) @ map xc_uid (ep_excluded e)) u = count_list (map rl_uid (sc_relationships s)) u"
    using inv unfolding edge_plan_inv_def by blast
  show ?thesis
    unfolding uids rel src left_out_stages [OF x e]
    using source_placed_partition [OF assms(2), of cals ep window ar] counts ends by (intro conjI)
qed

lemma plan_partition_witness:
  "distinct (activity_uids (pl_network sample_plan) @ left_out sample_plan ''activity'')
   \<and> set (activity_uids (pl_network sample_plan) @ left_out sample_plan ''activity'') = {1, 2, 3, 4, 5, 6}
   \<and> count_list (source_edges sample_plan @ left_out sample_plan ''relationship'') 13 = 1"
proof -
  have "distinct (map ac_uid (sc_activities sample_schedule))" by code_simp
  note plan_partition [OF sample_plan_run this]
  moreover have "set (map ac_uid (sc_activities sample_schedule)) = {1, 2, 3, 4, 5, 6}"
    by (simp add: sample_schedule_def plan_task_def new_activity_def deadline_too_def)
  moreover have "count_list (map rl_uid (sc_relationships sample_schedule)) 13 = 1" by code_simp
  ultimately show ?thesis by simp
qed

end
