(* ===== verification/Result_Facts.thy ===== *)
theory Result_Facts
  imports Execution_Sample Plan_Facts Validator_Complete Incremental_Facts
begin

section \<open>What a stored result says\<close>

text \<open>
  A result answers every activity of the document once, with the dates of the passes or the code it
  was left out under; the label for dates that rest on assumed progress is given exactly along the
  late drivers; and the projection of finished passes fails only where a date leaves the range of
  \<open>datetime\<close>.
\<close>

subsection \<open>Rows\<close>

lemma plan_datetime_inverse: "plan_to_datetime p x = Inr m \<Longrightarrow> plan_to_seconds p m = x"
  by (auto simp: plan_to_datetime_def plan_to_seconds_def add_micros_def int_seconds_def split: if_splits)

lemma project_result_stages:
  assumes "project_result sha detail p fp bp fa ro c h = Inr r"
  obtains labelled rows where "derived_labels p bp = Inr labelled"
    and "rmap (scheduled_row p fp bp fa labelled) (activities (pl_network p)) = Inr rows"
    and "sr_activities r = rows @ map (excluded_row detail p fp labelled) (filter (\<lambda>x. xc_kind x = ''activity'') (pl_excluded p))"
  using assms by (auto simp: project_result_def rbind_Inr_iff Let_def)

lemma scheduled_row_Inr:
  assumes "scheduled_row p fp bp fa labelled a = Inr row"
  obtains t l where "by_uid fp (pa_uid a) = Some t" and "late_by_uid bp (pa_uid a) = Some l"
    and "ar_uid row = pa_uid a" and "ar_disposition row = SCHEDULED"
    and "map_option (plan_to_seconds p) (ar_early_start row) = Some (early_start t)"
    and "map_option (plan_to_seconds p) (ar_early_finish row) = Some (early_finish t)"
    and "map_option (plan_to_seconds p) (ar_late_start row) = Some (late_start l)"
    and "map_option (plan_to_seconds p) (ar_late_finish row) = Some (late_finish l)"
    and "ar_assumptions row = row_assumptions p labelled fp (pa_uid a)"
proof -
  obtain t l f where look: "by_uid fp (pa_uid a) = Some t" "late_by_uid bp (pa_uid a) = Some l" "float_by_uid fa (pa_uid a) = Some f"
    using assms by (auto simp: scheduled_row_def Let_def split: option.splits)
  show ?thesis
    by (rule that [OF look(1,2)])
      (use assms look in \<open>auto simp: scheduled_row_def Let_def rbind_Inr_iff unplaced_def plan_datetime_inverse\<close>)
qed

lemma excluded_row_fields:
  "ar_uid (excluded_row detail p fp labelled x) = xc_uid x"
  "ar_disposition (excluded_row detail p fp labelled x) = EXCLUDED"
  "ar_early_start (excluded_row detail p fp labelled x) = None" "ar_late_finish (excluded_row detail p fp labelled x) = None"
  "ar_exclusion_code (excluded_row detail p fp labelled x) = Some (xc_code x)"
  by (simp_all add: excluded_row_def Let_def unplaced_def)

lemma result_uids:
  assumes "project_result sha detail p fp bp fa ro c h = Inr r"
  shows "map ar_uid (sr_activities r) = activity_uids (pl_network p) @ left_out p ''activity''"
proof -
  from assms obtain labelled rows where rows: "rmap (scheduled_row p fp bp fa labelled) (activities (pl_network p)) = Inr rows"
    and r: "sr_activities r = rows @ map (excluded_row detail p fp labelled) (filter (\<lambda>x. xc_kind x = ''activity'') (pl_excluded p))"
    by (rule project_result_stages)
  have "list_all2 (\<lambda>a row. pa_uid a = ar_uid row) (activities (pl_network p)) rows"
    using rows unfolding rmap_Inr_iff by (rule list_all2_mono) (auto elim: scheduled_row_Inr)
  then have "map pa_uid (activities (pl_network p)) = map ar_uid rows"
    by (simp add: list_all2_conv_all_nth list_eq_iff_nth_eq)
  then show ?thesis by (simp add: r activity_uids_def left_out_def excluded_row_fields(1) comp_def)
qed

lemma result_row:
  assumes "distinct (map ar_uid (sr_activities r))" and "row \<in> set (sr_activities r)"
  shows "result_by_uid r (ar_uid row) = Some row"
proof -
  have "map fst (rev (map (\<lambda>a. (ar_uid a, a)) (sr_activities r))) = rev (map ar_uid (sr_activities r))"
    by (simp add: rev_map comp_def)
  then show ?thesis using assms unfolding result_by_uid_def by (intro map_of_is_SomeI) (simp_all only: distinct_rev set_rev, auto)
qed

lemma count_distinct: "distinct xs \<Longrightarrow> v \<in> set xs \<Longrightarrow> count_list xs v = 1"
  by (induction xs) (auto simp: count_list_0_iff)

lemma plan_rows_once:
  assumes "build_plan sha uuid5 s h epoch ar = Inr pl" and "distinct (map ac_uid (sc_activities s))"
  shows "distinct (activity_uids (pl_network pl) @ left_out pl ''activity'')
    \<and> set (activity_uids (pl_network pl) @ left_out pl ''activity'') = set (map ac_uid (sc_activities s))"
proof -
  from assms(1) obtain cals ep window where
    f: "finish_plan sha uuid5 s cals ep window ar (source_placed s cals ep window ar) = Inr pl" by (rule build_plan_stages)
  let ?p = "source_placed s cals ep window ar"
  from f obtain bs e es elapsed status start where e: "plan_edges cals s (ci_of [window]) ?p bs = Inr e"
    and n: "pl_network pl = plan_network start (snd window) status ?p es elapsed (edge_rows uuid5 bs e)"
    and x: "pl_excluded pl = pm_excluded ?p @ ep_excluded e" by (rule finish_plan_stages) blast
  have uids: "activity_uids (pl_network pl) = scheduled ?p" by (simp add: n plan_network_uids)
  show ?thesis
    unfolding uids left_out_stages [OF x e] using source_placed_partition [OF assms(2), of cals ep window ar] by blast
qed

text \<open>
  (C32) The result of a plan answers every activity of the document exactly once. A row is scheduled
  exactly when the plan scheduled it, and then its four dates are the coordinates of the passes;
  every other row is excluded under the code the plan left it out for, and has no dates.
\<close>

theorem result_answers_document:
  assumes "build_plan sha uuid5 s h epoch ar = Inr p" and "distinct (map ac_uid (sc_activities s))"
    and "project_result sha detail p fp bp fa ro c h' = Inr r" and "u \<in> set (map ac_uid (sc_activities s))"
  shows "count_list (map ar_uid (sr_activities r)) u = 1
    \<and> (\<exists>row. result_by_uid r u = Some row \<and>
        (if u \<in> set (activity_uids (pl_network p))
         then ar_disposition row = SCHEDULED
           \<and> map_option (plan_to_seconds p) (ar_early_start row) = map_option early_start (by_uid fp u)
           \<and> map_option (plan_to_seconds p) (ar_early_finish row) = map_option early_finish (by_uid fp u)
           \<and> map_option (plan_to_seconds p) (ar_late_start row) = map_option late_start (late_by_uid bp u)
           \<and> map_option (plan_to_seconds p) (ar_late_finish row) = map_option late_finish (late_by_uid bp u)
         else ar_disposition row = EXCLUDED \<and> ar_early_start row = None \<and> ar_late_finish row = None
           \<and> (\<exists>x \<in> set (pl_excluded p). xc_kind x = ''activity'' \<and> xc_uid x = u \<and> ar_exclusion_code row = Some (xc_code x))))"
proof -
  note once = plan_rows_once [OF assms(1,2)]
  note uids = result_uids [OF assms(3)]
  have d: "distinct (map ar_uid (sr_activities r))" and all: "set (map ar_uid (sr_activities r)) = set (map ac_uid (sc_activities s))"
    using once by (simp_all only: uids)
  have count: "count_list (map ar_uid (sr_activities r)) u = 1" using d assms(4) by (simp only: count_distinct all)
  from assms(3) obtain labelled rows where rows: "rmap (scheduled_row p fp bp fa labelled) (activities (pl_network p)) = Inr rows"
    and r: "sr_activities r = rows @ map (excluded_row detail p fp labelled) (filter (\<lambda>x. xc_kind x = ''activity'') (pl_excluded p))"
    by (rule project_result_stages)
  show ?thesis
  proof (cases "u \<in> set (activity_uids (pl_network p))")
    case True
    then obtain a where a: "a \<in> set (activities (pl_network p))" "pa_uid a = u" by (auto simp: activity_uids_def)
    obtain row where row: "row \<in> set rows" "scheduled_row p fp bp fa labelled a = Inr row" using rmap_covers [OF rows a(1)] by blast
    from row(2) obtain t l where "by_uid fp u = Some t" "late_by_uid bp u = Some l" "ar_uid row = u" "ar_disposition row = SCHEDULED"
      "map_option (plan_to_seconds p) (ar_early_start row) = Some (early_start t)"
      "map_option (plan_to_seconds p) (ar_early_finish row) = Some (early_finish t)"
      "map_option (plan_to_seconds p) (ar_late_start row) = Some (late_start l)"
      "map_option (plan_to_seconds p) (ar_late_finish row) = Some (late_finish l)"
      unfolding a(2) [symmetric] by (rule scheduled_row_Inr)
    moreover have "row \<in> set (sr_activities r)" using row(1) by (simp add: r)
    ultimately show ?thesis using True count result_row [OF d] by (intro conjI exI [of _ row]) (auto simp only: if_True option.map)
  next
    case False
    with once assms(4) have "u \<in> set (left_out p ''activity'')" by auto
    then obtain x where x: "x \<in> set (pl_excluded p)" "xc_kind x = ''activity''" "xc_uid x = u" by (auto simp: left_out_def)
    let ?row = "excluded_row detail p fp labelled x"
    have "?row \<in> set (sr_activities r)" using x by (auto simp: r)
    then have "result_by_uid r u = Some ?row" using result_row [OF d, of ?row] by (simp add: excluded_row_fields x(3))
    then show ?thesis using False count x excluded_row_fields [of detail p fp labelled x]
      by (intro conjI exI [of _ ?row]) auto
  qed
qed

theorem result_answers_document_witness:
  "count_list (map ar_uid (sr_activities (cs_result sample_state))) 5 = 1
   \<and> (\<exists>row. result_by_uid (cs_result sample_state) 5 = Some row \<and> ar_disposition row = EXCLUDED \<and> ar_early_start row = None)"
proof -
  from sample_states(1) obtain p fp bp fa ro r
    where plan: "build_plan (en_sha sample_engine) (en_uuid5 sample_engine) sample_works sample_window None True = Inr p"
    and proj: "project_result (en_sha sample_engine) (en_detail sample_engine sample_works) p fp bp fa ro
      (en_doc_hash sample_engine sample_works) sample_window = Inr r"
    and st: "sample_state = \<lparr> cs_schedule = sample_works, cs_canonical_hash = en_doc_hash sample_engine sample_works,
      cs_horizon = sample_window, cs_plan = p, cs_forward = fp, cs_backward = bp, cs_result = r, cs_recalculation = None \<rparr>"
    unfolding calculate_state_def assemble_def rbind_Inr_iff Let_def by auto
  have d: "distinct (map ac_uid (sc_activities sample_works))" and u: "5 \<in> set (map ac_uid (sc_activities sample_works))" by code_simp+
  have "activity_uids (pl_network p) = [1, 6, 7]" using sample_states(3) by (simp add: sample_facts_def st)
  then show ?thesis using result_answers_document [OF plan d proj u] by (auto simp: st)
qed

subsection \<open>Labels\<close>

lemma late_row_driver:
  assumes row: "backward_row n snap early released late (outgoing_of n) u m = Inr l" and drv: "lt_driving_relationship_uid l = Some e"
  shows "e \<in> pr_uid ` set (outgoing_edges n u)"
proof -
  from row drv obtain a b where b: "late_bounds n early released late (outgoing_edges n u) m = Inr b"
    and t: "placed_late_row snap late a b = Inr l"
    by (auto simp: backward_row_def complete_late_row_def outgoing_of_def rbind_Inr_iff split: option.splits if_splits)
  from b obtain sel where sel: "selected_edges released m (outgoing_edges n u) = Inr sel"
    and fold: "rfold (late_bound_step n early m) sel
        \<lparr> lb_start = late, lb_finish = late, lb_start_driver = None, lb_finish_driver = None \<rparr> = Inr b"
    by (auto simp: late_bounds_def rbind_Inr_iff)
  have inv: "drivers_in sel b" using fold by (rule late_fold_drivers)
  let ?c = "late_constrain a b"
  have "late_driver a (remaining a) (lc_start ?c) (lc_finish ?c) (lc_start_driver ?c) (lc_finish_driver ?c) late = Inr (Some e)"
    using t drv unfolding placed_late_row_def Let_def rbind_Inr_iff by (force simp: rbind_Inr_iff split: if_splits option.splits)
  from late_driver_among [OF this] have "lb_start_driver b = Some e \<or> lb_finish_driver b = Some e"
    using late_constrain_drivers [of a b] by auto
  with inv have "e \<in> pr_uid ` set sel" by (auto simp: drivers_in_def)
  then show ?thesis using selected_mem [OF sel] by blast
qed

text \<open>The row the chosen late driver of a row leads to.\<close>

definition late_leads :: "plan \<Rightarrow> backward_pass_result \<Rightarrow> (uuid \<times> uuid) set" where
  "late_leads p bp =
     {(u, v). \<exists>t d r. late_by_uid bp u = Some t \<and> lt_driving_relationship_uid t = Some d
        \<and> r \<in> set (relationships (pl_network p)) \<and> pr_uid r = d \<and> pr_successor_uid r = v}"

lemma relationship_lookup:
  assumes "distinct (map pr_uid rs)" and "r \<in> set rs"
  shows "map_of (rev (map (\<lambda>r. (pr_uid r, r)) rs)) (pr_uid r) = Some r"
proof -
  have "map fst (rev (map (\<lambda>r. (pr_uid r, r)) rs)) = rev (map pr_uid rs)" by (simp add: rev_map comp_def)
  then show ?thesis using assms by (intro map_of_is_SomeI) (simp_all only: distinct_rev set_rev, auto)
qed

text \<open>What one step of the labelling loop does, where its lookups succeed.\<close>

definition step_known :: "plan \<Rightarrow> backward_pass_result \<Rightarrow> uuid \<Rightarrow> bool" where
  "step_known p bp u \<longleftrightarrow> (\<exists>t. late_by_uid bp u = Some t
     \<and> (\<forall>d. lt_driving_relationship_uid t = Some d \<longrightarrow> (\<exists>r \<in> set (relationships (pl_network p)). pr_uid r = d)))"

lemma label_step_known:
  assumes rs: "distinct (map pr_uid (relationships (pl_network p)))" and known: "step_known p bp u"
  shows "label_step p bp u labelled = Inr (if \<not> directly_assumed p u \<and> u \<notin> set labelled
      \<and> (\<exists>v. (u, v) \<in> late_leads p bp \<and> (directly_assumed p v \<or> v \<in> set labelled)) then labelled @ [u] else labelled)"
proof -
  obtain t where t: "late_by_uid bp u = Some t"
    and d: "\<And>d. lt_driving_relationship_uid t = Some d \<Longrightarrow> \<exists>r \<in> set (relationships (pl_network p)). pr_uid r = d"
    using known unfolding step_known_def by blast
  show ?thesis
  proof (cases "lt_driving_relationship_uid t")
    case None
    then have "(u, v) \<notin> late_leads p bp" for v by (simp add: late_leads_def t)
    with None t show ?thesis by (simp add: label_step_def)
  next
    case (Some e)
    then obtain r where r: "r \<in> set (relationships (pl_network p))" "pr_uid r = e" using d by blast
    have unique: "r' = r" if "r' \<in> set (relationships (pl_network p))" "pr_uid r' = e" for r'
      using relationship_lookup [OF rs r(1)] relationship_lookup [OF rs that(1)] r(2) that(2) by simp
    have leads: "(u, v) \<in> late_leads p bp \<longleftrightarrow> v = pr_successor_uid r" for v
    proof
      assume "(u, v) \<in> late_leads p bp"
      then show "v = pr_successor_uid r" using unique by (auto simp: late_leads_def t Some)
    qed (use r in \<open>auto simp: late_leads_def t Some\<close>)
    show ?thesis using relationship_lookup [OF rs r(1)] unfolding label_step_def leads by (simp add: t Some r(2))
  qed
qed

lemma labels_of_order:
  assumes rs: "distinct (map pr_uid (relationships (pl_network p)))"
    and "\<And>u. u \<in> set order \<Longrightarrow> step_known p bp u"
    and "\<And>pre u post v. order = pre @ u # post \<Longrightarrow> (u, v) \<in> late_leads p bp \<Longrightarrow> v \<in> set pre"
  shows "\<exists>ls. rfold (label_step p bp) order [] = Inr ls
    \<and> set ls = {u \<in> set order. \<not> directly_assumed p u \<and> (\<exists>v. (u, v) \<in> (late_leads p bp)\<^sup>+ \<and> directly_assumed p v)}"
  using assms(2,3)
proof (induction order rule: rev_induct)
  case (snoc u order)
  have "v \<in> set pre" if "order = pre @ w # post" "(w, v) \<in> late_leads p bp" for pre w post v
    using snoc.prems(2) [of pre w "post @ [u]" v] that by simp
  then obtain ls where fold: "rfold (label_step p bp) order [] = Inr ls"
    and ls: "set ls = {u \<in> set order. \<not> directly_assumed p u \<and> (\<exists>v. (u, v) \<in> (late_leads p bp)\<^sup>+ \<and> directly_assumed p v)}"
    using snoc.IH snoc.prems(1) by auto
  have before: "v \<in> set order" if "(u, v) \<in> late_leads p bp" for v using snoc.prems(2) [of order u "[]" v] that by simp
  let ?reach = "\<exists>v. (u, v) \<in> (late_leads p bp)\<^sup>+ \<and> directly_assumed p v"
  have next_row: "(\<exists>v. (u, v) \<in> late_leads p bp \<and> (directly_assumed p v \<or> v \<in> set ls)) \<longleftrightarrow> ?reach"
  proof
    assume "\<exists>v. (u, v) \<in> late_leads p bp \<and> (directly_assumed p v \<or> v \<in> set ls)"
    then show ?reach unfolding ls by (auto intro: trancl_into_trancl2)
  next
    assume ?reach
    then obtain v where v: "(u, v) \<in> (late_leads p bp)\<^sup>+" "directly_assumed p v" by blast
    obtain w where w: "(u, w) \<in> late_leads p bp" "(w, v) \<in> (late_leads p bp)\<^sup>*" using tranclD [OF v(1)] by blast
    have "directly_assumed p w \<or> w \<in> set ls"
    proof (cases "w = v")
      case False
      with w(2) have "(w, v) \<in> (late_leads p bp)\<^sup>+" by (simp add: rtrancl_eq_or_trancl)
      then show ?thesis using before [OF w(1)] v(2) unfolding ls by blast
    qed (use v(2) in simp)
    with w(1) show "\<exists>v. (u, v) \<in> late_leads p bp \<and> (directly_assumed p v \<or> v \<in> set ls)" by blast
  qed
  have known: "step_known p bp u" using snoc.prems(1) by simp
  show ?case
  proof (cases "u \<in> set ls")
    case True
    then show ?thesis using fold label_step_known [OF rs known, of ls] ls by (auto simp: rfold_append)
  next
    case False
    then show ?thesis using fold label_step_known [OF rs known, of ls, unfolded next_row] ls by (auto simp: rfold_append)
  qed
qed simp

lemma passes_order:
  assumes fwd: "forward_pass sha n snap policy = Inr fp" and bwd: "backward_pass sha n fp None None None = Inr bp"
  shows "set (bp_order bp) = set (activity_uids n)"
    and "bp_order bp = pre @ u # post \<Longrightarrow> r \<in> set (relationships n) \<Longrightarrow> pr_predecessor_uid r = u \<Longrightarrow> pr_successor_uid r \<in> set pre"
proof -
  note rows = forward_pass_rows [OF fwd]
  obtain ok: "network_ok n" using fwd by (rule forward_pass_run)
  have order: "bp_order bp = rev (fp_order fp)"
    using arg_cong [OF backward_pass_solved(3) [OF fwd bwd], of bp_order] by (simp add: backward_solution_def Let_def)
  then show "set (bp_order bp) = set (activity_uids n)" using rows(2) by simp
  assume split: "bp_order bp = pre @ u # post" and r: "r \<in> set (relationships n)" "pr_predecessor_uid r = u"
  let ?w = "pr_successor_uid r"
  have o: "fp_order fp = rev post @ u # rev pre" using split order by (metis append.assoc append_Cons append_Nil rev.simps(2) rev_append rev_rev_ident)
  have known: "?w \<in> set (fp_order fp)" using network_ok_known [OF ok] r(1) rows(2) by (auto simp: known_edges_def)
  have early: "u \<in> set front" if "fp_order fp = front @ ?w # behind" for front behind
    using rows(3) that r unfolding precedence_order_def by blast
  have "?w \<notin> set (rev post)"
  proof
    assume "?w \<in> set (rev post)"
    then obtain a b where "rev post = a @ ?w # b" by (meson split_list)
    with o early [of a "b @ u # rev pre"] rows(1) show False by auto
  qed
  moreover have "?w \<noteq> u" using o early [of "rev post" "rev pre"] rows(1) by auto
  ultimately show "?w \<in> set pre" using known o by auto
qed

lemma passes_known:
  assumes fwd: "forward_pass sha (pl_network p) snap policy = Inr fp"
    and bwd: "backward_pass sha (pl_network p) fp None None None = Inr bp" and u: "u \<in> set (activity_uids (pl_network p))"
  shows "step_known p bp u" and "(u, v) \<in> late_leads p bp \<Longrightarrow>
    \<exists>r \<in> set (relationships (pl_network p)). pr_predecessor_uid r = u \<and> pr_successor_uid r = v"
proof -
  obtain t where t: "late_by_uid bp u = Some t" and row: "backward_row (pl_network p) snap (by_uid fp)
      (set (overridden_relationships bp)) (bp_project_late_finish bp) (outgoing_of (pl_network p)) u (late_by_uid bp) = Inr t"
    using backward_pass_rows(2) [OF fwd bwd u] by blast
  have driver: "\<exists>r \<in> set (relationships (pl_network p)). pr_uid r = d \<and> pr_predecessor_uid r = u"
    if "lt_driving_relationship_uid t = Some d" for d
    using late_row_driver [OF row that] by (auto simp: outgoing_edges_def)
  then show "step_known p bp u" using t unfolding step_known_def by blast
  obtain ok: "network_ok (pl_network p)" using fwd by (rule forward_pass_run)
  assume "(u, v) \<in> late_leads p bp"
  then obtain d r where d: "lt_driving_relationship_uid t = Some d"
    and r: "r \<in> set (relationships (pl_network p))" "pr_uid r = d" "pr_successor_uid r = v" by (auto simp: late_leads_def t)
  obtain r' where r': "r' \<in> set (relationships (pl_network p))" "pr_uid r' = d" "pr_predecessor_uid r' = u" using driver [OF d] by blast
  have "distinct (map pr_uid (relationships (pl_network p)))" using ok by (simp add: network_ok_def)
  from relationship_lookup [OF this r(1)] relationship_lookup [OF this r'(1)] have "r = r'" using r(2) r'(2) by simp
  with r r' show "\<exists>r \<in> set (relationships (pl_network p)). pr_predecessor_uid r = u \<and> pr_successor_uid r = v" by blast
qed

lemma derived_labels_exact:
  assumes fwd: "forward_pass sha (pl_network p) snap policy = Inr fp"
    and bwd: "backward_pass sha (pl_network p) fp None None None = Inr bp"
  shows "\<exists>ls. derived_labels p bp = Inr ls \<and> set ls = {u. \<not> directly_assumed p u
    \<and> (\<exists>v. (u, v) \<in> (late_leads p bp)\<^sup>+ \<and> directly_assumed p v)}"
proof -
  obtain ok: "network_ok (pl_network p)" using fwd by (rule forward_pass_run)
  then have rs: "distinct (map pr_uid (relationships (pl_network p)))" by (simp add: network_ok_def)
  note order = passes_order [OF fwd bwd]
  have "v \<in> set pre" if split: "bp_order bp = pre @ u # post" and leads: "(u, v) \<in> late_leads p bp" for pre u post v
  proof -
    have "u \<in> set (activity_uids (pl_network p))" using order(1) split by auto
    from passes_known(2) [OF fwd bwd this leads] order(2) [OF split] show ?thesis by blast
  qed
  moreover have "step_known p bp u" if "u \<in> set (bp_order bp)" for u using passes_known(1) [OF fwd bwd] that order(1) by simp
  ultimately obtain ls where "rfold (label_step p bp) (bp_order bp) [] = Inr ls"
    and ls: "set ls = {u \<in> set (bp_order bp). \<not> directly_assumed p u \<and> (\<exists>v. (u, v) \<in> (late_leads p bp)\<^sup>+ \<and> directly_assumed p v)}"
    using labels_of_order [OF rs, of "bp_order bp" bp] by blast
  moreover have "u \<in> set (bp_order bp)" if "(u, v) \<in> (late_leads p bp)\<^sup>+" for u v
  proof -
    have "\<exists>w. (u, w) \<in> late_leads p bp" using tranclD [OF that] by blast
    then have "u \<in> dom (late_by_uid bp)" by (auto simp: late_leads_def)
    then show ?thesis using backward_pass_rows(1) [OF fwd bwd] order(1) by simp
  qed
  ultimately show ?thesis unfolding derived_labels_def by blast
qed

text \<open>
  (C33) Which rows are labelled as resting on assumed progress, in the result of finished passes: exactly
  those the plan does not label itself and from which the chosen late drivers lead, over any number of
  rows, to one the plan labels. The other labels of a row are the plan's own and the one for a
  start that no edge bounds.
\<close>

theorem result_labels_exact:
  assumes "forward_pass sha (pl_network p) snap policy = Inr fp" and "backward_pass sha (pl_network p) fp None None None = Inr bp"
    and "project_result sha detail p fp bp fa ro c h = Inr r" and "row \<in> set (sr_activities r)"
  shows "ar_assumptions row = activity_codes p (ar_uid row)
    @ (if \<not> directly_assumed p (ar_uid row) \<and> (\<exists>v. (ar_uid row, v) \<in> (late_leads p bp)\<^sup>+ \<and> directly_assumed p v)
       then [DERIVED_PROGRESS_ASSUMPTION] else [])
    @ (if ar_uid row \<in> set (unbounded_starts fp) then [''ACTIVITY_START_NOT_BOUNDED''] else [])"
proof -
  obtain ls where ls: "derived_labels p bp = Inr ls"
    and exact: "set ls = {u. \<not> directly_assumed p u \<and> (\<exists>v. (u, v) \<in> (late_leads p bp)\<^sup>+ \<and> directly_assumed p v)}"
    using derived_labels_exact [OF assms(1,2)] by blast
  from assms(3) obtain labelled rows where lab: "derived_labels p bp = Inr labelled"
    and rows: "rmap (scheduled_row p fp bp fa labelled) (activities (pl_network p)) = Inr rows"
    and r: "sr_activities r = rows @ map (excluded_row detail p fp labelled) (filter (\<lambda>x. xc_kind x = ''activity'') (pl_excluded p))"
    by (rule project_result_stages)
  have "labelled = ls" using ls lab by simp
  moreover have "ar_assumptions row = row_assumptions p labelled fp (ar_uid row)"
  proof -
    consider "row \<in> set rows" | x where "row = excluded_row detail p fp labelled x" using assms(4) by (auto simp: r)
    then show ?thesis
    proof cases
      case 1
      from rmap_mem [OF rows this] obtain a where "scheduled_row p fp bp fa labelled a = Inr row" by blast
      then show ?thesis by (rule scheduled_row_Inr) simp
    next
      case 2
      then show ?thesis by (simp add: excluded_row_def Let_def unplaced_def)
    qed
  qed
  ultimately show ?thesis by (simp add: row_assumptions_def exact)
qed

theorem result_labels_exact_witness:
  "\<exists>v. (1, v) \<in> (late_leads sample_assumed_plan sample_chains_backward)\<^sup>+ \<and> directly_assumed sample_assumed_plan v"
proof -
  have passes: "forward_pass (\<lambda>_. []) (pl_network sample_assumed_plan) False RETAINED_LOGIC = Inr sample_chains_forward"
    "backward_pass (\<lambda>_. []) (pl_network sample_assumed_plan) sample_chains_forward None None None = Inr sample_chains_backward"
    by (simp_all add: sample_assumed_plan_def sample_recalculation_run)
  have "(1, [DERIVED_PROGRESS_ASSUMPTION]) \<in> (\<lambda>row. (ar_uid row, ar_assumptions row)) ` set (sr_activities sample_labelled)"
    using arg_cong [OF sample_labelled_run(2), of set] by simp
  then obtain row where row: "row \<in> set (sr_activities sample_labelled)" "ar_uid row = 1" "ar_assumptions row = [DERIVED_PROGRESS_ASSUMPTION]" by auto
  have none: "activity_codes sample_assumed_plan 1 = []" by code_simp
  have other: "DERIVED_PROGRESS_ASSUMPTION \<noteq> ''ACTIVITY_START_NOT_BOUNDED''" by (simp add: DERIVED_PROGRESS_ASSUMPTION_def)
  show ?thesis
    using result_labels_exact [OF passes sample_labelled_run(1) row(1)] other unfolding row(2,3) none by (auto split: if_splits)
qed

subsection \<open>Failures\<close>

lemma option_date_Inl: "option_date p x = Inl e \<Longrightarrow> e = OverflowError"
  by (auto simp: option_date_def plan_to_datetime_def add_micros_def rbind_Inl_iff split: option.splits if_splits)

lemma plan_to_datetime_Inl: "plan_to_datetime p x = Inl e \<Longrightarrow> e = OverflowError"
  by (auto simp: plan_to_datetime_def add_micros_def split: if_splits)

lemma float_rows:
  assumes fwd: "forward_pass sha n snap policy = Inr fp" and flt: "float_analysis sha n fp bp thr = Inr fa"
    and u: "u \<in> set (activity_uids n)"
  shows "float_by_uid fa u \<noteq> None"
proof -
  from flt obtain cx outgoing where rows: "rmap (float_row n cx (late_by_uid bp) (set (overridden_relationships bp)) thr outgoing)
      (fp_order fp) = Inr (fa_rows fa)"
    by (auto simp: float_analysis_def rbind_Inr_iff)
  have "u \<in> set (fp_order fp)" using forward_pass_rows(2) [OF fwd] u by simp
  from rmap_covers [OF rows this] obtain f where "f \<in> set (fa_rows fa)" "af_uid f = u" using float_row_uid by blast
  then have "u \<in> fst ` set (rev (map (\<lambda>f. (af_uid f, f)) (fa_rows fa)))" by force
  then show ?thesis by (simp only: float_by_uid_def map_of_eq_None_iff not_not)
qed

text \<open>
  (C34) Projecting the results of finished passes fails in one way only: a coordinate whose date is outside
  the range of \<open>datetime\<close>. No row is ever missing from a pass and no driver from the network.
\<close>

theorem projection_only_overflows:
  assumes "forward_pass sha (pl_network p) snap policy = Inr fp" and "backward_pass sha (pl_network p) fp None None None = Inr bp"
    and "float_analysis sha (pl_network p) fp bp thr = Inr fa" and "project_result sha detail p fp bp fa ro c h = Inl e"
  shows "e = OverflowError"
proof -
  obtain ls where ls: "derived_labels p bp = Inr ls" using derived_labels_exact [OF assms(1,2)] by blast
  have row: "e = OverflowError" if "a \<in> set (activities (pl_network p))" "scheduled_row p fp bp fa ls a = Inl e" for a
  proof -
    have u: "pa_uid a \<in> set (activity_uids (pl_network p))" using that(1) by (simp add: activity_uids_def)
    obtain t l f where look: "by_uid fp (pa_uid a) = Some t" "late_by_uid bp (pa_uid a) = Some l" "float_by_uid fa (pa_uid a) = Some f"
      using forward_pass_rows(6) [OF assms(1) u] backward_pass_rows(2) [OF assms(1,2) u] float_rows [OF assms(1,3) u] by auto
    show ?thesis
      using that(2) unfolding scheduled_row_def Let_def look by (auto simp: rbind_Inl_iff dest: plan_to_datetime_Inl option_date_Inl)
  qed
  show ?thesis
    using assms(4) unfolding project_result_def result_provenance_def summary_row_def ls Let_def
    by (auto simp: rbind_Inl_iff dest!: rmap_Inl dest: option_date_Inl plan_to_datetime_Inl row)
qed

theorem projection_only_overflows_witness: "\<exists>e. sample_projection sample_late_plan = Inl e \<and> e = OverflowError"
proof (intro exI conjI)
  have passes: "forward_pass (\<lambda>_. []) (pl_network sample_late_plan) False RETAINED_LOGIC = Inr sample_chains_forward"
    "backward_pass (\<lambda>_. []) (pl_network sample_late_plan) sample_chains_forward None None None = Inr sample_chains_backward"
    "float_analysis (\<lambda>_. []) (pl_network sample_late_plan) sample_chains_forward sample_chains_backward 0 = Inr chain_floats"
    by (simp_all add: sample_late_plan_def sample_assumed_plan_def sample_recalculation_run chain_floats_run)
  show "sample_projection sample_late_plan = Inl OverflowError" by (rule sample_labelled_run(3))
  then show "OverflowError = OverflowError" by (rule projection_only_overflows [OF passes])
qed

end
