(* ===== verification/Plan_Cut.thy ===== *)
theory Plan_Cut
  imports Plan_Facts
begin

section \<open>Rows behind an unknown date\<close>

text \<open>
  The rows a plan cuts, characterised over the finished plan: those reached from a row whose date is
  unknown along the source edges, through unfinished rows the plan left out for no other reason. The
  rows it labels are rows it schedules.
\<close>

subsection \<open>The seeds and the rows that may be cut\<close>

definition undated :: "plan \<Rightarrow> uuid \<Rightarrow> bool" where
  "undated pl u \<longleftrightarrow> list_ex (\<lambda>x. xc_uid x = u \<and> xc_kind x = ''activity'' \<and> xc_code x \<in> set UNKNOWN_DATE_EXCLUSIONS) (pl_excluded pl)"

definition cut_row :: "plan \<Rightarrow> uuid \<Rightarrow> bool" where
  "cut_row pl u \<longleftrightarrow> cut_exclusion u \<in> set (pl_excluded pl)"

text \<open>Unfinished, and not left out for a reason of its own.\<close>

definition open_row :: "schedule \<Rightarrow> plan \<Rightarrow> uuid \<Rightarrow> bool" where
  "open_row s pl u \<longleftrightarrow> list_ex (\<lambda>a. ac_uid a = u \<and> ac_actual_finish a = None) (sc_activities s)
     \<and> \<not> list_ex (\<lambda>x. xc_uid x = u \<and> xc_kind x = ''activity'' \<and> xc_code x \<noteq> ''ACTIVITY_PREDECESSOR_NOT_SCHEDULED'') (pl_excluded pl)"

lemma undated_stage:
  assumes "pl_excluded pl = pm_excluded (source_placed s cals ep w ar) @ ep_excluded e"
    and "plan_edges cals s c (source_placed s cals ep w ar) bs = Inr e"
  shows "undated pl u \<longleftrightarrow> u \<in> set (unknown_dates (source_placement s cals ep w ar))"
proof -
  have "xc_kind x \<noteq> ''activity''" if "x \<in> set (ep_excluded e)" for x
    using plan_edges_inv [OF assms(2)] that by (auto simp: edge_plan_inv_def)
  then show ?thesis
    unfolding undated_def assms(1) cut_placement_sel unknown_dates_def
    by (auto simp: list_ex_iff UNKNOWN_DATE_EXCLUSIONS_def)
qed

lemma cut_row_stage:
  assumes "pl_excluded pl = pm_excluded (source_placed s cals ep w ar) @ ep_excluded e"
    and "plan_edges cals s c (source_placed s cals ep w ar) bs = Inr e"
    and "distinct (map ac_uid (sc_activities s))"
  shows "cut_row pl u \<longleftrightarrow> u \<in> set (cut_rows s (source_placement s cals ep w ar))"
proof -
  let ?p = "source_placement s cals ep w ar"
  have "xc_kind x \<noteq> ''activity''" if "x \<in> set (ep_excluded e)" for x
    using plan_edges_inv [OF assms(2)] that by (auto simp: edge_plan_inv_def)
  then have "cut_exclusion u \<notin> set (ep_excluded e)" by force
  moreover have "cut_exclusion u \<notin> set (pm_excluded ?p)"
    using source_placement_uids(3) [of "cut_exclusion u" s cals ep w ar] by auto
  moreover have "cut_exclusion u \<in> set (map cut_exclusion us) \<longleftrightarrow> u \<in> set us" for us by auto
  ultimately have "cut_row pl u \<longleftrightarrow> u \<in> set (map ac_uid (filter (\<lambda>a. ac_uid a \<in> set (cut_rows s ?p)) (sc_activities s)))"
    unfolding cut_row_def assms(1) cut_placement_sel by (simp only: set_append Un_iff simp_thms)
  moreover have "u \<in> set (map ac_uid (sc_activities s))" if "u \<in> set (cut_rows s ?p)"
    using cut_rows_scheduled [OF that] unfolding source_placement_uids by auto
  ultimately show ?thesis by auto
qed

lemma open_row_stage:
  assumes "pl_excluded pl = pm_excluded (source_placed s cals ep w ar) @ ep_excluded e"
    and "plan_edges cals s c (source_placed s cals ep w ar) bs = Inr e"
    and "distinct (map ac_uid (sc_activities s))"
  shows "open_row s pl u \<longleftrightarrow> u \<in> set (cut_candidates s (source_placement s cals ep w ar))"
proof -
  let ?p = "source_placement s cals ep w ar" and ?row = "plan_activity cals s ar ep (ci_of [w])"
  have e: "xc_kind x \<noteq> ''activity''" if "x \<in> set (ep_excluded e)" for x
    using plan_edges_inv [OF assms(2)] that by (auto simp: edge_plan_inv_def)
  have "list_ex (\<lambda>x. xc_uid x = u \<and> xc_kind x = ''activity'' \<and> xc_code x \<noteq> ''ACTIVITY_PREDECESSOR_NOT_SCHEDULED'') (pl_excluded pl)
    \<longleftrightarrow> u \<in> set (map xc_uid (pm_excluded ?p))"
    (is "list_ex ?other _ \<longleftrightarrow> _")
  proof -
    have "?other x \<longleftrightarrow> xc_uid x = u" if "x \<in> set (pm_excluded ?p)" for x
      using source_placement_uids(3) [OF that] by auto
    moreover have "\<not> ?other x" if "x \<in> set (ep_excluded e)" for x using e [OF that] by simp
    moreover have "\<not> ?other (cut_exclusion v)" for v by simp
    ultimately show ?thesis unfolding assms(1) cut_placement_sel list_ex_append
      by (auto simp: list_ex_iff)
  qed
  also have "\<dots> \<longleftrightarrow> (\<exists>a \<in> set (sc_activities s). ac_uid a = u \<and> \<not> accepted ?row a)"
    unfolding source_placement_uids by auto
  finally have x: "list_ex (\<lambda>x. xc_uid x = u \<and> xc_kind x = ''activity'' \<and> xc_code x \<noteq> ''ACTIVITY_PREDECESSOR_NOT_SCHEDULED'') (pl_excluded pl)
    \<longleftrightarrow> (\<exists>a \<in> set (sc_activities s). ac_uid a = u \<and> \<not> accepted ?row a)" .
  have one: "a = b" if "a \<in> set (sc_activities s)" "b \<in> set (sc_activities s)" "ac_uid a = ac_uid b" for a b
    using assms(3) that by (auto simp: distinct_map inj_on_def)
  have "u \<in> set (cut_candidates s ?p) \<longleftrightarrow> (\<exists>a \<in> set (sc_activities s). ac_uid a = u \<and> accepted ?row a \<and> ac_actual_finish a = None)"
    unfolding cut_candidates_def source_placement_uids by (auto dest: one)
  then show ?thesis unfolding open_row_def x using one by (auto simp: list_ex_iff)
qed

text \<open>
  (C29) The rows left out because of a predecessor are exactly those behind an unknown date: reached
  from an activity whose dates are unknown along the relationships of the source, through unfinished
  activities that are not left out for a reason of their own. A chain is followed to its end, and
  finished work neither is cut nor passes the cut on.
\<close>

theorem plan_cut_exact:
  assumes "build_plan sha uuid5 s h epoch ar = Inr pl" and "distinct (map ac_uid (sc_activities s))"
  shows "cut_row pl v \<longleftrightarrow> behind s (open_row s pl) (undated pl) v"
proof -
  from assms(1) obtain cals ep window where
    f: "finish_plan sha uuid5 s cals ep window ar (source_placed s cals ep window ar) = Inr pl" by (rule build_plan_stages)
  then obtain bs e where e: "plan_edges cals s (ci_of [window]) (source_placed s cals ep window ar) bs = Inr e"
    and x: "pl_excluded pl = pm_excluded (source_placed s cals ep window ar) @ ep_excluded e" by (rule finish_plan_stages) blast
  have "open_row s pl = (\<lambda>v. v \<in> set (cut_candidates s (source_placement s cals ep window ar)))"
    "undated pl = (\<lambda>u. u \<in> set (unknown_dates (source_placement s cals ep window ar)))"
    using open_row_stage [OF x e assms(2)] undated_stage [OF x e] by auto
  then show ?thesis using cut_row_stage [OF x e assms(2), of v] by (simp add: cut_rows_exact)
qed

lemma plan_cut_exact_witness:
  "cut_row sample_plan 3 \<and> \<not> behind sample_schedule (open_row sample_schedule sample_plan) (undated sample_plan) 4"
proof -
  have d: "distinct (map ac_uid (sc_activities sample_schedule))" by code_simp
  have "cut_row sample_plan 3" "\<not> cut_row sample_plan 4" by (simp_all add: cut_row_def sample_plan_excluded left_activity_def left_edge_def)
  with plan_cut_exact [OF sample_plan_run d] show ?thesis by simp
qed

subsection \<open>Labels name scheduled rows\<close>

text \<open>Every label on an activity is on a scheduled one.\<close>

definition labels_scheduled :: "placement \<Rightarrow> assumption list \<Rightarrow> bool" where
  "labels_scheduled p xs \<longleftrightarrow> (\<forall>x \<in> set xs. am_kind x = ''activity'' \<longrightarrow> am_uid x \<in> set (scheduled p))"

lemma assumed_elsewhere_iff: "assumed_elsewhere p xs \<longleftrightarrow> \<not> labels_scheduled p xs"
  by (auto simp: assumed_elsewhere_def labels_scheduled_def list_ex_iff)

lemma labels_scheduled_append [simp]: "labels_scheduled p (xs @ ys) \<longleftrightarrow> labels_scheduled p xs \<and> labels_scheduled p ys"
  by (auto simp: labels_scheduled_def)

lemma row_assumption_uid:
  "x \<in> set (concat (map (row_assumption row) as)) \<Longrightarrow> am_uid x \<in> set (map ac_uid (filter (accepted row) as))"
  by (auto simp: row_assumption_def accepted_def split: plan_row.splits)

lemma placed_labels: "labels_scheduled (source_placed s cals ep w ar) (pm_assumed (source_placed s cals ep w ar))"
proof -
  have "am_uid x \<in> set (scheduled (source_placement s cals ep w ar))" if "x \<in> set (pm_assumed (source_placement s cals ep w ar))" for x
    using row_assumption_uid that unfolding source_placement_uids unfolding source_placement_def place_rows_eq by blast
  then show ?thesis by (simp add: labels_scheduled_def cut_placement_sel)
qed

lemma edge_labels: "plan_edges cals s c p bs = Inr e \<Longrightarrow> labels_scheduled p (ep_assumed e)"
  using plan_edges_inv by (auto simp: edge_plan_inv_def labels_scheduled_def)

lemma without_united_labels: "labels_scheduled p xs \<Longrightarrow> labels_scheduled p (without_united es xs)"
  by (simp add: labels_scheduled_def without_united_def)

lemma under_way_scheduled: "x \<in> set (under_way s p rs) \<Longrightarrow> fst x \<in> set (scheduled p)"
  by (auto simp: under_way_def split: option.splits)

lemma static_labels: "labels_scheduled p (static_assumptions (under_way s p rs))"
  by (auto simp: labels_scheduled_def static_assumptions_def dest: under_way_scheduled)

lemma dynamic_labels:
  assumes "dynamic_assumptions sha n snap policy (under_way s p rs) = Inr late"
  shows "labels_scheduled p late"
proof (cases "map fst (filter (\<lambda>x. snd x = []) (under_way s p rs)) = []")
  case True
  with assms show ?thesis by (simp add: dynamic_assumptions_def labels_scheduled_def)
next
  case False
  let ?us = "map fst (filter (\<lambda>x. snd x = []) (under_way s p rs))"
  let ?f = "\<lambda>fp u. case activity_by_uid n u of None \<Rightarrow> Inl KeyError
      | Some a \<Rightarrow> rbind (dynamic_failures (incident_edges (relationships n) u) (by_uid fp) a policy (status_time n))
          (\<lambda>f. Inr (if f = [] then [] else [late_assumption u]))"
  from False assms obtain fp found where f: "rmap (?f fp) ?us = Inr found" and late: "late = concat found"
    unfolding dynamic_assumptions_def Let_def by (auto simp only: if_False rbind_Inr_iff sum.inject)
  have "am_uid x \<in> set (scheduled p)" if "x \<in> set ys" "ys \<in> set found" for x ys
  proof -
    from rmap_mem [OF f that(2)] obtain u where u: "u \<in> set ?us" and "?f fp u = Inr ys" by blast
    then have "x = late_assumption u" using that(1) by (auto simp: rbind_Inr_iff split: option.splits if_splits)
    with u show ?thesis by (auto dest: under_way_scheduled)
  qed
  then show ?thesis by (auto simp: labels_scheduled_def late)
qed

text \<open>
  The check that ends the plan never fires: for every schedule and calendar, the assumptions
  gathered along the way, from placement, edges, envelopes and work under way, name only activities
  the plan schedules, however many rows the cut has taken out in between.
\<close>

theorem plan_labels_scheduled:
  assumes "plan_edges cals s c (source_placed s cals ep w ar) bs = Inr e"
    and "dynamic_assumptions sha n snap policy (under_way s (source_placed s cals ep w ar) rs) = Inr late"
  shows "\<not> assumed_elsewhere (source_placed s cals ep w ar)
     (without_united es (pm_assumed (source_placed s cals ep w ar) @ ep_assumed e)
      @ static_assumptions (under_way s (source_placed s cals ep w ar) rs) @ late)"
  using assms placed_labels edge_labels static_labels dynamic_labels without_united_labels
  unfolding assumed_elsewhere_iff by (metis labels_scheduled_append)

lemma plan_labels_scheduled_witness:
  "\<exists>p assumed. assumed = [assumed_activity 4 ''ACTIVITY_SECONDARY_CONSTRAINT_NOT_APPLIED''] \<and> \<not> assumed_elsewhere p assumed
     \<and> (\<exists>cals ep w. p = source_placed sample_schedule cals ep w True)"
proof -
  obtain cals ep w where
    f: "finish_plan (\<lambda>_. []) named_uid sample_schedule cals ep w True (source_placed sample_schedule cals ep w True) = Inr sample_plan"
    using sample_plan_run by (rule build_plan_stages)
  from f obtain bs e es rs late where e: "plan_edges cals sample_schedule (ci_of [w]) (source_placed sample_schedule cals ep w True) bs = Inr e"
    and late: "dynamic_assumptions (\<lambda>_. []) (pl_network sample_plan) (pl_snap_milestones sample_plan) (pl_progress_policy sample_plan)
      (under_way sample_schedule (source_placed sample_schedule cals ep w True) rs) = Inr late"
    and a: "pl_assumed sample_plan = without_united es (pm_assumed (source_placed sample_schedule cals ep w True) @ ep_assumed e)
      @ static_assumptions (under_way sample_schedule (source_placed sample_schedule cals ep w True) rs) @ late"
    by (rule finish_plan_stages) blast
  from plan_labels_scheduled [OF e late, of es] show ?thesis unfolding a [symmetric] sample_plan_assumed by blast
qed

end
