(* ===== verification/Plan_Valid.thy ===== *)
theory Plan_Valid
  imports Plan_Cut Network_Facts Compile_Properties Identifiers
begin

section \<open>A plan's network is a valid one\<close>

text \<open>
  \<open>build_plan\<close> does not call \<open>Network.validate\<close>; the passes do. Here: what the builder leaves for it to
  refuse. The calendars, constraints, envelopes, identifiers and groups of derived edges of a plan always
  pass; the window, the durations and actual dates of the placed rows and edges from a row to itself are
  copied from the source, and the network is accepted exactly when those are sound.
\<close>

lemma boundary_name_inj:
  assumes "boundary_name p b v = boundary_name p' b' v'"
    and "p < 2 ^ 128" "b < 2 ^ 128" "v < 2 ^ 128" "p' < 2 ^ 128" "b' < 2 ^ 128" "v' < 2 ^ 128"
  shows "p = p' \<and> b = b' \<and> v = v'"
proof -
  from assms(1) have "uuid_text p = uuid_text p'" "uuid_text b = uuid_text b'" "uuid_text v = uuid_text v'"
    by (simp_all add: boundary_name_def)
  with assms show ?thesis using uuid_text_inj by blast
qed

subsection \<open>Calendars of one window\<close>

text \<open>Every compiled calendar has the same window, and working time only when the window is not empty.\<close>

definition in_window :: "int \<times> int \<Rightarrow> compiled_intervals \<Rightarrow> bool" where
  "in_window w c \<longleftrightarrow> (intervals c \<noteq> [] \<longrightarrow> fst w < snd w)"

lemma clip_day_window: "clip_day m hz ivs \<noteq> [] \<Longrightarrow> fst hz < snd hz"
  by (auto simp: clip_day_def filter_empty_conv)

lemma compile_days_window:
  "compile_days p epoch hz day last_day raw k = Inr (raw', k') \<Longrightarrow> (raw \<noteq> [] \<longrightarrow> fst hz < snd hz)
   \<Longrightarrow> (raw' \<noteq> [] \<longrightarrow> fst hz < snd hz)"
proof (induction p epoch hz day last_day raw k rule: compile_days.induct)
  case (1 p epoch hz day last_day raw k)
  show ?case
  proof (cases "day > last_day")
    case True
    with "1.prems" show ?thesis by (simp add: compile_days.simps)
  next
    case False
    with "1.prems"(1) obtain ivs k1 d where
      "(case map_of (pt_exception_days p) day of Some ivs \<Rightarrow> Inr (ivs, Suc k)
        | None \<Rightarrow> (case map_of (pt_week p) (day_type day) of None \<Rightarrow> Inl KeyError | Some ivs \<Rightarrow> Inr (ivs, k))) = Inr (ivs, k1)"
      "add_days day 1 = Inr d"
      "compile_days p epoch hz (day + 1) last_day (raw @ clip_day (int_seconds (midnight_of day - epoch)) hz ivs) k1 = Inr (raw', k')"
      by (subst (asm) compile_days.simps) (auto simp: rbind_Inr_iff)
    with "1.IH" [OF False] "1.prems"(2) clip_day_window show ?thesis by (metis append_is_Nil_conv)
  qed
qed

lemma intervals_ci_of [simp]: "intervals (ci_of ivs) = normalise ivs"
  by (simp add: ci_of_def Let_def)

lemma normalise_Nil [simp]: "normalise [] = []"
  by (simp add: normalise_def)

definition shared_window :: "int \<times> int \<Rightarrow> calendars \<Rightarrow> bool" where
  "shared_window w cals \<longleftrightarrow> (\<forall>(u, cc) \<in> set cals. cc_horizon cc = w \<and> in_window w (cc_intervals cc))"

lemma mem_update: "x \<in> set (AList.update k v al) \<Longrightarrow> x = (k, v) \<or> x \<in> set al"
  by (induction al) (auto split: if_splits)

lemma compile_calendars_window:
  assumes "compile_calendars sha cs h epoch = Inr cals"
  shows "\<exists>w. shared_window w cals"
proof -
  define ep where "ep = default_epoch (fst h) epoch"
  let ?hz = "(int_seconds (fst h - ep), int_seconds (snd h - ep))"
  from assms obtain window s where run: "rfold (compile_step sha cs h ep window) cs ([], Map.empty) = Inr s" and cals: "cals = fst s"
    by (auto simp: compile_calendars_def rbind_Inr_iff ep_def)
  from run have "shared_window ?hz (fst s)"
  proof (rule rfold_invariant [where P = "\<lambda>_ s. shared_window ?hz (fst s)"])
    fix c s0 s1
    assume inv: "shared_window ?hz (fst s0)" and step: "compile_step sha cs h ep window c s0 = Inr s1"
    from step obtain cc cache where run: "compile_with sha cs (cal_uid c) h ep window (snd s0) = Inr (cc, cache)"
      and s1: "s1 = (AList.update (cal_uid c) cc (fst s0), cache)"
      by (auto simp: compile_step_def compile_calendar_def rbind_Inr_iff raise_if_Inr_iff default_epoch_def)
    from run obtain p raw k where "compile_days p ep ?hz (date_of (fst h)) (date_of (snd h - 1)) [] 0 = Inr (raw, k)"
      "cc_intervals cc = ci_of raw" by (rule compile_with_Inr)
    then have "in_window ?hz (cc_intervals cc)" using compile_days_window [of p ep ?hz] by (fastforce simp: in_window_def)
    moreover have "cc_horizon cc = ?hz" using run by (auto simp: compile_with_def rbind_Inr_iff Let_def)
    ultimately show "shared_window ?hz (fst s1)"
      using inv by (auto simp: s1 shared_window_def dest: mem_update)
  qed (simp add: shared_window_def)
  then show ?thesis unfolding cals by blast
qed

lemma map_of_window: "shared_window w cals \<Longrightarrow> map_of cals u = Some cc \<Longrightarrow> in_window w (cc_intervals cc)"
  by (auto simp: shared_window_def dest!: map_of_SomeD)

lemma plan_inputs_window:
  assumes "plan_inputs sha s h epoch = Some (cals, ep, w)"
  shows "shared_window w cals"
proof -
  from assms obtain u cc rest where c: "compile_calendars sha (sc_calendars s) h epoch = Inr cals" "cals = (u, cc) # rest" "w = cc_horizon cc"
    by (auto simp: plan_inputs_def split: sum.splits list.splits)
  from compile_calendars_window [OF c(1)] obtain w' where "shared_window w' cals" ..
  with c(2,3) show ?thesis by (auto simp: shared_window_def)
qed

lemma continuous_nonempty: "fst w < snd w \<Longrightarrow> intervals (ci_of [w]) \<noteq> []"
  using normalise_contains [of "fst w" "[w]"] by (cases w) (auto simp: contains_coordinate_def)

lemma intersect_Nil [simp]: "intersect_intervals xs [] = []"
  by (cases xs) simp_all

lemma own_calendar_window:
  "own_calendar cals s a = Some (own, c) \<Longrightarrow> shared_window w cals \<Longrightarrow> in_window w c"
  by (auto simp: own_calendar_def map_of_window split: option.splits)

lemma resolved_window:
  assumes "those (map (\<lambda>u. map_option cc_intervals (map_of cals u)) us) = Some cs" and "shared_window w cals"
  shows "\<forall>c \<in> set cs. in_window w c"
  using assms(1)
proof (induction us arbitrary: cs)
  case (Cons u us)
  then show ?case using map_of_window [OF assms(2)] by (auto split: option.splits)
qed simp

text \<open>The intervals an activity is placed on come from its own or from its resources' calendars.\<close>

lemma effective_calendar_source:
  assumes "effective_calendar cals s ar a = Some (cal, slack, pending)"
  obtains own c where "own_calendar cals s a = Some (own, c)" "cal = ci_of (intervals c)"
  | cs ys where "those (map (\<lambda>u. map_option cc_intervals (map_of cals u)) (resource_calendars s a)) = Some cs"
      "cal = ci_of ys" "concat (map intervals cs) = [] \<Longrightarrow> ys = []"
proof -
  obtain own c where own: "own_calendar cals s a = Some (own, c)"
    using assms by (auto simp: effective_calendar_def split: option.splits)
  show thesis
  proof (cases "\<not> ar \<or> ac_source_fields a ''ignore_resource_calendar_source'' = Some ''1'' \<or> resource_calendars s a = []")
    case True
    with assms own show ?thesis by (intro that(1) [OF own]) (auto simp: effective_calendar_def Let_def)
  next
    case False
    with assms own obtain cs where cs: "those (map (\<lambda>u. map_option cc_intervals (map_of cals u)) (resource_calendars s a)) = Some cs"
      by (auto simp: effective_calendar_def Let_def split: option.splits)
    have skip: "(\<not> ar \<or> ac_source_fields a ''ignore_resource_calendar_source'' = Some ''1'' \<or> resource_calendars s a = []) = False"
      using False by blast
    note e = assms [unfolded effective_calendar_def own option.case prod.case Let_def skip if_False cs]
    show ?thesis
    proof (cases cs rule: remdups_adj.cases)
      case 1
      with e show ?thesis by (intro that(2) [OF cs]) (auto split: option.splits)
    next
      case (2 c)
      with e show ?thesis by (cases own) (auto intro: that(2) [OF cs])
    next
      case (3 c d rest)
      let ?u = "ci_of (normalise (concat (map intervals cs)))"
      have "cal = ci_of (case own of None \<Rightarrow> normalise (concat (map intervals cs)) | Some o' \<Rightarrow> intersect_intervals (intervals o') (intervals ?u))"
        using e unfolding 3 list.case by (cases own) simp_all
      then show ?thesis by (rule that(2) [OF cs]) (cases own; simp del: concat_eq_Nil_conv)
    qed
  qed
qed

text \<open>A non-empty effective calendar shows that the window is not empty.\<close>

lemma effective_calendar_window:
  assumes "effective_calendar cals s ar a = Some (cal, slack, pending)" and "shared_window w cals"
  shows "in_window w cal"
  using assms(1)
proof (cases rule: effective_calendar_source)
  case (1 own c)
  from own_calendar_window [OF 1(1) assms(2)] show ?thesis by (auto simp: in_window_def 1(2))
next
  case (2 cs ys)
  show ?thesis
  proof (cases "ys = []")
    case True
    then show ?thesis by (simp add: in_window_def 2(2))
  next
    case False
    with 2(3) obtain d where "d \<in> set cs" "intervals d \<noteq> []" by fastforce
    with resolved_window [OF 2(1) assms(2)] show ?thesis by (auto simp: in_window_def)
  qed
qed

subsection \<open>Sound rows\<close>

text \<open>What \<open>plan_activity\<close> copies unchecked: the duration, the remaining duration and the actual dates.\<close>

definition row_sound :: "moment \<Rightarrow> activity \<Rightarrow> bool" where
  "row_sound ep a \<longleftrightarrow> 0 \<le> duration_seconds a
     \<and> (case remaining_seconds a of None \<Rightarrow> ac_actual_start a = None \<or> ac_actual_finish a \<noteq> None | Some r \<Rightarrow> 0 \<le> r)
     \<and> (case ac_actual_finish a of None \<Rightarrow> True
        | Some f \<Rightarrow> (case ac_actual_start a of None \<Rightarrow> False | Some s \<Rightarrow> seconds_from ep s \<le> seconds_from ep f))"

lemma planned_constraint_dated:
  "planned_constraint ep a = Some (t, x) \<Longrightarrow> t \<in> set DATED_CONSTRAINTS \<Longrightarrow> x \<noteq> None"
  by (auto simp: planned_constraint_def DATED_CONSTRAINTS_def FORWARD_CONSTRAINTS_def DATED_def split: option.splits if_splits)

lemma accepted_stages:
  assumes "plan_activity cals s ar ep continuous a = Accepted pa codes"
  obtains cal slack pending t x where "effective_calendar cals s ar a = Some (cal, slack, pending)" "intervals cal \<noteq> []"
    "\<And>m. slack = Some m \<Longrightarrow> intervals m \<noteq> []" "planned_constraint ep a = Some (t, x)"
    "pa_calendar pa = (if elapsed_activity a then continuous else cal)"
    "pa_measure_calendar pa = (if elapsed_activity a then Some (case slack of None \<Rightarrow> ci_of (intervals cal) | Some m \<Rightarrow> m) else slack)"
    "pa_constraint_type pa = t" "pa_constraint_coordinate pa = x" "pa_uid pa = ac_uid a" "pa_duration pa = duration_seconds a"
    "pa_actual_start pa = map_option (seconds_from ep) (ac_actual_start a)"
    "pa_actual_finish pa = map_option (seconds_from ep) (ac_actual_finish a)"
    "pa_remaining_duration pa = remaining_seconds a" "pa_float_basis pa = ''working''" "pa_assignment_envelope pa = None"
  using assms by (auto simp: plan_activity_def Let_def split: option.splits if_splits)

lemma ci_of_again: "intervals (ci_of ys) \<noteq> [] \<Longrightarrow> intervals (ci_of (intervals (ci_of ys))) \<noteq> []"
proof -
  assume "intervals (ci_of ys) \<noteq> []"
  then obtain i rest where i: "intervals (ci_of ys) = i # rest" by (cases "intervals (ci_of ys)") auto
  have "wf_intervals (intervals (ci_of ys))" using ci_of_wf by (simp only: wf_calendar_def)
  then have "fst i < snd i" unfolding i by (cases i) simp
  then have "contains_coordinate (fst i) (intervals (ci_of ys))" unfolding i by (simp add: contains_coordinate_def split_beta)
  then have "contains_coordinate (fst i) (intervals (ci_of (intervals (ci_of ys))))" by (simp only: ci_of_contains)
  then show "intervals (ci_of (intervals (ci_of ys))) \<noteq> []" by (auto simp: contains_coordinate_def)
qed

lemma accepted_ok:
  assumes row: "plan_activity cals s ar ep (ci_of [w]) a = Accepted pa codes" and "shared_window w cals"
  shows "activity_ok pa \<longleftrightarrow> row_sound ep a"
proof -
  from row obtain cal slack pending t x where c: "effective_calendar cals s ar a = Some (cal, slack, pending)" "intervals cal \<noteq> []"
      "\<And>m. slack = Some m \<Longrightarrow> intervals m \<noteq> []" and con: "planned_constraint ep a = Some (t, x)"
    and pa: "pa_calendar pa = (if elapsed_activity a then ci_of [w] else cal)"
      "pa_measure_calendar pa = (if elapsed_activity a then Some (case slack of None \<Rightarrow> ci_of (intervals cal) | Some m \<Rightarrow> m) else slack)"
      "pa_constraint_type pa = t" "pa_constraint_coordinate pa = x" "pa_duration pa = duration_seconds a"
      "pa_actual_start pa = map_option (seconds_from ep) (ac_actual_start a)"
      "pa_actual_finish pa = map_option (seconds_from ep) (ac_actual_finish a)"
      "pa_remaining_duration pa = remaining_seconds a" "pa_float_basis pa = ''working''" "pa_assignment_envelope pa = None"
    by (rule accepted_stages) blast
  have w: "intervals (ci_of [w]) \<noteq> []"
    using effective_calendar_window [OF c(1) assms(2)] c(2) by (intro continuous_nonempty) (simp add: in_window_def)
  have again: "intervals (ci_of (intervals cal)) \<noteq> []"
    using c(1)
  proof (cases rule: effective_calendar_source)
    case (1 own b)
    with c(2) ci_of_again show ?thesis by metis
  next
    case (2 cs ys)
    with c(2) ci_of_again show ?thesis by metis
  qed
  have cals: "intervals (pa_calendar pa) \<noteq> []" "intervals (float_calendar pa) \<noteq> []"
    using w again c(2,3) by (auto simp: pa(1,2) float_calendar_def split: option.split)
  show ?thesis
    using cals planned_constraint_dated [OF con]
    by (auto simp: activity_ok_def pa(3-) has_started_def is_complete_def row_sound_def split: option.splits)
qed

subsection \<open>Envelopes\<close>

lemma envelope_row_ok:
  assumes "envelope_row cals s ep w u x = Inr (Some (sig, c, y))"
  shows "0 < ap_work_duration y \<and> intervals (ap_calendar y) \<noteq> []"
proof -
  from assms obtain v r c0 where v: "as_resource_uid x = Some v" "sc_resource_by_uid s v = Some r" "re_calendar_uid r = Some c0"
    by (auto simp: envelope_row_def split: option.splits)
  with assms have r: "envelope_assignment r u x" by (auto simp: envelope_row_def split: if_splits)
  from assms v r obtain kind units where kind: "resource_class cals ep w c0 = Inr kind"
    and units: "exact_units (as_source_fields x ''units_lexeme_source'') = Inr units"
    by (auto simp: envelope_row_def rbind_Inr_iff)
  from assms v r kind units obtain cc where cc: "map_of cals c0 = Some cc" "kind \<noteq> None"
    by (cases kind; cases units; cases "map_of cals c0") (simp_all add: envelope_row_def Let_def)
  with assms v r kind units have m: "wt_budgeted_seconds (as_work x) * 1000 mod ut_budgeted_permille (as_units x) = 0"
    and y: "y = \<lparr> ap_uid = as_uid x, ap_resource_uid = re_uid r, ap_calendar = cc_intervals cc,
        ap_work_duration = wt_budgeted_seconds (as_work x) * 1000 div ut_budgeted_permille (as_units x) \<rparr>"
    by (cases kind; cases units; auto simp: envelope_row_def Let_def split: if_splits)+
  have "0 < wt_budgeted_seconds (as_work x)" "0 < ut_budgeted_permille (as_units x)"
    using r by (simp_all add: envelope_assignment_def Let_def)
  then have "0 < wt_budgeted_seconds (as_work x) * 1000 div ut_budgeted_permille (as_units x)"
    using m by (metis dvd_div_eq_0_iff mod_eq_0_iff_dvd mult_pos_pos pos_imp_zdiv_nonneg_iff zero_less_numeral less_le order_less_imp_le)
  moreover have "intervals (cc_intervals cc) \<noteq> []"
    using kind cc by (cases "intervals (cc_intervals cc)") (auto simp: resource_class_def Let_def)
  ultimately show ?thesis by (simp add: y)
qed

lemma rtake_mem: "rtake f xs = Inr ys \<Longrightarrow> y \<in> set ys \<Longrightarrow> \<exists>x \<in> set xs. f x = Inr (Some y)"
  by (induction xs arbitrary: ys) (auto simp: rbind_Inr_iff split: option.splits)

lemma envelope_of_ok:
  assumes "envelope_of cals s ep w rs a = Inr (Some ys)"
  shows "length ys = 2" and "\<forall>y \<in> set ys. 0 < ap_work_duration y \<and> intervals (ap_calendar y) \<noteq> []" and "envelope_activity a"
proof -
  from assms have act: "envelope_activity a" by (auto simp: envelope_of_def Let_def split: if_splits)
  from assms obtain found where f: "rtake (envelope_row cals s ep w (ac_uid a)) (assignment_rows s (ac_uid a)) = Inr found"
    by (auto simp: envelope_of_def rbind_Inr_iff Let_def split: if_splits)
  have "\<exists>s1 c1 x1 s2 c2 x2. found = [(s1, c1, x1), (s2, c2, x2)] \<and> ys = sort_key envelope_key [x1, x2]"
  proof (cases found rule: remdups_adj.cases)
    case (3 y1 y2 more)
    with assms f show ?thesis
      by (cases y1; cases y2; cases more) (auto simp: envelope_of_def Let_def split: if_splits prod.splits)
  qed (use assms f in \<open>auto simp: envelope_of_def Let_def split: if_splits prod.splits\<close>)
  then obtain s1 c1 x1 s2 c2 x2 where found: "found = [(s1, c1, x1), (s2, c2, x2)]" and ys: "ys = sort_key envelope_key [x1, x2]"
    by blast
  have "0 < ap_work_duration y \<and> intervals (ap_calendar y) \<noteq> []" if "y \<in> {x1, x2}" for y
  proof -
    from that found consider "(s1, c1, y) \<in> set found" | "(s2, c2, y) \<in> set found" by auto
    then show ?thesis using rtake_mem [OF f] envelope_row_ok by cases blast+
  qed
  then show "length ys = 2" "\<forall>y \<in> set ys. 0 < ap_work_duration y \<and> intervals (ap_calendar y) \<noteq> []" "envelope_activity a"
    using act by (simp_all add: ys)
qed

lemma envelopes_mem:
  assumes "envelopes cals s ep w p assumed rs = Inr es" and "map_of es u = Some ys"
  shows "\<exists>a \<in> set (sc_activities s). ac_uid a = u \<and> envelope_of cals s ep w rs a = Inr (Some ys)"
proof -
  have "\<forall>z \<in> set es. \<exists>a \<in> set (sc_activities s). ac_uid a = fst z \<and> envelope_of cals s ep w rs a = Inr (Some (snd z))"
    using assms(1) unfolding envelopes_def
  proof (rule rfold_invariant [where P = "\<lambda>done es. \<forall>z \<in> set es. \<exists>a \<in> set done. ac_uid a = fst z \<and> envelope_of cals s ep w rs a = Inr (Some (snd z))"])
    fix "done" x sa sb
    assume inv: "\<forall>z \<in> set sa. \<exists>a \<in> set done. ac_uid a = fst z \<and> envelope_of cals s ep w rs a = Inr (Some (snd z))"
      and "envelope_step cals s ep w p assumed rs x sa = Inr sb"
    then have "sb = sa \<or> (\<exists>y. envelope_of cals s ep w rs x = Inr (Some y) \<and> sb = (ac_uid x, y) # sa)"
      by (auto simp: envelope_step_def rbind_Inr_iff split: if_splits option.splits)
    with inv show "\<forall>z \<in> set sb. \<exists>a \<in> set (done @ [x]). ac_uid a = fst z \<and> envelope_of cals s ep w rs a = Inr (Some (snd z))"
      by auto
  qed simp
  then show ?thesis using map_of_SomeD [OF assms(2)] by fastforce
qed

subsection \<open>The rows of the network\<close>

lemma place_rows_mem:
  assumes "pa \<in> set (pm_activities (source_placed s cals ep w ar))"
  obtains a codes where "a \<in> set (sc_activities s)" "plan_activity cals s ar ep (ci_of [w]) a = Accepted pa codes" "pa_uid pa = ac_uid a"
proof -
  from assms have "pa \<in> set (concat (map (row_activity (plan_activity cals s ar ep (ci_of [w]))) (sc_activities s)))"
    by (simp add: cut_placement_sel source_placement_def place_rows_eq)
  then obtain a where "a \<in> set (sc_activities s)" "pa \<in> set (row_activity (plan_activity cals s ar ep (ci_of [w])) a)" by auto
  then obtain codes where row: "plan_activity cals s ar ep (ci_of [w]) a = Accepted pa codes"
    by (cases "plan_activity cals s ar ep (ci_of [w]) a") (auto simp: row_activity_def)
  show thesis by (rule that [OF \<open>a \<in> set (sc_activities s)\<close> row plan_activity_uid [OF row]])
qed

lemma planned_update_simps:
  "float_calendar (pa\<lparr>pa_float_basis := b\<rparr>) = float_calendar pa" "has_started (pa\<lparr>pa_float_basis := b\<rparr>) = has_started pa"
  "is_complete (pa\<lparr>pa_float_basis := b\<rparr>) = is_complete pa"
  "float_calendar (pa\<lparr>pa_assignment_envelope := e\<rparr>) = float_calendar pa"
  "has_started (pa\<lparr>pa_assignment_envelope := e\<rparr>) = has_started pa"
  "is_complete (pa\<lparr>pa_assignment_envelope := e\<rparr>) = is_complete pa"
  by (simp_all add: float_calendar_def has_started_def is_complete_def split: option.split)

lemma activity_ok_envelope:
  assumes "pa_assignment_envelope pa = None" and "\<And>rows. e = Some rows \<Longrightarrow> length rows = 2 \<and> \<not> has_started pa \<and> pa_constraint_type pa = ASAP
      \<and> (\<forall>p \<in> set rows. 0 < ap_work_duration p \<and> intervals (ap_calendar p) \<noteq> [])"
  shows "activity_ok (pa\<lparr>pa_assignment_envelope := e\<rparr>) \<longleftrightarrow> activity_ok pa"
proof -
  have "2 \<le> length rows \<and> \<not> has_started pa \<and> pa_constraint_type pa = ASAP
      \<and> (\<forall>p \<in> set rows. 0 < ap_work_duration p \<and> intervals (ap_calendar p) \<noteq> [])" if "e = Some rows" for rows
    using assms(2) [OF that] by simp
  then show ?thesis by (simp add: activity_ok_def planned_update_simps assms(1))
qed

lemma activity_ok_elapsed:
  "pa_float_basis pa = ''working'' \<Longrightarrow> activity_ok (pa\<lparr>pa_float_basis := ''elapsed''\<rparr>) \<longleftrightarrow> activity_ok pa"
  by (simp add: activity_ok_def planned_update_simps)

text \<open>Every row of the network comes from one source activity and passes the checks of a row exactly when that one is sound.\<close>

lemma network_row:
  assumes x: "x \<in> set (activities (plan_network start hz st (source_placed s cals ep w ar) es elapsed rs))"
    and es: "envelopes cals s ep w (source_placed s cals ep w ar) assumed rs' = Inr es"
    and "distinct (map ac_uid (sc_activities s))" and w: "shared_window w cals"
  shows "\<exists>a \<in> set (sc_activities s). ac_uid a = pa_uid x \<and> (has_started x \<longleftrightarrow> ac_actual_start a \<noteq> None)
    \<and> (activity_ok x \<longleftrightarrow> row_sound ep a)"
proof -
  from x obtain pa where pa: "pa \<in> set (pm_activities (source_placed s cals ep w ar))"
    and x_def: "x = pa\<lparr>pa_assignment_envelope := map_of es (pa_uid pa)\<rparr>
      \<or> x = pa\<lparr>pa_assignment_envelope := map_of es (pa_uid pa), pa_float_basis := ''elapsed''\<rparr>"
    by (auto simp: plan_network_def with_elapsed_float_def with_envelopes_def split: if_splits)
  from pa obtain a codes where a: "a \<in> set (sc_activities s)" "pa_uid pa = ac_uid a"
    and row: "plan_activity cals s ar ep (ci_of [w]) a = Accepted pa codes" by (rule place_rows_mem)
  have start: "has_started pa \<longleftrightarrow> ac_actual_start a \<noteq> None"
    using row by (rule accepted_stages) (simp add: has_started_def)
  have plain: "pa_assignment_envelope pa = None" "pa_float_basis pa = ''working''" using row by (auto elim: accepted_stages)
  have "length rows = 2 \<and> \<not> has_started pa \<and> pa_constraint_type pa = ASAP
      \<and> (\<forall>p \<in> set rows. 0 < ap_work_duration p \<and> intervals (ap_calendar p) \<noteq> [])" if m: "map_of es (pa_uid pa) = Some rows" for rows
  proof -
    from envelopes_mem [OF es m] obtain b where b: "b \<in> set (sc_activities s)" "ac_uid b = pa_uid pa"
      and env: "envelope_of cals s ep w rs' b = Inr (Some rows)" by blast
    then have "b = a" using a assms(3) by (auto simp: distinct_map inj_on_def)
    with envelope_of_ok(3) [OF env] have "ac_actual_start a = None" "ac_primary_constraint a = None"
      by (simp_all add: envelope_activity_def)
    moreover from row this(2) have "pa_constraint_type pa = ASAP"
      by (rule_tac accepted_stages) (auto simp: planned_constraint_def)
    ultimately show ?thesis using envelope_of_ok(1,2) [OF env] start by blast
  qed
  then have "activity_ok (pa\<lparr>pa_assignment_envelope := map_of es (pa_uid pa)\<rparr>) \<longleftrightarrow> activity_ok pa"
    by (rule activity_ok_envelope [OF plain(1)])
  with x_def have "activity_ok x \<longleftrightarrow> activity_ok pa"
    using activity_ok_elapsed [of "pa\<lparr>pa_assignment_envelope := map_of es (pa_uid pa)\<rparr>"] plain(2) by auto
  then have "activity_ok x \<longleftrightarrow> row_sound ep a" using accepted_ok [OF row w] by simp
  with x_def a start show ?thesis by (auto simp: has_started_def)
qed

subsection \<open>The derived edges\<close>

lemma distinct_by_count: "(\<And>v. length (filter (\<lambda>x. f x = v) xs) \<le> 1) \<Longrightarrow> distinct (map f xs)"
proof (induction xs)
  case (Cons x xs)
  have "length (filter (\<lambda>y. f y = v) xs) \<le> 1" for v using Cons.prems [of v] by (simp split: if_splits)
  moreover have "filter (\<lambda>y. f y = f x) xs = []" using Cons.prems [of "f x"] by simp
  ultimately show ?case using Cons.IH by (auto simp: filter_empty_conv)
qed simp

lemma distinct_count: "distinct xs \<Longrightarrow> count_list xs v \<le> 1"
  by (induction xs) (auto simp: count_list_0_iff)

lemma length_filter_mono: "(\<And>x. P x \<Longrightarrow> Q x) \<Longrightarrow> length (filter P xs) \<le> length (filter Q xs)"
  by (induction xs) (auto simp: le_SucI)

text \<open>A boundary does not reach the same successor twice.\<close>

lemma boundary_outs_distinct:
  assumes "boundary_candidate s p b = Inr (Some (e, outs))" and "b \<in> set (inactive_rows p)"
  shows "distinct (map rl_successor_uid outs)"
proof (rule distinct_by_count)
  fix v
  show "length (filter (\<lambda>r. rl_successor_uid r = v) outs) \<le> 1"
  proof (cases "\<exists>r \<in> set outs. rl_successor_uid r = v")
    case True
    then obtain r where r: "r \<in> set outs" "rl_successor_uid r = v" by blast
    have "length (filter (\<lambda>r. rl_successor_uid r = v) outs)
      \<le> length (filter (\<lambda>i. rl_predecessor_uid i \<in> set (inactive_rows p)) (raw_incoming s v))"
      unfolding boundary_candidate_shape(2) [OF assms(1)] raw_outgoing_def raw_incoming_def filter_filter
      using assms(2) by (intro length_filter_mono) auto
    then show ?thesis using boundary_candidate_shape(7) [OF assms(1) r(1)] r(2) by simp
  next
    case False
    then have "filter (\<lambda>r. rl_successor_uid r = v) outs = []" by (auto simp: filter_empty_conv)
    then show ?thesis by simp
  qed
qed

lemma two_keys: "a \<in> set xs \<Longrightarrow> b \<in> set xs \<Longrightarrow> a \<noteq> b \<Longrightarrow> 1 < length (dict_keys xs)"
proof -
  assume "a \<in> set xs" "b \<in> set xs" "a \<noteq> b"
  then have "card {a, b} \<le> card (set (dict_keys xs))" by (intro card_mono) auto
  with \<open>a \<noteq> b\<close> show ?thesis by (simp only: distinct_card distinct_dict_keys) simp
qed

text \<open>Two boundaries behind the same predecessor are refused before.\<close>

lemma boundary_predecessor_unique:
  assumes bs: "boundary_candidates s p = Inr bs" and "(b, e, outs) \<in> set bs" "(b', e', outs') \<in> set bs"
    and "rl_predecessor_uid e = rl_predecessor_uid e'"
  shows "b = b'"
proof (rule ccontr)
  assume ne: "b \<noteq> b'"
  have pair: "(rl_predecessor_uid x, c) \<in> set (boundary_pairs s p)" if "(c, x, ys) \<in> set bs" for c x ys
  proof -
    have c: "c \<in> set (inactive_rows p)" "boundary_candidate s p c = Inr (Some (x, ys))"
      using boundary_candidates_rows(1) [OF bs that] by auto
    have "x \<in> set (filter (\<lambda>r. rl_predecessor_uid r \<in> set (scheduled p)) (raw_incoming s c))"
      using boundary_candidate_shape(1) [OF c(2)] by simp
    moreover obtain y where "y \<in> set ys" using boundary_candidate_shape(3) [OF c(2)] by (cases ys) auto
    then have "list_ex (\<lambda>r. rl_successor_uid r \<in> set (scheduled p)) (raw_outgoing s c)"
      unfolding boundary_candidate_shape(2) [OF c(2)] by (auto simp: list_ex_iff)
    ultimately show ?thesis using c(1) unfolding boundary_pairs_def inactive_order_def by (auto intro!: bexI [of _ c])
  qed
  have "unsupported_boundary_predecessor s p (rl_predecessor_uid e)"
    unfolding unsupported_boundary_predecessor_def
    using pair [OF assms(2)] pair [OF assms(3)] assms(4) ne by (intro two_keys [of b _ b']) force+
  with boundary_candidate_shape(4) boundary_candidates_rows(1) [OF bs assms(2)] show False by blast
qed

lemma boundary_group:
  assumes "distinct (map fst xs)" and "(b, e, outs) \<in> set xs"
  shows "Network_Facts.boundary_rows b (map fst (concat (map (\<lambda>(b, e, outs). map (derived_row uuid5 b e) outs) xs)))
    = map (\<lambda>r. fst (derived_row uuid5 b e r)) outs"
  using assms
proof (induction xs)
  case (Cons x xs)
  obtain c f ys where x: "x = (c, f, ys)" by (cases x) auto
  have own: "Network_Facts.boundary_rows b (map fst (map (derived_row uuid5 c f) ys)) = (if b = c then map (\<lambda>r. fst (derived_row uuid5 c f r)) ys else [])"
    by (induction ys) (auto simp: Network_Facts.boundary_rows_def)
  have rest: "Network_Facts.boundary_rows b (map fst (concat (map (\<lambda>(b, e, outs). map (derived_row uuid5 b e) outs) xs))) = []"
    if "b \<notin> fst ` set xs"
    using that by (auto simp: Network_Facts.boundary_rows_def filter_empty_conv)
      (metis derived_row_sel(7) fst_conv image_eqI option.inject)
  show ?case
  proof (cases "b = c")
    case True
    with Cons.prems have "e = f" "outs = ys" "b \<notin> fst ` set xs" by (auto simp: x rev_image_eqI)
    with own rest True show ?thesis by (simp add: x Network_Facts.boundary_rows_def)
  next
    case False
    with Cons own show ?thesis by (simp add: x Network_Facts.boundary_rows_def)
  qed
qed simp

subsection \<open>Identifiers of a source\<close>

definition source_keyed :: "schedule \<Rightarrow> bool" where
  "source_keyed s \<longleftrightarrow> distinct (map ac_uid (sc_activities s)) \<and> distinct (map rl_uid (sc_relationships s))
     \<and> list_all (\<lambda>a. ac_uid a < 2 ^ 128) (sc_activities s)"

definition boundary_names :: "schedule \<Rightarrow> string list" where
  "boundary_names s = concat (map (\<lambda>r. map (\<lambda>q. boundary_name (rl_predecessor_uid r) (rl_successor_uid r) (rl_successor_uid q))
     (filter (\<lambda>q. rl_predecessor_uid q = rl_successor_uid r) (sc_relationships s))) (sc_relationships s))"

text \<open>The name-based identifiers do not collide on the names of this source, nor with its relationships.\<close>

definition collision_free :: "(string \<Rightarrow> uuid) \<Rightarrow> schedule \<Rightarrow> bool" where
  "collision_free uuid5 s \<longleftrightarrow> inj_on uuid5 (set (boundary_names s))
     \<and> uuid5 ` set (boundary_names s) \<inter> rl_uid ` set (sc_relationships s) = {}"

definition boundary_triples :: "boundary_table \<Rightarrow> (uuid \<times> uuid \<times> uuid) list" where
  "boundary_triples xs = concat (map (\<lambda>(b, e, outs). map (\<lambda>r. (rl_predecessor_uid e, b, rl_successor_uid r)) outs) xs)"

lemma boundary_triples_distinct:
  "distinct (map fst xs) \<Longrightarrow> (\<And>b e outs. (b, e, outs) \<in> set xs \<Longrightarrow> distinct (map rl_successor_uid outs)) \<Longrightarrow> distinct (boundary_triples xs)"
proof (induction xs)
  case (Cons x xs)
  obtain c f ys where x: "x = (c, f, ys)" by (cases x) auto
  have "distinct (boundary_triples xs)" using Cons by auto
  moreover have "distinct (map (\<lambda>r. (rl_predecessor_uid f, c, rl_successor_uid r)) ys)"
    using Cons.prems(2) [of c f ys] by (simp add: x distinct_map inj_on_def)
  moreover have "c \<notin> fst ` set xs" using Cons.prems(1) by (simp add: x)
  ultimately show ?case by (auto simp: x boundary_triples_def) (metis fst_conv image_eqI)
qed (simp add: boundary_triples_def)

lemma derived_rows_uids:
  "map pr_uid (map fst (derived_rows uuid5 bs))
   = map (\<lambda>(q, b, v). uuid5 (boundary_name q b v)) (boundary_triples (sort_key boundary_key bs))"
proof -
  have "map pr_uid (map fst (concat (map (\<lambda>(b, e, outs). map (derived_row uuid5 b e) outs) xs)))
     = map (\<lambda>(q, b, v). uuid5 (boundary_name q b v)) (boundary_triples xs)" for xs
    by (induction xs) (auto simp: boundary_triples_def derived_uid_def)
  then show ?thesis by (simp add: derived_rows_def)
qed

lemma boundary_triples_source:
  assumes "boundary_candidates s p = Inr bs" and "(q, b, v) \<in> set (boundary_triples (sort_key boundary_key bs))"
  shows "q \<in> set (scheduled p) \<and> b \<in> set (inactive_rows p) \<and> v \<in> set (scheduled p) \<and> boundary_name q b v \<in> set (boundary_names s)"
proof -
  from assms(2) obtain e outs r where mem: "(b, e, outs) \<in> set bs" "r \<in> set outs" "q = rl_predecessor_uid e" "v = rl_successor_uid r"
    by (auto simp: boundary_triples_def)
  from boundary_candidates_rows(1) [OF assms(1) mem(1)] have c: "b \<in> set (inactive_rows p)" "boundary_candidate s p b = Inr (Some (e, outs))"
    by auto
  have "e \<in> set (filter (\<lambda>r. rl_predecessor_uid r \<in> set (scheduled p)) (raw_incoming s b))"
    using boundary_candidate_shape(1) [OF c(2)] by simp
  moreover have "r \<in> set (filter (\<lambda>r. rl_successor_uid r \<in> set (scheduled p)) (raw_outgoing s b))"
    using boundary_candidate_shape(2) [OF c(2)] mem(2) by simp
  ultimately show ?thesis using c(1) by (auto simp: mem raw_incoming_def raw_outgoing_def boundary_names_def)
qed

lemma disjoint_subsets: "A \<subseteq> R \<Longrightarrow> B \<subseteq> N \<Longrightarrow> N \<inter> R = {} \<Longrightarrow> A \<inter> B = {}"
  by blast

lemma edge_uids_distinct:
  assumes bs: "boundary_candidates s p = Inr bs" and e: "plan_edges cals s c p bs = Inr e" and free: "collision_free uuid5 s"
    and "distinct (map rl_uid (sc_relationships s))" and small: "\<forall>u \<in> set (scheduled p) \<union> set (inactive_rows p). u < 2 ^ 128"
  shows "distinct (map pr_uid (edge_rows uuid5 bs e))"
proof -
  let ?T = "boundary_triples (sort_key boundary_key bs)" and ?f = "\<lambda>(q, b, v). uuid5 (boundary_name q b v)"
  have inv: "edge_plan_inv p (sc_relationships s) e" using e by (rule plan_edges_inv)
  have T: "q \<in> set (scheduled p) \<and> b \<in> set (inactive_rows p) \<and> v \<in> set (scheduled p) \<and> boundary_name q b v \<in> set (boundary_names s)"
    if "(q, b, v) \<in> set ?T" for q b v using boundary_triples_source [OF bs that] .
  have "distinct (map fst (sort_key boundary_key bs))"
    using boundary_candidates_rows(2) [OF bs] by (simp add: distinct_map distinct_sort)
  moreover have "distinct (map rl_successor_uid outs)" if "(b, e, outs) \<in> set bs" for b e outs
    using boundary_candidates_rows(1) [OF bs that] boundary_outs_distinct by blast
  ultimately have "distinct ?T" by (intro boundary_triples_distinct) (simp, simp)
  moreover have "inj_on ?f (set ?T)"
  proof (rule inj_onI)
    fix t t' assume mem: "t \<in> set ?T" "t' \<in> set ?T" and eq: "?f t = ?f t'"
    obtain q b v q' b' v' where t: "t = (q, b, v)" "t' = (q', b', v')" by (cases t; cases t') auto
    have T1: "q \<in> set (scheduled p)" "b \<in> set (inactive_rows p)" "v \<in> set (scheduled p)" "boundary_name q b v \<in> set (boundary_names s)"
      using T [of q b v] mem(1) unfolding t(1) by blast+
    have T2: "q' \<in> set (scheduled p)" "b' \<in> set (inactive_rows p)" "v' \<in> set (scheduled p)" "boundary_name q' b' v' \<in> set (boundary_names s)"
      using T [of q' b' v'] mem(2) unfolding t(2) by blast+
    have "inj_on uuid5 (set (boundary_names s))" using free by (simp add: collision_free_def)
    then have "boundary_name q b v = boundary_name q' b' v'" by (rule inj_onD) (use eq T1(4) T2(4) in \<open>simp_all add: t\<close>)
    then have "q = q' \<and> b = b' \<and> v = v'" by (rule boundary_name_inj) (use small T1 T2 in blast)+
    then show "t = t'" by (simp add: t)
  qed
  ultimately have derived: "distinct (map ?f ?T)" by (simp add: distinct_map)
  have kept: "distinct (map pr_uid (ep_relationships e))"
  proof (rule distinct_by_count)
    fix v
    have "count_list (map pr_uid (ep_relationships e)) v \<le> count_list (map rl_uid (sc_relationships s)) v"
      using inv by (auto simp: edge_plan_inv_def) (metis le_add1)
    also have "\<dots> \<le> 1" using assms(4) by (rule distinct_count)
    finally show "length (filter (\<lambda>x. pr_uid x = v) (ep_relationships e)) \<le> 1"
      by (simp add: count_list_eq_length_filter filter_map comp_def eq_commute)
  qed
  have sub1: "pr_uid x \<in> rl_uid ` set (sc_relationships s)" if "x \<in> set (ep_relationships e)" for x
  proof -
    from inv that obtain q where "q \<in> set (sc_relationships s)" "kept_edge p q x" unfolding edge_plan_inv_def by blast
    then show ?thesis by (simp add: kept_edge_def)
  qed
  have sub2: "?f t \<in> uuid5 ` set (boundary_names s)" if "t \<in> set ?T" for t
  proof -
    obtain q b v where t: "t = (q, b, v)" by (cases t) auto
    with T [of q b v] that have "boundary_name q b v \<in> set (boundary_names s)" by blast
    then show ?thesis by (simp add: t)
  qed
  have s0: "uuid5 ` set (boundary_names s) \<inter> rl_uid ` set (sc_relationships s) = {}" using free by (simp add: collision_free_def)
  have s1: "pr_uid ` set (ep_relationships e) \<subseteq> rl_uid ` set (sc_relationships s)" using sub1 by (rule image_subsetI)
  have s2: "?f ` set ?T \<subseteq> uuid5 ` set (boundary_names s)" using sub2 by (rule image_subsetI)
  have "pr_uid ` set (ep_relationships e) \<inter> ?f ` set ?T = {}" by (rule disjoint_subsets [OF s1 s2 s0])
  then show ?thesis unfolding edge_rows_def map_append derived_rows_uids using kept derived by simp
qed

lemma derived_groups_ok:
  assumes bs: "boundary_candidates s p = Inr bs"
  shows "boundaries_ok (map fst (derived_rows uuid5 bs))"
proof -
  let ?xs = "sort_key boundary_key bs"
  have keys: "distinct (map fst ?xs)" using boundary_candidates_rows(2) [OF bs] by (simp add: distinct_map distinct_sort)
  have "b = b'" if r: "r \<in> set (map fst (derived_rows uuid5 bs))" "r' \<in> set (map fst (derived_rows uuid5 bs))"
      and b: "pr_inactive_boundary_uid r = Some b" "pr_inactive_boundary_uid r' = Some b'"
      and p: "pr_predecessor_uid r = pr_predecessor_uid r'" for r r' b b'
  proof -
    from bs r(1) obtain c e outs out where c: "(c, e, outs) \<in> set bs" "r = fst (derived_row uuid5 c e out)" by (rule derived_rows_mem)
    from bs r(2) obtain c' e' outs' out' where c': "(c', e', outs') \<in> set bs" "r' = fst (derived_row uuid5 c' e' out')" by (rule derived_rows_mem)
    have "c = c'" using boundary_predecessor_unique [OF bs c(1) c'(1)] p by (simp add: c(2) c'(2))
    with b show ?thesis by (simp add: c(2) c'(2))
  qed
  moreover have "length (Network_Facts.boundary_rows b rs) \<le> 2
      \<and> (\<forall>r \<in> set (Network_Facts.boundary_rows b rs). \<forall>r' \<in> set (Network_Facts.boundary_rows b rs). pr_predecessor_uid r = pr_predecessor_uid r')
      \<and> distinct (map pr_successor_uid (Network_Facts.boundary_rows b rs))"
    if rs: "rs = map fst (derived_rows uuid5 bs)" and ne: "Network_Facts.boundary_rows b rs \<noteq> []" for b rs
  proof -
    from ne obtain r where "r \<in> set rs" "pr_inactive_boundary_uid r = Some b"
      by (auto simp: Network_Facts.boundary_rows_def filter_empty_conv)
    with bs rs obtain e outs out where mem: "(b, e, outs) \<in> set bs" by (metis derived_row_sel(7) derived_rows_mem option.inject)
    then have "Network_Facts.boundary_rows b rs = map (\<lambda>r. fst (derived_row uuid5 b e r)) outs"
      unfolding rs derived_rows_def by (intro boundary_group [OF keys]) simp
    moreover from boundary_candidates_rows(1) [OF bs mem] have c: "b \<in> set (inactive_rows p)" "boundary_candidate s p b = Inr (Some (e, outs))"
      by auto
    ultimately show ?thesis
      using boundary_candidate_shape(3) [OF c(2)] boundary_outs_distinct [OF c(2,1)] by (auto simp: comp_def)
  qed
  ultimately show ?thesis unfolding boundaries_ok_def by blast
qed

lemma edge_groups_ok:
  assumes bs: "boundary_candidates s p = Inr bs" and e: "plan_edges cals s c p bs = Inr e"
  shows "boundaries_ok (edge_rows uuid5 bs e)"
proof -
  have none: "pr_inactive_boundary_uid x = None" if "x \<in> set (ep_relationships e)" for x
    using plan_edges_inv [OF e] that unfolding edge_plan_inv_def kept_edge_def by blast
  then have "Network_Facts.boundary_rows b (edge_rows uuid5 bs e) = Network_Facts.boundary_rows b (map fst (derived_rows uuid5 bs))" for b
    by (auto simp: Network_Facts.boundary_rows_def edge_rows_def filter_empty_conv)
  moreover have "x \<in> set (map fst (derived_rows uuid5 bs))" if "x \<in> set (edge_rows uuid5 bs e)" "pr_inactive_boundary_uid x = Some b" for x b
    using that none by (auto simp: edge_rows_def)
  ultimately show ?thesis using derived_groups_ok [OF bs, of uuid5] unfolding boundaries_ok_def by metis
qed

subsection \<open>The network of a plan\<close>

text \<open>Neither end of a derived edge has started.\<close>

lemma derived_edge_ends:
  assumes bs: "boundary_candidates s p = Inr bs" and keyed: "source_keyed s" and r: "r \<in> set (map fst (derived_rows uuid5 bs))"
  shows "pr_type r = FS \<and> pr_lag r = 0 \<and> pr_lag_calendar r = None"
    and "u \<in> {pr_predecessor_uid r, pr_successor_uid r} \<Longrightarrow> a \<in> set (sc_activities s) \<Longrightarrow> ac_uid a = u \<Longrightarrow> ac_actual_start a = None"
proof -
  from bs r obtain b e outs out where mem: "(b, e, outs) \<in> set bs" "out \<in> set outs" and r_def: "r = fst (derived_row uuid5 b e out)"
    and e: "e \<in> set (sc_relationships s)" "rl_successor_uid e = b" and out: "out \<in> set (sc_relationships s)" "rl_predecessor_uid out = b"
    by (rule derived_rows_mem)
  show "pr_type r = FS \<and> pr_lag r = 0 \<and> pr_lag_calendar r = None"
    by (simp add: r_def)
  from boundary_candidates_rows(1) [OF bs mem(1)] have c: "boundary_candidate s p b = Inr (Some (e, outs))" by blast
  have "distinct (map ac_uid (sc_activities s))" using keyed by (simp add: source_keyed_def)
  then have lookup: "sc_activity_by_uid s (ac_uid a) = Some a" if "a \<in> set (sc_activities s)" for a
    unfolding sc_activity_by_uid_def using that by (intro map_of_is_SomeI) (auto simp: rev_map [symmetric] comp_def)
  have unstarted: "ac_actual_start a = None" if "sc_activity_by_uid s u = Some x" "inactive_boundary_endpoint_is_measured x"
      "a \<in> set (sc_activities s)" "ac_uid a = u" for a x u
    using that lookup [of a] by (simp add: inactive_boundary_endpoint_is_measured_def)
  assume "u \<in> {pr_predecessor_uid r, pr_successor_uid r}" "a \<in> set (sc_activities s)" "ac_uid a = u"
  then show "ac_actual_start a = None"
    using boundary_candidate_shape(5) [OF c] boundary_candidate_shape(6) [OF c mem(2)] unstarted by (auto simp: r_def)
qed

lemma plan_edge_ok:
  assumes bs: "boundary_candidates s p = Inr bs" and e: "plan_edges cals s c p bs = Inr e" and keyed: "source_keyed s"
    and r: "r \<in> set (edge_rows uuid5 bs e)" and uids: "activity_uids n = scheduled p"
    and rows: "\<And>x. x \<in> set (activities n) \<Longrightarrow> \<exists>a \<in> set (sc_activities s). ac_uid a = pa_uid x \<and> (has_started x \<longleftrightarrow> ac_actual_start a \<noteq> None)"
  shows "edge_ok n r \<longleftrightarrow> pr_predecessor_uid r \<noteq> pr_successor_uid r"
proof (cases "r \<in> set (ep_relationships e)")
  case True
  with plan_edges_inv [OF e] obtain q where q: "q \<in> set (sc_relationships s)" "kept_edge p q r" unfolding edge_plan_inv_def by blast
  then show ?thesis by (auto simp: edge_ok_def kept_edge_def uids)
next
  case False
  with r have d: "r \<in> set (map fst (derived_rows uuid5 bs))" by (simp add: edge_rows_def)
  have "\<not> has_started x" if "x \<in> set (activities n)" "pa_uid x \<in> {pr_predecessor_uid r, pr_successor_uid r}" for x
  proof -
    from rows [OF that(1)] obtain a where a: "a \<in> set (sc_activities s)" "ac_uid a = pa_uid x" "has_started x \<longleftrightarrow> ac_actual_start a \<noteq> None"
      by blast
    with derived_edge_ends(2) [OF bs keyed d that(2) a(1,2)] show ?thesis by simp
  qed
  then have "\<forall>a \<in> set (activities n). pa_uid a \<in> {pr_predecessor_uid r, pr_successor_uid r} \<longrightarrow> \<not> has_started a" by blast
  then show ?thesis
    unfolding edge_ok_def uids using derived_edge_ends(1) [OF bs keyed d] edge_rows_scheduled [OF bs e r] by blast
qed

lemma rows_sound_iff:
  assumes row: "\<And>x. x \<in> set (activities n) \<Longrightarrow> \<exists>a \<in> set (sc_activities s). ac_uid a = pa_uid x
      \<and> (has_started x \<longleftrightarrow> ac_actual_start a \<noteq> None) \<and> (activity_ok x \<longleftrightarrow> row_sound ep a)"
    and d: "distinct (map ac_uid (sc_activities s))"
  shows "(\<forall>x \<in> set (activities n). activity_ok x)
    \<longleftrightarrow> (\<forall>a \<in> set (sc_activities s). ac_uid a \<in> set (activity_uids n) \<longrightarrow> row_sound ep a)"
proof -
  have "activity_ok x \<longleftrightarrow> row_sound ep a"
    if "x \<in> set (activities n)" "a \<in> set (sc_activities s)" "ac_uid a = pa_uid x" for x a
  proof -
    from row [OF that(1)] obtain b where b: "b \<in> set (sc_activities s)" "ac_uid b = pa_uid x" "activity_ok x \<longleftrightarrow> row_sound ep b" by blast
    have "b = a"
      using b(1,2) that(2,3) d by (simp add: distinct_map inj_on_def)
    with b(3) show ?thesis by simp
  qed
  then show ?thesis using row by (fastforce simp: activity_uids_def)
qed

text \<open>
  (C9) What \<open>Network.validate\<close>, which every pass runs first, can refuse of a plan's network. For a source
  whose identifiers are distinct UUIDs, with name-based identifiers that do not collide, the network
  is accepted exactly when the project starts before the window ends, every placed row has a duration
  that is not negative, actual dates in order and a remaining duration when it is under way, and no
  edge joins a row to itself. Nothing else is ever refused: the status time, the calendars and
  constraints of the placed rows, the envelopes, the ends of the edges and the groups of derived edges
  always pass, and no identifier is used twice.
\<close>

theorem plan_network_valid:
  assumes "build_plan sha uuid5 s h epoch ar = Inr pl" and "source_keyed s" and "collision_free uuid5 s"
  shows "validate (pl_network pl) = Inr () \<longleftrightarrow>
      project_start (pl_network pl) < horizon (pl_network pl)
    \<and> (\<forall>a \<in> set (sc_activities s). ac_uid a \<in> set (activity_uids (pl_network pl)) \<longrightarrow> row_sound (pl_epoch pl) a)
    \<and> (\<forall>r \<in> set (relationships (pl_network pl)). pr_predecessor_uid r \<noteq> pr_successor_uid r)"
proof -
  from assms(1) obtain cals ep w where inp: "plan_inputs sha s h epoch = Some (cals, ep, w)"
    and f: "finish_plan sha uuid5 s cals ep w ar (source_placed s cals ep w ar) = Inr pl" by (rule build_plan_stages)
  let ?p = "source_placed s cals ep w ar"
  from f obtain bs e start es where bs: "boundary_candidates s ?p = Inr bs" and e: "plan_edges cals s (ci_of [w]) ?p bs = Inr e"
    and es: "envelopes cals s ep w ?p (pm_assumed ?p @ ep_assumed e) (edge_rows uuid5 bs e) = Inr es"
    and n: "pl_network pl = plan_network (seconds_from ep start) (snd w)
       (fst (plan_status (seconds_from ep start) (snd w) ep (ps_status_date (sc_project s)))) ?p es
       (elapsed_float_uids cals s ar w ?p (edge_rows uuid5 bs e)) (edge_rows uuid5 bs e)"
    and epoch: "pl_epoch pl = ep"
    by (rule finish_plan_stages) blast
  have d: "distinct (map ac_uid (sc_activities s))" and rd: "distinct (map rl_uid (sc_relationships s))"
    and small: "list_all (\<lambda>a. ac_uid a < 2 ^ 128) (sc_activities s)"
    using assms(2) by (simp_all add: source_keyed_def)
  have w: "shared_window w cals" using inp by (rule plan_inputs_window)
  have uids: "activity_uids (pl_network pl) = scheduled ?p" by (simp add: n plan_network_uids)
  have rel: "relationships (pl_network pl) = edge_rows uuid5 bs e" by (simp add: n plan_network_def)
  have row: "\<exists>a \<in> set (sc_activities s). ac_uid a = pa_uid x \<and> (has_started x \<longleftrightarrow> ac_actual_start a \<noteq> None)
      \<and> (activity_ok x \<longleftrightarrow> row_sound ep a)" if "x \<in> set (activities (pl_network pl))" for x
    using network_row [OF _ es d w] that unfolding n by blast
  have part: "distinct (scheduled ?p @ map xc_uid (pm_excluded ?p))" "set (scheduled ?p @ map xc_uid (pm_excluded ?p)) = set (map ac_uid (sc_activities s))"
    by (rule source_placed_partition [OF d])+
  have "set (scheduled ?p) \<union> set (inactive_rows ?p) \<subseteq> set (scheduled ?p @ map xc_uid (pm_excluded ?p))"
    by (auto simp: inactive_rows_def)
  then have sub: "set (scheduled ?p) \<union> set (inactive_rows ?p) \<subseteq> ac_uid ` set (sc_activities s)" unfolding part(2) by simp
  have lt: "\<forall>u \<in> set (scheduled ?p) \<union> set (inactive_rows ?p). u < 2 ^ 128"
    using sub small by (force simp: list_all_iff)
  have window: "window_ok (pl_network pl) \<longleftrightarrow> project_start (pl_network pl) < horizon (pl_network pl)"
    by (auto simp: window_ok_def n plan_network_def plan_status_def Let_def split: option.splits if_splits)
  have rows: "(\<forall>x \<in> set (activities (pl_network pl)). activity_ok x)
      \<longleftrightarrow> (\<forall>a \<in> set (sc_activities s). ac_uid a \<in> set (activity_uids (pl_network pl)) \<longrightarrow> row_sound ep a)"
    using row d by (rule rows_sound_iff)
  have "edge_ok (pl_network pl) r \<longleftrightarrow> pr_predecessor_uid r \<noteq> pr_successor_uid r" if "r \<in> set (edge_rows uuid5 bs e)" for r
    using plan_edge_ok [OF bs e assms(2) that uids] row by blast
  then have edges: "(\<forall>r \<in> set (relationships (pl_network pl)). edge_ok (pl_network pl) r)
      \<longleftrightarrow> (\<forall>r \<in> set (relationships (pl_network pl)). pr_predecessor_uid r \<noteq> pr_successor_uid r)" unfolding rel by blast
  have "distinct (activity_uids (pl_network pl))" "distinct (map pr_uid (relationships (pl_network pl)))"
    "boundaries_ok (relationships (pl_network pl))"
    unfolding uids rel using part(1) edge_uids_distinct [OF bs e assms(3) rd lt] edge_groups_ok [OF bs e, of uuid5] by simp_all
  then show ?thesis unfolding validate_iff network_ok_def window rows edges epoch by simp
qed

lemma plan_network_valid_witness: "validate (pl_network sample_plan) = Inr ()"
proof -
  have keyed: "source_keyed sample_schedule"
    by (simp add: source_keyed_def sample_schedule_def plan_task_def new_activity_def deadline_too_def new_relationship_def)
  have "distinct (map named_uid (boundary_names sample_schedule))
      \<and> list_all (\<lambda>t. \<not> List.member (map rl_uid (sc_relationships sample_schedule)) (named_uid t)) (boundary_names sample_schedule)"
    by code_simp
  then have free: "collision_free named_uid sample_schedule"
    by (auto simp: collision_free_def distinct_map list_all_iff List.member_iff)
  have "project_start (pl_network sample_plan) < horizon (pl_network sample_plan)"
    using sample_plan_outcome sample_plan_run by simp
  moreover have "\<forall>a \<in> set (sc_activities sample_schedule). row_sound (pl_epoch sample_plan) a"
    by (simp add: sample_schedule_def plan_task_def new_activity_def deadline_too_def
        row_sound_def duration_seconds_def remaining_seconds_def lasting_def)
  moreover have "\<forall>r \<in> set (relationships (pl_network sample_plan)). pr_predecessor_uid r \<noteq> pr_successor_uid r"
  proof
    have "(\<lambda>r. (pr_predecessor_uid r, pr_successor_uid r)) ` set (relationships (pl_network sample_plan)) = set [(1, 4), (1, 6)]"
      using sample_plan_outcome sample_plan_run by (simp flip: set_map)
    moreover fix r assume "r \<in> set (relationships (pl_network sample_plan))"
    ultimately have "(pr_predecessor_uid r, pr_successor_uid r) \<in> set [(1, 4), (1, 6)]" by blast
    then show "pr_predecessor_uid r \<noteq> pr_successor_uid r" by auto
  qed
  ultimately show ?thesis using plan_network_valid [OF sample_plan_run keyed free] by blast
qed

end
