(* ===== verification/Execution_Facts.thy ===== *)
theory Execution_Facts
  imports Execution Result_Facts Recalculation Plan_Valid
begin

section \<open>Commands and fresh calculations\<close>

text \<open>
  After any sequence of accepted commands the state is what a fresh calculation of its document
  answers; a command adds to the history of one activity and replaces nothing; and which reports
  are accepted is characterised without the order of the checks.
\<close>

subsection \<open>The same window, the same plan\<close>

lemma compile_step_epoch:
  assumes "compile_step sha cs h ep window c s0 = Inr s1" and "\<forall>(u, cc) \<in> set (fst s0). cc_epoch cc = ep"
  shows "\<forall>(u, cc) \<in> set (fst s1). cc_epoch cc = ep"
proof -
  from assms(1) obtain cc cache where run: "compile_with sha cs (cal_uid c) h ep window (snd s0) = Inr (cc, cache)"
    and s1: "s1 = (AList.update (cal_uid c) cc (fst s0), cache)"
    by (auto simp: compile_step_def compile_calendar_def rbind_Inr_iff raise_if_Inr_iff default_epoch_def)
  have "cc_epoch cc = ep" using run by (auto simp: compile_with_def rbind_Inr_iff Let_def)
  then show ?thesis using assms(2) by (auto simp: s1 dest!: mem_update)
qed

lemma build_plan_fields:
  assumes "build_plan sha uuid5 s h epoch ar = Inr p"
  shows "pl_epoch p = default_epoch (fst h) epoch" and "pl_resource_calendars_apply p = ar"
proof -
  from assms obtain cals ep w where inputs: "plan_inputs sha s h epoch = Some (cals, ep, w)"
    and f: "finish_plan sha uuid5 s cals ep w ar (source_placed s cals ep w ar) = Inr p" by (rule build_plan_stages)
  from inputs obtain u cc rest where cals: "compile_calendars sha (sc_calendars s) h epoch = Inr ((u, cc) # rest)"
    and ep: "ep = cc_epoch cc"
    by (auto simp: plan_inputs_def split: sum.splits list.splits)
  from cals obtain window st where run: "rfold (compile_step sha (sc_calendars s) h (default_epoch (fst h) epoch) window) (sc_calendars s)
      ([], Map.empty) = Inr st" and st: "fst st = (u, cc) # rest"
    by (auto simp: compile_calendars_def rbind_Inr_iff)
  from run have "\<forall>(u, cc) \<in> set (fst st). cc_epoch cc = default_epoch (fst h) epoch"
    by (rule rfold_invariant [where P = "\<lambda>_ s. \<forall>(u, cc) \<in> set (fst s). cc_epoch cc = default_epoch (fst h) epoch"])
      (auto dest: compile_step_epoch)
  then have "cc_epoch cc = default_epoch (fst h) epoch" by (simp add: st)
  moreover have "pl_epoch p = cc_epoch cc" using f unfolding ep by (rule finish_plan_stages)
  ultimately show "pl_epoch p = default_epoch (fst h) epoch" by simp
  show "pl_resource_calendars_apply p = ar"
    using f by (auto simp: finish_plan_def rbind_Inr_iff raise_if_Inr_iff Let_def case_prod_unfold split: option.splits)
qed

lemma build_plan_default_epoch: "build_plan sha uuid5 s h (Some (default_epoch (fst h) epoch)) ar = build_plan sha uuid5 s h epoch ar"
  by (simp add: build_plan_def compile_calendars_def default_epoch_def split: option.split)

subsection \<open>Histories\<close>

text \<open>The states a document goes through: a first calculation, then accepted commands.\<close>

inductive execution_history :: "engine \<Rightarrow> moment \<times> moment \<Rightarrow> moment option \<Rightarrow> bool \<Rightarrow> calculated_state \<Rightarrow> bool"
  for g h epoch ar where
  calculated: "calculate_state g s h epoch ar = Inr st \<Longrightarrow> execution_history g h epoch ar st"
| executed: "execution_history g h epoch ar st \<Longrightarrow> apply_execution g st change = Inr st' \<Longrightarrow> execution_history g h epoch ar st'"

lemma assemble_Inr:
  assumes "assemble g s canonical_hash h p fp bp recalc = Inr st"
  shows "cs_schedule st = s" "cs_canonical_hash st = canonical_hash" "cs_horizon st = h" "cs_plan st = p"
    "cs_forward st = fp" "cs_backward st = bp" "cs_recalculation st = recalc"
    and "assemble g s canonical_hash h p fp bp recalc' = Inr (st\<lparr>cs_recalculation := recalc'\<rparr>)"
  using assms by (auto simp: assemble_def rbind_Inr_iff Let_def)

lemma calculate_state_Inr:
  assumes "calculate_state g s h epoch ar = Inr st"
  shows "build_plan (en_sha g) (en_uuid5 g) s h epoch ar = Inr (cs_plan st)"
    and "forward_pass (en_sha g) (pl_network (cs_plan st)) (pl_snap_milestones (cs_plan st)) (pl_progress_policy (cs_plan st)) = Inr (cs_forward st)"
    and "backward_pass (en_sha g) (pl_network (cs_plan st)) (cs_forward st) None None None = Inr (cs_backward st)"
    and "cs_schedule st = s" "cs_canonical_hash st = en_doc_hash g s" "cs_horizon st = h" "cs_recalculation st = None"
    and "assemble g s (en_doc_hash g s) h (cs_plan st) (cs_forward st) (cs_backward st) None = Inr st"
proof -
  from assms obtain p fp bp where run: "build_plan (en_sha g) (en_uuid5 g) s h epoch ar = Inr p"
    "forward_pass (en_sha g) (pl_network p) (pl_snap_milestones p) (pl_progress_policy p) = Inr fp"
    "backward_pass (en_sha g) (pl_network p) fp None None None = Inr bp"
    and asm: "assemble g s (en_doc_hash g s) h p fp bp None = Inr st"
    by (auto simp: calculate_state_def rbind_Inr_iff)
  note f = assemble_Inr(1-7) [OF asm]
  show "build_plan (en_sha g) (en_uuid5 g) s h epoch ar = Inr (cs_plan st)"
    "forward_pass (en_sha g) (pl_network (cs_plan st)) (pl_snap_milestones (cs_plan st)) (pl_progress_policy (cs_plan st)) = Inr (cs_forward st)"
    "backward_pass (en_sha g) (pl_network (cs_plan st)) (cs_forward st) None None None = Inr (cs_backward st)"
    "cs_schedule st = s" "cs_canonical_hash st = en_doc_hash g s" "cs_horizon st = h" "cs_recalculation st = None"
    "assemble g s (en_doc_hash g s) h (cs_plan st) (cs_forward st) (cs_backward st) None = Inr st"
    using run asm by (simp_all only: f)
qed

lemma apply_execution_stages:
  assumes "apply_execution g st change = Inr st'"
  obtains a start finish rem changed p rc where "reported_activity g st change = Inr a"
    and "reported_progress a change = Inr (start, finish, rem)" and "changed_activity a start finish rem = Inr changed"
    and "build_plan (en_sha g) (en_uuid5 g) (with_activity changed (cs_schedule st)) (cs_horizon st) (Some (pl_epoch (cs_plan st)))
        (pl_resource_calendars_apply (cs_plan st)) = Inr p"
    and "plan_context p = plan_context (cs_plan st)"
    and "recalculate_network (en_sha g) (pl_network (cs_plan st)) (pl_network p) (cs_forward st) (cs_backward st) (ac_uid a) = Inr rc"
    and "assemble g (with_activity changed (cs_schedule st)) (en_doc_hash g (with_activity changed (cs_schedule st))) (cs_horizon st) p
        (rc_forward rc) (rc_backward rc) (Some rc) = Inr st'"
  using assms by (auto simp: apply_execution_def rbind_Inr_iff raise_if_Inr_iff Let_def)

lemma implicit_late_finish:
  assumes "forward_pass sha n snap policy = Inr fp" and "backward_pass sha n fp None None None = Inr bp"
  shows "\<not> explicit_late_finish fp bp"
  using backward_pass_solved(4) [OF assms] arg_cong [OF backward_pass_solved(3) [OF assms], of project_late_finish_explicit]
  by (simp add: explicit_late_finish_def backward_solution_def Let_def)

text \<open>
  The converse: where the checks pass and the context is kept, the command is answered whenever a fresh
  calculation of the new document is.
\<close>

lemma execution_answers:
  assumes fresh: "calculate_state g (cs_schedule st) h epoch ar = Inr (st\<lparr>cs_recalculation := None\<rparr>)"
    and checks: "reported_activity g st change = Inr a" "reported_progress a change = Inr (start, finish, rem)"
      "changed_activity a start finish rem = Inr changed"
    and new: "calculate_state g (with_activity changed (cs_schedule st)) h epoch ar = Inr st2"
    and known: "ch_activity_uid change \<in> set (activity_uids (pl_network (cs_plan st2)))"
    and ctx: "plan_context (cs_plan st2) = plan_context (cs_plan st)"
  shows "\<exists>rc. apply_execution g st change = Inr (st2\<lparr>cs_recalculation := Some rc\<rparr>)"
proof -
  note prev = calculate_state_Inr [OF fresh, simplified] and next_state = calculate_state_Inr [OF new]
  have plan: "build_plan (en_sha g) (en_uuid5 g) (with_activity changed (cs_schedule st)) (cs_horizon st) (Some (pl_epoch (cs_plan st)))
      (pl_resource_calendars_apply (cs_plan st)) = Inr (cs_plan st2)"
    using next_state(1) build_plan_fields [OF prev(1)] prev(6) by (simp add: build_plan_default_epoch)
  have "forward_pass (en_sha g) (pl_network (cs_plan st2)) (pl_snap_milestones (cs_plan st)) (pl_progress_policy (cs_plan st)) = Inr (cs_forward st2)"
    using next_state(2) ctx by (simp add: plan_context_def)
  then obtain mode k where rc: "recalculate_network (en_sha g) (pl_network (cs_plan st)) (pl_network (cs_plan st2)) (cs_forward st) (cs_backward st) (ac_uid a)
      = Inr \<lparr> rc_forward = cs_forward st2, rc_backward = cs_backward st2, rc_mode = mode, recalculated_activities = k \<rparr>"
    using recalculation_agrees [OF prev(2,3), of "pl_network (cs_plan st2)" "ac_uid a" "cs_forward st2" "cs_backward st2"]
      implicit_late_finish [OF prev(2,3)] next_state(3) by auto
  have "apply_execution g st change = assemble g (with_activity changed (cs_schedule st)) (en_doc_hash g (with_activity changed (cs_schedule st)))
      (cs_horizon st) (cs_plan st2) (cs_forward st2) (cs_backward st2)
      (Some \<lparr> rc_forward = cs_forward st2, rc_backward = cs_backward st2, rc_mode = mode, recalculated_activities = k \<rparr>)"
    unfolding apply_execution_def checks rbind.simps prod.case Let_def plan rc using known ctx by (simp add: raise_if_def)
  also have "\<dots> = Inr (st2\<lparr>cs_recalculation := Some \<lparr> rc_forward = cs_forward st2, rc_backward = cs_backward st2,
      rc_mode = mode, recalculated_activities = k \<rparr>\<rparr>)"
    using assemble_Inr(8) [OF next_state(8)] prev(6) by simp
  finally show ?thesis by blast
qed

subsection \<open>A report on the sample\<close>

lemma sample_fresh: "calculate_state sample_engine (cs_schedule sample_state) sample_window None True = Inr (sample_state\<lparr>cs_recalculation := None\<rparr>)"
proof -
  note calc = calculate_state_Inr [OF sample_states(1)]
  have "sample_state\<lparr>cs_recalculation := None\<rparr> = sample_state" using calc(7) by (cases sample_state) simp
  then show ?thesis using sample_states(1) calc(4) by simp
qed

lemma sample_executed_run:
  obtains st where "apply_execution sample_engine sample_state sample_change = Inr st"
    and "execution_history sample_engine sample_window None True st" and "cs_schedule st = with_activity sample_started sample_works"
proof -
  note calc = calculate_state_Inr [OF sample_states(1)] and calc2 = calculate_state_Inr [OF sample_states(2)]
  have sched: "cs_schedule sample_state = sample_works" by (rule calc(4))
  have "sc_activity_by_uid sample_works 1 = Some (plan_task 1)" by (simp add: sc_activity_by_uid_def sample_works_def plan_task_def new_activity_def)
  moreover have "started_count sample_works = ''0''" by code_simp
  moreover have "ac_actual_finish (plan_task 1) = None" "ac_remaining_duration (plan_task 1) = None"
    "ps_progress_policy (sc_project sample_works) \<noteq> ACTUAL_DATES" "\<not> split_second (ch_actual_start sample_change)"
    "\<not> split_second (ch_actual_finish sample_change)" "ch_remaining_seconds sample_change = Some 3600"
    by code_simp+
  moreover have "cs_canonical_hash sample_state = started_count sample_works" using calc(5) by (simp add: sample_engine_def)
  ultimately have act: "reported_activity sample_engine sample_state sample_change = Inr (plan_task 1)"
    using sample_states(3) sched
    by (simp add: reported_activity_def raise_if_def sample_facts_def sample_change_def sample_engine_def)
  have prog: "reported_progress (plan_task 1) sample_change = Inr (Some (plan_start + 28800000000), None, Some 3600)" by code_simp
  have chg: "changed_activity (plan_task 1) (Some (plan_start + 28800000000)) None (Some 3600) = Inr sample_started"
    by (simp add: changed_activity_def plan_task_def sample_started_def lasting_def new_activity_def or_else_def raise_if_def)
  have "plan_context (cs_plan sample_next) = sample_context" using calc2(1) sample_context_kept by (simp add: sample_engine_def)
  moreover have "plan_context (cs_plan sample_state) = sample_context" using calc(1) by (simp add: sample_context_def sample_engine_def)
  ultimately have ctx: "plan_context (cs_plan sample_next) = plan_context (cs_plan sample_state)" by simp
  have known: "ch_activity_uid sample_change \<in> set (activity_uids (pl_network (cs_plan sample_next)))"
    using sample_states(4) by (simp add: sample_facts_def sample_change_def)
  obtain rc where run: "apply_execution sample_engine sample_state sample_change = Inr (sample_next\<lparr>cs_recalculation := Some rc\<rparr>)"
    using execution_answers [OF sample_fresh act prog chg _ known ctx] sample_states(2) unfolding sched by blast
  show ?thesis
    using calc2(4) by (intro that [OF run] execution_history.executed [OF execution_history.calculated [OF sample_states(1)] run]) simp
qed

text \<open>
  (C22) After a first calculation and any sequence of accepted commands, the state is the one a fresh
  calculation of its document answers, to the last row, label and digest, whatever paths the
  recalculations took; only the record of how the last one was done is extra.
\<close>

theorem execution_history_fresh:
  assumes "execution_history g h epoch ar st"
  shows "calculate_state g (cs_schedule st) h epoch ar = Inr (st\<lparr>cs_recalculation := None\<rparr>)"
  using assms
proof (induction rule: execution_history.induct)
  case (calculated s st)
  note calc = calculate_state_Inr [OF calculated]
  have "st\<lparr>cs_recalculation := None\<rparr> = st" using calc(7) by (cases st) simp
  with calculated calc(4) show ?case by simp
next
  case (executed st change st')
  note prev = calculate_state_Inr [OF executed.IH, simplified]
  obtain a changed :: activity and p :: plan and rc :: recalculation where plan: "build_plan (en_sha g) (en_uuid5 g) (with_activity changed (cs_schedule st)) (cs_horizon st)
        (Some (pl_epoch (cs_plan st))) (pl_resource_calendars_apply (cs_plan st)) = Inr p"
    and ctx: "plan_context p = plan_context (cs_plan st)"
    and rc: "recalculate_network (en_sha g) (pl_network (cs_plan st)) (pl_network p) (cs_forward st) (cs_backward st) (ac_uid a) = Inr rc"
    and asm: "assemble g (with_activity changed (cs_schedule st)) (en_doc_hash g (with_activity changed (cs_schedule st))) (cs_horizon st) p
        (rc_forward rc) (rc_backward rc) (Some rc) = Inr st'"
    using executed.hyps(2) by (rule apply_execution_stages)
  note new = assemble_Inr [OF asm]
  have "build_plan (en_sha g) (en_uuid5 g) (cs_schedule st') h epoch ar = Inr p"
    using plan build_plan_fields [OF prev(1)] prev(6) new(1) by (simp add: build_plan_default_epoch)
  moreover have "forward_pass (en_sha g) (pl_network p) (pl_snap_milestones p) (pl_progress_policy p) = Inr (rc_forward rc)
      \<and> backward_pass (en_sha g) (pl_network p) (rc_forward rc) None None None = Inr (rc_backward rc)"
  proof -
    have "\<exists>mode k. recalculate_network (en_sha g) (pl_network (cs_plan st)) (pl_network p) (cs_forward st) (cs_backward st) (ac_uid a)
        = Inr \<lparr> rc_forward = rc_forward rc, rc_backward = rc_backward rc, rc_mode = mode, recalculated_activities = k \<rparr>"
      unfolding rc by (metis recalculation.surjective old.unit.exhaust)
    then show ?thesis
      using recalculation_agrees [OF prev(2,3)] implicit_late_finish [OF prev(2,3)] ctx by (simp add: plan_context_def)
  qed
  ultimately show ?case
    using new(8) [of None] prev(6) new(1) by (simp add: calculate_state_def)
qed

theorem execution_history_fresh_witness:
  "\<exists>st. apply_execution sample_engine sample_state sample_change = Inr st
    \<and> calculate_state sample_engine (with_activity sample_started sample_works) sample_window None True = Inr (st\<lparr>cs_recalculation := None\<rparr>)"
proof (rule sample_executed_run)
  fix st
  assume run: "apply_execution sample_engine sample_state sample_change = Inr st"
    and hist: "execution_history sample_engine sample_window None True st" and doc: "cs_schedule st = with_activity sample_started sample_works"
  from execution_history_fresh [OF hist] show ?thesis unfolding doc using run by blast
qed

subsection \<open>Which reports are accepted\<close>

lemma reported_progress_refused:
  "reported_progress a change = Inl e \<Longrightarrow> \<exists>code. e = execution_error code"
  by (auto simp: reported_progress_def checked_remaining_def Let_def raise_if_def rbind_Inl_iff split: if_splits option.splits)

lemma reported_progress_accepted:
  assumes "ac_actual_finish a = None"
  shows "reported_progress a change = Inr (start, finish, rem) \<longleftrightarrow>
     \<not> replaces (ac_actual_start a) (ch_actual_start change)
     \<and> start = or_else (ac_actual_start a) (ch_actual_start change) \<and> finish = ch_actual_finish change
     \<and> (\<exists>s. start = Some s \<and> (case finish of
           Some f \<Rightarrow> s \<le> f \<and> ch_remaining_seconds change \<in> {None, Some 0} \<and> rem = Some 0
         | None \<Rightarrow> \<exists>r. ch_remaining_seconds change = Some r \<and> r \<noteq> 0 \<and> rem = Some r))"
proof -
  have f: "or_else (ac_actual_finish a) (ch_actual_finish change) = ch_actual_finish change" by (simp add: assms or_else_def)
  have r: "\<not> replaces (ac_actual_finish a) x" for x by (simp add: assms replaces_def)
  show ?thesis
  proof (cases "replaces (ac_actual_start a) (ch_actual_start change)")
    case True
    then show ?thesis by (simp add: reported_progress_def raise_if_Inr_iff)
  next
    case False
    define st where "st = or_else (ac_actual_start a) (ch_actual_start change)"
    have given: "ch_actual_start change \<noteq> None \<Longrightarrow> st \<noteq> None" by (auto simp: st_def or_else_def split: option.splits)
    show ?thesis
    proof (cases "ch_actual_finish change")
      case None
      have "reported_progress a change = Inr (start, finish, rem) \<longleftrightarrow>
          start = st \<and> finish = None \<and> (\<exists>s. st = Some s) \<and> (\<exists>q. ch_remaining_seconds change = Some q \<and> q \<noteq> 0 \<and> rem = Some q)"
        using False given unfolding reported_progress_def f st_def [symmetric]
        by (cases st; cases "ch_remaining_seconds change")
          (auto simp: None r checked_remaining_def raise_if_Inr_iff rbind_Inr_iff)
      then show ?thesis using False None by (auto simp: st_def)
    next
      case (Some x)
      have "reported_progress a change = Inr (start, finish, rem) \<longleftrightarrow>
          start = st \<and> finish = Some x \<and> (\<exists>s. st = Some s \<and> s \<le> x) \<and> ch_remaining_seconds change \<in> {None, Some 0} \<and> rem = Some 0"
        using False unfolding reported_progress_def f st_def [symmetric]
        by (cases st) (auto simp: Some r checked_remaining_def Let_def raise_if_Inr_iff rbind_Inr_iff not_less)
      then show ?thesis using False Some by (auto simp: st_def)
    qed
  qed
qed

text \<open>
  (C31) The chain of checks on a report about unfinished work comes to this: it is accepted exactly when it
  replaces no actual start, and either reports a finish at or after a known start, with no remaining
  work, or reports remaining work other than zero on a known start. Every other report is refused
  with a code of its own, never with an attribute error.
\<close>

theorem progress_accepted_exactly:
  assumes "ac_actual_finish a = None"
  shows "(reported_progress a change = Inr (start, finish, rem)) =
     (\<not> replaces (ac_actual_start a) (ch_actual_start change)
      \<and> start = or_else (ac_actual_start a) (ch_actual_start change) \<and> finish = ch_actual_finish change
      \<and> (\<exists>s. start = Some s \<and> (case finish of
            Some f \<Rightarrow> s \<le> f \<and> ch_remaining_seconds change \<in> {None, Some 0} \<and> rem = Some 0
          | None \<Rightarrow> \<exists>r. ch_remaining_seconds change = Some r \<and> r \<noteq> 0 \<and> rem = Some r)))
     \<and> (case reported_progress a change of Inr _ \<Rightarrow> True | Inl e \<Rightarrow> \<exists>code. e = execution_error code)"
  using reported_progress_accepted [OF assms] reported_progress_refused by (auto split: sum.split)

theorem progress_accepted_exactly_witness:
  "reported_progress (plan_task 1) sample_change = Inr (Some (plan_start + 28800000000), None, Some 3600)"
proof -
  have open_row: "ac_actual_finish (plan_task 1) = None" by code_simp
  show ?thesis
    by (rule progress_accepted_exactly [OF open_row, THEN conjunct1, THEN iffD2])
      (simp add: sample_change_def plan_task_def new_activity_def replaces_def or_else_def)
qed

text \<open>
  (C30) An accepted command changes one row of the document and adds to its history: the row was not
  finished, an actual start it had is kept, and afterwards it has a start, and either a finish not
  before it and nothing remaining, or no finish and work remaining. Nothing else of the row or of the
  document changes.
\<close>

theorem execution_adds_history:
  assumes "apply_execution g st change = Inr st'"
  shows "\<exists>a a' s d. sc_activity_by_uid (cs_schedule st) (ch_activity_uid change) = Some a
    \<and> cs_schedule st' = with_activity a' (cs_schedule st)
    \<and> a' = a\<lparr>ac_actual_start := Some s, ac_actual_finish := ch_actual_finish change, ac_remaining_duration := Some d\<rparr> \<and> a' \<noteq> a
    \<and> ac_actual_finish a = None \<and> ac_actual_start a \<in> {None, Some s}
    \<and> (case ch_actual_finish change of Some f \<Rightarrow> s \<le> f \<and> du_seconds d = 0 | None \<Rightarrow> 0 < du_seconds d)"
proof -
  obtain a start finish rem changed p rc where act: "reported_activity g st change = Inr a"
    and prog: "reported_progress a change = Inr (start, finish, rem)" and chg: "changed_activity a start finish rem = Inr changed"
    and asm: "assemble g (with_activity changed (cs_schedule st)) (en_doc_hash g (with_activity changed (cs_schedule st))) (cs_horizon st) p
        (rc_forward rc) (rc_backward rc) (Some rc) = Inr st'"
    using assms by (rule apply_execution_stages)
  have a: "sc_activity_by_uid (cs_schedule st) (ch_activity_uid change) = Some a" "ac_actual_finish a = None"
    and pos: "\<And>r. ch_remaining_seconds change = Some r \<Longrightarrow> 0 \<le> r"
    using act by (auto simp: reported_activity_def raise_if_Inr_iff split: option.splits)
  from prog [unfolded reported_progress_accepted [OF a(2)]] obtain s where keep: "\<not> replaces (ac_actual_start a) (ch_actual_start change)"
    and s: "or_else (ac_actual_start a) (ch_actual_start change) = Some s" "start = Some s" and f: "finish = ch_actual_finish change"
    and rem: "case finish of Some f \<Rightarrow> s \<le> f \<and> ch_remaining_seconds change \<in> {None, Some 0} \<and> rem = Some 0
         | None \<Rightarrow> \<exists>r. ch_remaining_seconds change = Some r \<and> r \<noteq> 0 \<and> rem = Some r"
    by blast
  obtain q where q: "rem = Some q" "case finish of Some f \<Rightarrow> s \<le> f \<and> q = 0 | None \<Rightarrow> 0 < q"
    using rem pos by (cases finish) force+
  obtain d where d: "du_seconds d = q" "changed = a\<lparr>ac_actual_start := Some s, ac_actual_finish := finish, ac_remaining_duration := Some d\<rparr>"
    and differs: "\<not> (Some s = ac_actual_start a \<and> finish = ac_actual_finish a \<and> Some d = ac_remaining_duration a)"
    using chg unfolding changed_activity_def Let_def raise_if_Inr_iff q(1) s(2) option.case by force
  have "ac_actual_start changed = Some s" "ac_actual_finish changed = finish" "ac_remaining_duration changed = Some d"
    by (simp_all add: d(2))
  with differs have "changed \<noteq> a" by auto
  moreover have "ac_actual_start a \<in> {None, Some s}" using s(1) by (auto simp: or_else_def split: option.splits)
  moreover have "case ch_actual_finish change of Some f \<Rightarrow> s \<le> f \<and> du_seconds d = 0 | None \<Rightarrow> 0 < du_seconds d"
    using q(2) unfolding f d(1) .
  moreover note a assemble_Inr(1) [OF asm] d(2) [unfolded f]
  ultimately show ?thesis by blast
qed

theorem execution_adds_history_witness:
  "\<exists>st a'. apply_execution sample_engine sample_state sample_change = Inr st
    \<and> cs_schedule st = with_activity a' (cs_schedule sample_state) \<and> ac_actual_start a' \<noteq> None"
proof (rule sample_executed_run)
  fix st
  assume run: "apply_execution sample_engine sample_state sample_change = Inr st"
  from execution_adds_history [OF run] obtain a a' s d where doc: "cs_schedule st = with_activity a' (cs_schedule sample_state)"
    and new: "a' = a\<lparr>ac_actual_start := Some s, ac_actual_finish := ch_actual_finish sample_change, ac_remaining_duration := Some d\<rparr>"
    by blast
  have "ac_actual_start a' \<noteq> None" by (simp add: new)
  with run doc show ?thesis by blast
qed

end
