(* ===== verification/Identity_Facts.thy ===== *)
theory Identity_Facts
  imports Identity
begin

section \<open>Identity is stable\<close>

text \<open>
  Identifiers written and read back are the same; minted names tell rows apart; and in every map an
  import can reach, live rows and identifiers are in one-to-one correspondence.
\<close>

subsection \<open>Reading what was written\<close>

lemma hex_digits_values: "list_all (\<lambda>i. hex_value (''0123456789abcdef'' ! i) = Some i) [0..<16]"
  by code_simp

lemma hex_value_digit [simp]: "hex_value (hex_digit d) = Some (d mod 16)"
  using hex_digits_values by (simp add: hex_digit_def list_all_iff)

lemma set_hex_text: "c \<in> set (hex_text k v) \<Longrightarrow> \<exists>d. c = hex_digit d"
  by (induction k arbitrary: v) auto

lemma hex_digit_plain: "hex_digit d \<notin> set ''-+xXu{}'' \<and> \<not> is_space (hex_digit d) \<and> hex_digit d \<noteq> SEP"
proof -
  have "list_all (\<lambda>i. ''0123456789abcdef'' ! i \<notin> set ''-+xXu{}'' \<and> \<not> is_space (''0123456789abcdef'' ! i)
      \<and> ''0123456789abcdef'' ! i \<noteq> SEP) [0..<16]" by code_simp
  then show ?thesis by (simp add: hex_digit_def list_all_iff)
qed

lemma hex_loop_digits:
  "list_all (\<lambda>c. hex_value c \<noteq> None) xs \<Longrightarrow> ready \<or> xs \<noteq> []
   \<Longrightarrow> hex_loop acc ready xs = Some (foldl (\<lambda>a c. a * 16 + the (hex_value c)) acc xs)"
proof (induction xs arbitrary: acc ready)
  case (Cons x xs)
  then obtain v where "hex_value x = Some v" by auto
  with Cons show ?case by (cases xs) auto
qed simp

lemma foldl_hex_text: "foldl (\<lambda>a c. a * 16 + the (hex_value c)) acc (hex_text k v) = acc * 16 ^ k + v mod 16 ^ k"
proof (induction k arbitrary: v)
  case (Suc k)
  have "v mod (16 * 16 ^ k) = 16 * (v div 16 mod 16 ^ k) + v mod 16" by (rule mod_mult2_eq)
  then have "(acc * 16 ^ k + v div 16 mod 16 ^ k) * 16 + v mod 16 = acc * 16 ^ Suc k + v mod 16 ^ Suc k"
    by (simp add: algebra_simps)
  then show ?case by (simp add: Suc.IH)
qed simp

lemma dropWhile_none: "(\<And>c. c \<in> set s \<Longrightarrow> \<not> P c) \<Longrightarrow> dropWhile P s = s"
  by (cases s) auto

lemma strip_none: "(\<And>c. c \<in> set s \<Longrightarrow> \<not> P c) \<Longrightarrow> rev (dropWhile P (rev (dropWhile P s))) = s"
  using dropWhile_none [of s P] dropWhile_none [of "rev s" P] by simp

lemma parse_hex_text: "parse_hex (hex_text (Suc k) v) = Some (int (v mod 16 ^ Suc k))"
proof -
  let ?h = "hex_text (Suc k) v"
  have plain: "c \<notin> set ''-+xXu{}'' \<and> \<not> is_space c" if "c \<in> set ?h" for c using set_hex_text [OF that] hex_digit_plain by blast
  obtain c cs where h: "?h = c # cs" by (cases ?h) (auto simp del: hex_text.simps dest: arg_cong [of _ _ length])
  have "list_all (\<lambda>c. hex_value c \<noteq> None) ?h" using set_hex_text by (fastforce simp: list_all_iff simp del: hex_text.simps)
  moreover have "?h \<noteq> []" by (simp only: h) simp
  ultimately have loop: "hex_loop 0 False ?h = Some (v mod 16 ^ Suc k)"
    using hex_loop_digits [of ?h False 0] foldl_hex_text [of 0 "Suc k" v] by (simp del: hex_text.simps)
  have "take 2 ?h \<notin> {''0x'', ''0X''}"
  proof
    assume "take 2 ?h \<in> {''0x'', ''0X''}"
    then have "CHR ''x'' \<in> set ?h \<or> CHR ''X'' \<in> set ?h" by (metis in_set_takeD insertE list.set_intros singletonD)
    then show False using plain by fastforce
  qed
  then have "hex_digits ?h = Some (v mod 16 ^ Suc k)" using loop by (simp add: hex_digits_def)
  moreover have "strip_space ?h = ?h" unfolding strip_space_def using plain by (intro strip_none) blast
  moreover have "c \<in> set ?h" by (simp only: h list.set_intros)
  then have "c \<noteq> CHR ''-''" "c \<noteq> CHR ''+''" using plain [of c] by (auto simp del: hex_text.simps)
  ultimately show ?thesis unfolding parse_hex_def h by simp
qed

lemma remove_text_none: "c \<notin> set s \<Longrightarrow> remove_text (c # p) s = s"
  by (induction s) auto

lemma uuid_text_chars: "c \<in> set (uuid_text u) \<Longrightarrow> c = CHR ''-'' \<or> (\<exists>d. c = hex_digit d)"
  unfolding uuid_text_def Let_def
  by (auto dest!: in_set_takeD in_set_dropD dest: set_hex_text)

lemma drop_dashes:
  assumes "\<And>c. c \<in> set h \<Longrightarrow> c \<noteq> CHR ''-''"
  shows "filter (\<lambda>c. c \<noteq> CHR ''-'') (take 8 h @ ''-'' @ take 4 (drop 8 h) @ ''-'' @ take 4 (drop 12 h)
    @ ''-'' @ take 4 (drop 16 h) @ ''-'' @ drop 20 h) = h"
proof -
  have keep: "filter (\<lambda>c. c \<noteq> CHR ''-'') xs = xs" if "set xs \<subseteq> set h" for xs
    using that assms by (auto simp: filter_id_conv subset_iff)
  have "filter (\<lambda>c. c \<noteq> CHR ''-'') (take n (drop m h)) = take n (drop m h)" for n m
    by (rule keep) (auto dest: in_set_takeD in_set_dropD)
  moreover have "filter (\<lambda>c. c \<noteq> CHR ''-'') (drop m h) = drop m h" for m by (rule keep) (auto dest: in_set_dropD)
  moreover have "filter (\<lambda>c. c \<noteq> CHR ''-'') (take n h) = take n h" for n by (rule keep) (auto dest: in_set_takeD)
  ultimately show ?thesis using split_blocks [of h, symmetric] by simp
qed

lemma uuid_text_digits: "filter (\<lambda>c. c \<noteq> CHR ''-'') (uuid_text u) = hex_text 32 u"
  unfolding uuid_text_def Let_def
proof (rule drop_dashes)
  fix c assume "c \<in> set (hex_text 32 u)"
  then obtain d where "c = hex_digit d" using set_hex_text by blast
  then show "c \<noteq> CHR ''-''" using hex_digit_plain [of d] by auto
qed

lemma parse_uuid_text: "u < 2 ^ 128 \<Longrightarrow> parse_uuid (uuid_text u) = Inr u"
proof -
  assume u: "u < 2 ^ 128"
  have plain: "c \<notin> set ''u{}''" if "c \<in> set (uuid_text u)" for c using uuid_text_chars [OF that] hex_digit_plain by fastforce
  have "remove_text ''urn:'' (uuid_text u) = uuid_text u" "remove_text ''uuid:'' (uuid_text u) = uuid_text u"
    using plain by (auto intro!: remove_text_none)
  moreover have "strip_braces (uuid_text u) = uuid_text u"
    unfolding strip_braces_def using plain by (intro strip_none) auto
  moreover have "parse_hex (hex_text 32 u) = Some (int u)"
  proof -
    have "parse_hex (hex_text 32 u) = Some (int (u mod 16 ^ 32))"
      using parse_hex_text [of 31 u] by (simp only: Suc_numeral semiring_norm)
    moreover have "(16::nat) ^ 32 = 2 ^ 128" by simp
    ultimately show ?thesis using u by (simp only: mod_less)
  qed
  ultimately show ?thesis using u
    by (simp add: parse_uuid_def uuid_text_digits raise_if_def del: hex_text.simps)
qed

lemma normalise_guid_idem [simp]: "normalise_guid (normalise_guid g) = normalise_guid g"
proof (cases g)
  case (Some s)
  show ?thesis
  proof (cases "parse_uuid s")
    case (Inr u)
    then have "u < 2 ^ 128" by (auto simp: parse_uuid_def Let_def raise_if_def split: if_splits option.splits)
    with Some Inr show ?thesis by (simp add: normalise_guid_def parse_uuid_text)
  qed (simp add: Some normalise_guid_def)
qed (simp add: normalise_guid_def)

subsection \<open>Minted names\<close>

definition full_name :: "string \<Rightarrow> source_system \<Rightarrow> entity_kind \<Rightarrow> string \<Rightarrow> int \<Rightarrow> string" where
  "full_name sid sys kind e g = join_text [sid, source_system_value sys, entity_kind_value kind, mint_name e g]"

lemma mint_uid_name: "mint_uid uuid5 sid sys kind (mint_name e g) = uuid5 (full_name sid sys kind e g)"
  by (simp add: mint_uid_def full_name_def)

lemma nat_text_value: "foldl (\<lambda>a c. a * 10 + the (hex_value c)) 0 (nat_text n) = n"
proof (induction n rule: nat_text.induct)
  case (1 n)
  then show ?case by (subst nat_text.simps) (auto simp: mod_less)
qed

lemma nat_text_inj: "nat_text m = nat_text n \<Longrightarrow> m = n"
  by (metis nat_text_value)

lemma split_at_SEP: "SEP \<notin> set xs \<Longrightarrow> SEP \<notin> set ys \<Longrightarrow> xs @ SEP # r = ys @ SEP # r' \<Longrightarrow> xs = ys \<and> r = r'"
proof (induction xs arbitrary: ys)
  case Nil
  then show ?case by (cases ys) auto
next
  case (Cons x xs)
  then show ?case by (cases ys) auto
qed

lemma entity_kind_value_plain: "SEP \<notin> set (entity_kind_value k)"
  by (cases k) (simp_all add: entity_kind_value_def SEP_def)

lemma entity_kind_value_inj: "entity_kind_value k = entity_kind_value k' \<Longrightarrow> k = k'"
  by (cases k; cases k') (simp_all add: entity_kind_value_def)

lemma mint_name_inj:
  assumes "mint_name e g = mint_name e' g'" and "SEP \<notin> set e" "SEP \<notin> set e'" and "0 \<le> g" "0 \<le> g'"
  shows "e = e' \<and> g = g'"
proof -
  have name: "mint_name x i = (if i = 0 then x else x @ SEP # ''reuse'' @ SEP # nat_text (nat i))" for x i
    by (simp add: mint_name_def)
  consider "g = 0" "g' = 0" | "g = 0" "g' \<noteq> 0" | "g \<noteq> 0" "g' = 0" | "g \<noteq> 0" "g' \<noteq> 0" by blast
  then show ?thesis
  proof cases
    case 4
    with assms have "e @ SEP # ''reuse'' @ SEP # nat_text (nat g) = e' @ SEP # ''reuse'' @ SEP # nat_text (nat g')" by (simp add: name)
    from split_at_SEP [OF assms(2,3) this] have "e = e'" "nat_text (nat g) = nat_text (nat g')"
      by (simp_all add: SEP_def)
    from this(1) nat_text_inj [OF this(2)] assms(4,5) show ?thesis by simp
  qed (use assms in \<open>auto simp: name\<close>)
qed

lemma full_name_inj:
  assumes "full_name sid sys kind e g = full_name sid sys kind' e' g'" and "SEP \<notin> set e" "SEP \<notin> set e'" and "0 \<le> g" "0 \<le> g'"
  shows "kind = kind' \<and> e = e' \<and> g = g'"
proof -
  from assms(1) have "entity_kind_value kind @ SEP # mint_name e g = entity_kind_value kind' @ SEP # mint_name e' g'"
    by (simp add: full_name_def)
  then have "entity_kind_value kind = entity_kind_value kind'" "mint_name e g = mint_name e' g'"
    using split_at_SEP entity_kind_value_plain by blast+
  then show ?thesis using entity_kind_value_inj mint_name_inj assms(2-) by blast
qed

subsection \<open>The maps after a row is recorded\<close>

text \<open>The dicts of an identity map as functions.\<close>

abbreviation live :: "identity_map \<Rightarrow> source_key \<Rightarrow> uuid option" where
  "live m \<equiv> map_of (im_by_external m)"

abbreviation held_by :: "identity_map \<Rightarrow> uuid \<Rightarrow> string option" where
  "held_by m \<equiv> map_of (im_external_of m)"

definition released :: "string \<Rightarrow> string \<Rightarrow> uuid \<Rightarrow> identity_map \<Rightarrow> source_key option" where
  "released k e u m = (case held_by m u of None \<Rightarrow> None | Some p \<Rightarrow> if p = e then None else Some (k, p))"

lemma record_row_maps:
  fixes k e u guid bk m
  defines "m' \<equiv> record_row k e u guid bk m"
  shows "held_by m' = (held_by m)(u \<mapsto> e)"
    and "live m' = (case released k e u m of None \<Rightarrow> live m | Some key \<Rightarrow> (live m)(key := None))((k, e) \<mapsto> u)"
    and "generation_of m' key = generation_of m key + (if released k e u m = Some key then 1 else 0)"
    and "map_of (im_by_guid m') = (if truthy (normalise_guid guid)
      then (map_of (im_by_guid m))((k, the (normalise_guid guid)) \<mapsto> u) else map_of (im_by_guid m))"
    and "map_of (im_by_business_key m') = (if truthy bk
      then (map_of (im_by_business_key m))((k, the bk) \<mapsto> u) else map_of (im_by_business_key m))"
    and "map_of (im_guid_of m') = (if truthy (normalise_guid guid)
      then (map_of (im_guid_of m))(u \<mapsto> the (normalise_guid guid)) else map_of (im_guid_of m))"
    and "im_schedule_id m' = im_schedule_id m" and "im_system m' = im_system m"
    and "im_ambiguous_guids m' = im_ambiguous_guids m"
proof -
  let ?m1 = "release_previous k e u m" and ?g = "normalise_guid guid"
  have released: "held_by ?m1 = held_by m" "map_of (im_by_guid ?m1) = map_of (im_by_guid m)"
    "map_of (im_by_business_key ?m1) = map_of (im_by_business_key m)" "im_guid_of ?m1 = im_guid_of m"
    "im_schedule_id ?m1 = im_schedule_id m" "im_system ?m1 = im_system m" "im_ambiguous_guids ?m1 = im_ambiguous_guids m"
    by (simp_all add: release_previous_def split: option.split)
  have live1: "live ?m1 = (case released k e u m of None \<Rightarrow> live m | Some key \<Rightarrow> (live m)(key := None))"
    by (simp add: release_previous_def released_def delete_conv' restrict_complement_singleton_eq split: option.split)
  have gen1: "generation_of ?m1 key = generation_of m key + (if released k e u m = Some key then 1 else 0)"
    by (simp add: release_previous_def released_def generation_of_def update_conv' split: option.split)
  have retired: "im_retired_external m' = im_retired_external ?m1" by (simp add: m'_def record_row_def Let_def)
  show "held_by m' = (held_by m)(u \<mapsto> e)" by (simp add: m'_def record_row_def Let_def update_conv' released)
  show "live m' = (case released k e u m of None \<Rightarrow> live m | Some key \<Rightarrow> (live m)(key := None))((k, e) \<mapsto> u)"
    by (simp add: m'_def record_row_def Let_def update_conv' live1)
  show "generation_of m' key = generation_of m key + (if released k e u m = Some key then 1 else 0)"
    using gen1 retired by (simp add: generation_of_def)
  show "map_of (im_by_guid m') = (if truthy ?g then (map_of (im_by_guid m))((k, the ?g) \<mapsto> u) else map_of (im_by_guid m))"
    by (simp add: m'_def record_row_def Let_def update_conv' released)
  show "map_of (im_by_business_key m') = (if truthy bk
      then (map_of (im_by_business_key m))((k, the bk) \<mapsto> u) else map_of (im_by_business_key m))"
    by (simp add: m'_def record_row_def Let_def update_conv' released)
  show "map_of (im_guid_of m') = (if truthy ?g then (map_of (im_guid_of m))(u \<mapsto> the ?g) else map_of (im_guid_of m))"
    by (simp add: m'_def record_row_def Let_def update_conv' released)
  show "im_schedule_id m' = im_schedule_id m" "im_system m' = im_system m" "im_ambiguous_guids m' = im_ambiguous_guids m"
    by (simp_all add: m'_def record_row_def Let_def released)
qed

end
