(* ===== verification/Identity_Stable.thy ===== *)
theory Identity_Stable
  imports Identity_Facts
begin

section \<open>Identity is stable\<close>

text \<open>
  The identity maps an import can reach, by rule induction over the operations of the map: live rows
  and identifiers are in one-to-one correspondence, an identifier reported as new was never given
  out, and a row keeps its identifier.
\<close>

text \<open>
  The maps reached from an empty one. \<open>N\<close> is the set of names minted on the way; an external
  identifier does not hold the separator, which is a control character chosen for that.
\<close>

inductive reachable_map :: "(string \<Rightarrow> uuid) \<Rightarrow> string set \<Rightarrow> string \<Rightarrow> source_system \<Rightarrow> identity_map \<Rightarrow> bool"
  for uuid5 N sid sys where
  opened: "reachable_map uuid5 N sid sys (new_identity_map sid sys)"
| resolved: "reachable_map uuid5 N sid sys m \<Longrightarrow> SEP \<notin> set e
    \<Longrightarrow> full_name sid sys kind e (generation_of m (entity_kind_value kind, e)) \<in> N
    \<Longrightarrow> reachable_map uuid5 N sid sys (snd (resolve_row uuid5 kind e guid bk m))"
| quarantined: "reachable_map uuid5 N sid sys m \<Longrightarrow> reachable_map uuid5 N sid sys (quarantine_guid kind guid m)"

subsection \<open>The invariant\<close>

text \<open>An identifier given out for a row of the kind: minted under a generation that is over, or under the live one.\<close>

definition owned :: "(string \<Rightarrow> uuid) \<Rightarrow> string set \<Rightarrow> identity_map \<Rightarrow> uuid \<Rightarrow> string \<Rightarrow> bool" where
  "owned uuid5 N m u k \<longleftrightarrow>
     (\<exists>kind e g. k = entity_kind_value kind \<and> SEP \<notin> set e \<and> 0 \<le> g
        \<and> full_name (im_schedule_id m) (im_system m) kind e g \<in> N
        \<and> u = uuid5 (full_name (im_schedule_id m) (im_system m) kind e g)
        \<and> (g < generation_of m (k, e) \<or> g = generation_of m (k, e) \<and> live m (k, e) \<noteq> None))"

definition identity_ok :: "(string \<Rightarrow> uuid) \<Rightarrow> string set \<Rightarrow> identity_map \<Rightarrow> bool" where
  "identity_ok uuid5 N m \<longleftrightarrow>
     (\<forall>k e u. live m (k, e) = Some u \<longrightarrow> held_by m u = Some e \<and> owned uuid5 N m u k)
     \<and> (\<forall>u e. held_by m u = Some e \<longrightarrow> (\<exists>k. live m (k, e) = Some u))
     \<and> (\<forall>k g u. map_of (im_by_guid m) (k, g) = Some u \<longrightarrow> held_by m u \<noteq> None \<and> owned uuid5 N m u k)
     \<and> (\<forall>k b u. map_of (im_by_business_key m) (k, b) = Some u \<longrightarrow> held_by m u \<noteq> None \<and> owned uuid5 N m u k)
     \<and> (\<forall>key. 0 \<le> generation_of m key)"

lemma identity_okD:
  assumes "identity_ok uuid5 N m"
  shows "live m (k, e) = Some u \<Longrightarrow> held_by m u = Some e"
    and "live m (k, e) = Some u \<Longrightarrow> owned uuid5 N m u k"
    and "held_by m u = Some e \<Longrightarrow> \<exists>k. live m (k, e) = Some u"
    and "map_of (im_by_guid m) (k, g) = Some u \<Longrightarrow> held_by m u \<noteq> None"
    and "map_of (im_by_guid m) (k, g) = Some u \<Longrightarrow> owned uuid5 N m u k"
    and "map_of (im_by_business_key m) (k, b) = Some u \<Longrightarrow> held_by m u \<noteq> None"
    and "map_of (im_by_business_key m) (k, b) = Some u \<Longrightarrow> owned uuid5 N m u k"
    and "0 \<le> generation_of m key"
  using assms unfolding identity_ok_def by blast+

lemma owned_kind:
  assumes inj: "inj_on uuid5 N" and a: "owned uuid5 N m u k" and b: "owned uuid5 N m u k'"
  shows "k = k'"
proof -
  obtain kind e g where 1: "k = entity_kind_value kind" "SEP \<notin> set e" "0 \<le> g"
    "full_name (im_schedule_id m) (im_system m) kind e g \<in> N" "u = uuid5 (full_name (im_schedule_id m) (im_system m) kind e g)"
    using a unfolding owned_def by blast
  obtain kind' e' g' where 2: "k' = entity_kind_value kind'" "SEP \<notin> set e'" "0 \<le> g'"
    "full_name (im_schedule_id m) (im_system m) kind' e' g' \<in> N" "u = uuid5 (full_name (im_schedule_id m) (im_system m) kind' e' g')"
    using b unfolding owned_def by blast
  have "full_name (im_schedule_id m) (im_system m) kind e g = full_name (im_schedule_id m) (im_system m) kind' e' g'"
    using inj_onD [OF inj _ 1(4) 2(4)] 1(5) 2(5) by simp
  from full_name_inj [OF this 1(2) 2(2) 1(3) 2(3)] show ?thesis by (simp add: 1(1) 2(1))
qed

text \<open>A name whose row is not live and whose generation is the next one was never minted.\<close>

lemma next_name_unowned:
  assumes inj: "inj_on uuid5 N" and e: "SEP \<notin> set e" and pos: "0 \<le> generation_of m (entity_kind_value kind, e)"
    and name: "full_name (im_schedule_id m) (im_system m) kind e (generation_of m (entity_kind_value kind, e)) \<in> N"
    and gone: "live m (entity_kind_value kind, e) = None"
  shows "\<not> owned uuid5 N m (uuid5 (full_name (im_schedule_id m) (im_system m) kind e (generation_of m (entity_kind_value kind, e)))) k"
proof
  assume "owned uuid5 N m (uuid5 (full_name (im_schedule_id m) (im_system m) kind e (generation_of m (entity_kind_value kind, e)))) k"
  then obtain kind' e' g' where 2: "k = entity_kind_value kind'" "SEP \<notin> set e'" "0 \<le> g'"
    "full_name (im_schedule_id m) (im_system m) kind' e' g' \<in> N"
    "uuid5 (full_name (im_schedule_id m) (im_system m) kind e (generation_of m (entity_kind_value kind, e)))
      = uuid5 (full_name (im_schedule_id m) (im_system m) kind' e' g')"
    and out: "g' < generation_of m (k, e') \<or> g' = generation_of m (k, e') \<and> live m (k, e') \<noteq> None"
    unfolding owned_def by blast
  from full_name_inj [OF inj_onD [OF inj 2(5) name 2(4)] e 2(2) pos 2(3)] gone out 2(1) show False by auto
qed

text \<open>Recording a row gives out nothing else and takes nothing back.\<close>

lemma owned_record_row:
  assumes "owned uuid5 N m u' k'"
  shows "owned uuid5 N (record_row k e u guid bk m) u' k'"
proof -
  let ?m' = "record_row k e u guid bk m"
  have gen: "generation_of ?m' key = generation_of m key + (if released k e u m = Some key then 1 else 0)" for key
    by (rule record_row_maps)
  have live': "live ?m' = (case released k e u m of None \<Rightarrow> live m | Some key \<Rightarrow> (live m)(key := None))((k, e) \<mapsto> u)"
    by (rule record_row_maps)
  have "live ?m' key \<noteq> None" if "live m key \<noteq> None" "released k e u m \<noteq> Some key" for key
    using that by (auto simp: live' split: option.splits)
  then have "g < generation_of ?m' key \<or> g = generation_of ?m' key \<and> live ?m' key \<noteq> None"
    if "g < generation_of m key \<or> g = generation_of m key \<and> live m key \<noteq> None" for g key
    using that by (cases key; cases "released k e u m = Some key") (auto simp: gen simp del: not_None_eq)
  then show ?thesis using assms unfolding owned_def record_row_maps(7,8) by metis
qed

lemma live_record_row:
  assumes inj: "inj_on uuid5 N" and ok: "identity_ok uuid5 N m"
    and was: "held_by m u = None \<or> owned uuid5 N m u k"
  shows "live (record_row k e u guid bk m) (k1, e1) = Some u1 \<longleftrightarrow>
      (if (k1, e1) = (k, e) then u1 = u else live m (k1, e1) = Some u1 \<and> u1 \<noteq> u)"
proof -
  let ?m' = "record_row k e u guid bk m"
  note maps = record_row_maps [of k e u guid bk m]
  have home: "live m (k, p) = Some u" if h: "held_by m u = Some p" for p
  proof -
    obtain k1 where k1: "live m (k1, p) = Some u" using identity_okD(3) [OF ok h] by blast
    have "k1 = k" using owned_kind [OF inj identity_okD(2) [OF ok k1]] was h by auto
    with k1 show ?thesis by simp
  qed
  have rel: "live m key = Some u \<and> key \<noteq> (k, e)" if "released k e u m = Some key" for key
    using that home by (auto simp: released_def split: option.splits if_splits)
  have old: "released k e u m = Some (k1, e1)" if "live m (k1, e1) = Some u" "(k1, e1) \<noteq> (k, e)" for k1 e1
  proof -
    have h: "held_by m u = Some e1" by (rule identity_okD(1) [OF ok that(1)])
    have "k1 = k" using owned_kind [OF inj identity_okD(2) [OF ok that(1)]] was h by auto
    with h that(2) show ?thesis by (simp add: released_def)
  qed
  show ?thesis
  proof (cases "(k1, e1) = (k, e)")
    case True
    then show ?thesis by (auto simp: maps(2))
  next
    case False
    show ?thesis
    proof (cases "released k e u m")
      case None
      with False old [of k1 e1] show ?thesis by (auto simp: maps(2))
    next
      case (Some key)
      with False old [of k1 e1] rel [OF Some] show ?thesis by (cases "key = (k1, e1)") (auto simp: maps(2))
    qed
  qed
qed

lemma identity_ok_record_row:
  assumes inj: "inj_on uuid5 N" and ok: "identity_ok uuid5 N m"
    and own: "owned uuid5 N (record_row k e u guid bk m) u k"
    and was: "held_by m u = None \<or> owned uuid5 N m u k"
    and free: "live m (k, e) = None \<or> live m (k, e) = Some u"
  shows "identity_ok uuid5 N (record_row k e u guid bk m)"
proof -
  let ?m' = "record_row k e u guid bk m"
  note maps = record_row_maps [of k e u guid bk m]
  note live_iff = live_record_row [OF inj ok was, of e guid bk]
  have held: "held_by ?m' v \<noteq> None" if "held_by m v \<noteq> None" for v using that by (simp add: maps(1))
  have "held_by ?m' u1 = Some e1 \<and> owned uuid5 N ?m' u1 k1" if "live ?m' (k1, e1) = Some u1" for k1 e1 u1
  proof (cases "(k1, e1) = (k, e)")
    case True
    with that own show ?thesis by (simp add: live_iff maps(1))
  next
    case False
    with that have "live m (k1, e1) = Some u1" "u1 \<noteq> u" by (simp_all add: live_iff del: prod.inject)
    with identity_okD(1,2) [OF ok this(1)] show ?thesis by (simp add: maps(1) owned_record_row)
  qed
  moreover have "\<exists>k1. live ?m' (k1, e1) = Some u1" if "held_by ?m' u1 = Some e1" for u1 e1
  proof (cases "u1 = u")
    case True
    have "live ?m' (k, e) = Some u" by (simp add: live_iff)
    with True that show ?thesis by (auto simp: maps(1))
  next
    case False
    with that obtain k1 where k1: "live m (k1, e1) = Some u1" using identity_okD(3) [OF ok] by (auto simp: maps(1))
    with free False have "(k1, e1) \<noteq> (k, e)" by auto
    with k1 False have "live ?m' (k1, e1) = Some u1" by (simp add: live_iff del: prod.inject)
    then show ?thesis by blast
  qed
  moreover have "held_by ?m' u1 \<noteq> None \<and> owned uuid5 N ?m' u1 k1" if "map_of (im_by_guid ?m') (k1, g1) = Some u1" for k1 g1 u1
  proof (cases "u1 = u \<and> k1 = k")
    case True
    with own show ?thesis by (simp add: maps(1))
  next
    case False
    with that have "map_of (im_by_guid m) (k1, g1) = Some u1" by (auto simp: maps(4) split: if_splits)
    with identity_okD(4,5) [OF ok this] held owned_record_row show ?thesis by blast
  qed
  moreover have "held_by ?m' u1 \<noteq> None \<and> owned uuid5 N ?m' u1 k1"
    if "map_of (im_by_business_key ?m') (k1, g1) = Some u1" for k1 g1 u1
  proof (cases "u1 = u \<and> k1 = k")
    case True
    with own show ?thesis by (simp add: maps(1))
  next
    case False
    with that have "map_of (im_by_business_key m) (k1, g1) = Some u1" by (auto simp: maps(5) split: if_splits)
    with identity_okD(6,7) [OF ok this] held owned_record_row show ?thesis by blast
  qed
  moreover have "0 \<le> generation_of ?m' key" for key using identity_okD(8) [OF ok, of key] by (simp add: maps(3))
  ultimately show ?thesis unfolding identity_ok_def by blast
qed

subsection \<open>Every operation keeps it\<close>

lemma identity_ok_new: "identity_ok uuid5 N (new_identity_map sid sys)"
  by (simp add: identity_ok_def new_identity_map_def generation_of_def)

lemma identity_ok_quarantine:
  assumes ok: "identity_ok uuid5 N m"
  shows "identity_ok uuid5 N (quarantine_guid kind guid m)"
proof (cases "normalise_guid guid")
  case None
  with ok show ?thesis by (simp add: quarantine_guid_def)
next
  case (Some g)
  let ?m' = "quarantine_guid kind guid m"
  have same: "live ?m' = live m" "held_by ?m' = held_by m" "generation_of ?m' = generation_of m"
    "im_by_business_key ?m' = im_by_business_key m" "im_schedule_id ?m' = im_schedule_id m" "im_system ?m' = im_system m"
    by (simp_all add: quarantine_guid_def Some Let_def generation_of_def fun_eq_iff)
  have own: "owned uuid5 N ?m' u k = owned uuid5 N m u k" for u k by (simp add: owned_def same)
  have "map_of (im_by_guid m) (k, h) = Some u" if "map_of (im_by_guid ?m') (k, h) = Some u" for k h u
    using that by (auto simp: quarantine_guid_def Some Let_def delete_conv' restrict_map_def split: if_splits)
  with ok show ?thesis unfolding identity_ok_def own same by blast
qed

text \<open>The identifier a row resolves to, and the map it leaves.\<close>

abbreviation row_uid :: "(string \<Rightarrow> uuid) \<Rightarrow> entity_kind \<Rightarrow> string \<Rightarrow> string option \<Rightarrow> string option \<Rightarrow> identity_map \<Rightarrow> uuid" where
  "row_uid uuid5 kind e guid bk m \<equiv> fst (fst (resolve_row uuid5 kind e guid bk m))"

lemma resolve_row_stages:
  obtains g where "snd (resolve_row uuid5 kind e guid bk m)
      = record_row (entity_kind_value kind) e (row_uid uuid5 kind e guid bk m) g bk m"
    and "rc_outcome (snd (fst (resolve_row uuid5 kind e guid bk m))) = NEW
      \<longleftrightarrow> known_row m (entity_kind_value kind) e g bk = None"
    and "known_row m (entity_kind_value kind) e g bk = None \<longrightarrow> row_uid uuid5 kind e guid bk m
      = uuid5 (full_name (im_schedule_id m) (im_system m) kind e (generation_of m (entity_kind_value kind, e)))"
    and "\<forall>r. known_row m (entity_kind_value kind) e g bk = Some r \<longrightarrow> row_uid uuid5 kind e guid bk m = fst r"
proof
  let ?g = "if guid_is_ambiguous m kind guid then None else normalise_guid guid"
  show "snd (resolve_row uuid5 kind e guid bk m)
      = record_row (entity_kind_value kind) e (row_uid uuid5 kind e guid bk m) ?g bk m"
    "rc_outcome (snd (fst (resolve_row uuid5 kind e guid bk m))) = NEW
      \<longleftrightarrow> known_row m (entity_kind_value kind) e ?g bk = None"
    "known_row m (entity_kind_value kind) e ?g bk = None \<longrightarrow> row_uid uuid5 kind e guid bk m
      = uuid5 (full_name (im_schedule_id m) (im_system m) kind e (generation_of m (entity_kind_value kind, e)))"
    "\<forall>r. known_row m (entity_kind_value kind) e ?g bk = Some r \<longrightarrow> row_uid uuid5 kind e guid bk m = fst r"
    by (auto simp: resolve_row_def Let_def mint_uid_name split: option.split prod.split)
qed

lemma known_row_from:
  assumes "known_row m k e g bk = Some r"
  obtains "live m (k, e) = Some (fst r)"
    | h where "live m (k, e) = None" "map_of (im_by_guid m) (k, h) = Some (fst r)"
    | b where "live m (k, e) = None" "map_of (im_by_business_key m) (k, b) = Some (fst r)"
proof (cases "live m (k, e)")
  case (Some u)
  with assms that(1) show ?thesis by (auto simp: known_row_def)
next
  case None
  show ?thesis
  proof (cases "if truthy g then map_of (im_by_guid m) (k, the g) else None")
    case (Some u)
    then have "map_of (im_by_guid m) (k, the g) = Some u" by (auto split: if_splits)
    moreover have "fst r = u" using assms None Some by (auto simp: known_row_def)
    ultimately show ?thesis using that(2) None by blast
  next
    case gone: None
    then have "map_of (im_by_business_key m) (k, the bk) = Some (fst r)"
      using assms None by (auto simp: known_row_def split: option.splits if_splits)
    with that(3) None show ?thesis by blast
  qed
qed

lemma known_row_owned:
  assumes ok: "identity_ok uuid5 N m" and known: "known_row m k e g bk = Some r"
  shows "owned uuid5 N m (fst r) k" "held_by m (fst r) \<noteq> None" "live m (k, e) = None \<or> live m (k, e) = Some (fst r)"
  using known identity_okD [OF ok] by (auto elim!: known_row_from)

lemma known_row_gone: "known_row m k e g bk = None \<Longrightarrow> live m (k, e) = None"
  by (auto simp: known_row_def split: option.splits)

lemma new_row_unheld:
  assumes inj: "inj_on uuid5 N" and ok: "identity_ok uuid5 N m" and sep: "SEP \<notin> set e"
    and name: "full_name (im_schedule_id m) (im_system m) kind e (generation_of m (entity_kind_value kind, e)) \<in> N"
    and gone: "live m (entity_kind_value kind, e) = None"
  shows "held_by m (uuid5 (full_name (im_schedule_id m) (im_system m) kind e (generation_of m (entity_kind_value kind, e)))) = None"
proof (rule ccontr)
  let ?u = "uuid5 (full_name (im_schedule_id m) (im_system m) kind e (generation_of m (entity_kind_value kind, e)))"
  assume "held_by m ?u \<noteq> None"
  then obtain p where "held_by m ?u = Some p" by blast
  then obtain k where "live m (k, p) = Some ?u" using identity_okD(3) [OF ok] by blast
  then have "owned uuid5 N m ?u k" by (rule identity_okD(2) [OF ok])
  with next_name_unowned [OF inj sep identity_okD(8) [OF ok] name gone] show False by blast
qed

lemma resolve_row_recorded:
  assumes inj: "inj_on uuid5 N" and ok: "identity_ok uuid5 N m" and sep: "SEP \<notin> set e"
    and name: "full_name (im_schedule_id m) (im_system m) kind e (generation_of m (entity_kind_value kind, e)) \<in> N"
  obtains g where "snd (resolve_row uuid5 kind e guid bk m)
      = record_row (entity_kind_value kind) e (row_uid uuid5 kind e guid bk m) g bk m"
    and "owned uuid5 N (record_row (entity_kind_value kind) e (row_uid uuid5 kind e guid bk m) g bk m)
      (row_uid uuid5 kind e guid bk m) (entity_kind_value kind)"
    and "held_by m (row_uid uuid5 kind e guid bk m) = None
      \<or> owned uuid5 N m (row_uid uuid5 kind e guid bk m) (entity_kind_value kind)"
    and "live m (entity_kind_value kind, e) = None
      \<or> live m (entity_kind_value kind, e) = Some (row_uid uuid5 kind e guid bk m)"
proof -
  let ?k = "entity_kind_value kind" and ?u = "row_uid uuid5 kind e guid bk m"
  obtain g where rec: "snd (resolve_row uuid5 kind e guid bk m) = record_row ?k e ?u g bk m"
    and none: "known_row m ?k e g bk = None \<longrightarrow>
      ?u = uuid5 (full_name (im_schedule_id m) (im_system m) kind e (generation_of m (?k, e)))"
    and some: "\<forall>r. known_row m ?k e g bk = Some r \<longrightarrow> ?u = fst r"
    by (rule resolve_row_stages)
  show ?thesis
  proof (cases "known_row m ?k e g bk")
    case None
    let ?m' = "record_row ?k e ?u g bk m"
    have gone: "live m (?k, e) = None" by (rule known_row_gone [OF None])
    have u: "?u = uuid5 (full_name (im_schedule_id m) (im_system m) kind e (generation_of m (?k, e)))" using none None by blast
    then have fresh: "held_by m ?u = None" using new_row_unheld [OF inj ok sep name gone] by (simp only:)
    then have "released ?k e ?u m = None" by (simp add: released_def)
    then have "generation_of ?m' (?k, e) = generation_of m (?k, e)" "live ?m' (?k, e) \<noteq> None"
      using record_row_maps(2,3) [of ?k e ?u g bk m] by simp_all
    then have "owned uuid5 N ?m' ?u ?k"
      unfolding owned_def using sep name u identity_okD(8) [OF ok, of "(?k, e)"] by (metis record_row_maps(7,8))
    with fresh gone show ?thesis by (intro that [OF rec]) simp_all
  next
    case (Some r)
    then have "?u = fst r" using some by blast
    with known_row_owned [OF ok Some] show ?thesis by (intro that [OF rec]) (auto intro: owned_record_row)
  qed
qed

lemma identity_ok_resolve:
  assumes inj: "inj_on uuid5 N" and ok: "identity_ok uuid5 N m" and sep: "SEP \<notin> set e"
    and name: "full_name (im_schedule_id m) (im_system m) kind e (generation_of m (entity_kind_value kind, e)) \<in> N"
  shows "identity_ok uuid5 N (snd (resolve_row uuid5 kind e guid bk m))"
proof (rule resolve_row_recorded [OF inj ok sep name, where guid = guid and bk = bk])
  fix g
  let ?u = "row_uid uuid5 kind e guid bk m" and ?k = "entity_kind_value kind"
  assume "snd (resolve_row uuid5 kind e guid bk m) = record_row ?k e ?u g bk m"
    and "owned uuid5 N (record_row ?k e ?u g bk m) ?u ?k"
    and "held_by m ?u = None \<or> owned uuid5 N m ?u ?k" and "live m (?k, e) = None \<or> live m (?k, e) = Some ?u"
  then show ?thesis by (simp only: identity_ok_record_row [OF inj ok])
qed

lemma matched_again:
  assumes "live m (entity_kind_value kind, e) = Some u"
  shows "row_uid uuid5 kind e guid bk m = u \<and> rc_outcome (snd (fst (resolve_row uuid5 kind e guid bk m))) = MATCHED"
  using assms by (simp add: resolve_row_def known_row_def Let_def)

lemma reachable_scope: "reachable_map uuid5 N sid sys m \<Longrightarrow> im_schedule_id m = sid \<and> im_system m = sys"
proof (induction rule: reachable_map.induct)
  case (resolved m e kind guid bk)
  obtain g where "snd (resolve_row uuid5 kind e guid bk m) = record_row (entity_kind_value kind) e (row_uid uuid5 kind e guid bk m) g bk m"
    by (rule resolve_row_stages)
  with resolved.IH show ?case by (simp add: record_row_maps)
qed (simp_all add: new_identity_map_def quarantine_guid_def Let_def split: option.split)

lemma reachable_ok:
  assumes "reachable_map uuid5 N sid sys m" and inj: "inj_on uuid5 N"
  shows "identity_ok uuid5 N m"
  using assms(1)
proof (induction rule: reachable_map.induct)
  case (resolved m e kind guid bk)
  then show ?case using reachable_scope [OF resolved.hyps(1)] by (intro identity_ok_resolve [OF inj]) auto
qed (simp_all add: identity_ok_new identity_ok_quarantine)

subsection \<open>A concrete history\<close>

text \<open>A digest that tells the names below apart (their length), and an activity that is renumbered and recognised by its GUID.\<close>

definition sample_uuid5 :: "string \<Rightarrow> uuid" where
  "sample_uuid5 s = length s"

definition sample_first :: identity_map where
  "sample_first = snd (resolve_row sample_uuid5 K_ACTIVITY ''7'' (Some ''g1'') (Some ''wo'') (new_identity_map ''S'' STO_SYSTEM))"

definition sample_rekeyed :: identity_map where
  "sample_rekeyed = snd (resolve_row sample_uuid5 K_ACTIVITY ''12'' (Some ''g1'') None sample_first)"

definition sample_names :: "string list" where
  "sample_names = map (\<lambda>(e, g). full_name ''S'' STO_SYSTEM K_ACTIVITY e g) [(''7'', 0), (''12'', 0), (''7'', 1)]"

lemma sample_inj: "inj_on sample_uuid5 (set sample_names)"
proof -
  have "distinct (map sample_uuid5 sample_names)" by code_simp
  then show ?thesis by (simp add: distinct_map)
qed

lemma sample_reachable: "reachable_map sample_uuid5 (set sample_names) ''S'' STO_SYSTEM sample_rekeyed"
proof -
  have "full_name ''S'' STO_SYSTEM K_ACTIVITY ''7'' (generation_of (new_identity_map ''S'' STO_SYSTEM) (entity_kind_value K_ACTIVITY, ''7'')) \<in> set sample_names"
    "full_name ''S'' STO_SYSTEM K_ACTIVITY ''12'' (generation_of sample_first (entity_kind_value K_ACTIVITY, ''12'')) \<in> set sample_names"
    "SEP \<notin> set ''7''" "SEP \<notin> set ''12''"
    by code_simp+
  then show ?thesis unfolding sample_rekeyed_def sample_first_def
    by (intro reachable_map.resolved reachable_map.opened)
qed

subsection \<open>What a row resolves to\<close>

text \<open>
  (C35) In every reachable map, if the digest does not collide on the minted names, live source rows
  and identifiers are in one-to-one correspondence: an identifier has at most one live row, which is
  of one kind, and \<open>external_of\<close> is the inverse of \<open>by_external\<close>. Rekeyed rows, released external
  identifiers and quarantined GUIDs included.
\<close>

theorem identity_one_to_one:
  assumes "reachable_map uuid5 N sid sys m" and "inj_on uuid5 N"
    and "map_of (im_by_external m) (k, e) = Some u"
  shows "map_of (im_external_of m) u = Some e
    \<and> (map_of (im_by_external m) (k', e') = Some u) = ((k', e') = (k, e))"
proof -
  have ok: "identity_ok uuid5 N m" by (rule reachable_ok [OF assms(1,2)])
  have held: "held_by m u = Some e" by (rule identity_okD(1) [OF ok assms(3)])
  moreover have "(k', e') = (k, e)" if other: "live m (k', e') = Some u"
    using identity_okD(1) [OF ok other] held
      owned_kind [OF assms(2) identity_okD(2) [OF ok other] identity_okD(2) [OF ok assms(3)]] by simp
  ultimately show ?thesis using assms(3) by blast
qed

text \<open>
  (C36) An identifier a reachable map reports as new is held by no row of the map, live or renamed,
  and no GUID or business key leads to it: a released external identifier that the source uses again
  gets a generation of its own and never the identifier of the row that gave it up.
\<close>

theorem identity_new_fresh:
  assumes "reachable_map uuid5 N sid sys m" and "inj_on uuid5 N" and "SEP \<notin> set e"
    and "full_name sid sys kind e (generation_of m (entity_kind_value kind, e)) \<in> N"
    and "rc_outcome (snd (fst (resolve_row uuid5 kind e guid bk m))) = NEW"
  shows "map_of (im_external_of m) (fst (fst (resolve_row uuid5 kind e guid bk m))) = None
    \<and> fst (fst (resolve_row uuid5 kind e guid bk m))
      \<notin> ran (map_of (im_by_external m)) \<union> ran (map_of (im_by_guid m)) \<union> ran (map_of (im_by_business_key m))"
proof -
  let ?u = "row_uid uuid5 kind e guid bk m"
  have ok: "identity_ok uuid5 N m" by (rule reachable_ok [OF assms(1,2)])
  have scope: "im_schedule_id m = sid" "im_system m = sys" using reachable_scope [OF assms(1)] by auto
  obtain g where "known_row m (entity_kind_value kind) e g bk = None"
    and u: "?u = uuid5 (full_name sid sys kind e (generation_of m (entity_kind_value kind, e)))"
    using assms(5) scope by (metis resolve_row_stages)
  then have "live m (entity_kind_value kind, e) = None" using known_row_gone by blast
  then have "held_by m ?u = None"
    using new_row_unheld [OF assms(2) ok assms(3), of kind] assms(4) unfolding scope u by blast
  moreover have "v \<in> ran (live m) \<union> ran (map_of (im_by_guid m)) \<union> ran (map_of (im_by_business_key m)) \<Longrightarrow> held_by m v \<noteq> None" for v
    using identity_okD(1,4,6) [OF ok] by (fastforce simp: ran_def simp del: not_None_eq)
  ultimately show ?thesis by blast
qed

text \<open>
  (C37) Resolving a row of a reachable map changes the live rows exactly by giving the row its
  identifier and taking away the name the identifier had before; every other row keeps its own. The
  row resolves to the same identifier the next time, whatever GUID or business key it then carries.
\<close>

theorem identity_resolve_stable:
  assumes "reachable_map uuid5 N sid sys m" and "inj_on uuid5 N" and "SEP \<notin> set e"
    and "full_name sid sys kind e (generation_of m (entity_kind_value kind, e)) \<in> N"
    and "resolve_row uuid5 kind e guid bk m = ((u, entry), m')"
  shows "(map_of (im_by_external m') (k2, e2) = Some u2)
      = (if (k2, e2) = (entity_kind_value kind, e) then u2 = u
         else map_of (im_by_external m) (k2, e2) = Some u2 \<and> u2 \<noteq> u)
    \<and> fst (fst (resolve_row uuid5 kind e guid' bk' m')) = u
    \<and> rc_outcome (snd (fst (resolve_row uuid5 kind e guid' bk' m'))) = MATCHED"
proof -
  have ok: "identity_ok uuid5 N m" by (rule reachable_ok [OF assms(1,2)])
  have scope: "im_schedule_id m = sid" "im_system m = sys" using reachable_scope [OF assms(1)] by auto
  have u: "row_uid uuid5 kind e guid bk m = u" and m': "snd (resolve_row uuid5 kind e guid bk m) = m'"
    by (simp_all add: assms(5))
  have name: "full_name (im_schedule_id m) (im_system m) kind e (generation_of m (entity_kind_value kind, e)) \<in> N"
    using assms(4) scope by simp
  obtain g where rec: "m' = record_row (entity_kind_value kind) e u g bk m"
    and was: "held_by m u = None \<or> owned uuid5 N m u (entity_kind_value kind)"
    by (rule resolve_row_recorded [OF assms(2) ok assms(3) name, where guid = guid and bk = bk]) (simp add: u m')
  note live_iff = live_record_row [OF assms(2) ok was, of e g bk, folded rec]
  have "live m' (entity_kind_value kind, e) = Some u" by (simp add: live_iff)
  with live_iff matched_again show ?thesis by blast
qed

theorem identity_one_to_one_witness:
  "map_of (im_external_of sample_rekeyed) (sample_uuid5 (full_name ''S'' STO_SYSTEM K_ACTIVITY ''7'' 0)) = Some ''12''
    \<and> map_of (im_by_external sample_rekeyed) (''activity'', ''7'') \<noteq> Some (sample_uuid5 (full_name ''S'' STO_SYSTEM K_ACTIVITY ''7'' 0))"
proof -
  have "map_of (im_by_external sample_rekeyed) (''activity'', ''12'') = Some (sample_uuid5 (full_name ''S'' STO_SYSTEM K_ACTIVITY ''7'' 0))"
    by code_simp
  from identity_one_to_one [OF sample_reachable sample_inj this, of "''activity''" "''7''"] show ?thesis by simp
qed

theorem identity_new_fresh_witness:
  "map_of (im_external_of sample_rekeyed) (fst (fst (resolve_row sample_uuid5 K_ACTIVITY ''7'' None None sample_rekeyed))) = None"
proof -
  have "full_name ''S'' STO_SYSTEM K_ACTIVITY ''7'' (generation_of sample_rekeyed (entity_kind_value K_ACTIVITY, ''7'')) \<in> set sample_names"
    "rc_outcome (snd (fst (resolve_row sample_uuid5 K_ACTIVITY ''7'' None None sample_rekeyed))) = NEW"
    "SEP \<notin> set ''7''"
    by code_simp+
  from identity_new_fresh [OF sample_reachable sample_inj this(3,1,2)] show ?thesis by blast
qed

theorem identity_resolve_stable_witness:
  "fst (fst (resolve_row sample_uuid5 K_ACTIVITY ''7'' (Some ''g1'') (Some ''other'')
      (snd (resolve_row sample_uuid5 K_ACTIVITY ''7'' None None sample_rekeyed))))
    = fst (fst (resolve_row sample_uuid5 K_ACTIVITY ''7'' None None sample_rekeyed))"
proof -
  have "full_name ''S'' STO_SYSTEM K_ACTIVITY ''7'' (generation_of sample_rekeyed (entity_kind_value K_ACTIVITY, ''7'')) \<in> set sample_names"
    "SEP \<notin> set ''7''"
    by code_simp+
  from identity_resolve_stable [OF sample_reachable sample_inj this(2,1), of None None] show ?thesis
    by (metis prod.collapse)
qed

end
