(* ===== verification/Identity_Persist.thy ===== *)
theory Identity_Persist
  imports Identity_Stable "HOL-Library.Multiset"
begin

section \<open>Identity maps written and read back\<close>

text \<open>
  \<open>clone\<close> writes a map and reads it back. For every map an import can reach the dicts come back
  as they were; only the record of current GUIDs may gain entries.
\<close>

subsection \<open>Dicts\<close>

lemma fold_update_fresh:
  "distinct (map fst (acc @ xs)) \<Longrightarrow> fold (\<lambda>(k, v). AList.update k v) xs acc = acc @ xs"
proof (induction xs arbitrary: acc)
  case (Cons x xs)
  obtain k v where x: "x = (k, v)" by force
  have "k \<notin> fst ` set acc" using Cons.prems by (auto simp: x)
  then have "AList.update k v acc = acc @ [(k, v)]"
    by (induction acc) auto
  with Cons show ?case by (simp add: x)
qed simp

lemma dict_of_id [simp]: "distinct (map fst xs) \<Longrightarrow> dict_of xs = xs"
  using fold_update_fresh [of "[]" xs] by (simp add: dict_of_def)

lemma map_of_sort_key [simp]:
  assumes "distinct (map fst xs)"
  shows "map_of (sort_key f xs) = map_of xs"
proof -
  have "mset (map fst (sort_key f xs)) = mset (map fst xs)" by simp
  then have "distinct (map fst (sort_key f xs))" using assms mset_eq_imp_distinct_iff by blast
  with assms show ?thesis by (simp add: map_of_inject_set)
qed

lemma distinct_sort_key [simp]: "distinct (map fst (sort_key f xs)) = distinct (map fst xs)"
proof -
  have "mset (map fst (sort_key f xs)) = mset (map fst xs)" by simp
  then show ?thesis using mset_eq_imp_distinct_iff by blast
qed

lemma rmap_all: "(\<And>x. x \<in> set xs \<Longrightarrow> f (g x) = Inr (h x)) \<Longrightarrow> rmap f (map g xs) = Inr (map h xs)"
  by (induction xs) auto

subsection \<open>Keys\<close>

lemma split_join_key: "SEP \<notin> set (fst k) \<Longrightarrow> split_key (join_key k) = k"
proof -
  assume "SEP \<notin> set (fst k)"
  then have "takeWhile (\<lambda>c. c \<noteq> SEP) (fst k @ SEP # snd k) = fst k" "dropWhile (\<lambda>c. c \<noteq> SEP) (fst k @ SEP # snd k) = SEP # snd k"
    by (subst takeWhile_append2 dropWhile_append2; auto)+
  then show ?thesis by (simp add: split_key_def join_key_def)
qed

definition plain_keys :: "source_key set \<Rightarrow> bool" where
  "plain_keys K \<longleftrightarrow> (\<forall>k \<in> K. SEP \<notin> set (fst k))"

lemma plain_keysD: "plain_keys K \<Longrightarrow> k \<in> K \<Longrightarrow> split_key (join_key k) = k"
  by (simp add: plain_keys_def split_join_key)

lemma distinct_joined:
  assumes "distinct (map fst xs)" and "plain_keys (fst ` set xs)"
  shows "distinct (map fst (map (\<lambda>(k, v). (join_key k, f v)) xs))"
proof -
  have "inj_on join_key (fst ` set xs)"
    using plain_keysD [OF assms(2)] by (intro inj_on_inverseI [where g = split_key]) auto
  then have "distinct (map join_key (map fst xs))" using assms(1) by (simp only: distinct_map set_map)
  moreover have "map fst (map (\<lambda>(k, v). (join_key k, f v)) xs) = map join_key (map fst xs)" by (induction xs) auto
  ultimately show ?thesis by (simp only:)
qed

abbreviation joined_uids :: "(source_key \<times> uuid) list \<Rightarrow> (string \<times> string) list" where
  "joined_uids xs \<equiv> dict_of (map (\<lambda>(k, u). (join_key k, uuid_text u)) (sort_key fst xs))"

lemma split_joined:
  assumes "distinct (map fst xs)" and "plain_keys (fst ` set xs)" and "\<And>u. u \<in> snd ` set xs \<Longrightarrow> u < 2 ^ 128"
  shows "split_uids (joined_uids xs) = Inr (sort_key fst xs)"
proof -
  let ?ys = "sort_key fst xs"
  have "dict_of (map (\<lambda>(k, u). (join_key k, uuid_text u)) ?ys) = map (\<lambda>(k, u). (join_key k, uuid_text u)) ?ys"
    using distinct_joined [of ?ys uuid_text] assms(1,2) by (simp only: dict_of_id distinct_sort_key set_sort)
  moreover have "rmap (\<lambda>(k, v). rbind (parse_uuid v) (\<lambda>u. Inr (split_key k, u))) (map (\<lambda>(k, u). (join_key k, uuid_text u)) ?ys)
      = Inr (map (\<lambda>x. x) ?ys)"
  proof (rule rmap_all)
    fix x assume "x \<in> set ?ys"
    then have "fst x \<in> fst ` set xs" "snd x \<in> snd ` set xs" by simp_all
    with plain_keysD [OF assms(2)] assms(3) parse_uuid_text
    show "(\<lambda>(k, v). rbind (parse_uuid v) (\<lambda>u. Inr (split_key k, u))) ((\<lambda>(k, u). (join_key k, uuid_text u)) x) = Inr x"
      by (cases x) simp
  qed
  ultimately show ?thesis using assms(1) by (simp add: split_uids_def)
qed

lemma split_joined_generations:
  assumes "distinct (map fst xs)" and "plain_keys (fst ` set xs)" and "\<And>g. g \<in> snd ` set xs \<Longrightarrow> 1 \<le> g"
  shows "split_generations (dict_of (map (\<lambda>(k, g). (join_key k, g)) (sort_key fst xs))) = Inr (sort_key fst xs)"
proof -
  let ?ys = "sort_key fst xs"
  have "dict_of (map (\<lambda>(k, g). (join_key k, g)) ?ys) = map (\<lambda>(k, g). (join_key k, g)) ?ys"
    using distinct_joined [of ?ys "\<lambda>x. x"] assms(1,2) by (simp only: dict_of_id distinct_sort_key set_sort)
  moreover have "rmap (\<lambda>(k, g). raise_if (g < 1) ValueError (Inr (split_key k, g))) (map (\<lambda>(k, g). (join_key k, g)) ?ys)
      = Inr (map (\<lambda>x. x) ?ys)"
  proof (rule rmap_all)
    fix x assume "x \<in> set ?ys"
    then have "fst x \<in> fst ` set xs" "snd x \<in> snd ` set xs" by simp_all
    with plain_keysD [OF assms(2)] assms(3)
    show "(\<lambda>(k, g). raise_if (g < 1) ValueError (Inr (split_key k, g))) ((\<lambda>(k, g). (join_key k, g)) x) = Inr x"
      by (cases x) (force simp: raise_if_def)
  qed
  ultimately show ?thesis using assms(1) by (simp add: split_generations_def)
qed

subsection \<open>Current GUIDs\<close>

text \<open>The GUIDs on record for an identifier, and the one a map read back takes as current.\<close>

definition guids_on_record :: "(source_key \<times> uuid) list \<Rightarrow> uuid \<Rightarrow> string list" where
  "guids_on_record by_guid u = dict_keys (map (\<lambda>x. snd (fst x)) (filter (\<lambda>x. snd x = u) by_guid))"

definition current_guid :: "(source_key \<times> uuid) list \<Rightarrow> (uuid \<times> string) list \<Rightarrow> uuid \<Rightarrow> string option" where
  "current_guid by_guid held u =
     (case map_of held u of
        Some g \<Rightarrow> Some g
      | None \<Rightarrow> (case guids_on_record by_guid u of [g] \<Rightarrow> Some g | _ \<Rightarrow> None))"

lemma restore_fold:
  "map_of (fold (\<lambda>u held.
         (case guids_on_record by_guid u of
            [g] \<Rightarrow> (if map_of held u = None then held @ [(u, g)] else held)
          | _ \<Rightarrow> held)) us held) v
   = (if v \<in> set us then current_guid by_guid held v else map_of held v)"
proof (induction us arbitrary: held)
  case (Cons u us)
  let ?h = "case guids_on_record by_guid u of [g] \<Rightarrow> (if map_of held u = None then held @ [(u, g)] else held) | _ \<Rightarrow> held"
  have step: "map_of ?h w = (if w = u then current_guid by_guid held w else map_of held w)" for w
  proof -
    consider g where "guids_on_record by_guid u = [g]" | "guids_on_record by_guid u = []"
      | a b r where "guids_on_record by_guid u = a # b # r" by (metis list.exhaust)
    then show ?thesis
      by cases (auto simp: current_guid_def map_add_def split: option.splits)
  qed
  then have other: "current_guid by_guid ?h w = current_guid by_guid held w" if "w \<noteq> u" for w
    using that by (simp add: current_guid_def)
  have "current_guid by_guid ?h u = current_guid by_guid held u"
  proof (cases "current_guid by_guid held u")
    case None
    with step [of u] show ?thesis
      by (auto simp: current_guid_def split: option.splits list.splits)
  next
    case (Some g)
    with step [of u] show ?thesis by (simp add: current_guid_def [of _ ?h])
  qed
  with other have "current_guid by_guid ?h w = current_guid by_guid held w" for w by (cases "w = u") simp_all
  then show ?case using step [of v] Cons.IH [of ?h] by (auto simp only: fold_simps comp_def set_simps insert_iff split: if_split)
qed simp

lemma map_of_restore_guids: "map_of (restore_guids by_guid held) u = current_guid by_guid held u"
proof -
  have "guids_on_record by_guid u = []" if "u \<notin> set (dict_keys (map snd by_guid))"
    using that by (auto simp: guids_on_record_def dict_keys_def filter_empty_conv)
  then show ?thesis
    using restore_fold [of by_guid "dict_keys (map snd by_guid)" held u]
    by (auto simp: restore_guids_def guids_on_record_def current_guid_def split: option.split)
qed

text \<open>Only the GUIDs themselves matter, not their order.\<close>

lemma dict_keys_single: "dict_keys xs = [g] \<longleftrightarrow> set xs = {g}"
proof
  assume "set xs = {g}"
  then have keys: "set (dict_keys xs) = {g}" "distinct (dict_keys xs)" by simp_all
  then obtain r where r: "dict_keys xs = g # r" by (cases "dict_keys xs") auto
  with keys have "set r \<subseteq> {g}" "g \<notin> set r" by auto
  then have "r = []" by (cases r) auto
  with r show "dict_keys xs = [g]" by simp
qed (metis empty_set list.simps(15) set_dict_keys)

lemma option_eqI: "(\<And>g. x = Some g \<longleftrightarrow> y = Some g) \<Longrightarrow> x = y"
  by (metis not_Some_eq)

lemma current_guid_order:
  assumes "set xs = set ys" and "map_of held = map_of held'"
  shows "current_guid xs held u = current_guid ys held' u"
proof -
  let ?single = "\<lambda>zs. case zs of [g] \<Rightarrow> Some g | _ \<Rightarrow> None"
  have single: "?single zs = Some g \<longleftrightarrow> zs = [g]" for zs and g :: string by (auto split: list.split)
  have "guids_on_record xs u = [g] \<longleftrightarrow> guids_on_record ys u = [g]" for g
    by (simp add: guids_on_record_def dict_keys_single assms(1))
  then have "?single (guids_on_record xs u) = Some g \<longleftrightarrow> ?single (guids_on_record ys u) = Some g" for g by (simp only: single)
  then have "?single (guids_on_record xs u) = ?single (guids_on_record ys u)" by (rule option_eqI)
  then show ?thesis by (simp only: current_guid_def assms(2))
qed

subsection \<open>What every reachable map satisfies\<close>

definition dict_ok :: "('k \<Rightarrow> 'v \<Rightarrow> bool) \<Rightarrow> ('k \<times> 'v) list \<Rightarrow> bool" where
  "dict_ok P xs \<longleftrightarrow> distinct (map fst xs) \<and> (\<forall>(k, v) \<in> set xs. P k v)"

lemma dict_ok_Nil [simp]: "dict_ok P []"
  by (simp add: dict_ok_def)

lemma dict_ok_update [simp]: "dict_ok P xs \<Longrightarrow> P k v \<Longrightarrow> dict_ok P (AList.update k v xs)"
proof -
  have "set (AList.update k v xs) \<subseteq> insert (k, v) (set xs)" by (induction xs) auto
  then show "dict_ok P xs \<Longrightarrow> P k v \<Longrightarrow> dict_ok P (AList.update k v xs)"
    by (fastforce simp: dict_ok_def distinct_update)
qed

lemma dict_ok_filter [simp]: "dict_ok P xs \<Longrightarrow> dict_ok P (filter Q xs)"
  by (auto simp: dict_ok_def distinct_map_filter)

lemma dict_ok_delete [simp]: "dict_ok P xs \<Longrightarrow> dict_ok P (AList.delete k xs)"
  by (simp add: AList.delete_eq)

lemma dict_ok_lookup: "dict_ok P xs \<Longrightarrow> map_of xs k = Some v \<Longrightarrow> P k v"
  by (auto simp: dict_ok_def dest: map_of_SomeD)

abbreviation settled_guid :: "string \<Rightarrow> bool" where
  "settled_guid g \<equiv> guid_or_text g = g"

lemma settled: "normalise_guid guid = Some g \<Longrightarrow> settled_guid g"
proof -
  assume "normalise_guid guid = Some g"
  then have "normalise_guid (Some g) = Some g" using normalise_guid_idem [of guid] by simp
  then show "settled_guid g" by (simp add: guid_or_text_def)
qed

definition stored_ok :: "identity_map \<Rightarrow> bool" where
  "stored_ok m \<longleftrightarrow>
     dict_ok (\<lambda>k u. SEP \<notin> set (fst k) \<and> u < 2 ^ 128) (im_by_external m)
     \<and> dict_ok (\<lambda>k u. SEP \<notin> set (fst k) \<and> u < 2 ^ 128 \<and> settled_guid (snd k)) (im_by_guid m)
     \<and> dict_ok (\<lambda>k u. SEP \<notin> set (fst k) \<and> u < 2 ^ 128) (im_by_business_key m)
     \<and> dict_ok (\<lambda>k g. SEP \<notin> set (fst k) \<and> 1 \<le> g) (im_retired_external m)
     \<and> dict_ok (\<lambda>u g. u < 2 ^ 128 \<and> settled_guid g) (im_guid_of m)
     \<and> distinct (im_ambiguous_guids m)
     \<and> (\<forall>k \<in> set (im_ambiguous_guids m). SEP \<notin> set (fst k) \<and> settled_guid (snd k))"

lemma stored_ok_record_row:
  assumes ok: "stored_ok m" and "SEP \<notin> set k" "u < 2 ^ 128"
  shows "stored_ok (record_row k e u guid bk m)"
proof -
  have one: "1 \<le> (case map_of (im_retired_external m) key of None \<Rightarrow> 0 | Some g \<Rightarrow> g) + 1" for key
    using ok by (auto simp: stored_ok_def dest!: dict_ok_lookup split: option.split)
  have "stored_ok (release_previous k e u m)"
    using ok assms(2) one by (simp add: release_previous_def stored_ok_def split: option.split)
  moreover have "truthy (normalise_guid guid) \<Longrightarrow> settled_guid (the (normalise_guid guid))"
    by (auto simp: truthy_def intro: settled)
  ultimately show ?thesis using assms(2,3) by (simp add: record_row_def stored_ok_def Let_def)
qed

lemma known_row_stored: "stored_ok m \<Longrightarrow> known_row m k e g bk = Some r \<Longrightarrow> fst r < 2 ^ 128"
  by (auto simp: stored_ok_def elim!: known_row_from dest: dict_ok_lookup)

lemma reachable_stored:
  assumes "reachable_map uuid5 N sid sys m" and below: "uuid5 ` N \<subseteq> {..<2 ^ 128}"
  shows "stored_ok m"
  using assms(1)
proof (induction rule: reachable_map.induct)
  case opened
  show ?case by (simp add: stored_ok_def new_identity_map_def)
next
  case (resolved m e kind guid bk)
  let ?k = "entity_kind_value kind" and ?u = "row_uid uuid5 kind e guid bk m"
  obtain g where rec: "snd (resolve_row uuid5 kind e guid bk m) = record_row ?k e ?u g bk m"
    and none: "known_row m ?k e g bk = None \<longrightarrow>
      ?u = uuid5 (full_name (im_schedule_id m) (im_system m) kind e (generation_of m (?k, e)))"
    and some: "\<forall>r. known_row m ?k e g bk = Some r \<longrightarrow> ?u = fst r"
    by (rule resolve_row_stages)
  have "?u < 2 ^ 128"
  proof (cases "known_row m ?k e g bk")
    case None
    then have "?u = uuid5 (full_name sid sys kind e (generation_of m (?k, e)))"
      using none reachable_scope [OF resolved.hyps(1)] by simp
    with below resolved.hyps(3) show ?thesis by (simp add: image_subset_iff)
  next
    case (Some r)
    with some known_row_stored [OF resolved.IH Some] show ?thesis by simp
  qed
  then show ?case unfolding rec by (intro stored_ok_record_row resolved.IH entity_kind_value_plain)
next
  case (quarantined m kind guid)
  then show ?case
    by (auto simp: quarantine_guid_def stored_ok_def Let_def settled entity_kind_value_plain split: option.split)
qed

subsection \<open>The round trip\<close>

lemma live_distinct:
  assumes inj: "inj_on uuid5 N" and ok: "identity_ok uuid5 N m" and keys: "distinct (map fst (im_by_external m))"
  shows "distinct (map snd (im_by_external m))"
proof -
  have "inj_on snd (set (im_by_external m))"
  proof (rule inj_onI)
    fix x y assume x: "x \<in> set (im_by_external m)" and y: "y \<in> set (im_by_external m)" and eq: "snd x = snd y"
    obtain k e u where 1: "x = ((k, e), u)" by (metis prod.collapse)
    obtain k' e' where 2: "y = ((k', e'), u)" using eq by (metis 1 prod.collapse snd_conv)
    have live: "live m (k, e) = Some u" "live m (k', e') = Some u" using x y keys by (simp_all add: 1 2)
    have "e = e'" using identity_okD(1) [OF ok live(1)] identity_okD(1) [OF ok live(2)] by simp
    moreover have "k = k'" by (rule owned_kind [OF inj identity_okD(2) [OF ok live(1)] identity_okD(2) [OF ok live(2)]])
    ultimately show "x = y" by (simp add: 1 2)
  qed
  moreover have "distinct (im_by_external m)" using keys by (simp add: distinct_map)
  ultimately show ?thesis by (simp add: distinct_map)
qed

lemma external_of_inverse:
  assumes inj: "inj_on uuid5 N" and ok: "identity_ok uuid5 N m" and keys: "distinct (map fst (im_by_external m))"
  shows "map_of (dict_of (map (\<lambda>((k, e), u). (u, e)) (sort_key fst (im_by_external m)))) = held_by m"
proof -
  let ?ys = "map (\<lambda>((k, e), u). (u, e)) (sort_key fst (im_by_external m))"
  have "map fst ?ys = map snd (sort_key fst (im_by_external m))" by auto
  moreover have "mset (map snd (sort_key fst (im_by_external m))) = mset (map snd (im_by_external m))" by simp
  ultimately have d: "distinct (map fst ?ys)" using live_distinct [OF assms] mset_eq_imp_distinct_iff by metis
  have "map_of ?ys u = Some e \<longleftrightarrow> held_by m u = Some e" for u e
  proof -
    have "map_of ?ys u = Some e \<longleftrightarrow> (u, e) \<in> set ?ys" using d by (rule map_of_eq_Some_iff)
    also have "\<dots> \<longleftrightarrow> (\<exists>k. ((k, e), u) \<in> set (im_by_external m))" by force
    also have "\<dots> \<longleftrightarrow> (\<exists>k. live m (k, e) = Some u)" using keys by (simp add: map_of_eq_Some_iff)
    also have "\<dots> \<longleftrightarrow> held_by m u = Some e" using identity_okD(1,3) [OF ok] by blast
    finally show ?thesis .
  qed
  then have "map_of ?ys u = held_by m u" for u by (intro option_eqI)
  with d show ?thesis by (simp add: fun_eq_iff)
qed

lemma dict_okD:
  assumes "dict_ok P xs"
  shows "distinct (map fst xs)" and "(k, v) \<in> set xs \<Longrightarrow> P k v"
  using assms by (auto simp: dict_ok_def)

lemma settled_map:
  assumes "dict_ok P xs" and "\<And>k u. P k u \<Longrightarrow> settled_guid (snd k)"
  shows "dict_of (map (\<lambda>((k, g), u). ((k, guid_or_text g), u)) (sort_key fst xs)) = sort_key fst xs"
proof -
  have "map (\<lambda>((k, g), u). ((k, guid_or_text g), u)) (sort_key fst xs) = sort_key fst xs"
    using dict_okD(2) [OF assms(1)] assms(2) by (intro map_idI) force
  then show ?thesis using dict_okD(1) [OF assms(1)] by (simp only: dict_of_id distinct_sort_key)
qed

lemma source_system_read [simp]: "map_of source_system_values (source_system_value s) = Some s"
  by (cases s) (simp_all add: source_system_values_def source_system_value_def)

lemma held_read:
  assumes ok: "dict_ok (\<lambda>u g. u < 2 ^ 128 \<and> settled_guid g) xs"
  shows "rmap (\<lambda>(u, g). rbind (parse_uuid u) (\<lambda>v. Inr (v, guid_or_text g)))
      (dict_of (map (\<lambda>(u, g). (uuid_text u, g)) (sort_key fst xs))) = Inr (sort_key fst xs)"
proof -
  let ?ys = "sort_key fst xs"
  have P: "fst x < 2 ^ 128 \<and> settled_guid (snd x)" if "x \<in> set ?ys" for x using dict_okD(2) [OF ok] that by (cases x) simp
  have "inj_on uuid_text (fst ` set ?ys)" using P uuid_text_inj by (auto intro!: inj_onI)
  moreover have "distinct (map fst ?ys)" using dict_okD(1) [OF ok] by (simp only: distinct_sort_key)
  ultimately have "distinct (map uuid_text (map fst ?ys))" by (simp only: distinct_map [of uuid_text] set_map)
  moreover have "map fst (map (\<lambda>(u, g). (uuid_text u, g)) ?ys) = map uuid_text (map fst ?ys)" by (induction "?ys") auto
  ultimately have "dict_of (map (\<lambda>(u, g). (uuid_text u, g)) ?ys) = map (\<lambda>(u, g). (uuid_text u, g)) ?ys" by (simp only: dict_of_id)
  moreover have "rmap (\<lambda>(u, g). rbind (parse_uuid u) (\<lambda>v. Inr (v, guid_or_text g))) (map (\<lambda>(u, g). (uuid_text u, g)) ?ys)
      = Inr (map (\<lambda>x. x) ?ys)"
    using P by (intro rmap_all) (auto simp: parse_uuid_text split: prod.split)
  ultimately show ?thesis by simp
qed

text \<open>What a map written and read back is: the same rows in the order of their keys.\<close>

definition copied_map :: "identity_map \<Rightarrow> identity_map" where
  "copied_map m = \<lparr> im_schedule_id = im_schedule_id m, im_system = im_system m, im_by_external = sort_key fst (im_by_external m),
       im_by_guid = sort_key fst (im_by_guid m), im_by_business_key = sort_key fst (im_by_business_key m),
       im_retired_external = sort_key fst (im_retired_external m),
       im_external_of = dict_of (map (\<lambda>((k, e), u). (u, e)) (sort_key fst (im_by_external m))),
       im_ambiguous_guids = dict_keys (map (\<lambda>s. (fst (split_key s), guid_or_text (snd (split_key s)))) (map join_key (sort (im_ambiguous_guids m)))),
       im_guid_of = restore_guids (sort_key fst (im_by_guid m)) (sort_key fst (im_guid_of m)) \<rparr>"

lemma clone_map_copied:
  assumes "reachable_map uuid5 N sid sys m" and "uuid5 ` N \<subseteq> {..<2 ^ 128}"
  shows "clone_map m = Inr (copied_map m)"
proof -
  note stored = reachable_stored [OF assms, unfolded stored_ok_def]
  then have ext: "dict_ok (\<lambda>k u. SEP \<notin> set (fst k) \<and> u < 2 ^ 128) (im_by_external m)"
    and guid: "dict_ok (\<lambda>k u. SEP \<notin> set (fst k) \<and> u < 2 ^ 128 \<and> settled_guid (snd k)) (im_by_guid m)"
    and bk: "dict_ok (\<lambda>k u. SEP \<notin> set (fst k) \<and> u < 2 ^ 128) (im_by_business_key m)"
    and ret: "dict_ok (\<lambda>k g. SEP \<notin> set (fst k) \<and> 1 \<le> g) (im_retired_external m)"
    and held: "dict_ok (\<lambda>u g. u < 2 ^ 128 \<and> settled_guid g) (im_guid_of m)"
    by simp_all
  have split: "split_uids (joined_uids xs) = Inr (sort_key fst xs)"
    if "dict_ok P xs" and P: "\<And>k u. P k u \<Longrightarrow> SEP \<notin> set (fst k) \<and> u < 2 ^ 128" for P xs
  proof -
    have "SEP \<notin> set (fst (fst x)) \<and> snd x < 2 ^ 128" if "x \<in> set xs" for x
      using dict_okD(2) [OF \<open>dict_ok P xs\<close>, of "fst x" "snd x"] that P by simp
    with dict_okD(1) [OF that(1)] show ?thesis by (intro split_joined) (auto simp: plain_keys_def)
  qed
  have gens: "split_generations (dict_of (map (\<lambda>(k, g). (join_key k, g)) (sort_key fst (im_retired_external m))))
      = Inr (sort_key fst (im_retired_external m))"
    using dict_okD [OF ret] by (intro split_joined_generations) (auto simp: plain_keys_def)
  have exts: "split_uids (joined_uids (im_by_external m)) = Inr (sort_key fst (im_by_external m))" by (rule split [OF ext])
  have guids: "split_uids (joined_uids (im_by_guid m)) = Inr (sort_key fst (im_by_guid m))" by (rule split [OF guid]) simp
  have bks: "split_uids (joined_uids (im_by_business_key m)) = Inr (sort_key fst (im_by_business_key m))" by (rule split [OF bk])
  note helds = held_read [OF held]
  show ?thesis
    unfolding copied_map_def clone_map_def to_payload_def from_payload_def Let_def identity_payload.simps
    by (simp only: exts guids bks gens helds rbind.simps settled_map [OF guid] source_system_read option.case identity_payload.simps
        dict_of_id distinct_sort_key dict_okD(1) [OF held] simp_thms)
qed

text \<open>The copy, dict by dict.\<close>

lemma copied_map_maps:
  assumes "reachable_map uuid5 N sid sys m" and "inj_on uuid5 N" and "uuid5 ` N \<subseteq> {..<2 ^ 128}"
  shows "clone_map m = Inr (copied_map m)
    \<and> im_schedule_id (copied_map m) = im_schedule_id m \<and> im_system (copied_map m) = im_system m
    \<and> map_of (im_by_external (copied_map m)) = map_of (im_by_external m) \<and> map_of (im_by_guid (copied_map m)) = map_of (im_by_guid m)
    \<and> map_of (im_by_business_key (copied_map m)) = map_of (im_by_business_key m)
    \<and> map_of (im_retired_external (copied_map m)) = map_of (im_retired_external m)
    \<and> map_of (im_external_of (copied_map m)) = map_of (im_external_of m)
    \<and> set (im_ambiguous_guids (copied_map m)) = set (im_ambiguous_guids m)
    \<and> map_of (im_guid_of (copied_map m)) = current_guid (im_by_guid m) (im_guid_of m)"
proof -
  have ok: "identity_ok uuid5 N m" by (rule reachable_ok [OF assms(1,2)])
  have stored: "stored_ok m" by (rule reachable_stored [OF assms(1,3)])
  then have keys: "distinct (map fst (im_by_external m))" "distinct (map fst (im_by_guid m))"
    "distinct (map fst (im_by_business_key m))" "distinct (map fst (im_retired_external m))" "distinct (map fst (im_guid_of m))"
    by (simp_all add: stored_ok_def dict_ok_def)
  have ambs: "(\<lambda>s. (fst (split_key s), guid_or_text (snd (split_key s)))) (join_key k) = k"
    if "k \<in> set (im_ambiguous_guids m)" for k
    using that stored by (simp add: stored_ok_def split_join_key)
  have "set (im_ambiguous_guids (copied_map m)) = set (im_ambiguous_guids m)"
    using ambs by (force simp: copied_map_def image_iff)
  moreover have "map_of (im_guid_of (copied_map m)) = current_guid (im_by_guid m) (im_guid_of m)"
    using keys(5) current_guid_order [of "sort_key fst (im_by_guid m)" "im_by_guid m"]
    by (simp add: copied_map_def map_of_restore_guids fun_eq_iff)
  moreover note clone_map_copied [OF assms(1,3)] external_of_inverse [OF assms(2) ok keys(1)]
  ultimately show ?thesis by (simp add: copied_map_def keys)
qed

lemma reachable_guids_present:
  assumes "reachable_map uuid5 N sid sys m" and "map_of (im_by_guid m) (k, h) = Some u"
  shows "h \<noteq> []"
  using assms
proof (induction arbitrary: k h u rule: reachable_map.induct)
  case (resolved m e kind guid bk)
  obtain g where rec: "snd (resolve_row uuid5 kind e guid bk m)
      = record_row (entity_kind_value kind) e (row_uid uuid5 kind e guid bk m) g bk m"
    by (rule resolve_row_stages)
  from resolved.prems resolved.IH show ?case unfolding rec record_row_maps(4) by (auto simp: truthy_def split: if_splits)
qed (auto simp: new_identity_map_def quarantine_guid_def delete_conv' Let_def split: option.splits if_splits)

text \<open>
  (C38) Writing a reachable map and reading it back never fails. The live rows, the GUIDs, the business keys,
  the released identifiers with their generations and the quarantined GUIDs come back, and so does
  \<open>external_of\<close>, which is not written and is rebuilt from the live rows. The current GUIDs come back
  completed: an identifier with a current GUID keeps it, and one without takes the only GUID that
  leads to it when there is exactly one.
\<close>

theorem identity_clone:
  assumes "reachable_map uuid5 N sid sys m" and "inj_on uuid5 N" and "uuid5 ` N \<subseteq> {..<2 ^ 128}"
  shows "\<exists>c. clone_map m = Inr c
    \<and> im_schedule_id c = im_schedule_id m \<and> im_system c = im_system m
    \<and> map_of (im_by_external c) = map_of (im_by_external m) \<and> map_of (im_by_guid c) = map_of (im_by_guid m)
    \<and> map_of (im_by_business_key c) = map_of (im_by_business_key m)
    \<and> map_of (im_retired_external c) = map_of (im_retired_external m)
    \<and> map_of (im_external_of c) = map_of (im_external_of m)
    \<and> set (im_ambiguous_guids c) = set (im_ambiguous_guids m)
    \<and> map_of (im_guid_of c) = current_guid (im_by_guid m) (im_guid_of m)"
  using copied_map_maps [OF assms] by blast

lemma sample_below: "sample_uuid5 ` set sample_names \<subseteq> {..<2 ^ 128}"
proof -
  have "length s < 2 ^ 128" if "s \<in> set sample_names" for s
  proof -
    have "length s < 64" using that by (auto simp: sample_names_def full_name_def mint_name_def source_system_value_def
          entity_kind_value_def nat_text.simps)
    then show ?thesis by simp
  qed
  then show ?thesis by (auto simp: sample_uuid5_def)
qed

theorem identity_clone_witness:
  "\<exists>c. clone_map sample_rekeyed = Inr c \<and> map_of (im_by_external c) = map_of (im_by_external sample_rekeyed)"
  using identity_clone [OF sample_reachable sample_inj sample_below] by blast

subsection \<open>A quarantine before a copy\<close>

text \<open>What a quarantine does to the GUIDs of a live row.\<close>

lemma quarantine_forgets:
  assumes "distinct (map fst (im_guid_of m))" and "normalise_guid guid = Some g" and "map_of (im_guid_of m) u = Some g"
  shows "map_of (im_guid_of (quarantine_guid kind guid m)) u = None"
proof -
  have "h = g" if "(u, h) \<in> set (im_guid_of m)" for h
    using map_of_is_SomeI [OF assms(1) that] assms(3) by simp
  then show ?thesis by (auto simp: quarantine_guid_def assms(2) Let_def map_of_eq_None_iff)
qed

lemma quarantine_leaves:
  assumes ok: "identity_ok uuid5 N m" and inj: "inj_on uuid5 N" and keys: "distinct (map fst (im_by_guid m))"
    and live: "live m (entity_kind_value kind, e) = Some u" and guid: "normalise_guid guid = Some g"
  shows "set (guids_on_record (im_by_guid (quarantine_guid kind guid m)) u)
    = {h. map_of (im_by_guid m) (entity_kind_value kind, h) = Some u} - {g}"
proof -
  have rows: "im_by_guid (quarantine_guid kind guid m) = AList.delete (entity_kind_value kind, g) (im_by_guid m)"
    by (simp add: quarantine_guid_def guid Let_def)
  have own: "k = entity_kind_value kind" if "map_of (im_by_guid m) (k, h) = Some u" for k h
    using owned_kind [OF inj identity_okD(5) [OF ok that] identity_okD(2) [OF ok live]] .
  have "((k, h), u) \<in> set (im_by_guid m) \<longleftrightarrow> map_of (im_by_guid m) (k, h) = Some u" for k h
    using keys map_of_is_SomeI [of "im_by_guid m"] map_of_SomeD [of "im_by_guid m"] by blast
  then have "h \<in> set (guids_on_record (im_by_guid (quarantine_guid kind guid m)) u)
      \<longleftrightarrow> (\<exists>k. map_of (im_by_guid m) (k, h) = Some u \<and> (k, h) \<noteq> (entity_kind_value kind, g))" for h
    unfolding rows guids_on_record_def set_dict_keys AList.delete_eq by force
  then show ?thesis using own by blast
qed

lemma changed_guid_flag:
  assumes "live m (entity_kind_value kind, e) = Some u"
  shows "rc_guid_changed (snd (fst (resolve_row uuid5 kind e h bk m)))
    \<longleftrightarrow> \<not> guid_is_ambiguous m kind h \<and> truthy (normalise_guid h) \<and> truthy (map_of (im_guid_of m) u)
       \<and> normalise_guid h \<noteq> map_of (im_guid_of m) u"
  using assms by (auto simp: resolve_row_def known_row_def truthy_def Let_def)

text \<open>
  (C39) A quarantine forgets the current GUID of the rows that carried it, and a copy brings an older one
  back. In every reachable map: when the current GUID of a live row is quarantined and exactly one
  other GUID leads to the row, the map has no current GUID for the row and its copy has the older one.
  So no next import of the row reports a changed GUID from the map, while from the copy every
  import does that carries a GUID which is neither the older one nor quarantined.
\<close>

theorem clone_revives_old_guid:
  assumes reach: "reachable_map uuid5 N sid sys m" and inj: "inj_on uuid5 N" and below: "uuid5 ` N \<subseteq> {..<2 ^ 128}"
    and row: "map_of (im_by_external m) (entity_kind_value kind, e) = Some u"
    and guid: "normalise_guid guid = Some g" and held: "map_of (im_guid_of m) u = Some g"
    and old: "{h. map_of (im_by_guid m) (entity_kind_value kind, h) = Some u} - {g} = {g'}"
  shows "map_of (im_guid_of (quarantine_guid kind guid m)) u = None
    \<and> (\<forall>h bk. \<not> rc_guid_changed (snd (fst (resolve_row uuid5 kind e h bk (quarantine_guid kind guid m)))))
    \<and> (\<exists>c. clone_map (quarantine_guid kind guid m) = Inr c \<and> map_of (im_guid_of c) u = Some g'
         \<and> (\<forall>h bk. rc_guid_changed (snd (fst (resolve_row uuid5 kind e h bk c)))
              \<longleftrightarrow> truthy (normalise_guid h) \<and> normalise_guid h \<noteq> Some g'
                \<and> \<not> guid_is_ambiguous (quarantine_guid kind guid m) kind h))"
proof -
  let ?m = "quarantine_guid kind guid m"
  have keys: "distinct (map fst (im_by_guid m))" "distinct (map fst (im_guid_of m))"
    using reachable_stored [OF reach below] by (simp_all add: stored_ok_def dict_ok_def)
  have forgot: "map_of (im_guid_of ?m) u = None" by (rule quarantine_forgets [OF keys(2) guid held])
  have "set (guids_on_record (im_by_guid ?m) u) = {g'}"
    unfolding quarantine_leaves [OF reachable_ok [OF reach inj] inj keys(1) row guid] by (rule old)
  then have "guids_on_record (im_by_guid ?m) u = [g']" unfolding guids_on_record_def set_dict_keys dict_keys_single .
  with forgot have current: "current_guid (im_by_guid ?m) (im_guid_of ?m) u = Some g'" by (simp add: current_guid_def)
  note copy = copied_map_maps [OF reachable_map.quarantined [OF reach] inj below, of kind guid]
  have live: "live ?m (entity_kind_value kind, e) = Some u"
    using row by (simp add: quarantine_guid_def guid Let_def)
  have live': "live (copied_map ?m) (entity_kind_value kind, e) = Some u" using copy live by metis
  have "g' \<noteq> []" using reachable_guids_present [OF reach] old by blast
  then have "truthy (map_of (im_guid_of (copied_map ?m)) u)" using copy current by (simp add: truthy_def)
  moreover have "guid_is_ambiguous (copied_map ?m) kind h \<longleftrightarrow> guid_is_ambiguous ?m kind h" for h
    using copy by (simp add: guid_is_ambiguous_def split: option.split)
  moreover have "map_of (im_guid_of (copied_map ?m)) u = Some g'" using copy current by simp
  ultimately have "rc_guid_changed (snd (fst (resolve_row uuid5 kind e h bk (copied_map ?m))))
      \<longleftrightarrow> truthy (normalise_guid h) \<and> normalise_guid h \<noteq> Some g' \<and> \<not> guid_is_ambiguous ?m kind h" for h bk
    unfolding changed_guid_flag [OF live'] by auto
  moreover have "\<not> rc_guid_changed (snd (fst (resolve_row uuid5 kind e h bk ?m)))" for h bk
    unfolding changed_guid_flag [OF live] forgot by (simp add: truthy_def)
  ultimately show ?thesis using forgot copy current by auto
qed

text \<open>A row seen under two GUIDs.\<close>

definition sample_second :: identity_map where
  "sample_second = snd (resolve_row sample_uuid5 K_ACTIVITY ''7'' (Some ''g2'') None sample_first)"

lemma sample_second_reachable: "reachable_map sample_uuid5 (set sample_names) ''S'' STO_SYSTEM sample_second"
proof -
  have "full_name ''S'' STO_SYSTEM K_ACTIVITY ''7'' (generation_of sample_first (entity_kind_value K_ACTIVITY, ''7'')) \<in> set sample_names"
    "full_name ''S'' STO_SYSTEM K_ACTIVITY ''7'' (generation_of (new_identity_map ''S'' STO_SYSTEM) (entity_kind_value K_ACTIVITY, ''7'')) \<in> set sample_names"
    "SEP \<notin> set ''7''"
    by code_simp+
  then show ?thesis unfolding sample_second_def sample_first_def
    by (intro reachable_map.resolved reachable_map.opened)
qed

theorem clone_revives_old_guid_witness:
  "\<exists>c u. clone_map (quarantine_guid K_ACTIVITY (Some ''g2'') sample_second) = Inr c
    \<and> map_of (im_guid_of c) u = Some ''g1'' \<and> map_of (im_guid_of (quarantine_guid K_ACTIVITY (Some ''g2'') sample_second)) u = None
    \<and> rc_guid_changed (snd (fst (resolve_row sample_uuid5 K_ACTIVITY ''7'' (Some ''g3'') None c)))"
proof -
  let ?u = "sample_uuid5 (full_name ''S'' STO_SYSTEM K_ACTIVITY ''7'' 0)"
  have row: "map_of (im_by_external sample_second) (entity_kind_value K_ACTIVITY, ''7'') = Some ?u"
    and held: "map_of (im_guid_of sample_second) ?u = Some ''g2''"
    and guid: "normalise_guid (Some ''g2'') = Some ''g2''"
    and third: "normalise_guid (Some ''g3'') = Some ''g3''"
    and plain: "guid_is_ambiguous (quarantine_guid K_ACTIVITY (Some ''g2'') sample_second) K_ACTIVITY (Some ''g3'') = False"
    and rows: "im_by_guid sample_second = [((''activity'', ''g1''), ?u), ((''activity'', ''g2''), ?u)]"
    and k: "entity_kind_value K_ACTIVITY = ''activity''"
    by code_simp+
  have "{h. map_of (im_by_guid sample_second) (entity_kind_value K_ACTIVITY, h) = Some ?u} - {''g2''} = {''g1''}"
    unfolding rows k by (auto split: if_splits)
  from clone_revives_old_guid [OF sample_second_reachable sample_inj sample_below row guid held this] show ?thesis
    using third plain by (fastforce simp: truthy_def)
qed

end
