(* ===== verification/Spec2Isabelle.thy ===== *)
theory Spec2Isabelle
  imports Criticality_Facts Rollup_Facts Compile_Properties Recalculation Validator_Complete Execution_Facts Identity_Persist
begin

text \<open>
  The scheduling core of the STO scheduler: the Python package \<open>sto.core\<close> under
  \<open>src/src/sto/core\<close>, which reads an imported schedule, keeps the identity of its rows, builds a
  network of activities and precedence edges from it, and turns the network into early dates, late
  dates, floats and summary spans.

  How the parts interact. \<open>model/ids.py\<close> gives every imported row a durable identifier.
  \<open>engine/plan.py\<close> decides which rows of the document can be scheduled, on which calendars and edges,
  and lists what it leaves out and what it assumes. \<open>calendar/compile.py\<close> compiles a calendar into sorted working intervals;
  \<open>calendar/arithmetic.py\<close> counts and moves along them. \<open>engine/network.py\<close> holds the network and
  its refusals, \<open>engine/progress.py\<close> the rules for reported work. \<open>engine/forward.py\<close> places every
  activity as early as its predecessors allow, \<open>engine/backward.py\<close> as late as its successors
  allow, \<open>engine/criticality.py\<close> measures the gap, \<open>engine/rollup.py\<close> spans the summaries, and
  \<open>engine/incremental.py\<close> repeats the passes for one component after a progress change, and
  \<open>engine/validate.py\<close> checks a result against the network without running them. \<open>engine/result.py\<close>
  assembles the stored result; \<open>execution.py\<close> takes a report of progress, checks it, rebuilds the plan and
  recalculates.

  Conventions. A Python integer is \<open>int\<close>; a UUID is the natural number it stands for; a frozen
  dataclass is a \<open>record\<close>; a tuple is a list; a dict that is only looked up is a partial map, one
  whose order is read is a list of pairs. A function that may raise returns \<open>'a result\<close>, a sum with
  the exception on the left (\<open>exc\<close> in Prelude: \<open>ValueError\<close>, \<open>KeyError\<close>, \<open>OverflowError\<close> and the coded
  errors of each module); \<open>rbind\<close>, \<open>rmap\<close> and \<open>rfold\<close> are sequencing, comprehension and loop.
  SHA-256 over JSON text is the parameter \<open>sha\<close>; no theorem assumes anything of it. The name-based
  UUID is the parameter \<open>uuid5\<close>; the theorems on identity assume that it does not collide on the names
  minted, and where identifiers are written that it has 128 bits.

  Which theory models what.
  \<^item> Prelude: results, loops over lists, \<open>bisect\<close>. Working_Time, Lag_Edge (in Network_Facts) and
    Dependency_Fold (in Dependency) are the interfaces: a calendar that counts, an edge that is
    carried forth and back, a pass over a dependency order. Each is interpreted on the model:
    \<open>cal\<close> in Calendar_Work, \<open>edge\<close> in Network_Facts, \<open>fwd\<close> in Forward_Facts, \<open>bwd\<close> in Backward_Facts.
  \<^item> Calendar_Arithmetic (\<open>calendar/arithmetic.py\<close>): the reference scans and the indexed
    layer. Calendar_Work and Calendar_Spans prove the indexed layer equal to the scans, the snaps
    and spans optimal, and interval operations faithful to sets of coordinates.
  \<^item> Network (\<open>engine/network.py\<close>), Network_Facts: validation decides declarative
    conditions, \<open>shift_lag\<close> is monotone, \<open>unshift_lag\<close> its greatest inverse.
  \<^item> Progress (\<open>engine/progress.py\<close>).
  \<^item> Ordering and Forward (\<open>engine/forward.py\<close>), with Forward_Facts and Forward_Optimal: the
    topological order decides cycles; on networks without reported work or pinned dates the pass computes
    the least feasible schedule and, without leads, succeeds exactly when there is one; edges are
    honoured; reported work is kept; ties do not matter.
  \<^item> Backward (\<open>engine/backward.py\<close>), Backward_Facts, Backward_Optimal: the greatest late schedule
    of such a network, and, without late constraints, agreement of the two passes.
  \<^item> Criticality (\<open>engine/criticality.py\<close>), Criticality_Facts: after two passes that agree, floats are
    non-negative and exact and a critical end exists. Negative float, which reported work, late
    constraints and an early late finish give rise to, is modelled and outside these theorems.
  \<^item> Rollup (\<open>engine/rollup.py\<close>), Rollup_Facts: cycles and spans of the hierarchy are exact.
  \<^item> Dates (the part of \<open>datetime\<close> the source uses), Calendar_Compile (\<open>calendar/compile.py\<close> and the
    calendar records of \<open>model/entities.py\<close>), Compile_Facts, Compile_Meaning, Compile_Properties:
    the compiled intervals are the working seconds of the inherited pattern.
  \<^item> Incremental (\<open>engine/incremental.py\<close>), Merge_Order, Incremental_Facts, Incremental_Exact,
    Recalculation: recalculation of one component is the full recalculation.
  \<^item> Validator (\<open>engine/validate.py\<close>), Validator_Facts, Validator_Complete: what a clean report means,
    for edges, spans, floats and free float, and what the checker says of a result of the passes: nothing
    on networks without leads whose calendars end by the horizon, and otherwise only, and exactly
    when, a free float is not the exact slip.
  \<^item> Document (the entities of \<open>model/entities.py\<close> the plan reads), Decimals (the decimal arithmetic of
    the lags), Plan, Plan_Edges, Plan_Evidence, Plan_Build (\<open>engine/plan.py\<close>): eligibility, the cut
    behind unknown dates, boundaries through inactive rows, envelopes, elapsed float, the whole
    \<open>build_plan\<close>. Plan_Facts, Plan_Cut and Plan_Valid: every row is placed or left out once, the cut is
    exact, the final check never fires, and network validation can refuse a plan only for its window, for
    durations and actual dates copied from the source and for edges from a row to itself.
    Plan_Sample: a small document.
  \<^item> Result (\<open>engine/result.py\<close>), Result_Facts: a result answers every row of the document once, its labels
    are exact, and projecting finished passes fails only on dates out of range.
  \<^item> Execution (\<open>execution.py\<close>), Execution_Facts, Execution_Sample: which reports are accepted, what they
    change, and that the state after any sequence of them is a fresh calculation of its document.
  \<^item> Identifiers (texts of identifiers), Identity (\<open>model/ids.py\<close>), Identity_Facts, Identity_Stable,
    Identity_Persist: minted names tell rows apart; in every reachable map live rows and identifiers
    are one-to-one and a new identifier is fresh; a map survives being written and read back, but for
    current GUIDs, which a copy completes and, after a quarantine, revives.
  \<^item> Sample: the small networks the properties are exercised on.

  Termination. No definition uses fuel: every loop is structural or has a proved measure (unvisited
  nodes for the topological order, the hierarchy walk, calendar inheritance, the component and the
  rows not yet cut; the interval left for the binary searches; the days left for the compilation; the
  calendars not yet seen on a chain of bases).

  Not modelled, and why. Free-text details of refusals, exclusions, assumptions and violations are left
  out; their codes and rows are kept, and where a detail is stored it is the parameter \<open>detail\<close>. The
  digest of a document is the parameter \<open>doc_hash\<close>. Python's recursion limit on deep hierarchies and chains
  of calendars is left out, and so is the \<open>TypeError\<close> of comparing \<open>None\<close> with a text when a
  fingerprint sorts whole rows, which distinct identifiers exclude. The codec, the digest and the version migrations of
  \<open>core/model\<close> are serialisation; the legacy engine and importer are superseded; the services,
  database, HTTP and command-line layers are input and output.
\<close>

end
